(* ===== verification/Prelude.thy ===== *)
theory Prelude
  imports Main "HOL-Library.Word"
begin

text \<open>
  Shared vocabulary of the development.

  The C code passes \<^verbatim>\<open>guint8 *\<close> buffers, \<^verbatim>\<open>char *\<close> strings, fixed-width
  integers and a \<^verbatim>\<open>GError **\<close> out-parameter next to a boolean or pointer result.
  Here a buffer is a list of 8-bit words, a nullable \<^verbatim>\<open>char *\<close> an optional list of
  bytes, an integer a word of its width, and a fallible call a value of \<open>gerror + 'a\<close>:
  \<open>Inl\<close> is the branch that sets the error and returns \<^verbatim>\<open>FALSE\<close> or \<^verbatim>\<open>NULL\<close>.
  Sizes and offsets (\<^verbatim>\<open>gsize\<close>) are natural numbers, since they never exceed the
  length of a buffer in memory; where the code guards against overflow of \<^verbatim>\<open>gsize\<close>
  the guard against \<open>G_MAXSIZE\<close> is written out.

  GLib's documented ASCII classification and string helpers are modelled here as the
  standard library of this code base.
\<close>

unbundle bit_operations_syntax

named_theorems result_simps "facts about the error sum and its bind"
named_theorems raises_simps "which errors a call can end with"
named_theorems wire_simps "what the wire readers accept"

section \<open>Machine types\<close>

type_synonym byte = "8 word"
type_synonym u16 = "16 word"
type_synonym u32 = "32 word"
type_synonym u64 = "64 word"
type_synonym bytes = "byte list"
type_synonym cstring = "bytes option"
type_synonym strv = "bytes list option"

abbreviation G_MAXSIZE :: nat where "G_MAXSIZE \<equiv> 18446744073709551615"
abbreviation G_MAXUINT64 :: nat where "G_MAXUINT64 \<equiv> 18446744073709551615"
abbreviation G_MAXINT64 :: nat where "G_MAXINT64 \<equiv> 9223372036854775807"
abbreviation G_MAXUINT32 :: nat where "G_MAXUINT32 \<equiv> 4294967295"

section \<open>Errors as values\<close>

text \<open>
  The codes of \<^verbatim>\<open>G_IO_ERROR\<close> that the modelled code sets itself, one code for those it
  takes over from \<^verbatim>\<open>errno\<close>, and the codes of other domains that it looks at: those of
  \<^verbatim>\<open>G_FILE_ERROR\<close>, of the object store and of the replay validator.
\<close>

datatype io_code =
    IO_INVALID_ARGUMENT
  | IO_INVALID_DATA
  | IO_BUSY
  | IO_NO_SPACE
  | IO_CONNECTION_CLOSED
  | IO_FAILED
  | IO_EXISTS
  | IO_NOT_FOUND
  | IO_PERMISSION_DENIED
  | IO_NOT_SUPPORTED
  | IO_ERRNO
  | FILE_NOENT
  | FILE_OTHER
  | STORE_HASH_MISMATCH
  | REPLAY_MISSING_OBJECT
  | REPLAY_SIZE_MISMATCH
  | REPLAY_HASH_MISMATCH
  | REPLAY_INVALID_RECORD
  | REPLAY_OBJECT_UNREADABLE

text \<open>
  What the message of the error says, with the formatting left out. One constructor
  stands for one message text of the source; a field name is the one the message prints.
\<close>

datatype reason =
    Truncated
  | Bad_magic
  | Embedded_nul
  | Empty_string
  | Null_string
  | Unknown_span_flags
  | Length_malformed
  | Trailing_bytes
  | Length_overflow
  | String_too_large
  | Too_many string
  | Required string
  | Missing string
  | Invalid_value string
  | Duplicate_value string
  | Bad_object_key
  | Span_malformed string
  | Not_ascending
  | Bad_header_size
  | Bad_version
  | Bad_sequence
  | Zero_event_length
  | Unknown_event_type
  | Bad_checksum
  | Bad_checksum_length
  | Offset_too_large
  | Writer_failed
  | Not_recoverable
  | Changed_before_recovery
  | Sequence_exhausted
  | Checkpoint_mismatch
  | Not_initialized string
  | Not_active
  | Precedes_creation
  | Too_long string
  | Unsupported string
  | Event_mismatch
  | Control_character string
  | Unexpected_argument
  | Unterminated_line
  | Line_too_long
  | Message_too_large
  | Command_mismatch
  | Bad_path
  | Out_of_order string
  | One_recipient
  | Unsupported_command
  | Unterminated_data
  | Incomplete
  | Connection_ended
  | Frame_ended
  | Identity_mismatch
  | Exactly_one
  | Missing_separator
  | Read_only
  | Store_unavailable
  | Hash_mismatch
  | Size_mismatch
  | Identity_taken
  | Not_authorized
  | No_detail
  | Object_unavailable
  | Object_unreadable
  | Undecodable
  | Out_of_scope
  | Syscall string

text \<open>\<open>Abort\<close> is a failed \<^verbatim>\<open>g_assert\<close>: the process ends.\<close>

datatype gerror = GError io_code reason | Abort

type_synonym 'a result = "gerror + 'a"

text \<open>The sequencing that \<^verbatim>\<open>if (!f (...)) return FALSE;\<close> writes in C.\<close>

fun bindE :: "'e + 'a \<Rightarrow> ('a \<Rightarrow> 'e + 'b) \<Rightarrow> 'e + 'b" where
  "bindE (Inl e) f = Inl e"
| "bindE (Inr x) f = f x"

fun failIf :: "bool \<Rightarrow> 'e \<Rightarrow> 'e + unit" where
  "failIf True e = Inl e"
| "failIf False e = Inr ()"

lemma bindE_Inr_iff [result_simps]:
  "bindE m f = Inr y \<longleftrightarrow> (\<exists>x. m = Inr x \<and> f x = Inr y)"
  by (cases m) auto

lemma bindE_Inl_iff:
  "bindE m f = Inl e \<longleftrightarrow> m = Inl e \<or> (\<exists>x. m = Inr x \<and> f x = Inl e)"
  by (cases m) auto

lemma failIf_Inr_iff [result_simps]: "failIf b e = Inr u \<longleftrightarrow> \<not> b"
  by (cases b) auto

lemma failIf_Inl_iff [simp]: "failIf b e = Inl e' \<longleftrightarrow> b \<and> e' = e"
  by (cases b) auto

lemma bindE_failIf: "bindE (failIf b e) f = (if b then Inl e else f ())"
  by (cases b) auto

lemma bindE_assoc: "bindE (bindE m f) g = bindE m (\<lambda>x. bindE (f x) g)"
  by (cases m) auto

lemma if_Inl_Inr_iff [result_simps]: "(if b then Inl e else m) = Inr y \<longleftrightarrow> \<not> b \<and> m = Inr y"
  by auto

text \<open>Which errors a call can end with.\<close>

definition raises :: "gerror set \<Rightarrow> 'a result \<Rightarrow> bool" where
  "raises E m \<longleftrightarrow> (\<forall>e. m = Inl e \<longrightarrow> e \<in> E)"

abbreviation io_errors :: "io_code \<Rightarrow> gerror set" where
  "io_errors code \<equiv> range (GError code)"

lemma raises_basic [raises_simps]:
  "raises E (Inr x)" "raises E (Inl e) \<longleftrightarrow> e \<in> E"
  "raises E (if b then m else n) \<longleftrightarrow> (b \<longrightarrow> raises E m) \<and> (\<not> b \<longrightarrow> raises E n)"
  "raises E (bindE m' f) \<longleftrightarrow> raises E m' \<and> (\<forall>x. m' = Inr x \<longrightarrow> raises E (f x))"
  "raises E (failIf b e) \<longleftrightarrow> (b \<longrightarrow> e \<in> E)"
  by (auto simp: raises_def bindE_Inl_iff)

lemma raises_mono: "raises E m \<Longrightarrow> E \<subseteq> F \<Longrightarrow> raises F m"
  by (auto simp: raises_def)

section \<open>C strings\<close>

text \<open>
  A \<^verbatim>\<open>char *\<close> value is the list of the bytes before its terminator, so a well-formed
  one holds no zero byte.
\<close>

definition nul_free :: "bytes \<Rightarrow> bool" where
  "nul_free s \<longleftrightarrow> 0 \<notin> set s"

definition lit :: "string \<Rightarrow> bytes" where
  "lit s = map of_char s"

text \<open>\<^verbatim>\<open>g_strndup (data + off, n)\<close>: at most \<open>n\<close> bytes, up to the first zero byte.\<close>

definition g_strndup :: "bytes \<Rightarrow> nat \<Rightarrow> nat \<Rightarrow> bytes" where
  "g_strndup data off n = takeWhile (\<lambda>b. b \<noteq> 0) (take n (drop off data))"

text \<open>\<^verbatim>\<open>memchr (data + off, 0, n) != NULL\<close>\<close>

definition has_nul :: "bytes \<Rightarrow> nat \<Rightarrow> nat \<Rightarrow> bool" where
  "has_nul data off n \<longleftrightarrow> 0 \<in> set (take n (drop off data))"

lemma g_strndup_nul_free: "\<not> has_nul data off n \<Longrightarrow> g_strndup data off n = take n (drop off data)"
  unfolding g_strndup_def has_nul_def by (rule takeWhile_eq_all_conv [THEN iffD2]) auto

lemma nul_free_g_strndup: "nul_free (g_strndup data off n)"
  unfolding nul_free_def g_strndup_def by (auto dest: set_takeWhileD)

lemma length_lit [simp]: "length (lit s) = length s"
  by (simp add: lit_def)

lemma unat_of_char: "unat (of_char c :: byte) = of_char c"
proof -
  have "(of_char c :: byte) = of_nat (of_char c)"
    by (simp add: of_nat_of_char)
  then show ?thesis
    by (simp add: unat_of_nat take_bit_eq_mod)
qed

lemma lit_eq_iff [simp]: "lit s = lit t \<longleftrightarrow> s = t"
proof -
  have "inj (of_char :: char \<Rightarrow> byte)"
    by (rule injI) (metis of_char_eq_iff unat_of_char)
  then show ?thesis
    by (auto simp: lit_def dest: map_injective)
qed

lemma distinct_map_lit [simp]: "distinct (map lit xs) \<longleftrightarrow> distinct xs"
  by (auto simp: distinct_map inj_on_def)

text \<open>The value of \<^verbatim>\<open>g_strv_length\<close> guarded against NULL, as \<^verbatim>\<open>strv_count\<close> writes it.\<close>

fun strv_items :: "strv \<Rightarrow> bytes list" where
  "strv_items None = []"
| "strv_items (Some xs) = xs"

text \<open>
  \<^verbatim>\<open>g_ascii_iscntrl\<close>, \<^verbatim>\<open>g_ascii_isspace\<close> (which leaves out the vertical tab),
  \<^verbatim>\<open>g_ascii_isdigit\<close> and their kin.
\<close>

definition g_ascii_iscntrl :: "byte \<Rightarrow> bool" where
  "g_ascii_iscntrl b \<longleftrightarrow> b < 32 \<or> b = 127"

definition g_ascii_isspace :: "byte \<Rightarrow> bool" where
  "g_ascii_isspace b \<longleftrightarrow> b = 32 \<or> b = 9 \<or> b = 10 \<or> b = 12 \<or> b = 13"

definition g_ascii_isdigit :: "byte \<Rightarrow> bool" where
  "g_ascii_isdigit b \<longleftrightarrow> 48 \<le> b \<and> b \<le> 57"

definition g_ascii_isupper :: "byte \<Rightarrow> bool" where
  "g_ascii_isupper b \<longleftrightarrow> 65 \<le> b \<and> b \<le> 90"

definition g_ascii_islower :: "byte \<Rightarrow> bool" where
  "g_ascii_islower b \<longleftrightarrow> 97 \<le> b \<and> b \<le> 122"

definition g_ascii_isalnum :: "byte \<Rightarrow> bool" where
  "g_ascii_isalnum b \<longleftrightarrow> g_ascii_isdigit b \<or> g_ascii_isupper b \<or> g_ascii_islower b"

definition g_ascii_isxdigit :: "byte \<Rightarrow> bool" where
  "g_ascii_isxdigit b \<longleftrightarrow> g_ascii_isdigit b \<or> (65 \<le> b \<and> b \<le> 70) \<or> (97 \<le> b \<and> b \<le> 102)"

text \<open>\<^verbatim>\<open>g_ascii_tolower\<close>, and \<^verbatim>\<open>g_ascii_strcasecmp (a, b) == 0\<close>.\<close>

definition g_ascii_tolower :: "byte \<Rightarrow> byte" where
  "g_ascii_tolower c = (if g_ascii_isupper c then c + 32 else c)"

definition ascii_case_equal :: "bytes \<Rightarrow> bytes \<Rightarrow> bool" where
  "ascii_case_equal a b \<longleftrightarrow> map g_ascii_tolower a = map g_ascii_tolower b"

section \<open>Byte strings at an offset\<close>

text \<open>
  \<open>stands data off w\<close>: the bytes \<open>w\<close> lie in \<open>data\<close> from offset \<open>off\<close> on. A
  non-empty \<open>w\<close> then lies within the buffer.
\<close>

definition stands :: "bytes \<Rightarrow> nat \<Rightarrow> bytes \<Rightarrow> bool" where
  "stands data off w \<longleftrightarrow> take (length w) (drop off data) = w"

lemma stands_Nil [simp]: "stands data off []"
  by (simp add: stands_def)

lemma stands_append:
  "stands data off (v @ w) \<longleftrightarrow> stands data off v \<and> stands data (off + length v) w"
proof
  assume h: "stands data off (v @ w)"
  then have t: "take (length v + length w) (drop off data) = v @ w"
    by (simp add: stands_def)
  have "take (length v) (take (length v + length w) (drop off data)) = v"
    by (simp only: t) simp
  then have v: "take (length v) (drop off data) = v"
    by (simp only: take_take) simp
  have "drop (length v) (take (length v + length w) (drop off data)) = w"
    by (simp only: t) simp
  then have "take (length w) (drop (off + length v) data) = w"
    by (simp add: drop_take add.commute)
  with v show "stands data off v \<and> stands data (off + length v) w"
    by (auto simp: stands_def)
next
  assume h: "stands data off v \<and> stands data (off + length v) w"
  then show "stands data off (v @ w)"
    by (auto simp: stands_def take_add add.commute)
qed

lemma stands_Cons:
  "stands data off (b # w) \<longleftrightarrow> stands data off [b] \<and> stands data (off + 1) w"
  using stands_append [of data off "[b]" w] by simp

lemma stands_single: "stands data off [b] \<longleftrightarrow> off < length data \<and> data ! off = b"
proof (cases "off < length data")
  case True
  then show ?thesis
    by (simp add: stands_def Cons_nth_drop_Suc [symmetric])
qed (simp add: stands_def)

lemma stands_length: "stands data off w \<Longrightarrow> length w \<le> length data - off"
  unfolding stands_def by (metis length_drop length_take min.cobounded1 min.commute)

lemma stands_bound: "stands data off w \<Longrightarrow> w \<noteq> [] \<Longrightarrow> off + length w \<le> length data"
  using stands_length [of data off w] by (cases w) auto

lemma stands_bound_le: "stands data off w \<Longrightarrow> off \<le> length data \<Longrightarrow> off + length w \<le> length data"
  using stands_length [of data off w] by auto

lemma stands_whole: "stands data 0 w \<Longrightarrow> length w = length data \<Longrightarrow> data = w"
  by (simp add: stands_def)

lemma stands_self [simp]: "stands data 0 data"
  by (simp add: stands_def)

lemma stands_all_iff: "stands data 0 w \<and> length w = length data \<longleftrightarrow> data = w"
  by (auto intro: stands_whole)

lemma stands_prefix: "stands data 0 w \<longleftrightarrow> (\<exists>rest. data = w @ rest)"
proof
  assume "stands data 0 w"
  then have "data = w @ drop (length w) data"
    by (metis append_take_drop_id drop0 stands_def)
  then show "\<exists>rest. data = w @ rest" by blast
qed (auto simp: stands_def)

lemma stands_drop0: "stands data off w \<longleftrightarrow> stands (drop off data) 0 w"
  by (simp add: stands_def)

lemma stands_context [simp]: "stands (pre @ w @ post) (length pre) w"
  by (simp add: stands_def)

lemma stands_unique: "stands data off v \<Longrightarrow> stands data off w \<Longrightarrow> length v = length w \<Longrightarrow> v = w"
  by (auto simp: stands_def)

lemma stands_slice: "off + n \<le> length data \<Longrightarrow> stands data off (take n (drop off data))"
  by (simp add: stands_def)

lemma stands_take:
  "stands (take n data) off w \<longleftrightarrow> stands data off w \<and> (w = [] \<or> off + length w \<le> n)"
proof (cases "w = [] \<or> off + length w \<le> n")
  case True
  then show ?thesis
    by (auto simp: stands_def drop_take min_def)
next
  case False
  then have "\<not> stands (take n data) off w"
    using stands_bound [of "take n data" off w] by auto
  with False show ?thesis by simp
qed

section \<open>Growing buffers\<close>

text \<open>
  A \<^verbatim>\<open>GByteArray\<close> counts its bytes in a \<^verbatim>\<open>guint\<close>; GLib ends the program when an append
  would pass \<^verbatim>\<open>G_MAXUINT\<close>.
\<close>

definition append_bytes :: "bytes \<Rightarrow> bytes \<Rightarrow> bytes result" where
  "append_bytes buffer xs = (if length xs > G_MAXUINT32 - length buffer then Inl Abort else Inr (buffer @ xs))"

section \<open>Input streams\<close>

text \<open>
  A \<^verbatim>\<open>GInputStream\<close>: the bytes it will still deliver, and whether it then fails instead of
  ending. \<^verbatim>\<open>g_input_stream_read_all\<close> reads until it has the bytes asked for or the stream ends.
\<close>

record in_stream =
  in_bytes :: bytes
  in_broken :: bool

definition read_error :: gerror where
  "read_error = GError IO_ERRNO (Syscall ''read'')"

definition stream_read_all :: "nat \<Rightarrow> in_stream \<Rightarrow> (bytes \<times> in_stream) result" where
  "stream_read_all n s =
     (if length (in_bytes s) < n \<and> in_broken s then Inl read_error
      else Inr (take n (in_bytes s), s\<lparr>in_bytes := drop n (in_bytes s)\<rparr>))"

end
