(* ===== verification/Wire.thy ===== *)
theory Wire
  imports Prelude
begin

text \<open>
  The little-endian integers and length-prefixed strings all on-disk structures of the
  journal are made of, and the interface \<open>wire_format\<close> they share: reading at an offset
  succeeds with a value exactly when the encoding of that (encodable) value stands there.
  The payload codecs and the journal record format are proved over this one law.

  Sources: the static helpers \<^verbatim>\<open>write_u16_le\<close> .. \<^verbatim>\<open>read_u64_le\<close>,
  \<^verbatim>\<open>read_string\<close>, \<^verbatim>\<open>read_nullable_string\<close>, \<^verbatim>\<open>read_u32\<close>, \<^verbatim>\<open>read_u64\<close>
  and their writing counterparts, which every file of
  \<^verbatim>\<open>src/wyrebox/journal\<close> repeats.
\<close>

section \<open>Little-endian integers\<close>

definition write_u16_le :: "u16 \<Rightarrow> bytes" where
  "write_u16_le v = [ucast (v AND 0xFF), ucast (drop_bit 8 v AND 0xFF)]"

definition write_u32_le :: "u32 \<Rightarrow> bytes" where
  "write_u32_le v =
     [ucast (v AND 0xFF), ucast (drop_bit 8 v AND 0xFF),
      ucast (drop_bit 16 v AND 0xFF), ucast (drop_bit 24 v AND 0xFF)]"

definition write_u64_le :: "u64 \<Rightarrow> bytes" where
  "write_u64_le v =
     [ucast (v AND 0xFF), ucast (drop_bit 8 v AND 0xFF),
      ucast (drop_bit 16 v AND 0xFF), ucast (drop_bit 24 v AND 0xFF),
      ucast (drop_bit 32 v AND 0xFF), ucast (drop_bit 40 v AND 0xFF),
      ucast (drop_bit 48 v AND 0xFF), ucast (drop_bit 56 v AND 0xFF)]"

definition read_u16_le :: "bytes \<Rightarrow> nat \<Rightarrow> u16" where
  "read_u16_le buffer p = ucast (buffer ! p) OR push_bit 8 (ucast (buffer ! (p + 1)))"

definition read_u32_le :: "bytes \<Rightarrow> nat \<Rightarrow> u32" where
  "read_u32_le buffer p =
     ucast (buffer ! p) OR push_bit 8 (ucast (buffer ! (p + 1))) OR
     push_bit 16 (ucast (buffer ! (p + 2))) OR push_bit 24 (ucast (buffer ! (p + 3)))"

definition read_u64_le :: "bytes \<Rightarrow> nat \<Rightarrow> u64" where
  "read_u64_le buffer p =
     ucast (buffer ! p) OR push_bit 8 (ucast (buffer ! (p + 1))) OR
     push_bit 16 (ucast (buffer ! (p + 2))) OR push_bit 24 (ucast (buffer ! (p + 3))) OR
     push_bit 32 (ucast (buffer ! (p + 4))) OR push_bit 40 (ucast (buffer ! (p + 5))) OR
     push_bit 48 (ucast (buffer ! (p + 6))) OR push_bit 56 (ucast (buffer ! (p + 7)))"

lemma length_write_u16_le [simp]: "length (write_u16_le v) = 2"
  by (simp add: write_u16_le_def)

lemma length_write_u32_le [simp]: "length (write_u32_le v) = 4"
  by (simp add: write_u32_le_def)

lemma length_write_u64_le [simp]: "length (write_u64_le v) = 8"
  by (simp add: write_u64_le_def)

text \<open>Taking a word apart into bytes and putting it together again, in both directions.\<close>

lemma bit_byte_part:
  "bit (push_bit k (ucast (ucast (drop_bit k v AND 0xFF) :: byte)) :: 'a::len word) n
     \<longleftrightarrow> k \<le> n \<and> n < k + 8 \<and> bit (v :: 'a word) n"
proof -
  have ff: "(0xFF :: 'a word) = mask 8"
    by (simp add: mask_eq_exp_minus_1)
  show ?thesis
    by (auto simp only: ff bit_push_bit_iff bit_unsigned_iff bit_and_iff bit_mask_iff bit_drop_bit_eq o_def)
      (auto dest: bit_imp_le_length simp: possible_bit_def)
qed

lemma bit_byte_part0:
  "bit (ucast (ucast (v AND 0xFF) :: byte) :: 'a::len word) n \<longleftrightarrow> n < 8 \<and> bit (v :: 'a word) n"
  using bit_byte_part [of 0 v n] by simp

lemma bit_byte_at:
  "bit (push_bit k (ucast (b :: byte)) :: 'a::len word) n
     \<longleftrightarrow> k \<le> n \<and> n < k + 8 \<and> n < LENGTH('a) \<and> bit b (n - k)"
  by (auto simp only: bit_push_bit_iff bit_unsigned_iff) (auto dest: bit_imp_le_length simp: possible_bit_def)

lemma bit_byte_at0: "bit (ucast (b :: byte) :: 'a::len word) n \<longleftrightarrow> n < 8 \<and> n < LENGTH('a) \<and> bit b n"
  using bit_byte_at [of 0 b n] by simp

lemma bit_take_byte: "bit (ucast (drop_bit k v AND 0xFF) :: byte) n \<longleftrightarrow> n < 8 \<and> bit (v :: 'a::len word) (k + n)"
proof -
  have ff: "(0xFF :: 'a word) = mask 8"
    by (simp add: mask_eq_exp_minus_1)
  show ?thesis
    by (auto simp only: ff bit_unsigned_iff bit_and_iff bit_mask_iff bit_drop_bit_eq o_def)
      (auto dest: bit_imp_le_length simp: possible_bit_def)
qed

lemma bit_take_byte0: "bit (ucast (v AND 0xFF) :: byte) n \<longleftrightarrow> n < 8 \<and> bit (v :: 'a::len word) n"
  using bit_take_byte [of 0 v n] by simp

lemma bit_dropped: "bit (drop_bit k v) n \<longleftrightarrow> bit (v :: 'a::len word) (k + n)"
  by (simp add: bit_drop_bit_eq)

lemmas byte_join = bit_or_iff bit_byte_part bit_byte_part0
lemmas byte_split = bit_or_iff bit_byte_at bit_byte_at0 bit_take_byte bit_take_byte0 bit_dropped

lemma u16_join:
  "(ucast (ucast (v AND 0xFF) :: byte) OR push_bit 8 (ucast (ucast (drop_bit 8 v AND 0xFF) :: byte)) :: u16) = v"
  by (rule bit_word_eqI) (simp only: byte_join, auto)

lemma u32_join:
  "(ucast (ucast (v AND 0xFF) :: byte) OR push_bit 8 (ucast (ucast (drop_bit 8 v AND 0xFF) :: byte)) OR
    push_bit 16 (ucast (ucast (drop_bit 16 v AND 0xFF) :: byte)) OR
    push_bit 24 (ucast (ucast (drop_bit 24 v AND 0xFF) :: byte)) :: u32) = v"
  by (rule bit_word_eqI) (simp only: byte_join, auto)

lemma u64_join:
  "(ucast (ucast (v AND 0xFF) :: byte) OR push_bit 8 (ucast (ucast (drop_bit 8 v AND 0xFF) :: byte)) OR
    push_bit 16 (ucast (ucast (drop_bit 16 v AND 0xFF) :: byte)) OR
    push_bit 24 (ucast (ucast (drop_bit 24 v AND 0xFF) :: byte)) OR
    push_bit 32 (ucast (ucast (drop_bit 32 v AND 0xFF) :: byte)) OR
    push_bit 40 (ucast (ucast (drop_bit 40 v AND 0xFF) :: byte)) OR
    push_bit 48 (ucast (ucast (drop_bit 48 v AND 0xFF) :: byte)) OR
    push_bit 56 (ucast (ucast (drop_bit 56 v AND 0xFF) :: byte)) :: u64) = v"
  by (rule bit_word_eqI) (simp only: byte_join, auto)

lemma write_u16_le_join:
  "write_u16_le (ucast a OR push_bit 8 (ucast b)) = [a, b]"
  unfolding write_u16_le_def
  by (intro arg_cong2 [where f = Cons] refl; rule bit_word_eqI; simp only: byte_split; auto)

lemma write_u32_le_join:
  "write_u32_le (ucast a OR push_bit 8 (ucast b) OR push_bit 16 (ucast c) OR push_bit 24 (ucast d))
     = [a, b, c, d]"
  unfolding write_u32_le_def
  by (intro arg_cong2 [where f = Cons] refl; rule bit_word_eqI; simp only: byte_split; auto)

lemma write_u64_le_join:
  "write_u64_le (ucast a OR push_bit 8 (ucast b) OR push_bit 16 (ucast c) OR push_bit 24 (ucast d) OR
     push_bit 32 (ucast e) OR push_bit 40 (ucast f) OR push_bit 48 (ucast g) OR push_bit 56 (ucast h))
     = [a, b, c, d, e, f, g, h]"
  unfolding write_u64_le_def
  by (intro arg_cong2 [where f = Cons] refl; rule bit_word_eqI; simp only: byte_split; auto)

section \<open>The interface\<close>

text \<open>
  A reader takes the buffer and an offset and returns the value and the offset after it.
  \<open>read_n\<close> is the counted loop \<^verbatim>\<open>for (i = 0; i < n; i++) if (!read (...)) return FALSE;\<close>
  that collects the values.
\<close>

primrec read_n :: "(bytes \<Rightarrow> nat \<Rightarrow> ('a \<times> nat) result) \<Rightarrow> nat \<Rightarrow> bytes \<Rightarrow> nat \<Rightarrow> ('a list \<times> nat) result" where
  "read_n dec 0 data off = Inr ([], off)"
| "read_n dec (Suc n) data off =
     bindE (dec data off) (\<lambda>(x, off1).
     bindE (read_n dec n data off1) (\<lambda>(xs, off2). Inr (x # xs, off2)))"

locale wire_format =
  fixes enc :: "'a \<Rightarrow> bytes"
    and dec :: "bytes \<Rightarrow> nat \<Rightarrow> ('a \<times> nat) result"
    and ok :: "'a \<Rightarrow> bool"
  assumes dec_iff: "dec data off = Inr (x, off') \<longleftrightarrow>
    ok x \<and> stands data off (enc x) \<and> off' = off + length (enc x)"
begin

lemma dec_enc: "ok x \<Longrightarrow> dec (pre @ enc x @ post) (length pre) = Inr (x, length pre + length (enc x))"
  by (simp add: dec_iff)

lemma enc_prefix_free:
  assumes "ok x" "ok y" "enc x @ r = enc y @ s"
  shows "x = y \<and> r = s"
proof -
  have "dec (enc x @ r) 0 = Inr (x, length (enc x))"
    using dec_enc [of x "[]" r] assms(1) by simp
  moreover have "dec (enc y @ s) 0 = Inr (y, length (enc y))"
    using dec_enc [of y "[]" s] assms(2) by simp
  ultimately have "x = y"
    using assms(3) by simp
  with assms(3) show ?thesis by simp
qed

lemma dec_within: "dec data off = Inr (x, off') \<Longrightarrow> off \<le> length data \<Longrightarrow> off \<le> off' \<and> off' \<le> length data"
  by (auto simp: dec_iff dest: stands_bound_le)

lemma read_n_iff:
  "read_n dec n data off = Inr (xs, off') \<longleftrightarrow>
     length xs = n \<and> list_all ok xs \<and> stands data off (concat (map enc xs)) \<and>
     off' = off + length (concat (map enc xs))"
proof (induction n arbitrary: xs off)
  case (Suc n)
  show ?case
  proof (cases xs)
    case (Cons x ys)
    then show ?thesis
      by (auto simp: bindE_Inr_iff dec_iff Suc.IH stands_append add.assoc)
  qed (auto simp: bindE_Inr_iff)
qed auto

end

text \<open>
  A format whose encodings have a least size: a count that passes is bounded by the bytes
  that are left, which is what the readers check before they allocate.
\<close>

locale sized_wire_format = wire_format +
  fixes min_size :: nat
  assumes min_size_pos: "0 < min_size"
    and min_size: "ok x \<Longrightarrow> min_size \<le> length (enc x)"
begin

lemma concat_min_size: "list_all ok xs \<Longrightarrow> length xs * min_size \<le> length (concat (map enc xs))"
  by (induction xs) (auto dest!: min_size)

lemma count_fits:
  assumes "list_all ok xs" "stands data off (concat (map enc xs))"
  shows "length xs \<le> (length data - off) div min_size"
proof -
  have "length xs * min_size \<le> length data - off"
    using concat_min_size [OF assms(1)] stands_length [OF assms(2)] by linarith
  then show ?thesis
    using min_size_pos by (simp add: less_eq_div_iff_mult_less_eq)
qed

end

section \<open>Integers with a bounds check\<close>

text \<open>\<^verbatim>\<open>sizeof (guint32) > size - *offset\<close> is the truncation check of the readers.\<close>

definition read_u32 :: "bytes \<Rightarrow> nat \<Rightarrow> (u32 \<times> nat) result" where
  "read_u32 data off =
     (if length data - off < 4 then Inl (GError IO_INVALID_DATA Truncated)
      else Inr (read_u32_le data off, off + 4))"

definition read_u64 :: "bytes \<Rightarrow> nat \<Rightarrow> (u64 \<times> nat) result" where
  "read_u64 data off =
     (if length data - off < 8 then Inl (GError IO_INVALID_DATA Truncated)
      else Inr (read_u64_le data off, off + 8))"

lemma take2_nth: "Suc off < length data \<Longrightarrow> take 2 (drop off data) = [data ! off, data ! (off + 1)]"
  by (simp add: numeral_eq_Suc take_Suc_conv_app_nth)

lemma take4_nth:
  "off + 3 < length data \<Longrightarrow>
     take 4 (drop off data) = [data ! off, data ! (off + 1), data ! (off + 2), data ! (off + 3)]"
  by (simp add: numeral_eq_Suc take_Suc_conv_app_nth)

lemma take8_nth:
  "off + 7 < length data \<Longrightarrow>
     take 8 (drop off data) =
       [data ! off, data ! (off + 1), data ! (off + 2), data ! (off + 3),
        data ! (off + 4), data ! (off + 5), data ! (off + 6), data ! (off + 7)]"
  by (simp add: numeral_eq_Suc take_Suc_conv_app_nth)

lemma stands_u16 [wire_simps]:
  "stands data off (write_u16_le v) \<longleftrightarrow> off + 2 \<le> length data \<and> read_u16_le data off = v"
proof (cases "off + 2 \<le> length data")
  case True
  then have t: "take 2 (drop off data) = [data ! off, data ! (off + 1)]"
    using take2_nth [of off data] by simp
  have w: "write_u16_le (read_u16_le data off) = take 2 (drop off data)"
    by (simp only: t read_u16_le_def write_u16_le_join)
  have r: "read_u16_le data off = v" if "take 2 (drop off data) = write_u16_le v"
    using that unfolding t read_u16_le_def by (simp add: write_u16_le_def u16_join)
  from True w r show ?thesis
    by (auto simp: stands_def)
next
  case False
  then show ?thesis
    using stands_bound [of data off "write_u16_le v"] by (auto simp: write_u16_le_def)
qed

lemma stands_u32 [wire_simps]:
  "stands data off (write_u32_le v) \<longleftrightarrow> off + 4 \<le> length data \<and> read_u32_le data off = v"
proof (cases "off + 4 \<le> length data")
  case True
  then have t: "take 4 (drop off data) = [data ! off, data ! (off + 1), data ! (off + 2), data ! (off + 3)]"
    using take4_nth [of off data] by simp
  have w: "write_u32_le (read_u32_le data off) = take 4 (drop off data)"
    by (simp only: t read_u32_le_def write_u32_le_join)
  have r: "read_u32_le data off = v" if "take 4 (drop off data) = write_u32_le v"
    using that unfolding t read_u32_le_def by (simp add: write_u32_le_def u32_join)
  from True w r show ?thesis
    by (auto simp: stands_def)
next
  case False
  then show ?thesis
    using stands_bound [of data off "write_u32_le v"] by (auto simp: write_u32_le_def)
qed

lemma stands_u64 [wire_simps]:
  "stands data off (write_u64_le v) \<longleftrightarrow> off + 8 \<le> length data \<and> read_u64_le data off = v"
proof (cases "off + 8 \<le> length data")
  case True
  then have t: "take 8 (drop off data) =
      [data ! off, data ! (off + 1), data ! (off + 2), data ! (off + 3),
       data ! (off + 4), data ! (off + 5), data ! (off + 6), data ! (off + 7)]"
    using take8_nth [of off data] by simp
  have w: "write_u64_le (read_u64_le data off) = take 8 (drop off data)"
    by (simp only: t read_u64_le_def write_u64_le_join)
  have r: "read_u64_le data off = v" if "take 8 (drop off data) = write_u64_le v"
    using that unfolding t read_u64_le_def by (simp add: write_u64_le_def u64_join)
  from True w r show ?thesis
    by (auto simp: stands_def)
next
  case False
  then show ?thesis
    using stands_bound [of data off "write_u64_le v"] by (auto simp: write_u64_le_def)
qed

interpretation u32_wire: sized_wire_format write_u32_le read_u32 "\<lambda>_. True" 4
  by unfold_locales (auto simp: read_u32_def stands_u32)

interpretation u64_wire: sized_wire_format write_u64_le read_u64 "\<lambda>_. True" 8
  by unfold_locales (auto simp: read_u64_def stands_u64)

section \<open>Length-prefixed strings\<close>

definition write_string :: "bytes \<Rightarrow> bytes" where
  "write_string s = write_u32_le (of_nat (length s)) @ s"

definition read_string :: "bytes \<Rightarrow> nat \<Rightarrow> (bytes \<times> nat) result" where
  "read_string data off =
     bindE (read_u32 data off) (\<lambda>(len, off1).
       if unat len > length data - off1 then Inl (GError IO_INVALID_DATA Truncated)
       else if has_nul data off1 (unat len) then Inl (GError IO_INVALID_DATA Embedded_nul)
       else Inr (g_strndup data off1 (unat len), off1 + unat len))"

text \<open>
  The nullable variant of MessageDelivered, MessageAppended and the audit record:
  \<^verbatim>\<open>G_MAXUINT32\<close> in place of a length stands for NULL and is followed by no bytes.
\<close>

fun write_nullable_string :: "cstring \<Rightarrow> bytes" where
  "write_nullable_string None = write_u32_le 0xFFFFFFFF"
| "write_nullable_string (Some s) = write_u32_le (of_nat (length s)) @ s"

definition read_nullable_string :: "bytes \<Rightarrow> nat \<Rightarrow> (cstring \<times> nat) result" where
  "read_nullable_string data off =
     bindE (read_u32 data off) (\<lambda>(len, off1).
       if len = 0xFFFFFFFF then Inr (None, off1)
       else if unat len > length data - off1 then Inl (GError IO_INVALID_DATA Truncated)
       else if has_nul data off1 (unat len) then Inl (GError IO_INVALID_DATA Embedded_nul)
       else Inr (Some (g_strndup data off1 (unat len)), off1 + unat len))"

definition string_ok :: "bytes \<Rightarrow> bool" where
  "string_ok s \<longleftrightarrow> nul_free s \<and> length s \<le> G_MAXUINT32"

fun nullable_string_ok :: "cstring \<Rightarrow> bool" where
  "nullable_string_ok None = True"
| "nullable_string_ok (Some s) = (nul_free s \<and> length s < G_MAXUINT32)"

lemma unat_of_nat_u32: "n \<le> G_MAXUINT32 \<Longrightarrow> unat (of_nat n :: u32) = n"
  by (simp add: unat_of_nat take_bit_eq_mod)

lemma of_nat_u32_eq_iff: "n \<le> G_MAXUINT32 \<Longrightarrow> (of_nat n :: u32) = v \<longleftrightarrow> n = unat v"
  by (auto simp: unat_of_nat_u32)

lemma unat_u32_le: "unat (v :: u32) \<le> G_MAXUINT32"
proof -
  have "unat v < 2 ^ LENGTH(32)"
    by (rule unsigned_less)
  then show ?thesis by simp
qed

lemma unat_u64_le: "unat (v :: u64) \<le> G_MAXUINT64"
proof -
  have "unat v < 2 ^ LENGTH(64)"
    by (rule unsigned_less)
  then show ?thesis by simp
qed

lemma unat_of_nat_u64: "n \<le> G_MAXUINT64 \<Longrightarrow> unat (of_nat n :: u64) = n"
  by (simp add: unat_of_nat take_bit_eq_mod)

lemma string_body_iff:
  assumes "n \<le> length data - off"
  shows "\<not> has_nul data off n \<and> g_strndup data off n = s \<longleftrightarrow>
         nul_free s \<and> length s = n \<and> stands data off s"
proof -
  have l: "length (take n (drop off data)) = n"
    using assms by simp
  show ?thesis
    using l by (auto simp: g_strndup_nul_free nul_free_def has_nul_def stands_def)
qed

interpretation str_wire: sized_wire_format write_string read_string string_ok 4
proof
  fix data off x off'
  show "read_string data off = Inr (x, off') \<longleftrightarrow>
      string_ok x \<and> stands data off (write_string x) \<and> off' = off + length (write_string x)"
  proof
    assume "read_string data off = Inr (x, off')"
    then obtain len where r: "read_u32 data off = Inr (len, off + 4)"
      and n: "unat len \<le> length data - (off + 4)"
      and b: "\<not> has_nul data (off + 4) (unat len)" "g_strndup data (off + 4) (unat len) = x"
      and o': "off' = off + 4 + unat len"
      by (auto simp: read_string_def bindE_Inr_iff u32_wire.dec_iff split: if_splits)
    from b have x: "nul_free x" "length x = unat len" "stands data (off + 4) x"
      using string_body_iff [OF n, of x] by auto
    then show "string_ok x \<and> stands data off (write_string x) \<and> off' = off + length (write_string x)"
      using r o' unat_u32_le [of len]
      by (auto simp: write_string_def string_ok_def stands_append u32_wire.dec_iff)
  next
    assume h: "string_ok x \<and> stands data off (write_string x) \<and> off' = off + length (write_string x)"
    then have s: "stands data off (write_u32_le (of_nat (length x)))" "stands data (off + 4) x"
      by (auto simp: write_string_def stands_append)
    have u: "unat (of_nat (length x) :: u32) = length x"
      using h by (simp add: string_ok_def unat_of_nat_u32)
    have n: "length x \<le> length data - (off + 4)"
      using s(2) by (rule stands_length)
    have "\<not> has_nul data (off + 4) (length x) \<and> g_strndup data (off + 4) (length x) = x"
      using h s(2) string_body_iff [OF n, of x] by (auto simp: string_ok_def)
    moreover have "read_u32 data off = Inr (of_nat (length x), off + 4)"
      using s(1) by (simp add: u32_wire.dec_iff)
    ultimately show "read_string data off = Inr (x, off')"
      using u n h by (simp add: read_string_def write_string_def)
  qed
qed (auto simp: write_string_def)

interpretation nstr_wire: sized_wire_format write_nullable_string read_nullable_string nullable_string_ok 4
proof
  fix data off x off'
  show "read_nullable_string data off = Inr (x, off') \<longleftrightarrow>
      nullable_string_ok x \<and> stands data off (write_nullable_string x) \<and>
      off' = off + length (write_nullable_string x)"
  proof (cases x)
    case None
    then show ?thesis
      by (auto simp: read_nullable_string_def bindE_Inr_iff u32_wire.dec_iff stands_u32 split: if_splits)
  next
    case (Some s)
    show ?thesis
    proof
      assume "read_nullable_string data off = Inr (x, off')"
      with Some obtain len where r: "read_u32 data off = Inr (len, off + 4)" "len \<noteq> 0xFFFFFFFF"
        and n: "read_nullable_string data off = Inr (Some s, off')"
        by (auto simp: read_nullable_string_def bindE_Inr_iff u32_wire.dec_iff split: if_splits)
      then have str: "read_string data off = Inr (s, off')"
        by (auto simp: read_nullable_string_def read_string_def split: if_splits)
      from str have s: "string_ok s" "stands data off (write_string s)" "off' = off + length (write_string s)"
        by (simp_all add: str_wire.dec_iff)
      from r s have "len = of_nat (length s)"
        by (auto simp: u32_wire.dec_iff write_string_def stands_append stands_u32)
      with r s(1) have "length s \<noteq> G_MAXUINT32"
        by auto
      with s Some show "nullable_string_ok x \<and> stands data off (write_nullable_string x) \<and>
          off' = off + length (write_nullable_string x)"
        by (auto simp: write_string_def string_ok_def)
    next
      assume h: "nullable_string_ok x \<and> stands data off (write_nullable_string x) \<and>
          off' = off + length (write_nullable_string x)"
      with Some have str: "read_string data off = Inr (s, off')"
        by (auto simp: str_wire.dec_iff write_string_def string_ok_def)
      have "read_u32 data off = Inr (of_nat (length s), off + 4)"
        using h Some by (simp add: u32_wire.dec_iff stands_append)
      moreover have "(of_nat (length s) :: u32) \<noteq> 0xFFFFFFFF"
        using h Some of_nat_u32_eq_iff [of "length s" "0xFFFFFFFF"] by auto
      ultimately show "read_nullable_string data off = Inr (x, off')"
        using str Some by (auto simp: read_nullable_string_def read_string_def split: if_splits)
    qed
  qed
next
  fix x
  show "nullable_string_ok x \<Longrightarrow> 4 \<le> length (write_nullable_string x)"
    by (cases x) auto
qed simp

section \<open>Vectors of strings\<close>

text \<open>
  The writing loop over a vector, and the reading loop under its allocation guard
  (\<^verbatim>\<open>count > (size - *offset) / sizeof (guint32)\<close>: every encoded string takes at
  least its length prefix). A count of zero decodes to a NULL vector.
\<close>

definition write_strings :: "bytes list \<Rightarrow> bytes" where
  "write_strings xs = concat (map write_string xs)"

definition read_strv_counted :: "bytes \<Rightarrow> nat \<Rightarrow> u32 \<Rightarrow> (strv \<times> nat) result" where
  "read_strv_counted data off count =
     (if count = 0 then Inr (None, off)
      else if unat count > (length data - off) div 4 then Inl (GError IO_INVALID_DATA Truncated)
      else bindE (read_n read_string (unat count) data off) (\<lambda>(values, off1). Inr (Some values, off1)))"

text \<open>The vectors a decoder produces: NULL in place of the empty vector.\<close>

definition strv_canon :: "strv \<Rightarrow> strv" where
  "strv_canon v = (if strv_items v = [] then None else v)"

definition strv_ok :: "strv \<Rightarrow> bool" where
  "strv_ok v \<longleftrightarrow> list_all string_ok (strv_items v) \<and> length (strv_items v) \<le> G_MAXUINT32"

lemma strv_items_canon [simp]: "strv_items (strv_canon v) = strv_items v"
  by (cases v) (auto simp: strv_canon_def)

lemma strv_canon_idem [simp]: "strv_canon (strv_canon v) = strv_canon v"
  by (simp add: strv_canon_def)

lemma strv_ok_canon [simp]: "strv_ok (strv_canon v) = strv_ok v"
  by (simp add: strv_ok_def)

lemma read_strv_counted_iff [wire_simps]:
  "read_strv_counted data off count = Inr (v, off') \<longleftrightarrow>
     strv_ok v \<and> strv_canon v = v \<and> length (strv_items v) = unat count \<and>
     stands data off (write_strings (strv_items v)) \<and>
     off' = off + length (write_strings (strv_items v))"
proof (cases "count = 0")
  case True
  then show ?thesis
    by (cases v) (auto simp: read_strv_counted_def strv_canon_def strv_ok_def write_strings_def)
next
  case False
  then have pos: "0 < unat count"
    by (simp add: unat_gt_0)
  have fits: "unat count \<le> (length data - off) div 4"
    if "list_all string_ok xs" "stands data off (write_strings xs)" "length xs = unat count" for xs
    using str_wire.count_fits [of xs data off] that by (simp add: write_strings_def)
  show ?thesis
  proof (cases v)
    case None
    with pos False show ?thesis
      by (auto simp: read_strv_counted_def bindE_Inr_iff)
  next
    case (Some xs)
    with pos False fits [of xs] unat_u32_le [of count] show ?thesis
      by (auto simp: read_strv_counted_def bindE_Inr_iff str_wire.read_n_iff strv_canon_def strv_ok_def
          write_strings_def)
  qed
qed

section \<open>Errors of the readers\<close>

lemma raises_read_n [raises_simps]:
  assumes "\<And>off. raises E (dec data off)"
  shows "raises E (read_n dec n data off)"
  using assms by (induction n arbitrary: off) (auto simp: raises_simps)

lemma raises_readers [raises_simps]:
  "raises (io_errors IO_INVALID_DATA) (read_u32 data off)"
  "raises (io_errors IO_INVALID_DATA) (read_u64 data off)"
  "raises (io_errors IO_INVALID_DATA) (read_string data off)"
  "raises (io_errors IO_INVALID_DATA) (read_nullable_string data off)"
  "raises (io_errors IO_INVALID_DATA) (read_strv_counted data off count)"
proof -
  show u: "raises (io_errors IO_INVALID_DATA) (read_u32 data off)" for data off
    by (simp add: read_u32_def raises_simps)
  show "raises (io_errors IO_INVALID_DATA) (read_u64 data off)"
    by (simp add: read_u64_def raises_simps)
  show s: "raises (io_errors IO_INVALID_DATA) (read_string data off)" for data off
    by (simp add: read_string_def raises_simps u)
  show "raises (io_errors IO_INVALID_DATA) (read_nullable_string data off)"
    by (simp add: read_nullable_string_def raises_simps u)
  show "raises (io_errors IO_INVALID_DATA) (read_strv_counted data off count)"
    by (simp add: read_strv_counted_def raises_simps s)
qed

end
