(* ===== verification/Journal_Event.thy ===== *)
theory Journal_Event
  imports Wire
begin

text \<open>
  The event types of the journal: the enumeration and its on-disk names
  (\<^verbatim>\<open>wyrebox-journal-writer.h/.c\<close>), the catalog of payload schemas
  (\<^verbatim>\<open>wyrebox-journal-event.c\<close>), and the reader's parsers for complete and for
  torn event names (\<^verbatim>\<open>wyrebox-journal-reader.c\<close>).

  An enumeration value of C is an unsigned integer that need not be one of the named
  constants, so the functions work on numbers; \<open>event_type\<close> names the valid ones.
\<close>

datatype event_type =
    MESSAGE_DELIVERED
  | FLAG_CHANGED
  | KEYWORD_CHANGED
  | FACT_INSERTED
  | FACT_RETRACTED
  | DERIVED_VIEW_MEMBERSHIP_CHANGED
  | DAEMON_AUDIT_RECORDED
  | FACTS_EXTRACTED
  | MEMBERSHIPS_EXPUNGED
  | MEMBERSHIPS_COPIED
  | MEMBERSHIPS_MOVED
  | MESSAGE_APPENDED

fun event_code :: "event_type \<Rightarrow> nat" where
  "event_code MESSAGE_DELIVERED = 0"
| "event_code FLAG_CHANGED = 1"
| "event_code KEYWORD_CHANGED = 2"
| "event_code FACT_INSERTED = 3"
| "event_code FACT_RETRACTED = 4"
| "event_code DERIVED_VIEW_MEMBERSHIP_CHANGED = 5"
| "event_code DAEMON_AUDIT_RECORDED = 6"
| "event_code FACTS_EXTRACTED = 7"
| "event_code MEMBERSHIPS_EXPUNGED = 8"
| "event_code MEMBERSHIPS_COPIED = 9"
| "event_code MEMBERSHIPS_MOVED = 10"
| "event_code MESSAGE_APPENDED = 11"

text \<open>The enumeration is ordered by its values, as C compares it.\<close>

instantiation event_type :: linorder
begin

definition less_eq_event_type :: "event_type \<Rightarrow> event_type \<Rightarrow> bool" where
  "less_eq_event_type a b \<longleftrightarrow> event_code a \<le> event_code b"

definition less_event_type :: "event_type \<Rightarrow> event_type \<Rightarrow> bool" where
  "less_event_type a b \<longleftrightarrow> event_code a < event_code b"

lemma event_code_inj: "event_code a = event_code b \<Longrightarrow> a = b"
  by (cases a; cases b; simp)

instance
  by intro_classes (auto simp: less_eq_event_type_def less_event_type_def intro: event_code_inj)

end

section \<open>Names\<close>

definition event_type_names :: "bytes list" where
  "event_type_names = map lit
     [''MessageDelivered'', ''FlagChanged'', ''KeywordChanged'', ''FactInserted'', ''FactRetracted'',
      ''DerivedViewMembershipChanged'', ''DaemonAuditRecorded'', ''FactsExtracted'',
      ''MembershipsExpunged'', ''MembershipsCopied'', ''MembershipsMoved'', ''MessageAppended'']"

definition validate_event_type :: "nat \<Rightarrow> bool" where
  "validate_event_type t \<longleftrightarrow> event_code MESSAGE_DELIVERED \<le> t \<and> t \<le> event_code MESSAGE_APPENDED"

definition event_type_to_string :: "nat \<Rightarrow> cstring" where
  "event_type_to_string t = (if \<not> validate_event_type t then None else Some (event_type_names ! t))"

section \<open>Parsers of the reader\<close>

text \<open>The loops run over all values from the first to the last constant.\<close>

definition all_event_types :: "nat list" where
  "all_event_types = [event_code MESSAGE_DELIVERED ..< Suc (event_code MESSAGE_APPENDED)]"

definition parse_event_type :: "bytes \<Rightarrow> nat option" where
  "parse_event_type event_type_data =
     find (\<lambda>index. event_type_to_string index = Some event_type_data) all_event_types"

definition max_event_type_len :: nat where
  "max_event_type_len =
     fold (\<lambda>index max_len. case event_type_to_string index of
             None \<Rightarrow> max_len | Some canonical \<Rightarrow> max max_len (length canonical)) all_event_types 0"

definition event_type_length_is_canonical :: "nat \<Rightarrow> bool" where
  "event_type_length_is_canonical declared_len =
     list_ex (\<lambda>index. case event_type_to_string index of
        None \<Rightarrow> False | Some canonical \<Rightarrow> length canonical = declared_len) all_event_types"

text \<open>
  Do the first bytes of a torn length field start the little-endian length of some name?
  \<^verbatim>\<open>g_return_val_if_fail\<close> makes more than four bytes an error.
\<close>

definition event_type_length_prefix_is_canonical :: "bytes \<Rightarrow> bool" where
  "event_type_length_prefix_is_canonical length_prefix \<longleftrightarrow>
     length length_prefix \<le> 4 \<and>
     list_ex (\<lambda>index. case event_type_to_string index of
        None \<Rightarrow> False
      | Some canonical \<Rightarrow>
          length_prefix = map (\<lambda>byte_index. of_nat (length canonical div 2 ^ (8 * byte_index)) AND 0xFF)
                            [0..<length length_prefix]) all_event_types"

definition event_type_prefix_is_plausible :: "bytes \<Rightarrow> nat \<Rightarrow> bool" where
  "event_type_prefix_is_plausible event_type_data declared_len \<longleftrightarrow>
     length event_type_data \<le> declared_len \<and>
     list_ex (\<lambda>index. case event_type_to_string index of
        None \<Rightarrow> False
      | Some canonical \<Rightarrow>
          length canonical = declared_len \<and> length event_type_data \<le> length canonical \<and>
          take (length event_type_data) canonical = event_type_data) all_event_types"

section \<open>Catalog\<close>

record event_type_descriptor =
  desc_event_type :: nat
  desc_event_type_name :: string
  desc_payload_schema_version :: string
  desc_description :: string

definition catalog :: "event_type_descriptor list" where
  "catalog =
     [\<lparr>desc_event_type = event_code MESSAGE_DELIVERED, desc_event_type_name = ''MessageDelivered'',
       desc_payload_schema_version = ''journal.payload.message-delivered.v1'',
       desc_description = ''Durable inbound message delivery''\<rparr>,
      \<lparr>desc_event_type = event_code FLAG_CHANGED, desc_event_type_name = ''FlagChanged'',
       desc_payload_schema_version = ''journal.payload.flag-changed.v1'',
       desc_description = ''Flag mutation event''\<rparr>,
      \<lparr>desc_event_type = event_code KEYWORD_CHANGED, desc_event_type_name = ''KeywordChanged'',
       desc_payload_schema_version = ''journal.payload.keyword-changed.v1'',
       desc_description = ''Keyword mutation event''\<rparr>,
      \<lparr>desc_event_type = event_code FACT_INSERTED, desc_event_type_name = ''FactInserted'',
       desc_payload_schema_version = ''journal.payload.fact-inserted.v1'',
       desc_description = ''Fact insertion event''\<rparr>,
      \<lparr>desc_event_type = event_code FACT_RETRACTED, desc_event_type_name = ''FactRetracted'',
       desc_payload_schema_version = ''journal.payload.fact-retracted.v1'',
       desc_description = ''Fact retraction event''\<rparr>,
      \<lparr>desc_event_type = event_code DERIVED_VIEW_MEMBERSHIP_CHANGED,
       desc_event_type_name = ''DerivedViewMembershipChanged'',
       desc_payload_schema_version = ''journal.payload.derived-view-membership-changed.v1'',
       desc_description = ''Derived view membership event''\<rparr>,
      \<lparr>desc_event_type = event_code DAEMON_AUDIT_RECORDED, desc_event_type_name = ''DaemonAuditRecorded'',
       desc_payload_schema_version = ''journal.payload.daemon-audit-recorded.v1'',
       desc_description = ''Administrative repair or policy action''\<rparr>,
      \<lparr>desc_event_type = event_code FACTS_EXTRACTED, desc_event_type_name = ''FactsExtracted'',
       desc_payload_schema_version = ''journal.payload.facts-extracted.v1'',
       desc_description = ''Header facts extracted from one delivered message''\<rparr>,
      \<lparr>desc_event_type = event_code MEMBERSHIPS_EXPUNGED, desc_event_type_name = ''MembershipsExpunged'',
       desc_payload_schema_version = ''journal.payload.memberships-expunged.v1'',
       desc_description = ''Ordinary mailbox memberships hidden by EXPUNGE''\<rparr>,
      \<lparr>desc_event_type = event_code MEMBERSHIPS_COPIED, desc_event_type_name = ''MembershipsCopied'',
       desc_payload_schema_version = ''journal.payload.memberships-copied.v1'',
       desc_description = ''Destination memberships added by COPY''\<rparr>,
      \<lparr>desc_event_type = event_code MEMBERSHIPS_MOVED, desc_event_type_name = ''MembershipsMoved'',
       desc_payload_schema_version = ''journal.payload.memberships-copied.v1'',
       desc_description = ''Destination memberships added by MOVE with source tombstones''\<rparr>,
      \<lparr>desc_event_type = event_code MESSAGE_APPENDED, desc_event_type_name = ''MessageAppended'',
       desc_payload_schema_version = ''journal.payload.message-appended.v1'',
       desc_description = ''Message appended to an ordinary mailbox by APPEND''\<rparr>]"

definition catalog_lookup :: "nat \<Rightarrow> event_type_descriptor option" where
  "catalog_lookup t = find (\<lambda>d. desc_event_type d = t) catalog"

definition catalog_at :: "nat \<Rightarrow> event_type_descriptor option" where
  "catalog_at index = (if index \<ge> length catalog then None else Some (catalog ! index))"

section \<open>Facts\<close>

lemma all_event_types_eq: "all_event_types = [0, 1, 2, 3, 4, 5, 6, 7, 8, 9, 10, 11]"
  by (simp add: all_event_types_def upt_rec)

lemma set_all_event_types: "t \<in> set all_event_types \<longleftrightarrow> validate_event_type t"
  by (auto simp: all_event_types_def validate_event_type_def)

lemma validate_event_type_code [simp]: "validate_event_type (event_code e)"
  by (cases e) (simp_all add: validate_event_type_def)

lemma length_event_type_names: "length event_type_names = 12"
  by (simp add: event_type_names_def)

lemma event_type_names_distinct: "distinct event_type_names"
  unfolding event_type_names_def distinct_map_lit by simp

lemma event_type_to_string_Some:
  "event_type_to_string t = Some s \<longleftrightarrow> validate_event_type t \<and> s = event_type_names ! t"
  by (auto simp: event_type_to_string_def)

lemma event_type_to_string_inj:
  "event_type_to_string s = Some n \<Longrightarrow> event_type_to_string t = Some n \<Longrightarrow> s = t"
  using event_type_names_distinct
  by (auto simp: event_type_to_string_Some validate_event_type_def nth_eq_iff_index_eq
      length_event_type_names)

lemma find_unique:
  assumes "x \<in> set xs" "P x" "\<And>y. y \<in> set xs \<Longrightarrow> P y \<Longrightarrow> y = x"
  shows "find P xs = Some x"
proof (cases "find P xs")
  case None
  with assms(1,2) show ?thesis
    by (auto simp: find_None_iff)
next
  case (Some y)
  then have "y \<in> set xs" "P y"
    by (auto simp: find_Some_iff)
  then have "y = x"
    by (rule assms(3))
  with Some show ?thesis by simp
qed

text \<open>A name parses exactly to the event type whose name it is.\<close>

lemma parse_event_type_iff:
  "parse_event_type s = Some t \<longleftrightarrow> event_type_to_string t = Some s"
proof
  assume "parse_event_type s = Some t"
  then show "event_type_to_string t = Some s"
    by (auto simp: parse_event_type_def find_Some_iff)
next
  assume t: "event_type_to_string t = Some s"
  then have "t \<in> set all_event_types"
    by (simp add: set_all_event_types event_type_to_string_Some)
  with t show "parse_event_type s = Some t"
    unfolding parse_event_type_def by (intro find_unique) (auto dest: event_type_to_string_inj)
qed

lemma parse_event_type_valid: "parse_event_type s = Some t \<Longrightarrow> validate_event_type t"
  by (simp add: parse_event_type_iff event_type_to_string_Some)

lemma event_name_lengths:
  "map length event_type_names = [16, 11, 14, 12, 13, 28, 19, 14, 19, 17, 16, 15]"
  by (simp add: event_type_names_def)

lemma max_event_type_len_eq: "max_event_type_len = 28"
  by (simp add: max_event_type_len_def all_event_types_eq event_type_to_string_def validate_event_type_def
      event_type_names_def)

lemma event_name_length_bounds:
  assumes "event_type_to_string t = Some s"
  shows "0 < length s \<and> length s \<le> max_event_type_len"
proof -
  have "t < 12" and s: "s = event_type_names ! t"
    using assms by (auto simp: event_type_to_string_Some validate_event_type_def)
  then have "length s \<in> set (map length event_type_names)"
    by (auto simp: length_event_type_names intro!: imageI)
  then show ?thesis
    by (auto simp: event_name_lengths max_event_type_len_eq)
qed

lemma event_name_length_canonical:
  "event_type_to_string t = Some s \<Longrightarrow> event_type_length_is_canonical (length s)"
  unfolding event_type_length_is_canonical_def list_ex_iff
  by (rule bexI [of _ t]) (auto simp: set_all_event_types event_type_to_string_Some split: option.splits)

end
