(* ===== verification/Journal_Record.thy ===== *)
theory Journal_Record
  imports Journal_Event
begin

text \<open>
  The journal record format and the sequential reader
  (\<^verbatim>\<open>wyrebox-journal-reader.c\<close>; the header is laid out by the writer's
  \<^verbatim>\<open>wyrebox_journal_writer_append_unlocked\<close>).

  \<^item> SHA-256 is GLib's; it is the parameter \<open>sha\<close>. A digest of another length than 32
    takes the code's own error branch, so no assumption on it is built in.
  \<^item> A reader is its open segment (\<open>None\<close> for \<^verbatim>\<open>fd < 0\<close>, the missing file), the
    position of the file descriptor, and the fields of the C object. The position is apart from
    \<open>rd_offset\<close>: a failing read moves the former only.
  \<^item> Failing \<^verbatim>\<open>read\<close>/\<^verbatim>\<open>pread\<close> calls (errno) are not modelled; a file shorter
    than its recorded size is.
\<close>

section \<open>Record layout\<close>

abbreviation RECORD_HEADER_SIZE :: nat where "RECORD_HEADER_SIZE \<equiv> 64"

definition JOURNAL_MAGIC :: bytes where
  "JOURNAL_MAGIC = lit ''WYREJNL1''"

text \<open>The 32 header bytes the checksum covers.\<close>

definition record_prefix :: "nat \<Rightarrow> u64 \<Rightarrow> nat \<Rightarrow> bytes" where
  "record_prefix event_len sequence payload_size =
     JOURNAL_MAGIC @ write_u16_le 64 @ write_u16_le 1 @ write_u32_le (of_nat event_len) @
     write_u64_le sequence @ write_u64_le (of_nat payload_size)"

definition record_header :: "(bytes \<Rightarrow> bytes) \<Rightarrow> bytes \<Rightarrow> u64 \<Rightarrow> bytes \<Rightarrow> bytes" where
  "record_header sha event_type_name sequence payload =
     (let prefix = record_prefix (length event_type_name) sequence (length payload)
      in prefix @ sha (prefix @ event_type_name @ payload))"

definition record_bytes :: "(bytes \<Rightarrow> bytes) \<Rightarrow> u64 \<Rightarrow> nat \<times> bytes \<Rightarrow> bytes" where
  "record_bytes sha sequence r =
     (case event_type_to_string (fst r) of
        None \<Rightarrow> []
      | Some name \<Rightarrow> record_header sha name sequence (snd r) @ name @ snd r)"

section \<open>Reader\<close>

record journal_record =
  rec_offset :: nat
  rec_sequence :: u64
  rec_event_type :: nat
  rec_payload :: bytes

record journal_reader =
  rd_segment :: "bytes option"
  rd_pos :: nat
  rd_next_sequence :: u64
  rd_file_size :: nat
  rd_offset :: nat

text \<open>
  What \<^verbatim>\<open>wyrebox_journal_reader_read_next\<close> reports: \<^verbatim>\<open>TRUE\<close> with a record,
  \<^verbatim>\<open>FALSE\<close> with \<^verbatim>\<open>*out_eof\<close>, or \<^verbatim>\<open>FALSE\<close> with an error.
\<close>

datatype read_outcome = Got journal_record | At_eof | Failed gerror

text \<open>
  \<^verbatim>\<open>wyrebox_journal_reader_new_with_limit\<close>: a root path that is empty is refused, a
  missing segment is an empty journal, and the size is cut at the limit.
\<close>

definition reader_new_with_limit :: "bytes \<Rightarrow> bytes option \<Rightarrow> nat \<Rightarrow> journal_reader result" where
  "reader_new_with_limit journal_root_dir segment limit =
     (if journal_root_dir = [] then Inl (GError IO_INVALID_ARGUMENT (Required ''journal root directory''))
      else case segment of
        None \<Rightarrow> Inr \<lparr>rd_segment = None, rd_pos = 0, rd_next_sequence = 1, rd_file_size = 0, rd_offset = 0\<rparr>
      | Some seg \<Rightarrow>
          if length seg > G_MAXSIZE then Inl (GError IO_INVALID_DATA Length_overflow)
          else Inr \<lparr>rd_segment = Some seg, rd_pos = 0, rd_next_sequence = 1,
                    rd_file_size = min (length seg) limit, rd_offset = 0\<rparr>)"

definition reader_new :: "bytes \<Rightarrow> bytes option \<Rightarrow> journal_reader result" where
  "reader_new journal_root_dir segment = reader_new_with_limit journal_root_dir segment G_MAXUINT64"

text \<open>A step on the file descriptor returns its result and the new position.\<close>

fun bindP :: "'a result \<times> nat \<Rightarrow> ('a \<Rightarrow> nat \<Rightarrow> 'b result \<times> nat) \<Rightarrow> 'b result \<times> nat" where
  "bindP (Inl e, pos) f = (Inl e, pos)"
| "bindP (Inr x, pos) f = f x pos"

definition read_exact :: "bytes \<Rightarrow> nat \<Rightarrow> nat \<Rightarrow> bytes result \<times> nat" where
  "read_exact seg pos n =
     (if n \<le> length seg - pos then (Inr (take n (drop pos seg)), pos + n)
      else (Inl (GError IO_INVALID_DATA Truncated), max pos (length seg)))"

text \<open>The checks of \<^verbatim>\<open>read_next\<close> on a complete header, in the code's order.\<close>

definition parse_record_header :: "u64 \<Rightarrow> nat \<Rightarrow> bytes \<Rightarrow> (nat \<times> nat) result" where
  "parse_record_header next_sequence remaining header =
     (let header_size = read_u16_le header 8;
          version = read_u16_le header 10;
          event_len32 = read_u32_le header 12;
          sequence = read_u64_le header 16;
          payload_len64 = read_u64_le header 24;
          event_type_len = unat event_len32;
          payload_len = unat payload_len64;
          remaining_after_header = remaining - RECORD_HEADER_SIZE
      in if take 8 header \<noteq> JOURNAL_MAGIC then Inl (GError IO_INVALID_DATA Bad_magic)
         else if header_size \<noteq> 64 then Inl (GError IO_INVALID_DATA Bad_header_size)
         else if version \<noteq> 1 then Inl (GError IO_INVALID_DATA Bad_version)
         else if sequence \<noteq> next_sequence then Inl (GError IO_INVALID_DATA Bad_sequence)
         else if payload_len > G_MAXSIZE \<or> event_type_len > G_MAXSIZE
         then Inl (GError IO_INVALID_DATA Length_overflow)
         else if event_type_len = 0 then Inl (GError IO_INVALID_DATA Zero_event_length)
         else if event_type_len > remaining_after_header \<or>
                 payload_len > remaining_after_header - event_type_len
         then Inl (GError IO_INVALID_DATA Length_malformed)
         else Inr (event_type_len, payload_len))"

text \<open>The rest of \<^verbatim>\<open>read_next\<close>: event type, payload, checksum.\<close>

definition verify_checksum :: "(bytes \<Rightarrow> bytes) \<Rightarrow> bytes \<Rightarrow> bytes \<Rightarrow> unit result" where
  "verify_checksum sha header body =
     (let computed = sha (take 32 header @ body)
      in if length computed \<noteq> 32 then Inl (GError IO_INVALID_DATA Bad_checksum_length)
         else if take 32 (drop 32 header) \<noteq> computed then Inl (GError IO_INVALID_DATA Bad_checksum)
         else Inr ())"

definition read_record :: "(bytes \<Rightarrow> bytes) \<Rightarrow> bytes \<Rightarrow> nat \<Rightarrow> u64 \<Rightarrow> nat \<Rightarrow> (nat \<times> bytes \<times> nat) result \<times> nat" where
  "read_record sha seg pos next_sequence remaining =
     bindP (read_exact seg pos RECORD_HEADER_SIZE) (\<lambda>header pos1.
       case parse_record_header next_sequence remaining header of
         Inl e \<Rightarrow> (Inl e, pos1)
       | Inr (event_type_len, payload_len) \<Rightarrow>
           bindP (read_exact seg pos1 event_type_len) (\<lambda>event_type_data pos2.
             case parse_event_type event_type_data of
               None \<Rightarrow> (Inl (GError IO_INVALID_DATA Unknown_event_type), pos2)
             | Some event_type \<Rightarrow>
                 bindP (read_exact seg pos2 payload_len) (\<lambda>payload_data pos3.
                   (bindE (verify_checksum sha header (event_type_data @ payload_data))
                     (\<lambda>_. Inr (event_type, payload_data,
                               RECORD_HEADER_SIZE + event_type_len + payload_len)), pos3))))"

definition read_next :: "(bytes \<Rightarrow> bytes) \<Rightarrow> journal_reader \<Rightarrow> read_outcome \<times> journal_reader" where
  "read_next sha r =
     (case rd_segment r of
        None \<Rightarrow> (At_eof, r)
      | Some seg \<Rightarrow>
          if rd_offset r \<ge> rd_file_size r then (At_eof, r)
          else if rd_file_size r - rd_offset r < RECORD_HEADER_SIZE
          then (Failed (GError IO_INVALID_DATA Truncated), r)
          else case read_record sha seg (rd_pos r) (rd_next_sequence r) (rd_file_size r - rd_offset r) of
            (Inl e, pos) \<Rightarrow> (Failed e, r\<lparr>rd_pos := pos\<rparr>)
          | (Inr (event_type, payload, record_size), pos) \<Rightarrow>
              (Got \<lparr>rec_offset = rd_offset r, rec_sequence = rd_next_sequence r,
                    rec_event_type = event_type, rec_payload = payload\<rparr>,
               r\<lparr>rd_pos := pos,
                 rd_offset := rd_offset r + record_size,
                 rd_next_sequence := rd_next_sequence r + 1\<rparr>))"

section \<open>What a read accepts\<close>

text \<open>
  The record at an offset as a wire format over the buffer: \<open>record_ok\<close> says which
  records can be written (a valid event type, a payload whose length fits the header, a
  32-byte digest).
\<close>

definition record_ok :: "(bytes \<Rightarrow> bytes) \<Rightarrow> u64 \<Rightarrow> nat \<times> bytes \<Rightarrow> bool" where
  "record_ok sha sequence r \<longleftrightarrow>
     (case event_type_to_string (fst r) of
        None \<Rightarrow> False
      | Some name \<Rightarrow>
          length (snd r) \<le> G_MAXSIZE \<and>
          length (sha (record_prefix (length name) sequence (length (snd r)) @ name @ snd r)) = 32)"

definition read_record_at :: "(bytes \<Rightarrow> bytes) \<Rightarrow> u64 \<Rightarrow> bytes \<Rightarrow> nat \<Rightarrow> ((nat \<times> bytes) \<times> nat) result" where
  "read_record_at sha sequence data off =
     (if length data - off < RECORD_HEADER_SIZE then Inl (GError IO_INVALID_DATA Truncated)
      else bindE (fst (read_record sha data off sequence (length data - off)))
             (\<lambda>(event_type, payload, record_size). Inr ((event_type, payload), off + record_size)))"

text \<open>What GLib documents of \<^verbatim>\<open>G_CHECKSUM_SHA256\<close> and the journal relies on.\<close>

definition sha256_like :: "(bytes \<Rightarrow> bytes) \<Rightarrow> bool" where
  "sha256_like sha \<longleftrightarrow> (\<forall>m. length (sha m) = 32)"

lemma length_record_prefix [simp]: "length (record_prefix n s m) = 32"
  by (simp add: record_prefix_def JOURNAL_MAGIC_def)

lemma length_JOURNAL_MAGIC [simp]: "length JOURNAL_MAGIC = 8"
  by (simp add: JOURNAL_MAGIC_def)

lemma bindP_Inr_iff:
  "bindP m f = (Inr y, p) \<longleftrightarrow> (\<exists>x q. m = (Inr x, q) \<and> f x q = (Inr y, p))"
  by (cases m; cases "fst m") auto

lemma read_exact_Inr [simp]:
  "read_exact seg pos n = (Inr xs, p) \<longleftrightarrow> n \<le> length seg - pos \<and> xs = take n (drop pos seg) \<and> p = pos + n"
  by (auto simp: read_exact_def)

lemma stands_within:
  "p + length w \<le> n \<Longrightarrow> stands (take n (drop off data)) p w \<longleftrightarrow> stands data (off + p) w"
  by (auto simp: stands_def drop_take add.commute min_def)

text \<open>The header checks amount to: the covered header bytes stand at the record's start.\<close>

lemma parse_record_header_Inr:
  assumes "off + 64 \<le> length data"
  shows "parse_record_header sequence remaining (take 64 (drop off data)) = Inr (el, pl) \<longleftrightarrow>
    stands data off (record_prefix el sequence pl) \<and> 0 < el \<and> el \<le> G_MAXUINT32 \<and> pl \<le> G_MAXSIZE \<and>
    el + pl \<le> remaining - 64"
proof -
  let ?h = "take 64 (drop off data)"
  define x where "x = read_u32_le ?h 12"
  define y where "y = read_u64_le ?h 24"
  have len: "length ?h = 64"
    using assms by simp
  have "stands data off (record_prefix el sequence pl) \<longleftrightarrow> stands ?h 0 (record_prefix el sequence pl)"
    using stands_within [of 0 "record_prefix el sequence pl" 64 off data] by simp
  also have "\<dots> \<longleftrightarrow> take 8 ?h = JOURNAL_MAGIC \<and> read_u16_le ?h 8 = 64 \<and> read_u16_le ?h 10 = 1 \<and>
      x = of_nat el \<and> read_u64_le ?h 16 = sequence \<and> y = of_nat pl"
    unfolding record_prefix_def stands_append stands_u16 stands_u32 stands_u64 x_def y_def
    using len by (simp add: stands_def)
  finally have pre: "stands data off (record_prefix el sequence pl) \<longleftrightarrow>
      take 8 ?h = JOURNAL_MAGIC \<and> read_u16_le ?h 8 = 64 \<and> read_u16_le ?h 10 = 1 \<and>
      x = of_nat el \<and> read_u64_le ?h 16 = sequence \<and> y = of_nat pl" .
  have words: "x = of_nat el \<and> el \<le> G_MAXUINT32 \<longleftrightarrow> unat x = el" "y = of_nat pl \<and> pl \<le> G_MAXSIZE \<longleftrightarrow> unat y = pl"
    using unat_u32_le [of x] unat_u64_le [of y] by (auto simp: unat_of_nat_u32 unat_of_nat_u64)
  have small: "\<not> unat y > G_MAXSIZE" "\<not> unat x > G_MAXSIZE"
    using unat_u32_le [of x] unat_u64_le [of y] by auto
  have "parse_record_header sequence remaining ?h = Inr (el, pl) \<longleftrightarrow>
      take 8 ?h = JOURNAL_MAGIC \<and> read_u16_le ?h 8 = 64 \<and> read_u16_le ?h 10 = 1 \<and>
      read_u64_le ?h 16 = sequence \<and> unat x = el \<and> unat y = pl \<and> el \<noteq> 0 \<and> el \<le> remaining - 64 \<and>
      pl \<le> remaining - 64 - el"
    unfolding parse_record_header_def Let_def x_def [symmetric] y_def [symmetric] if_Inl_Inr_iff
    using small by auto
  with pre words show ?thesis
    by auto
qed

lemma verify_checksum_Inr:
  "verify_checksum sha header body = Inr u \<longleftrightarrow>
     length (sha (take 32 header @ body)) = 32 \<and> take 32 (drop 32 header) = sha (take 32 header @ body)"
  by (auto simp: verify_checksum_def Let_def)

lemma record_bytes_eq:
  "event_type_to_string t = Some name \<Longrightarrow>
   record_bytes sha sequence (t, p) =
     record_prefix (length name) sequence (length p) @
     sha (record_prefix (length name) sequence (length p) @ name @ p) @ name @ p"
  by (simp add: record_bytes_def record_header_def Let_def)

lemma length_record_bytes:
  assumes "event_type_to_string t = Some name" "record_ok sha sequence (t, p)"
  shows "length (record_bytes sha sequence (t, p)) = 64 + length name + length p"
  using assms by (simp add: record_bytes_eq record_ok_def)

lemma read_record_Inr:
  assumes room64: "64 \<le> remaining" and within: "off + remaining \<le> length data"
  shows "read_record sha data off sequence remaining = (Inr (t, p, rs), pos) \<longleftrightarrow>
     record_ok sha sequence (t, p) \<and> stands data off (record_bytes sha sequence (t, p)) \<and>
     length (record_bytes sha sequence (t, p)) \<le> remaining \<and>
     rs = length (record_bytes sha sequence (t, p)) \<and> pos = off + rs"
    (is "?L \<longleftrightarrow> ?R")
proof
  let ?h = "take 64 (drop off data)"
  have h64: "off + 64 \<le> length data"
    using room64 within by simp
  assume ?L
  then obtain el pl where parsed: "parse_record_header sequence remaining ?h = Inr (el, pl)"
    and name: "parse_event_type (take el (drop (off + 64) data)) = Some t"
    and room: "el \<le> length data - (off + 64)" "pl \<le> length data - (off + 64 + el)"
    and p: "p = take pl (drop (off + 64 + el) data)"
    and sum: "verify_checksum sha ?h (take el (drop (off + 64) data) @ p) = Inr ()"
    and rs: "rs = 64 + el + pl" "pos = off + rs"
    by (auto simp: read_record_def bindP_Inr_iff bindE_Inr_iff
        split: sum.splits option.splits prod.splits)
  define name where "name = take el (drop (off + 64) data)"
  have h: "stands data off (record_prefix el sequence pl)" "el \<le> G_MAXUINT32" "pl \<le> G_MAXSIZE"
    "el + pl \<le> remaining - 64"
    using parsed parse_record_header_Inr [OF h64] by auto
  have len: "length name = el" "length p = pl"
    using room p by (auto simp: name_def)
  have str: "event_type_to_string t = Some name"
    using name by (simp add: parse_event_type_iff name_def)
  have pre: "take 32 ?h = record_prefix el sequence pl"
    using h(1) by (simp add: stands_def)
  have dig: "length (sha (record_prefix el sequence pl @ name @ p)) = 32"
    "take 32 (drop (off + 32) data) = sha (record_prefix el sequence pl @ name @ p)"
    using sum unfolding verify_checksum_Inr pre name_def [symmetric] by (simp_all add: drop_take add.commute)
  have ok: "record_ok sha sequence (t, p)"
    using str len dig(1) h(3) by (simp add: record_ok_def)
  have "stands data (off + 32) (sha (record_prefix el sequence pl @ name @ p))"
    using dig by (simp add: stands_def)
  moreover have "stands data (off + 64) name" "stands data (off + 64 + el) p"
    using len p by (simp_all add: stands_def name_def)
  ultimately have "stands data off (record_bytes sha sequence (t, p))"
    using h(1) len dig(1) by (simp add: record_bytes_eq [OF str] stands_append add.assoc)
  with ok rs len h(4) room64 show ?R
    by (simp add: length_record_bytes [OF str])
next
  let ?h = "take 64 (drop off data)"
  have h64: "off + 64 \<le> length data"
    using room64 within by simp
  assume ?R
  then have ok: "record_ok sha sequence (t, p)" and st: "stands data off (record_bytes sha sequence (t, p))"
    and fits: "length (record_bytes sha sequence (t, p)) \<le> remaining"
    and rs: "rs = length (record_bytes sha sequence (t, p))" "pos = off + rs" by auto
  from ok obtain name where str: "event_type_to_string t = Some name"
    by (auto simp: record_ok_def split: option.splits)
  let ?pre = "record_prefix (length name) sequence (length p)"
  let ?d = "sha (?pre @ name @ p)"
  have dig: "length ?d = 32" and pl: "length p \<le> G_MAXSIZE"
    using ok str by (auto simp: record_ok_def)
  have parts: "stands data off ?pre" "stands data (off + 32) ?d" "stands data (off + 64) name"
    "stands data (off + 64 + length name) p"
    using st dig unfolding record_bytes_eq [OF str] stands_append by (simp_all add: add.assoc)
  have room: "length name + length p \<le> remaining - 64"
    using fits length_record_bytes [OF str ok] by simp
  have bounds: "0 < length name" "length name \<le> G_MAXUINT32"
    using event_name_length_bounds [OF str] by (auto simp: max_event_type_len_eq)
  have parsed: "parse_record_header sequence remaining ?h = Inr (length name, length p)"
    using parts(1) bounds pl room unfolding parse_record_header_Inr [OF h64] by simp
  have tk: "take (length name) (drop (off + 64) data) = name"
    "take (length p) (drop (off + 64 + length name) data) = p"
    using parts by (simp_all add: stands_def)
  have pre: "take 32 ?h = ?pre" and hd: "take 32 (drop 32 ?h) = ?d"
    using parts(1,2) dig by (simp_all add: stands_def drop_take add.commute)
  have sum: "verify_checksum sha ?h (name @ p) = Inr ()"
    unfolding verify_checksum_Inr pre hd by (simp add: dig)
  have "parse_event_type name = Some t"
    using str by (simp add: parse_event_type_iff)
  then show ?L
    using room64 within parsed room tk sum rs length_record_bytes [OF str ok]
    by (auto simp: read_record_def read_exact_def add.commute add.left_commute)
qed

interpretation rec_wire: wire_format "record_bytes sha sequence" "read_record_at sha sequence" "record_ok sha sequence"
  for sha sequence
proof
  fix data off and x :: "nat \<times> bytes" and off'
  obtain t p where x: "x = (t, p)" by (cases x)
  show "read_record_at sha sequence data off = Inr (x, off') \<longleftrightarrow>
      record_ok sha sequence x \<and> stands data off (record_bytes sha sequence x) \<and>
      off' = off + length (record_bytes sha sequence x)"
  proof (cases "off + 64 \<le> length data")
    case True
    have r: "64 \<le> length data - off" "off + (length data - off) \<le> length data"
      using True by auto
    have "fst (read_record sha data off sequence (length data - off)) = Inr (t, p, rs) \<longleftrightarrow>
        record_ok sha sequence (t, p) \<and> stands data off (record_bytes sha sequence (t, p)) \<and>
        rs = length (record_bytes sha sequence (t, p))" for rs
    proof -
      have "fst m = x \<longleftrightarrow> (\<exists>q. m = (x, q))" for m :: "(nat \<times> bytes \<times> nat) result \<times> nat" and x
        by (cases m) auto
      then show ?thesis
        using stands_length [of data off "record_bytes sha sequence (t, p)"]
        by (auto simp: read_record_Inr [OF r])
    qed
    with True show ?thesis
      by (auto simp: x read_record_at_def bindE_Inr_iff)
  next
    case False
    have "\<not> (record_ok sha sequence x \<and> stands data off (record_bytes sha sequence x))"
    proof
      assume h: "record_ok sha sequence x \<and> stands data off (record_bytes sha sequence x)"
      then obtain name where str: "event_type_to_string t = Some name"
        by (auto simp: x record_ok_def split: option.splits)
      have "64 \<le> length data - off"
        using h length_record_bytes [OF str, of sha sequence p] stands_length [of data off "record_bytes sha sequence x"]
        by (auto simp: x)
      with False show False by simp
    qed
    with False show ?thesis
      by (auto simp: read_record_at_def)
  qed
qed

text \<open>A digest for concrete examples: nothing in the development needs it to tell inputs apart.\<close>

abbreviation zero_digest :: "bytes \<Rightarrow> bytes" where
  "zero_digest \<equiv> \<lambda>m. replicate 32 0"

end
