(* ===== verification/Journal_Reader.thy ===== *)
theory Journal_Reader
  imports Journal_Record
begin

text \<open>
  What reading a journal from its start yields, and seeking to a checkpoint
  (\<^verbatim>\<open>wyrebox-journal-reader.c\<close>).

  \<open>log_bytes\<close> is the abstract content of a segment: the records of a list written one
  after another with increasing sequence numbers. The lemmas show that the reader accepts
  a segment exactly when it is such a log and then returns its records.
\<close>

section \<open>Logs\<close>

fun log_bytes :: "(bytes \<Rightarrow> bytes) \<Rightarrow> u64 \<Rightarrow> (nat \<times> bytes) list \<Rightarrow> bytes" where
  "log_bytes sha s [] = []"
| "log_bytes sha s (r # rs) = record_bytes sha s r @ log_bytes sha (s + 1) rs"

fun log_ok :: "(bytes \<Rightarrow> bytes) \<Rightarrow> u64 \<Rightarrow> (nat \<times> bytes) list \<Rightarrow> bool" where
  "log_ok sha s [] \<longleftrightarrow> True"
| "log_ok sha s (r # rs) \<longleftrightarrow> record_ok sha s r \<and> log_ok sha (s + 1) rs"

fun log_records :: "(bytes \<Rightarrow> bytes) \<Rightarrow> nat \<Rightarrow> u64 \<Rightarrow> (nat \<times> bytes) list \<Rightarrow> journal_record list" where
  "log_records sha off s [] = []"
| "log_records sha off s (r # rs) =
     \<lparr>rec_offset = off, rec_sequence = s, rec_event_type = fst r, rec_payload = snd r\<rparr> #
     log_records sha (off + length (record_bytes sha s r)) (s + 1) rs"

lemma log_bytes_append:
  "log_bytes sha s (rs @ qs) = log_bytes sha s rs @ log_bytes sha (s + of_nat (length rs)) qs"
  by (induction rs arbitrary: s) (simp_all add: add.assoc)

lemma log_bytes_split:
  assumes "m < length rs"
  shows "log_bytes sha s rs = log_bytes sha s (take m rs) @ record_bytes sha (s + of_nat m) (rs ! m) @
     log_bytes sha (s + of_nat m + 1) (drop (Suc m) rs)"
proof -
  have "log_bytes sha s rs = log_bytes sha s (take m rs @ rs ! m # drop (Suc m) rs)"
    using id_take_nth_drop [OF assms] by simp
  with assms show ?thesis
    unfolding log_bytes_append by (simp add: min_def)
qed

lemma log_ok_append:
  "log_ok sha s (rs @ qs) \<longleftrightarrow> log_ok sha s rs \<and> log_ok sha (s + of_nat (length rs)) qs"
  by (induction rs arbitrary: s) (auto simp: add.assoc)

lemma log_records_append:
  "log_records sha off s (rs @ qs) =
   log_records sha off s rs @ log_records sha (off + length (log_bytes sha s rs)) (s + of_nat (length rs)) qs"
  by (induction rs arbitrary: off s) (simp_all add: add.assoc)

lemma length_log_records [simp]: "length (log_records sha off s rs) = length rs"
  by (induction rs arbitrary: off s) simp_all

lemma log_records_sequences:
  "map rec_sequence (log_records sha off s rs) = map (\<lambda>i. s + of_nat i) [0..<length rs]"
proof (induction rs arbitrary: off s)
  case (Cons r rs)
  have "[0..<length (r # rs)] = 0 # map Suc [0..<length rs]"
    by (simp add: map_Suc_upt upt_conv_Cons del: upt_Suc)
  then show ?case
    using Cons by (simp add: add.assoc del: upt_Suc)
qed simp

lemma log_records_content:
  "map (\<lambda>r. (rec_event_type r, rec_payload r)) (log_records sha off s rs) = rs"
  by (induction rs arbitrary: off s) simp_all

lemma record_ok_length:
  assumes "record_ok sha s r"
  shows "64 < length (record_bytes sha s r)"
proof -
  obtain t p where r: "r = (t, p)" by (cases r)
  with assms obtain name where str: "event_type_to_string t = Some name"
    by (auto simp: record_ok_def split: option.splits)
  show ?thesis
    using length_record_bytes [OF str assms [unfolded r]] event_name_length_bounds [OF str] r by simp
qed

lemma log_ok_drop_sequence:
  "log_ok sha s rs \<Longrightarrow> i < length rs \<Longrightarrow> record_ok sha (s + of_nat i) (rs ! i)"
proof (induction rs arbitrary: s i)
  case (Cons r rs)
  then show ?case
    using Cons.IH [of "s + 1" "i - 1"] by (cases i) (auto simp: add.assoc)
qed simp

section \<open>Reading on\<close>

text \<open>A reader over a segment whose descriptor stands at its offset.\<close>

definition reader_on :: "bytes \<Rightarrow> nat \<Rightarrow> nat \<Rightarrow> u64 \<Rightarrow> journal_reader" where
  "reader_on seg limit off s =
     \<lparr>rd_segment = Some seg, rd_pos = off, rd_next_sequence = s, rd_file_size = limit, rd_offset = off\<rparr>"

lemma read_next_Got:
  assumes "limit \<le> length seg"
  shows "read_next sha (reader_on seg limit off s) = (Got rec, r') \<longleftrightarrow>
     (\<exists>t p. record_ok sha s (t, p) \<and> stands (take limit seg) off (record_bytes sha s (t, p)) \<and>
        rec = \<lparr>rec_offset = off, rec_sequence = s, rec_event_type = t, rec_payload = p\<rparr> \<and>
        r' = reader_on seg limit (off + length (record_bytes sha s (t, p))) (s + 1))"
    (is "?L \<longleftrightarrow> ?R")
proof (cases "off + 64 \<le> limit")
  case True
  have r: "64 \<le> limit - off" "off + (limit - off) \<le> length seg"
    using True assms by auto
  have fits: "stands (take limit seg) off w \<longleftrightarrow> stands seg off w \<and> length w \<le> limit - off" for w
    using True by (auto simp: stands_take)
  have "?L \<longleftrightarrow> (\<exists>t p rs pos. read_record sha seg off s (limit - off) = (Inr (t, p, rs), pos) \<and>
      rec = \<lparr>rec_offset = off, rec_sequence = s, rec_event_type = t, rec_payload = p\<rparr> \<and>
      r' = \<lparr>rd_segment = Some seg, rd_pos = pos, rd_next_sequence = s + 1,
            rd_file_size = limit, rd_offset = off + rs\<rparr>)"
    using True unfolding read_next_def reader_on_def
    by (cases "read_record sha seg off s (limit - off)"; cases "fst (read_record sha seg off s (limit - off))") auto
  also have "\<dots> \<longleftrightarrow> ?R"
    unfolding read_record_Inr [OF r] reader_on_def fits by auto
  finally show ?thesis .
next
  case False
  have "\<not> ?R"
  proof
    assume ?R
    then obtain t p where h: "record_ok sha s (t, p)" "stands (take limit seg) off (record_bytes sha s (t, p))"
      by auto
    have "length (record_bytes sha s (t, p)) \<le> limit - off"
      using stands_length [OF h(2)] by auto
    with record_ok_length [OF h(1)] False show False by simp
  qed
  moreover have "\<not> ?L"
    using False by (auto simp: read_next_def reader_on_def)
  ultimately show ?thesis by blast
qed

lemma read_next_At_eof:
  "fst (read_next sha r) = At_eof \<longleftrightarrow> rd_segment r = None \<or> rd_file_size r \<le> rd_offset r"
  by (auto simp: read_next_def split: option.splits sum.splits prod.splits)

lemma read_next_advances:
  "read_next sha r = (Got rec, r') \<Longrightarrow> rd_file_size r' = rd_file_size r \<and>
     rd_offset r < rd_file_size r \<and> rd_offset r < rd_offset r'"
  by (auto simp: read_next_def read_record_def bindP_Inr_iff bindE_Inr_iff
      split: option.splits sum.splits prod.splits if_splits)

text \<open>
  The loop every client of the reader writes (\<^verbatim>\<open>replay_existing_segment\<close> among them):
  \<^verbatim>\<open>read_next\<close> until it fails; at the end of the journal there is no error.
\<close>

function read_all ::
  "(bytes \<Rightarrow> bytes) \<Rightarrow> journal_reader \<Rightarrow> journal_record list \<times> gerror option \<times> journal_reader" where
  "read_all sha r =
     (case read_next sha r of
        (Got rec, r') \<Rightarrow> (case read_all sha r' of (recs, e, r'') \<Rightarrow> (rec # recs, e, r''))
      | (At_eof, r') \<Rightarrow> ([], None, r')
      | (Failed e, r') \<Rightarrow> ([], Some e, r'))"
  by auto
termination
  by (relation "measure (\<lambda>(sha, r). rd_file_size r - rd_offset r)")
    (auto dest!: sym [of "(_, _)"] read_next_advances)

declare read_all.simps [simp del]

lemma read_all_Got:
  "read_next sha r = (Got rec, r') \<Longrightarrow> read_all sha r = (case read_all sha r' of (recs, e, r'') \<Rightarrow> (rec # recs, e, r''))"
  by (subst read_all.simps) simp

lemma read_all_At_eof: "read_next sha r = (At_eof, r') \<Longrightarrow> read_all sha r = ([], None, r')"
  by (subst read_all.simps) simp

lemma read_all_Failed: "read_next sha r = (Failed e, r') \<Longrightarrow> read_all sha r = ([], Some e, r')"
  by (subst read_all.simps) simp

text \<open>
  Whatever the segment holds, the records returned are a log that stands at the reader's
  offset, and the reader has moved past it.
\<close>

lemma read_all_returns_log:
  assumes "limit \<le> length seg" "read_all sha (reader_on seg limit off s) = (recs, e, r')"
  shows "\<exists>rs. log_ok sha s rs \<and> stands (take limit seg) off (log_bytes sha s rs) \<and> recs = log_records sha off s rs \<and>
      rd_offset r' = off + length (log_bytes sha s rs) \<and> rd_next_sequence r' = s + of_nat (length rs) \<and>
      (e = None \<longleftrightarrow> limit \<le> rd_offset r')"
  using assms(2)
proof (induction recs arbitrary: off s)
  case Nil
  obtain o' q where n: "read_next sha (reader_on seg limit off s) = (o', q)"
    by (cases "read_next sha (reader_on seg limit off s)")
  show ?case
  proof (cases o')
    case (Got rec)
    with n Nil show ?thesis
      by (auto simp: read_all_Got split: prod.splits)
  next
    case At_eof
    then have "limit \<le> off"
      using read_next_At_eof [of sha "reader_on seg limit off s"] n by (simp add: reader_on_def)
    moreover have "q = reader_on seg limit off s"
      using n At_eof by (auto simp: read_next_def split: option.splits sum.splits prod.splits if_splits)
    ultimately show ?thesis
      using Nil read_all_At_eof [of sha "reader_on seg limit off s" q] n At_eof
      by (intro exI [of _ "[]"]) (auto simp: reader_on_def)
  next
    case (Failed err)
    then have "\<not> limit \<le> off"
      using read_next_At_eof [of sha "reader_on seg limit off s"] n by (auto simp: reader_on_def)
    moreover have "rd_offset q = off" "rd_next_sequence q = s"
      using n Failed
      by (auto simp: read_next_def reader_on_def split: option.splits sum.splits prod.splits if_splits)
    ultimately show ?thesis
      using Nil read_all_Failed [of sha "reader_on seg limit off s" err q] n Failed
      by (intro exI [of _ "[]"]) auto
  qed
next
  case (Cons rec recs)
  obtain o' q where n: "read_next sha (reader_on seg limit off s) = (o', q)"
    by (cases "read_next sha (reader_on seg limit off s)")
  with Cons.prems obtain g where g: "o' = Got g"
    by (cases o') (auto simp: read_all_At_eof read_all_Failed)
  then obtain t p where r: "record_ok sha s (t, p)" "stands (take limit seg) off (record_bytes sha s (t, p))"
    "g = \<lparr>rec_offset = off, rec_sequence = s, rec_event_type = t, rec_payload = p\<rparr>"
    "q = reader_on seg limit (off + length (record_bytes sha s (t, p))) (s + 1)"
    using n read_next_Got [OF assms(1), of sha off s g q] by auto
  have "rec = g" "read_all sha q = (recs, e, r')"
    using Cons.prems n g read_all_Got [of sha "reader_on seg limit off s" g q] by (auto split: prod.splits)
  with Cons.IH [of "off + length (record_bytes sha s (t, p))" "s + 1"] r
  obtain rs where rs: "log_ok sha (s + 1) rs"
    "stands (take limit seg) (off + length (record_bytes sha s (t, p))) (log_bytes sha (s + 1) rs)"
    "recs = log_records sha (off + length (record_bytes sha s (t, p))) (s + 1) rs"
    "rd_offset r' = off + length (record_bytes sha s (t, p)) + length (log_bytes sha (s + 1) rs)"
    "rd_next_sequence r' = s + 1 + of_nat (length rs)" "e = None \<longleftrightarrow> limit \<le> rd_offset r'"
    by auto
  show ?case
    by (intro exI [of _ "(t, p) # rs"]) (use rs r \<open>rec = g\<close> in \<open>simp add: stands_append add.assoc\<close>)
qed

text \<open>A log at the reader's offset is read record by record.\<close>

lemma read_all_stands:
  assumes "limit \<le> length seg" "log_ok sha s rs" "stands (take limit seg) off (log_bytes sha s rs)"
  shows "read_all sha (reader_on seg limit off s) =
     (case read_all sha (reader_on seg limit (off + length (log_bytes sha s rs)) (s + of_nat (length rs))) of
        (recs, e, r') \<Rightarrow> (log_records sha off s rs @ recs, e, r'))"
  using assms(2,3)
proof (induction rs arbitrary: off s)
  case Nil
  then show ?case by simp
next
  case (Cons r rs)
  obtain t p where r: "r = (t, p)" by (cases r)
  let ?q = "reader_on seg limit (off + length (record_bytes sha s r)) (s + 1)"
  have "read_next sha (reader_on seg limit off s) =
      (Got \<lparr>rec_offset = off, rec_sequence = s, rec_event_type = t, rec_payload = p\<rparr>, ?q)"
    using Cons.prems r by (auto simp: read_next_Got [OF assms(1)] stands_append)
  then show ?case
    using Cons.IH [of "s + 1" "off + length (record_bytes sha s r)"] Cons.prems r
    by (simp add: read_all_Got stands_append add.assoc split: prod.splits)
qed

lemma read_all_at_end:
  assumes "limit \<le> off"
  shows "read_all sha (reader_on seg limit off s) = ([], None, reader_on seg limit off s)"
proof -
  have "read_next sha (reader_on seg limit off s) = (At_eof, reader_on seg limit off s)"
    using assms by (simp add: read_next_def reader_on_def)
  then show ?thesis
    by (rule read_all_At_eof)
qed

lemma read_all_log:
  assumes "limit \<le> length seg" "log_ok sha s rs" "stands (take limit seg) off (log_bytes sha s rs)"
    "off + length (log_bytes sha s rs) = limit"
  shows "read_all sha (reader_on seg limit off s) =
     (log_records sha off s rs, None, reader_on seg limit limit (s + of_nat (length rs)))"
  using read_all_stands [OF assms(1-3)] assms(4) by (simp add: read_all_at_end)

text \<open>
  A reader opened at the limit \<open>limit\<close> reads to its end without an error exactly when the
  bytes below the limit are a log, and then returns the records of that log.
\<close>

lemma read_all_iff_log:
  assumes "limit \<le> length seg"
  shows "(\<exists>r'. read_all sha (reader_on seg limit 0 s) = (recs, None, r')) \<longleftrightarrow>
     (\<exists>rs. log_ok sha s rs \<and> take limit seg = log_bytes sha s rs \<and> recs = log_records sha 0 s rs)"
    (is "?L \<longleftrightarrow> ?R")
proof
  assume ?L
  then obtain r' where "read_all sha (reader_on seg limit 0 s) = (recs, None, r')" by blast
  from read_all_returns_log [OF assms this] obtain rs where
    rs: "log_ok sha s rs" "stands (take limit seg) 0 (log_bytes sha s rs)" "recs = log_records sha 0 s rs"
    "limit \<le> length (log_bytes sha s rs)" by auto
  have "take limit seg = log_bytes sha s rs"
    using stands_length [OF rs(2)] rs(2,4) assms by (intro stands_whole) auto
  with rs show ?R by blast
next
  assume ?R
  then obtain rs where rs: "log_ok sha s rs" "take limit seg = log_bytes sha s rs" "recs = log_records sha 0 s rs"
    by blast
  have "length (log_bytes sha s rs) = limit"
    using rs(2) assms by (metis length_take min.absorb2)
  with read_all_log [OF assms rs(1), of 0] rs show ?L
    by auto
qed

lemma log_records_offsets:
  "log_ok sha s rs \<Longrightarrow> sorted_wrt (<) (map rec_offset (log_records sha off s rs)) \<and>
   (\<forall>r \<in> set (log_records sha off s rs). off \<le> rec_offset r \<and> rec_offset r < off + length (log_bytes sha s rs))"
proof (induction rs arbitrary: off s)
  case (Cons r rs)
  then have r: "64 < length (record_bytes sha s r)" and rs: "log_ok sha (s + 1) rs"
    using record_ok_length by auto
  from Cons.IH [OF rs, of "off + length (record_bytes sha s r)"] r show ?case
    by fastforce
qed simp

lemma log_records_inject:
  "log_records sha off s rs = log_records sha off s qs \<Longrightarrow> rs = qs"
  by (metis log_records_content)

lemma log_bytes_inject:
  assumes "log_ok sha s rs" "log_ok sha s qs" "log_bytes sha s rs = log_bytes sha s qs"
  shows "rs = qs"
proof -
  let ?seg = "log_bytes sha s rs"
  have "read_all sha (reader_on ?seg (length ?seg) 0 s) =
      (log_records sha 0 s xs, None, reader_on ?seg (length ?seg) (length ?seg) (s + of_nat (length xs)))"
    if "log_ok sha s xs" "log_bytes sha s xs = ?seg" for xs
    using that by (intro read_all_log) auto
  from this [OF assms(1)] this [OF assms(2)] show ?thesis
    using assms(3) by (auto intro: log_records_inject)
qed

section \<open>Seeking after a checkpoint\<close>

definition seek_after_checkpoint ::
  "(bytes \<Rightarrow> bytes) \<Rightarrow> journal_reader \<Rightarrow> nat \<Rightarrow> u64 \<Rightarrow> unit result \<times> journal_reader" where
  "seek_after_checkpoint sha r checkpoint_offset checkpoint_sequence =
     (if rd_segment r = None \<or> checkpoint_offset \<ge> rd_file_size r \<or> checkpoint_offset > G_MAXINT64
      then (Inl (GError IO_INVALID_DATA (Invalid_value ''checkpoint offset'')), r)
      else case read_next sha (r\<lparr>rd_pos := checkpoint_offset, rd_offset := checkpoint_offset,
                                 rd_next_sequence := checkpoint_sequence\<rparr>) of
        (Failed e, r') \<Rightarrow> (Inl e, r')
      | (At_eof, r') \<Rightarrow> (Inl (GError IO_INVALID_DATA (Invalid_value ''checkpoint past EOF'')), r')
      | (Got rec, r') \<Rightarrow>
          if rec_offset rec \<noteq> checkpoint_offset \<or> rec_sequence rec \<noteq> checkpoint_sequence
          then (Inl (GError IO_INVALID_DATA Checkpoint_mismatch), r')
          else (Inr (), r'))"

lemma seek_after_checkpoint_Inr:
  assumes "rd_segment r = Some seg" "rd_file_size r \<le> length seg"
  shows "seek_after_checkpoint sha r off s = (Inr u, r') \<longleftrightarrow> off \<le> G_MAXINT64 \<and>
     (\<exists>t p. record_ok sha s (t, p) \<and> stands (take (rd_file_size r) seg) off (record_bytes sha s (t, p)) \<and>
        r' = reader_on seg (rd_file_size r) (off + length (record_bytes sha s (t, p))) (s + 1))"
    (is "?L \<longleftrightarrow> ?R")
proof -
  let ?n = "rd_file_size r"
  have on: "r\<lparr>rd_pos := off, rd_offset := off, rd_next_sequence := s\<rparr> = reader_on seg ?n off s"
    using assms(1) by (cases r) (simp add: reader_on_def)
  have below: "off < ?n" if "record_ok sha s (t, p)" "stands (take ?n seg) off (record_bytes sha s (t, p))" for t p
    using record_ok_length [OF that(1)] stands_length [OF that(2)] by auto
  have "?L \<longleftrightarrow> off < ?n \<and> off \<le> G_MAXINT64 \<and>
      (\<exists>rec. read_next sha (reader_on seg ?n off s) = (Got rec, r') \<and> rec_offset rec = off \<and> rec_sequence rec = s)"
    using assms(1)
    by (auto simp: seek_after_checkpoint_def on split: prod.splits read_outcome.splits if_splits)
  also have "\<dots> \<longleftrightarrow> ?R"
    unfolding read_next_Got [OF assms(2)] using below by fastforce
  finally show ?thesis .
qed

end
