(* ===== verification/Journal_Scan.thy ===== *)
theory Journal_Scan
  imports Journal_Reader
begin

text \<open>
  The scan for the longest safe prefix of a segment
  (\<^verbatim>\<open>wyrebox_journal_reader_scan_safe_prefix\<close> and its helpers in
  \<^verbatim>\<open>wyrebox-journal-reader.c\<close>): it walks the records from the start and classifies
  why it stopped. Torn record recovery rests on that classification.

  \<^item> The scan reads with \<^verbatim>\<open>pread\<close>, so it has an offset of its own.
  \<^item> The checksum is fed in pieces of 8192 bytes; \<open>pread_chunks\<close> keeps that loop, and
    \<open>pread_chunks_eq\<close> shows that the pieces make up the payload.
\<close>

section \<open>State\<close>

datatype stop_reason =
    STOP_EOF
  | STOP_MISSING_SEGMENT
  | STOP_EMPTY_SEGMENT
  | STOP_PARTIAL_HEADER
  | STOP_PARTIAL_RECORD
  | STOP_INVALID_MAGIC
  | STOP_INVALID_HEADER_SIZE
  | STOP_INVALID_VERSION
  | STOP_INVALID_SEQUENCE
  | STOP_INVALID_SIZE
  | STOP_ZERO_EVENT_TYPE_LENGTH
  | STOP_UNKNOWN_EVENT_TYPE
  | STOP_CHECKSUM_MISMATCH

record safe_prefix =
  safe_end_offset :: nat
  last_safe_sequence :: u64
  has_last_safe_sequence :: bool
  reached_eof :: bool
  unsafe_suffix_found :: bool
  stopped_by :: stop_reason
  unsafe_offset :: nat
  unsafe_available_size :: nat
  unsafe_required_size :: nat

definition safe_prefix_init :: safe_prefix where
  "safe_prefix_init = \<lparr>safe_end_offset = 0, last_safe_sequence = 0, has_last_safe_sequence = False,
     reached_eof = False, unsafe_suffix_found = False, stopped_by = STOP_EOF, unsafe_offset = 0,
     unsafe_available_size = 0, unsafe_required_size = 0\<rparr>"

definition safe_prefix_set_unsafe ::
  "safe_prefix \<Rightarrow> stop_reason \<Rightarrow> nat \<Rightarrow> nat \<Rightarrow> nat \<Rightarrow> nat \<Rightarrow> safe_prefix" where
  "safe_prefix_set_unsafe prefix reason uoffset safe_end available_size required_size =
     prefix\<lparr>reached_eof := False, unsafe_suffix_found := True, stopped_by := reason,
            safe_end_offset := safe_end, unsafe_offset := uoffset,
            unsafe_available_size := available_size, unsafe_required_size := required_size\<rparr>"

section \<open>Torn headers\<close>

definition fixed_header_field_prefix_matches :: "bytes \<Rightarrow> nat \<Rightarrow> nat \<Rightarrow> bytes \<Rightarrow> bool" where
  "fixed_header_field_prefix_matches header available_size field_offset expected =
     (if available_size \<le> field_offset then True
      else let available_in_field = min (available_size - field_offset) (length expected)
           in take available_in_field (drop field_offset header) = take available_in_field expected)"

definition classify_partial_header_prefix :: "bytes \<Rightarrow> nat \<Rightarrow> u64 \<Rightarrow> stop_reason" where
  "classify_partial_header_prefix header available_size expected_sequence =
     (let event_len32 = read_u32_le header 12;
          payload_len = unat (read_u64_le header 24);
          event_type_len = unat event_len32
      in if \<not> fixed_header_field_prefix_matches header available_size 0 JOURNAL_MAGIC
         then STOP_INVALID_MAGIC
         else if \<not> fixed_header_field_prefix_matches header available_size 8 (write_u16_le 64)
         then STOP_INVALID_HEADER_SIZE
         else if \<not> fixed_header_field_prefix_matches header available_size 10 (write_u16_le 1)
         then STOP_INVALID_VERSION
         else if available_size > 12 \<and>
           \<not> event_type_length_prefix_is_canonical (take (min 4 (available_size - 12)) (drop 12 header))
         then STOP_UNKNOWN_EVENT_TYPE
         else if available_size \<ge> 16 \<and> event_len32 = 0 then STOP_ZERO_EVENT_TYPE_LENGTH
         else if available_size \<ge> 16 \<and> event_type_len > G_MAXSIZE then STOP_INVALID_SIZE
         else if available_size \<ge> 16 \<and> \<not> event_type_length_is_canonical event_type_len
         then STOP_UNKNOWN_EVENT_TYPE
         else if \<not> fixed_header_field_prefix_matches header available_size 16 (write_u64_le expected_sequence)
         then STOP_INVALID_SEQUENCE
         else if available_size \<ge> 32 \<and> payload_len > G_MAXSIZE then STOP_INVALID_SIZE
         else if available_size \<ge> 32 \<and>
           (event_type_len > G_MAXUINT64 - RECORD_HEADER_SIZE \<or>
            payload_len > G_MAXUINT64 - RECORD_HEADER_SIZE - event_type_len)
         then STOP_INVALID_SIZE
         else STOP_PARTIAL_HEADER)"

section \<open>One record\<close>

definition pread_exact :: "bytes \<Rightarrow> nat \<Rightarrow> nat \<Rightarrow> bytes result" where
  "pread_exact seg offset n =
     (if n = 0 then Inr []
      else if offset > G_MAXINT64 then Inl (GError IO_INVALID_DATA Offset_too_large)
      else if n \<le> length seg - offset then Inr (take n (drop offset seg))
      else Inl (GError IO_INVALID_DATA Truncated))"

function pread_chunks :: "bytes \<Rightarrow> nat \<Rightarrow> nat \<Rightarrow> bytes result" where
  "pread_chunks seg payload_offset payload_remaining =
     (if payload_remaining = 0 then Inr []
      else let read_size = (if payload_remaining > 8192 then 8192 else payload_remaining)
           in bindE (pread_exact seg payload_offset read_size) (\<lambda>payload_buffer.
              bindE (pread_chunks seg (payload_offset + read_size) (payload_remaining - read_size))
                (\<lambda>rest. Inr (payload_buffer @ rest))))"
  by auto
termination by (relation "measure (\<lambda>(seg, off, n). n)") auto

declare pread_chunks.simps [simp del]

text \<open>
  The body of the loop: either the record is accepted with its size, or the scan stops with a
  reason, the available and the required size.
\<close>

datatype scan_step = Accept nat | Stop stop_reason nat nat

definition scan_header_checks :: "u64 \<Rightarrow> nat \<Rightarrow> bytes \<Rightarrow> scan_step + (nat \<times> nat)" where
  "scan_header_checks expected_sequence remaining header =
     (let header_size = read_u16_le header 8;
          version = read_u16_le header 10;
          event_type_len = unat (read_u32_le header 12);
          sequence = read_u64_le header 16;
          payload_len = unat (read_u64_le header 24)
      in if take 8 header \<noteq> JOURNAL_MAGIC then Inl (Stop STOP_INVALID_MAGIC remaining 0)
         else if header_size \<noteq> 64
         then Inl (Stop STOP_INVALID_HEADER_SIZE remaining RECORD_HEADER_SIZE)
         else if version \<noteq> 1 then Inl (Stop STOP_INVALID_VERSION remaining 0)
         else if sequence \<noteq> expected_sequence then Inl (Stop STOP_INVALID_SEQUENCE remaining 0)
         else if payload_len > G_MAXSIZE \<or> event_type_len > G_MAXSIZE
         then Inl (Stop STOP_INVALID_SIZE remaining 0)
         else if event_type_len = 0 then Inl (Stop STOP_ZERO_EVENT_TYPE_LENGTH remaining 0)
         else if event_type_len > max_event_type_len
         then Inl (Stop STOP_UNKNOWN_EVENT_TYPE remaining 0)
         else if \<not> event_type_length_is_canonical event_type_len
         then Inl (Stop STOP_UNKNOWN_EVENT_TYPE remaining 0)
         else if event_type_len > G_MAXUINT64 - RECORD_HEADER_SIZE \<or>
                 payload_len > G_MAXUINT64 - RECORD_HEADER_SIZE - event_type_len
         then Inl (Stop STOP_INVALID_SIZE remaining 0)
         else Inr (event_type_len, payload_len))"

text \<open>A record whose header is complete but which the segment cuts off.\<close>

definition scan_torn_record :: "bytes \<Rightarrow> nat \<Rightarrow> nat \<Rightarrow> nat \<Rightarrow> nat \<Rightarrow> scan_step result" where
  "scan_torn_record seg offset remaining event_type_len record_size =
     (let remaining_after_header = remaining - RECORD_HEADER_SIZE;
          unknown = Stop STOP_UNKNOWN_EVENT_TYPE remaining 0;
          partial = Stop STOP_PARTIAL_RECORD remaining record_size
      in if remaining_after_header \<ge> event_type_len then
           bindE (pread_exact seg (offset + RECORD_HEADER_SIZE) event_type_len) (\<lambda>event_type_data.
             Inr (if parse_event_type event_type_data = None then unknown else partial))
         else if remaining_after_header > 0 then
           bindE (pread_exact seg (offset + RECORD_HEADER_SIZE) remaining_after_header) (\<lambda>event_type_data.
             Inr (if \<not> event_type_prefix_is_plausible event_type_data event_type_len
                  then unknown else partial))
         else Inr partial)"

definition scan_full_record ::
  "(bytes \<Rightarrow> bytes) \<Rightarrow> bytes \<Rightarrow> nat \<Rightarrow> bytes \<Rightarrow> nat \<Rightarrow> nat \<Rightarrow> scan_step result" where
  "scan_full_record sha seg offset header event_type_len payload_len =
     (let record_size = RECORD_HEADER_SIZE + event_type_len + payload_len
      in bindE (pread_exact seg (offset + RECORD_HEADER_SIZE) event_type_len) (\<lambda>event_type_data.
         if parse_event_type event_type_data = None
         then Inr (Stop STOP_UNKNOWN_EVENT_TYPE record_size 0)
         else bindE (pread_chunks seg (offset + RECORD_HEADER_SIZE + event_type_len) payload_len) (\<lambda>payload.
           let computed_checksum = sha (take 32 header @ event_type_data @ payload)
           in if length computed_checksum \<noteq> 32 then Inl (GError IO_INVALID_DATA Bad_checksum_length)
              else if take 32 (drop 32 header) \<noteq> computed_checksum
              then Inr (Stop STOP_CHECKSUM_MISMATCH record_size record_size)
              else Inr (Accept record_size))))"

definition scan_record :: "(bytes \<Rightarrow> bytes) \<Rightarrow> bytes \<Rightarrow> nat \<Rightarrow> nat \<Rightarrow> u64 \<Rightarrow> scan_step result" where
  "scan_record sha seg file_size offset expected_sequence =
     (let remaining = file_size - offset
      in if remaining < RECORD_HEADER_SIZE then
           bindE (pread_exact seg offset remaining) (\<lambda>available.
             let reason = classify_partial_header_prefix
                   (available @ replicate (RECORD_HEADER_SIZE - remaining) 0) remaining expected_sequence
             in Inr (Stop reason remaining
                      (if reason = STOP_PARTIAL_HEADER then RECORD_HEADER_SIZE else 0)))
         else bindE (pread_exact seg offset RECORD_HEADER_SIZE) (\<lambda>header.
           case scan_header_checks expected_sequence remaining header of
             Inl stop \<Rightarrow> Inr stop
           | Inr (event_type_len, payload_len) \<Rightarrow>
               let record_size = RECORD_HEADER_SIZE + event_type_len + payload_len
               in if record_size > remaining
                  then scan_torn_record seg offset remaining event_type_len record_size
                  else scan_full_record sha seg offset header event_type_len payload_len))"

section \<open>The loop\<close>

lemma scan_record_Accept_size: "scan_record sha seg file_size offset s = Inr (Accept n) \<Longrightarrow> 0 < n"
  by (auto simp: scan_record_def scan_torn_record_def scan_full_record_def scan_header_checks_def Let_def
      bindE_Inr_iff split: if_splits sum.splits)

function scan_loop ::
  "(bytes \<Rightarrow> bytes) \<Rightarrow> bytes \<Rightarrow> nat \<Rightarrow> nat \<Rightarrow> u64 \<Rightarrow> safe_prefix \<Rightarrow> safe_prefix result" where
  "scan_loop sha seg file_size offset expected_sequence prefix =
     (if \<not> offset < file_size then
        Inr (prefix\<lparr>reached_eof := True, unsafe_suffix_found := False, stopped_by := STOP_EOF\<rparr>)
      else case scan_record sha seg file_size offset expected_sequence of
        Inl e \<Rightarrow> Inl e
      | Inr (Stop reason available required) \<Rightarrow>
          Inr (safe_prefix_set_unsafe prefix reason offset offset available required)
      | Inr (Accept record_size) \<Rightarrow>
          scan_loop sha seg file_size (offset + record_size) (expected_sequence + 1)
            (prefix\<lparr>safe_end_offset := offset + record_size, last_safe_sequence := expected_sequence,
                    has_last_safe_sequence := True\<rparr>))"
  by auto
termination
  by (relation "measure (\<lambda>(sha, seg, file_size, offset, s, prefix). file_size - offset)")
    (auto dest: scan_record_Accept_size)

declare scan_loop.simps [simp del]

definition scan_safe_prefix :: "(bytes \<Rightarrow> bytes) \<Rightarrow> journal_reader \<Rightarrow> safe_prefix result" where
  "scan_safe_prefix sha r =
     (case rd_segment r of
        None \<Rightarrow> Inr (safe_prefix_init\<lparr>reached_eof := True, stopped_by := STOP_MISSING_SEGMENT\<rparr>)
      | Some seg \<Rightarrow>
          if rd_file_size r = 0
          then Inr (safe_prefix_init\<lparr>reached_eof := True, stopped_by := STOP_EMPTY_SEGMENT\<rparr>)
          else scan_loop sha seg (rd_file_size r) 0 1 safe_prefix_init)"

text \<open>\<^verbatim>\<open>journal_reader_new_for_segment_fd\<close>, \<open>None\<close> being a negative descriptor.\<close>

definition reader_new_for_segment_fd :: "bytes option \<Rightarrow> journal_reader result" where
  "reader_new_for_segment_fd segment_fd =
     (case segment_fd of
        None \<Rightarrow> Inl (GError IO_INVALID_ARGUMENT (Required ''journal segment fd''))
      | Some seg \<Rightarrow>
          if length seg > G_MAXSIZE then Inl (GError IO_INVALID_DATA Length_overflow)
          else Inr \<lparr>rd_segment = Some seg, rd_pos = 0, rd_next_sequence = 1,
                    rd_file_size = length seg, rd_offset = 0\<rparr>)"

definition scan_safe_prefix_for_segment_fd :: "(bytes \<Rightarrow> bytes) \<Rightarrow> bytes option \<Rightarrow> safe_prefix result" where
  "scan_safe_prefix_for_segment_fd sha segment_fd =
     bindE (reader_new_for_segment_fd segment_fd) (scan_safe_prefix sha)"

section \<open>Reading pieces\<close>

lemma pread_exact_Inr [simp]:
  "length seg \<le> G_MAXINT64 \<Longrightarrow> pread_exact seg off n = Inr xs \<longleftrightarrow>
     (n = 0 \<or> n \<le> length seg - off) \<and> xs = take n (drop off seg)"
  by (auto simp: pread_exact_def)

lemma pread_exact_within:
  "length seg \<le> G_MAXINT64 \<Longrightarrow> off + n \<le> length seg \<Longrightarrow> pread_exact seg off n = Inr (take n (drop off seg))"
  by auto

lemma pread_chunks_eq:
  "length seg \<le> G_MAXINT64 \<Longrightarrow> off + n \<le> length seg \<Longrightarrow> pread_chunks seg off n = Inr (take n (drop off seg))"
proof (induction seg off n rule: pread_chunks.induct)
  case (1 seg off n)
  show ?case
  proof (cases "n = 0")
    case False
    define k where "k = (if n > 8192 then 8192 else n)"
    have k: "k \<le> n" "0 < k"
      using False by (auto simp: k_def)
    have ih: "pread_chunks seg (off + k) (n - k) = Inr (take (n - k) (drop (off + k) seg))"
      using "1.IH" [OF False k_def] "1.prems" k by simp
    have "pread_chunks seg off n = Inr (take k (drop off seg) @ take (n - k) (drop (off + k) seg))"
      using False "1.prems" k ih
      by (subst pread_chunks.simps) (simp add: Let_def k_def [symmetric] pread_exact_within)
    also have "\<dots> = Inr (take n (drop off seg))"
      using take_add [of k "n - k" "drop off seg"] k by (simp add: add.commute)
    finally show ?thesis .
  qed (simp add: pread_chunks.simps)
qed

section \<open>What the scan accepts\<close>

lemma event_type_length_is_canonical_iff:
  "event_type_length_is_canonical n \<longleftrightarrow> (\<exists>t name. event_type_to_string t = Some name \<and> length name = n)"
  unfolding event_type_length_is_canonical_def list_ex_iff
  by (auto simp: set_all_event_types event_type_to_string_Some split: option.splits)

lemma scan_header_checks_Inr:
  assumes "off + 64 \<le> length data"
  shows "scan_header_checks s remaining (take 64 (drop off data)) = Inr (el, pl) \<longleftrightarrow>
    stands data off (record_prefix el s pl) \<and> event_type_length_is_canonical el \<and>
    el + pl \<le> G_MAXUINT64 - 64"
proof -
  let ?h = "take 64 (drop off data)"
  define x where "x = read_u32_le ?h 12"
  define y where "y = read_u64_le ?h 24"
  have canon: "0 < n \<and> n \<le> max_event_type_len" if "event_type_length_is_canonical n" for n
    using that event_name_length_bounds by (auto simp: event_type_length_is_canonical_iff)
  have small: "unat y \<le> G_MAXUINT64" "unat x \<le> G_MAXUINT32"
    using unat_u32_le [of x] unat_u64_le [of y] by auto
  have max: "max_event_type_len = 28"
    by (rule max_event_type_len_eq)
  have "scan_header_checks s remaining ?h = Inr (el, pl) \<longleftrightarrow>
      parse_record_header s (64 + el + pl) ?h = Inr (el, pl) \<and> event_type_length_is_canonical el \<and>
      el + pl \<le> G_MAXUINT64 - 64"
    unfolding scan_header_checks_def parse_record_header_def Let_def x_def [symmetric] y_def [symmetric]
      if_Inl_Inr_iff
    using small canon [of el] max by auto
  also have "\<dots> \<longleftrightarrow> stands data off (record_prefix el s pl) \<and> event_type_length_is_canonical el \<and>
    el + pl \<le> G_MAXUINT64 - 64"
    unfolding parse_record_header_Inr [OF assms] using canon [of el] max by auto
  finally show ?thesis .
qed

lemma scan_full_record_Accept:
  assumes "length seg \<le> G_MAXINT64" "off + 64 + el + pl \<le> length seg"
  shows "scan_full_record sha seg off (take 64 (drop off seg)) el pl = Inr (Accept n) \<longleftrightarrow>
     (let name = take el (drop (off + 64) seg); p = take pl (drop (off + 64 + el) seg);
          sum = sha (take 32 (drop off seg) @ name @ p)
      in parse_event_type name \<noteq> None \<and> length sum = 32 \<and> stands seg (off + 32) sum \<and> n = 64 + el + pl)"
proof -
  have "take 32 (drop 32 (take 64 (drop off seg))) = take 32 (drop (off + 32) seg)"
    by (simp add: drop_take add.commute)
  then show ?thesis
    using assms
    by (auto simp: scan_full_record_def Let_def bindE_Inr_iff pread_chunks_eq stands_def split: if_splits)
qed

lemma scan_torn_record_not_Accept: "scan_torn_record seg off remaining el rs \<noteq> Inr (Accept n)"
  by (auto simp: scan_torn_record_def Let_def bindE_Inr_iff split: if_splits)

lemma scan_header_checks_not_Accept: "scan_header_checks s remaining h \<noteq> Inl (Accept n)"
  by (auto simp: scan_header_checks_def Let_def split: if_splits)

lemma scan_record_Accept:
  assumes small: "length seg \<le> G_MAXINT64" and fs: "file_size \<le> length seg"
  shows "scan_record sha seg file_size off s = Inr (Accept n) \<longleftrightarrow>
     (\<exists>t p. record_ok sha s (t, p) \<and> stands (take file_size seg) off (record_bytes sha s (t, p)) \<and>
        n = length (record_bytes sha s (t, p)))"
    (is "?L \<longleftrightarrow> ?R")
proof
  assume ?L
  then have r64: "64 \<le> file_size - off"
    by (auto simp: scan_record_def Let_def bindE_Inr_iff split: if_splits)
  then have h64: "off + 64 \<le> length seg"
    using fs by simp
  from \<open>?L\<close> obtain el pl where hd: "scan_header_checks s (file_size - off) (take 64 (drop off seg)) = Inr (el, pl)"
    and fits: "64 + el + pl \<le> file_size - off"
    and full: "scan_full_record sha seg off (take 64 (drop off seg)) el pl = Inr (Accept n)"
    using r64 small h64 scan_torn_record_not_Accept scan_header_checks_not_Accept
    by (auto simp: scan_record_def Let_def bindE_Inr_iff pread_exact_within split: if_splits sum.splits)
  define name where "name = take el (drop (off + 64) seg)"
  define p where "p = take pl (drop (off + 64 + el) seg)"
  have within: "off + 64 + el + pl \<le> length seg"
    using fits fs r64 by simp
  then have len: "length name = el" "length p = pl"
    by (auto simp: name_def p_def)
  have pre: "stands seg off (record_prefix el s pl)" and lens: "el + pl \<le> G_MAXUINT64 - 64"
    using hd unfolding scan_header_checks_Inr [OF h64] by auto
  have t32: "take 32 (drop off seg) = record_prefix el s pl"
    using pre by (simp add: stands_def)
  from full obtain t where t: "parse_event_type name = Some t"
    and dig: "length (sha (record_prefix el s pl @ name @ p)) = 32"
      "stands seg (off + 32) (sha (record_prefix el s pl @ name @ p))" and n: "n = 64 + el + pl"
    unfolding scan_full_record_Accept [OF small within] Let_def name_def [symmetric] p_def [symmetric] t32
    by auto
  have str: "event_type_to_string t = Some name"
    using t by (simp add: parse_event_type_iff)
  have ok: "record_ok sha s (t, p)"
    using str len dig(1) lens by (simp add: record_ok_def)
  have parts: "stands seg (off + 64) name" "stands seg (off + 64 + el) p"
    using len by (simp_all add: stands_def name_def p_def)
  have "stands seg off (record_bytes sha s (t, p))"
    using pre len dig parts by (simp add: record_bytes_eq [OF str] stands_append add.assoc)
  moreover have "off + (64 + el + pl) \<le> file_size"
    using fits r64 by simp
  ultimately show ?R
    using ok n len
    by (intro exI [of _ t] exI [of _ p]) (simp add: length_record_bytes [OF str ok] stands_take)
next
  assume ?R
  then obtain t p where ok: "record_ok sha s (t, p)"
    and st: "stands (take file_size seg) off (record_bytes sha s (t, p))"
    and n: "n = length (record_bytes sha s (t, p))" by auto
  from ok obtain name where str: "event_type_to_string t = Some name"
    by (auto simp: record_ok_def split: option.splits)
  let ?pre = "record_prefix (length name) s (length p)"
  have len: "n = 64 + length name + length p"
    using n length_record_bytes [OF str ok] by simp
  have dig: "length (sha (?pre @ name @ p)) = 32"
    using ok str by (simp add: record_ok_def)
  have ne: "record_bytes sha s (t, p) \<noteq> []"
    using len n by auto
  have fits: "n \<le> file_size - off" and st': "stands seg off (record_bytes sha s (t, p))"
    using st ne n by (auto simp: stands_take)
  have within: "off + 64 + length name + length p \<le> length seg" and h64: "off + 64 \<le> length seg"
    using fits len fs by auto
  have parts: "stands seg off ?pre" "stands seg (off + 32) (sha (?pre @ name @ p))" "stands seg (off + 64) name"
    "stands seg (off + 64 + length name) p"
    using st' dig unfolding record_bytes_eq [OF str] stands_append by (simp_all add: add.assoc)
  have hd: "scan_header_checks s (file_size - off) (take 64 (drop off seg)) = Inr (length name, length p)"
    unfolding scan_header_checks_Inr [OF h64]
    using parts(1) within small str by (auto simp: event_type_length_is_canonical_iff)
  have tk: "take (length name) (drop (off + 64) seg) = name" "take (length p) (drop (off + 64 + length name) seg) = p"
    "take 32 (drop off seg) = ?pre"
    using parts by (simp_all add: stands_def)
  have "scan_full_record sha seg off (take 64 (drop off seg)) (length name) (length p) = Inr (Accept n)"
    unfolding scan_full_record_Accept [OF small within] Let_def tk
    using str parts(2) dig len by (simp add: parse_event_type_iff [THEN iffD2, OF str])
  with hd fits len h64 small show ?L
    by (simp add: scan_record_def Let_def pread_exact_within)
qed

section \<open>The prefix the loop finds\<close>

text \<open>The record of progress after the records \<open>rs\<close>, starting at \<open>off\<close>.\<close>

definition prefix_after :: "(bytes \<Rightarrow> bytes) \<Rightarrow> nat \<Rightarrow> u64 \<Rightarrow> safe_prefix \<Rightarrow> (nat \<times> bytes) list \<Rightarrow> safe_prefix" where
  "prefix_after sha off s prefix rs =
     (if rs = [] then prefix
      else prefix\<lparr>safe_end_offset := off + length (log_bytes sha s rs),
                  last_safe_sequence := s + of_nat (length rs) - 1, has_last_safe_sequence := True\<rparr>)"

lemma scan_loop_end:
  "file_size \<le> off \<Longrightarrow> scan_loop sha seg file_size off s prefix =
     Inr (prefix\<lparr>reached_eof := True, unsafe_suffix_found := False, stopped_by := STOP_EOF\<rparr>)"
  by (subst scan_loop.simps) simp

lemma scan_loop_Stop:
  "off < file_size \<Longrightarrow> scan_record sha seg file_size off s = Inr (Stop reason a b) \<Longrightarrow>
   scan_loop sha seg file_size off s prefix = Inr (safe_prefix_set_unsafe prefix reason off off a b)"
  by (subst scan_loop.simps) simp

lemma scan_loop_Accept:
  "off < file_size \<Longrightarrow> scan_record sha seg file_size off s = Inr (Accept n) \<Longrightarrow>
   scan_loop sha seg file_size off s prefix =
     scan_loop sha seg file_size (off + n) (s + 1)
       (prefix\<lparr>safe_end_offset := off + n, last_safe_sequence := s, has_last_safe_sequence := True\<rparr>)"
  by (subst scan_loop.simps) simp

lemma scan_loop_stands:
  assumes "length seg \<le> G_MAXINT64" "file_size \<le> length seg"
    and "log_ok sha s rs" "stands (take file_size seg) off (log_bytes sha s rs)"
  shows "scan_loop sha seg file_size off s prefix =
     scan_loop sha seg file_size (off + length (log_bytes sha s rs)) (s + of_nat (length rs))
       (prefix_after sha off s prefix rs)"
  using assms(3,4)
proof (induction rs arbitrary: off s prefix)
  case Nil
  then show ?case by (simp add: prefix_after_def)
next
  case (Cons r rs)
  obtain t p where r: "r = (t, p)" by (cases r)
  let ?n = "length (record_bytes sha s r)"
  let ?q = "prefix\<lparr>safe_end_offset := off + ?n, last_safe_sequence := s, has_last_safe_sequence := True\<rparr>"
  have st: "record_ok sha s r" "stands (take file_size seg) off (record_bytes sha s r)"
    using Cons.prems by (auto simp: stands_append)
  have acc: "scan_record sha seg file_size off s = Inr (Accept ?n)"
    unfolding scan_record_Accept [OF assms(1,2)] using st r by auto
  have "off < file_size"
    using stands_length [OF st(2)] record_ok_length [OF st(1)] by auto
  from scan_loop_Accept [OF this acc, of prefix]
  have "scan_loop sha seg file_size off s prefix = scan_loop sha seg file_size (off + ?n) (s + 1) ?q" .
  also have "\<dots> = scan_loop sha seg file_size (off + ?n + length (log_bytes sha (s + 1) rs))
      (s + 1 + of_nat (length rs)) (prefix_after sha (off + ?n) (s + 1) ?q rs)"
    using Cons.prems by (intro Cons.IH) (auto simp: stands_append)
  also have "prefix_after sha (off + ?n) (s + 1) ?q rs = prefix_after sha off s prefix (r # rs)"
    by (auto simp: prefix_after_def add.assoc)
  finally show ?case
    by (simp add: add.assoc)
qed

lemma scan_loop_returns:
  assumes small: "length seg \<le> G_MAXINT64" and fs: "file_size \<le> length seg"
    and "scan_loop sha seg file_size off s prefix = Inr p"
  shows "\<exists>rs. log_ok sha s rs \<and> stands (take file_size seg) off (log_bytes sha s rs) \<and>
      (file_size \<le> off + length (log_bytes sha s rs) \<or>
       (\<exists>reason a b. scan_record sha seg file_size (off + length (log_bytes sha s rs)) (s + of_nat (length rs)) =
          Inr (Stop reason a b)))"
  using assms(3)
proof (induction "file_size - off" arbitrary: off s prefix rule: less_induct)
  case less
  show ?case
  proof (cases "off < file_size")
    case False
    then show ?thesis
      by (intro exI [of _ "[]"]) simp
  next
    case True
    then obtain st where st: "scan_record sha seg file_size off s = Inr st"
      using less.prems by (subst (asm) scan_loop.simps) (auto split: sum.splits)
    show ?thesis
    proof (cases st)
      case (Stop reason a b)
      with st show ?thesis
        by (intro exI [of _ "[]"]) simp
    next
      case (Accept n)
      with st obtain t q where r: "record_ok sha s (t, q)"
        "stands (take file_size seg) off (record_bytes sha s (t, q))" "n = length (record_bytes sha s (t, q))"
        using scan_record_Accept [OF small fs] by auto
      have closer: "file_size - (off + n) < file_size - off"
        using True record_ok_length [OF r(1)] r(3) by simp
      have "\<exists>q. scan_loop sha seg file_size (off + n) (s + 1) q = Inr p"
        using less.prems st Accept True by (auto simp: scan_loop_Accept)
      with less.hyps [OF closer] obtain rs where rs: "log_ok sha (s + 1) rs" "stands (take file_size seg) (off + n) (log_bytes sha (s + 1) rs)"
        "file_size \<le> off + n + length (log_bytes sha (s + 1) rs) \<or>
         (\<exists>reason a b. scan_record sha seg file_size (off + n + length (log_bytes sha (s + 1) rs))
            (s + 1 + of_nat (length rs)) = Inr (Stop reason a b))"
        by blast
      show ?thesis
        by (intro exI [of _ "(t, q) # rs"]) (use rs r in \<open>simp add: stands_append add.assoc\<close>)
    qed
  qed
qed

lemma stop_means_no_record:
  assumes "length seg \<le> G_MAXINT64" "file_size \<le> length seg"
    "scan_record sha seg file_size off s = Inr (Stop reason a b)"
    "record_ok sha s (t, q)" "stands (take file_size seg) off (record_bytes sha s (t, q))"
  shows False
  using scan_record_Accept [OF assms(1,2), of sha off s "length (record_bytes sha s (t, q))"] assms(3-5) by auto

text \<open>
  The whole of a scan's report: the bytes below \<open>safe_end_offset\<close> are a log, the last sequence
  number is the last record's, and no further record stands at \<open>safe_end_offset\<close>.
\<close>

lemma scan_safe_prefix_reports:
  assumes small: "length seg \<le> G_MAXINT64" and r: "rd_segment r = Some seg" and fs: "rd_file_size r \<le> length seg"
    and scan: "scan_safe_prefix sha r = Inr p"
  shows "\<exists>rs. log_ok sha 1 rs \<and> take (safe_end_offset p) seg = log_bytes sha 1 rs \<and>
      safe_end_offset p \<le> rd_file_size r \<and> (has_last_safe_sequence p \<longleftrightarrow> rs \<noteq> []) \<and>
      (rs \<noteq> [] \<longrightarrow> last_safe_sequence p = of_nat (length rs)) \<and>
      (reached_eof p \<longleftrightarrow> safe_end_offset p = rd_file_size r) \<and>
      (unsafe_suffix_found p \<longleftrightarrow> \<not> reached_eof p) \<and>
      (unsafe_suffix_found p \<longrightarrow> unsafe_offset p = safe_end_offset p) \<and>
      (\<forall>t q. record_ok sha (1 + of_nat (length rs)) (t, q) \<longrightarrow>
        \<not> stands (take (rd_file_size r) seg) (safe_end_offset p)
            (record_bytes sha (1 + of_nat (length rs)) (t, q)))"
proof (cases "rd_file_size r = 0")
  case True
  have none: "[] \<noteq> record_bytes sha s x" if "record_ok sha s x" for s x
    using record_ok_length [OF that] by auto
  with True r scan show ?thesis
    by (intro exI [of _ "[]"]) (auto simp: scan_safe_prefix_def safe_prefix_init_def stands_def)
next
  case False
  let ?n = "rd_file_size r"
  have loop: "scan_loop sha seg ?n 0 1 safe_prefix_init = Inr p"
    using False r scan by (simp add: scan_safe_prefix_def)
  from scan_loop_returns [OF small fs this] obtain rs where rs: "log_ok sha 1 rs"
    "stands (take ?n seg) 0 (log_bytes sha 1 rs)" and
    stop: "?n \<le> length (log_bytes sha 1 rs) \<or> (\<exists>reason a b.
       scan_record sha seg ?n (length (log_bytes sha 1 rs)) (1 + of_nat (length rs)) = Inr (Stop reason a b))"
    by auto
  let ?e = "length (log_bytes sha 1 rs)"
  let ?q = "prefix_after sha 0 1 safe_prefix_init rs"
  have e: "?e \<le> ?n"
    using stands_length [OF rs(2)] fs by simp
  have tk: "take ?e seg = log_bytes sha 1 rs"
    using rs(2) e by (simp add: stands_def min_def)
  have q: "safe_end_offset ?q = ?e" "has_last_safe_sequence ?q \<longleftrightarrow> rs \<noteq> []"
    "rs \<noteq> [] \<Longrightarrow> last_safe_sequence ?q = of_nat (length rs)"
    by (auto simp: prefix_after_def safe_prefix_init_def)
  have p: "scan_loop sha seg ?n ?e (1 + of_nat (length rs)) ?q = Inr p"
    using scan_loop_stands [OF small fs rs, of safe_prefix_init] loop by simp
  show ?thesis
  proof (cases "?n \<le> ?e")
    case True
    have none: "\<not> stands (take ?n seg) ?e (record_bytes sha (1 + of_nat (length rs)) x)"
      if "record_ok sha (1 + of_nat (length rs)) x" for x
      using record_ok_length [OF that] True
        stands_length [of "take ?n seg" ?e "record_bytes sha (1 + of_nat (length rs)) x"] by auto
    from p True e have "p = ?q\<lparr>reached_eof := True, unsafe_suffix_found := False, stopped_by := STOP_EOF\<rparr>"
      by (simp add: scan_loop_end)
    with none True e q tk rs(1) show ?thesis
      by (intro exI [of _ rs]) auto
  next
    case False
    with stop obtain reason a b where
      st: "scan_record sha seg ?n ?e (1 + of_nat (length rs)) = Inr (Stop reason a b)" by auto
    with p False have "p = safe_prefix_set_unsafe ?q reason ?e ?e a b"
      by (simp add: scan_loop_Stop)
    with st False e q tk rs(1) show ?thesis
      by (intro exI [of _ rs])
        (auto simp: safe_prefix_set_unsafe_def dest: stop_means_no_record [OF small fs])
  qed
qed

section \<open>Torn records\<close>

lemma write_u32_le_small:
  assumes "event_type_length_is_canonical n"
  shows "write_u32_le (of_nat n) = map (\<lambda>i. of_nat (n div 2 ^ (8 * i)) AND 0xFF) [0..<4]"
proof -
  obtain t name where "event_type_to_string t = Some name" "length name = n"
    using assms by (auto simp: event_type_length_is_canonical_iff)
  then have "n \<in> set (map length event_type_names)"
    by (auto simp: event_type_to_string_Some validate_event_type_def length_event_type_names intro!: imageI)
  then have "n \<in> {16, 11, 14, 12, 13, 28, 19, 17, 15}"
    by (auto simp: event_name_lengths)
  then show ?thesis
    by (elim insertE) (simp_all add: write_u32_le_def upt_rec)
qed

lemma event_type_length_prefix_canonical:
  assumes "event_type_length_is_canonical n" "m \<le> 4"
  shows "event_type_length_prefix_is_canonical (take m (write_u32_le (of_nat n)))"
proof -
  obtain t name where str: "event_type_to_string t = Some name" and n: "length name = n"
    using assms(1) by (auto simp: event_type_length_is_canonical_iff)
  have "take m (write_u32_le (of_nat n)) = map (\<lambda>i. of_nat (n div 2 ^ (8 * i)) AND 0xFF) [0..<m]"
    unfolding write_u32_le_small [OF assms(1)] using assms(2) by (simp add: take_map)
  moreover have "t \<in> set all_event_types"
    using str by (simp add: set_all_event_types event_type_to_string_Some)
  ultimately show ?thesis
    unfolding event_type_length_prefix_is_canonical_def list_ex_iff
    using assms(2) str n by (intro conjI bexI [of _ t]) auto
qed

lemma field_prefix_matches:
  assumes "stands w field expected" "k \<le> length w"
  shows "fixed_header_field_prefix_matches (take k w @ z) k field expected"
proof (cases "k \<le> field")
  case False
  let ?m = "min (k - field) (length expected)"
  have "take ?m (drop field (take k w @ z)) = take ?m (drop field (take k w))"
    using False assms(2) by simp
  also have "\<dots> = take ?m (drop field w)"
    using False by (simp add: drop_take)
  also have "\<dots> = take ?m (take (length expected) (drop field w))"
    by simp
  also have "\<dots> = take ?m expected"
    using assms(1) by (simp only: stands_def)
  finally show ?thesis
    using False by (simp add: fixed_header_field_prefix_matches_def)
qed (simp add: fixed_header_field_prefix_matches_def)

lemma classify_torn_header:
  assumes str: "event_type_to_string t = Some name" and ok: "record_ok sha s (t, p)"
    and max: "length (record_bytes sha s (t, p)) \<le> G_MAXUINT64" and k: "k < 64"
  shows "classify_partial_header_prefix (take k (record_bytes sha s (t, p)) @ replicate (64 - k) 0) k s =
    STOP_PARTIAL_HEADER"
proof -
  define w where "w = record_bytes sha s (t, p)"
  define h where "h = take k w @ replicate (64 - k) (0 :: byte)"
  have len: "length w = 64 + length name + length p"
    unfolding w_def by (rule length_record_bytes [OF str ok])
  have kw: "k \<le> length w" and lenh: "length h = 64"
    using k len by (simp_all add: h_def)
  have canon: "event_type_length_is_canonical (length name)"
    using str by (rule event_name_length_canonical)
  have bound: "0 < length name" "length name \<le> 28"
    using event_name_length_bounds [OF str] by (simp_all add: max_event_type_len_eq)
  have "stands w 0 w" by simp
  then have st: "stands w 0 JOURNAL_MAGIC" "stands w 8 (write_u16_le 64)" "stands w 10 (write_u16_le 1)"
    "stands w 12 (write_u32_le (of_nat (length name)))" "stands w 16 (write_u64_le s)"
    "stands w 24 (write_u64_le (of_nat (length p)))"
    unfolding w_def record_bytes_eq [OF str] record_prefix_def by (simp_all add: stands_append)
  have match: "fixed_header_field_prefix_matches h k field e" if "stands w field e" for field e
    unfolding h_def using that kw by (rule field_prefix_matches)
  have "take (min 4 (k - 12)) (drop 12 h) = take (min 4 (k - 12)) (write_u32_le (of_nat (length name)))"
    if "12 < k"
    using match [OF st(4)] that by (simp add: fixed_header_field_prefix_matches_def Let_def min.commute)
  then have len_prefix: "12 < k \<Longrightarrow> event_type_length_prefix_is_canonical (take (min 4 (k - 12)) (drop 12 h))"
    using event_type_length_prefix_canonical [OF canon, of "min 4 (k - 12)"] by simp
  have el: "read_u32_le h 12 = of_nat (length name)" if "16 \<le> k"
  proof -
    have "stands (take k w) 12 (write_u32_le (of_nat (length name)))"
      using st(4) that by (simp add: stands_take)
    then have "stands h 12 (write_u32_le (of_nat (length name)))"
      using that kw by (simp add: h_def stands_def)
    then show ?thesis
      by (simp add: stands_u32)
  qed
  have pl: "read_u64_le h 24 = of_nat (length p)" if "32 \<le> k"
  proof -
    have "stands (take k w) 24 (write_u64_le (of_nat (length p)))"
      using st(6) that by (simp add: stands_take)
    then have "stands h 24 (write_u64_le (of_nat (length p)))"
      using that kw by (simp add: h_def stands_def)
    then show ?thesis
      by (simp add: stands_u64)
  qed
  have u32: "unat (of_nat (length name) :: u32) = length name"
    using bound by (intro unat_of_nat_u32) simp
  have u64: "unat (of_nat (length p) :: u64) = length p"
    using max len unfolding w_def [symmetric] by (intro unat_of_nat_u64) simp
  define e where "e = read_u32_le h 12"
  define q where "q = read_u64_le h 24"
  have e: "16 \<le> k \<Longrightarrow> unat e = length name" "16 \<le> k \<Longrightarrow> e \<noteq> 0"
    using el u32 bound by (auto simp: e_def)
  have q: "32 \<le> k \<Longrightarrow> unat q = length p"
    using pl u64 by (simp add: q_def)
  have sum: "length name + length p + 64 \<le> G_MAXUINT64"
    using max len unfolding w_def [symmetric] by simp
  show ?thesis
    unfolding w_def [symmetric] h_def [symmetric] classify_partial_header_prefix_def Let_def
      e_def [symmetric] q_def [symmetric]
    using match [OF st(1)] match [OF st(2)] match [OF st(3)] match [OF st(5)] len_prefix e q canon bound sum
    by auto
qed

text \<open>
  A record that the end of the segment cuts is recognised as torn wherever the cut lies.
\<close>

lemma scan_record_torn:
  assumes small: "length seg \<le> G_MAXINT64" and fs: "file_size \<le> length seg"
    and ok: "record_ok sha s r" and max: "length (record_bytes sha s r) \<le> G_MAXUINT64"
    and cut: "drop off (take file_size seg) = take k (record_bytes sha s r)"
    and k: "0 < k" "k < length (record_bytes sha s r)"
  shows "scan_record sha seg file_size off s =
    Inr (if k < 64 then Stop STOP_PARTIAL_HEADER k 64
         else Stop STOP_PARTIAL_RECORD k (length (record_bytes sha s r)))"
proof -
  obtain t p where r: "r = (t, p)" by (cases r)
  with ok obtain name where str: "event_type_to_string t = Some name"
    by (auto simp: record_ok_def split: option.splits)
  define w where "w = record_bytes sha s r"
  have len: "length w = 64 + length name + length p"
    unfolding w_def r using str ok [unfolded r] by (rule length_record_bytes)
  have left: "file_size - off = k"
    using arg_cong [OF cut, of length] k fs by (simp add: min_def split: if_splits)
  have slice: "take n (drop (off + j) seg) = take n (drop j w)" if "j + n \<le> k" for j n
  proof -
    have "take n (drop j (drop off (take file_size seg))) = take n (drop j (take k w))"
      by (simp only: cut w_def)
    then show ?thesis
      using that left k(1) by (simp add: drop_take min_def add.commute split: if_splits)
  qed
  have inside: "off + k \<le> length seg"
    using left k fs by simp
  show ?thesis
  proof (cases "k < 64")
    case True
    have "pread_exact seg off k = Inr (take k w)"
      using slice [of 0 k] inside small by (simp add: pread_exact_within)
    moreover have "classify_partial_header_prefix (take k w @ replicate (64 - k) 0) k s = STOP_PARTIAL_HEADER"
      unfolding w_def r by (rule classify_torn_header [OF str ok [unfolded r] max [unfolded r] True])
    ultimately show ?thesis
      using True left by (simp add: scan_record_def Let_def)
  next
    case False
    have h64: "off + 64 \<le> length seg"
      using False inside by simp
    have "stands w 0 w" by simp
    then have st: "stands w 0 (record_prefix (length name) s (length p))" "stands w 64 name"
      using ok unfolding w_def r record_bytes_eq [OF str] by (auto simp: stands_append record_ok_def str)
    have "stands seg off (record_prefix (length name) s (length p))"
      using st(1) slice [of 0 32] False by (simp add: stands_def)
    then have hd: "scan_header_checks s (file_size - off) (take 64 (drop off seg)) = Inr (length name, length p)"
      unfolding scan_header_checks_Inr [OF h64]
      using event_name_length_canonical [OF str] max len by (simp add: w_def)
    have torn: "scan_torn_record seg off k (length name) (length w) = Inr (Stop STOP_PARTIAL_RECORD k (length w))"
    proof (cases "length name \<le> k - 64")
      case True
      have "pread_exact seg (off + 64) (length name) = Inr name"
        using slice [of 64 "length name"] True False st(2) inside small
        by (simp add: pread_exact_within stands_def)
      moreover have "parse_event_type name = Some t"
        using str by (simp add: parse_event_type_iff)
      ultimately show ?thesis
        using True by (simp add: scan_torn_record_def Let_def)
    next
      case cut_name: False
      have "take (k - 64) (drop 64 w) = take (k - 64) name"
      proof -
        have "take (k - 64) (take (length name) (drop 64 w)) = take (k - 64) name"
          using st(2) by (simp only: stands_def)
        with cut_name show ?thesis by (simp add: min_def)
      qed
      then have rd: "pread_exact seg (off + 64) (k - 64) = Inr (take (k - 64) name)"
        using slice [of 64 "k - 64"] False inside small by (simp add: pread_exact_within)
      have "t \<in> set all_event_types"
        using str by (simp add: set_all_event_types event_type_to_string_Some)
      then have "event_type_prefix_is_plausible (take (k - 64) name) (length name)"
        unfolding event_type_prefix_is_plausible_def list_ex_iff
        using str by (intro conjI bexI [of _ t]) (auto simp: min_def)
      with rd cut_name show ?thesis
        by (simp add: scan_torn_record_def Let_def)
    qed
    have "pread_exact seg off 64 = Inr (take 64 (drop off seg))"
      using h64 small by (simp add: pread_exact_within)
    then show ?thesis
      using False left hd torn k len by (simp add: scan_record_def Let_def w_def [symmetric])
  qed
qed

section \<open>After a crash\<close>

text \<open>
  A crash leaves some prefix of the bytes that were being written. \<open>whole_records\<close> counts the
  records of a log that lie within its first \<open>k\<close> bytes.
\<close>

fun whole_records :: "(bytes \<Rightarrow> bytes) \<Rightarrow> u64 \<Rightarrow> (nat \<times> bytes) list \<Rightarrow> nat \<Rightarrow> nat" where
  "whole_records sha s [] k = 0"
| "whole_records sha s (r # rs) k =
     (if length (record_bytes sha s r) \<le> k
      then Suc (whole_records sha (s + 1) rs (k - length (record_bytes sha s r))) else 0)"

lemma whole_records_le: "whole_records sha s rs k \<le> length rs"
  by (induction rs arbitrary: s k) auto

lemma whole_records_fit: "length (log_bytes sha s (take (whole_records sha s rs k) rs)) \<le> k"
proof (induction rs arbitrary: s k)
  case (Cons r rs)
  show ?case
    using Cons.IH [of "s + 1" "k - length (record_bytes sha s r)"] by auto
qed simp

lemma whole_records_next:
  "whole_records sha s rs k < length rs \<Longrightarrow>
   k < length (log_bytes sha s (take (Suc (whole_records sha s rs k)) rs))"
proof (induction rs arbitrary: s k)
  case (Cons r rs)
  show ?case
    using Cons.prems Cons.IH [of "s + 1" "k - length (record_bytes sha s r)"] by auto
qed simp

lemma whole_records_all:
  "length (log_bytes sha s rs) \<le> k \<Longrightarrow> whole_records sha s rs k = length rs"
  by (induction rs arbitrary: s k) auto

lemma whole_records_mono:
  "length (log_bytes sha s (take n rs)) \<le> k \<Longrightarrow> n \<le> length rs \<Longrightarrow> n \<le> whole_records sha s rs k"
proof (induction rs arbitrary: s k n)
  case (Cons r rs)
  show ?case
  proof (cases n)
    case (Suc m)
    with Cons.prems have "length (record_bytes sha s r) \<le> k"
      "length (log_bytes sha (s + 1) (take m rs)) \<le> k - length (record_bytes sha s r)" "m \<le> length rs"
      by auto
    with Cons.IH [of "s + 1" m] Suc show ?thesis by simp
  qed simp
qed simp

text \<open>What the scan of a crashed segment reports.\<close>

definition crash_prefix :: "(bytes \<Rightarrow> bytes) \<Rightarrow> (nat \<times> bytes) list \<Rightarrow> nat \<Rightarrow> safe_prefix" where
  "crash_prefix sha rs k =
     (let m = whole_records sha 1 rs k;
          e = length (log_bytes sha 1 (take m rs));
          q = prefix_after sha 0 1 safe_prefix_init (take m rs)
      in if k = 0 then safe_prefix_init\<lparr>reached_eof := True, stopped_by := STOP_EMPTY_SEGMENT\<rparr>
         else if k = e then q\<lparr>reached_eof := True, unsafe_suffix_found := False, stopped_by := STOP_EOF\<rparr>
         else if k - e < 64 then safe_prefix_set_unsafe q STOP_PARTIAL_HEADER e e (k - e) 64
         else safe_prefix_set_unsafe q STOP_PARTIAL_RECORD e e (k - e)
                (length (record_bytes sha (1 + of_nat m) (rs ! m))))"

lemma crash_prefix_fields:
  fixes sha rs k
  defines "m \<equiv> whole_records sha 1 rs k"
  defines "e \<equiv> length (log_bytes sha 1 (take m rs))"
  shows "safe_end_offset (crash_prefix sha rs k) = e"
    "stopped_by (crash_prefix sha rs k) =
      (if k = 0 then STOP_EMPTY_SEGMENT else if k = e then STOP_EOF
       else if k - e < 64 then STOP_PARTIAL_HEADER else STOP_PARTIAL_RECORD)"
    "k \<noteq> e \<Longrightarrow> unsafe_offset (crash_prefix sha rs k) = e \<and>
       unsafe_available_size (crash_prefix sha rs k) = k - e \<and>
       unsafe_required_size (crash_prefix sha rs k) =
         (if k - e < 64 then 64 else length (record_bytes sha (1 + of_nat m) (rs ! m)))"
proof -
  have e: "e \<le> k"
    unfolding e_def m_def by (rule whole_records_fit)
  have q: "safe_end_offset (prefix_after sha 0 1 safe_prefix_init (take m rs)) = e"
    by (auto simp: prefix_after_def safe_prefix_init_def e_def)
  show "safe_end_offset (crash_prefix sha rs k) = e"
    "stopped_by (crash_prefix sha rs k) =
      (if k = 0 then STOP_EMPTY_SEGMENT else if k = e then STOP_EOF
       else if k - e < 64 then STOP_PARTIAL_HEADER else STOP_PARTIAL_RECORD)"
    "k \<noteq> e \<Longrightarrow> unsafe_offset (crash_prefix sha rs k) = e \<and>
       unsafe_available_size (crash_prefix sha rs k) = k - e \<and>
       unsafe_required_size (crash_prefix sha rs k) =
         (if k - e < 64 then 64 else length (record_bytes sha (1 + of_nat m) (rs ! m)))"
    unfolding crash_prefix_def Let_def m_def [symmetric] e_def [symmetric]
    using e q by (auto simp: safe_prefix_set_unsafe_def safe_prefix_init_def)
qed

lemma log_ok_take: "log_ok sha s rs \<Longrightarrow> log_ok sha s (take n rs)"
  by (metis append_take_drop_id log_ok_append)

lemma log_bytes_cut:
  assumes "k < length (log_bytes sha s rs)"
  defines "m \<equiv> whole_records sha s rs k"
  defines "e \<equiv> length (log_bytes sha s (take m rs))"
  shows "m < length rs" "e \<le> k" "k - e < length (record_bytes sha (s + of_nat m) (rs ! m))"
    "drop e (take k (log_bytes sha s rs)) = take (k - e) (record_bytes sha (s + of_nat m) (rs ! m))"
proof -
  show m: "m < length rs"
    using whole_records_le [of sha s rs k] whole_records_fit [of sha s rs k] assms(1)
    by (cases "m = length rs") (auto simp: m_def)
  show e: "e \<le> k"
    unfolding e_def m_def by (rule whole_records_fit)
  have split: "log_bytes sha s rs = log_bytes sha s (take m rs) @ record_bytes sha (s + of_nat m) (rs ! m) @
      log_bytes sha (s + of_nat m + 1) (drop (Suc m) rs)"
    using m by (rule log_bytes_split)
  have "log_bytes sha s (take (Suc m) rs) = log_bytes sha s (take m rs) @ record_bytes sha (s + of_nat m) (rs ! m)"
    using m by (simp add: take_Suc_conv_app_nth log_bytes_append min_def)
  then show lt: "k - e < length (record_bytes sha (s + of_nat m) (rs ! m))"
    using whole_records_next [of sha s rs k] m e by (simp add: m_def e_def)
  show "drop e (take k (log_bytes sha s rs)) = take (k - e) (record_bytes sha (s + of_nat m) (rs ! m))"
    unfolding split using lt e by (simp add: e_def drop_take)
qed

lemma scan_crashed:
  assumes rs: "log_ok sha 1 rs" and max: "length (log_bytes sha 1 rs) \<le> G_MAXINT64"
    and k: "k \<le> length (log_bytes sha 1 rs)"
    and r: "rd_segment r = Some (take k (log_bytes sha 1 rs))" "rd_file_size r = k"
  shows "scan_safe_prefix sha r = Inr (crash_prefix sha rs k)"
proof (cases "k = 0")
  case True
  with r show ?thesis
    by (simp add: scan_safe_prefix_def crash_prefix_def)
next
  case False
  let ?seg = "take k (log_bytes sha 1 rs)"
  let ?m = "whole_records sha 1 rs k"
  let ?e = "length (log_bytes sha 1 (take ?m rs))"
  let ?q = "prefix_after sha 0 1 safe_prefix_init (take ?m rs)"
  have small: "length ?seg \<le> G_MAXINT64" and fs: "k \<le> length ?seg"
    using max k by auto
  have m: "?m \<le> length rs"
    by (rule whole_records_le)
  have e: "?e \<le> k"
    by (rule whole_records_fit)
  have "log_bytes sha 1 rs = log_bytes sha 1 (take ?m rs) @ log_bytes sha (1 + of_nat ?m) (drop ?m rs)"
    using log_bytes_append [of sha 1 "take ?m rs" "drop ?m rs"] m by (simp add: min_def)
  then have "stands (log_bytes sha 1 rs) 0 (log_bytes sha 1 (take ?m rs))"
    by (simp add: stands_prefix)
  then have st: "stands (take k ?seg) 0 (log_bytes sha 1 (take ?m rs))"
    using e by (simp add: stands_take)
  have "scan_safe_prefix sha r = scan_loop sha ?seg k 0 1 safe_prefix_init"
    using r False by (simp add: scan_safe_prefix_def)
  also have "\<dots> = scan_loop sha ?seg k ?e (1 + of_nat ?m) ?q"
    using scan_loop_stands [OF small fs log_ok_take [OF rs] st, of safe_prefix_init] m by (simp add: min_def)
  also have "\<dots> = Inr (crash_prefix sha rs k)"
  proof (cases "k = ?e")
    case True
    then show ?thesis
      using False scan_loop_end [of k ?e] by (simp add: crash_prefix_def Let_def)
  next
    case ne: False
    have lt: "k < length (log_bytes sha 1 rs)"
      using ne k whole_records_all [of sha 1 rs k] by (cases "k = length (log_bytes sha 1 rs)") auto
    note cut = log_bytes_cut [OF lt]
    have ok: "record_ok sha (1 + of_nat ?m) (rs ! ?m)"
      using rs cut(1) by (rule log_ok_drop_sequence)
    have len: "length (record_bytes sha (1 + of_nat ?m) (rs ! ?m)) \<le> G_MAXUINT64"
    proof -
      have "log_bytes sha 1 rs = log_bytes sha 1 (take ?m rs) @
          record_bytes sha (1 + of_nat ?m) (rs ! ?m) @ log_bytes sha (1 + of_nat ?m + 1) (drop (Suc ?m) rs)"
        using cut(1) by (rule log_bytes_split)
      then have "length (record_bytes sha (1 + of_nat ?m) (rs ! ?m)) \<le> length (log_bytes sha 1 rs)"
        by simp
      with max show ?thesis by simp
    qed
    have "scan_record sha ?seg k ?e (1 + of_nat ?m) =
        Inr (if k - ?e < 64 then Stop STOP_PARTIAL_HEADER (k - ?e) 64
             else Stop STOP_PARTIAL_RECORD (k - ?e) (length (record_bytes sha (1 + of_nat ?m) (rs ! ?m))))"
      using cut ne e by (intro scan_record_torn [OF small fs ok len]) auto
    then show ?thesis
      using ne e False scan_loop_Stop [of ?e k sha ?seg "1 + of_nat ?m"]
      by (simp add: crash_prefix_def Let_def split: if_splits)
  qed
  finally show ?thesis .
qed

text \<open>The zero-length branch of \<open>classify_partial_header_prefix\<close> is dead: four zero bytes already fail
  the test on the length prefix.\<close>

lemma classify_never_zero_length:
  assumes "16 \<le> length header" "n \<le> length header"
  shows "classify_partial_header_prefix header n s \<noteq> STOP_ZERO_EVENT_TYPE_LENGTH"
proof -
  have "\<not> event_type_length_prefix_is_canonical [0, 0, 0, 0]"
    by (simp add: event_type_length_prefix_is_canonical_def all_event_types_eq event_type_to_string_def
        validate_event_type_def event_type_names_def upt_rec)
  moreover have "take 4 (drop 12 header) = write_u32_le (read_u32_le header 12)"
    using assms(1) stands_u32 [of header 12 "read_u32_le header 12"] by (simp add: stands_def)
  moreover have "write_u32_le 0 = [0, 0, 0, 0]"
    by (simp add: write_u32_le_def)
  ultimately have key: "\<not> event_type_length_prefix_is_canonical (take (min 4 (n - 12)) (drop 12 header))"
    if "16 \<le> n" "read_u32_le header 12 = 0"
    using that by (simp add: min_absorb1 le_diff_conv2)
  show ?thesis
  proof
    assume "classify_partial_header_prefix header n s = STOP_ZERO_EVENT_TYPE_LENGTH"
    then have "16 \<le> n \<and> read_u32_le header 12 = 0 \<and>
        event_type_length_prefix_is_canonical (take (min 4 (n - 12)) (drop 12 header))"
      by (auto simp: classify_partial_header_prefix_def Let_def split: if_splits)
    with key show False by blast
  qed
qed

section \<open>The scan always reports\<close>

lemma scan_record_total:
  assumes small: "length seg \<le> G_MAXINT64" and fs: "file_size \<le> length seg" and off: "off < file_size"
    and sha: "sha256_like sha"
  shows "\<exists>st. scan_record sha seg file_size off s = Inr st"
proof (cases "file_size - off < 64")
  case True
  have "pread_exact seg off (file_size - off) = Inr (take (file_size - off) (drop off seg))"
    using off fs by (intro pread_exact_within [OF small]) simp
  with True show ?thesis
    by (simp add: scan_record_def Let_def)
next
  case False
  let ?h = "take 64 (drop off seg)"
  have h64: "off + 64 \<le> length seg"
    using False fs by simp
  then have hd: "pread_exact seg off 64 = Inr ?h"
    by (intro pread_exact_within [OF small])
  show ?thesis
  proof (cases "scan_header_checks s (file_size - off) ?h")
    case (Inl st)
    with False hd show ?thesis by (simp add: scan_record_def Let_def)
  next
    case (Inr lens)
    obtain el pl where lens: "lens = (el, pl)" by (cases lens)
    have rd: "pread_exact seg (off + 64) n = Inr (take n (drop (off + 64) seg))" if "n \<le> file_size - off - 64" for n
      using that False fs by (intro pread_exact_within [OF small]) simp
    show ?thesis
    proof (cases "file_size - off < 64 + el + pl")
      case True
      with False hd Inr lens show ?thesis
        by (auto simp: scan_record_def scan_torn_record_def Let_def rd)
    next
      case fits: False
      have "pread_chunks seg (off + 64 + el) pl = Inr (take pl (drop (off + 64 + el) seg))"
        using fits False fs by (intro pread_chunks_eq [OF small]) simp
      with fits False hd Inr lens sha show ?thesis
        by (auto simp: sha256_like_def scan_record_def scan_full_record_def Let_def rd)
    qed
  qed
qed

lemma scan_loop_total:
  assumes small: "length seg \<le> G_MAXINT64" and fs: "file_size \<le> length seg"
    and sha: "sha256_like sha"
  shows "\<exists>p. scan_loop sha seg file_size off s prefix = Inr p"
proof (induction "file_size - off" arbitrary: off s prefix rule: less_induct)
  case less
  show ?case
  proof (cases "off < file_size")
    case True
    obtain st where st: "scan_record sha seg file_size off s = Inr st"
      using scan_record_total [OF small fs True sha] by blast
    show ?thesis
    proof (cases st)
      case (Stop reason a b)
      with st True show ?thesis by (simp add: scan_loop_Stop)
    next
      case (Accept n)
      with st have "0 < n" by (blast dest: scan_record_Accept_size)
      with True have "file_size - (off + n) < file_size - off" by simp
      from less.hyps [OF this] st Accept True show ?thesis
        by (simp add: scan_loop_Accept)
    qed
  qed (simp add: scan_loop_end)
qed

text \<open>The reader stops where the scan does.\<close>

lemma read_all_no_record:
  assumes fs: "limit \<le> length seg" and off: "off < limit"
    and none: "\<And>t p. record_ok sha s (t, p) \<Longrightarrow> \<not> stands (take limit seg) off (record_bytes sha s (t, p))"
  shows "\<exists>e r'. read_all sha (reader_on seg limit off s) = ([], Some e, r') \<and> rd_offset r' = off"
proof -
  obtain out r' where n: "read_next sha (reader_on seg limit off s) = (out, r')"
    by (cases "read_next sha (reader_on seg limit off s)")
  have "\<nexists>rec. out = Got rec"
    using n none read_next_Got [OF fs, of sha off s] by blast
  moreover have "out \<noteq> At_eof"
    using n off read_next_At_eof [of sha "reader_on seg limit off s"] by (auto simp: reader_on_def)
  ultimately obtain e where e: "out = Failed e"
    by (cases out) auto
  moreover have "rd_offset r' = off"
    using n e by (auto simp: read_next_def reader_on_def split: option.splits sum.splits prod.splits if_splits)
  ultimately show ?thesis
    using n read_all_Failed by blast
qed

end
