(* ===== verification/Journal_Writer.thy ===== *)
theory Journal_Writer
  imports Journal_Scan
begin

text \<open>
  The journal writer (\<^verbatim>\<open>wyrebox-journal-writer.c\<close>): opening with replay, appending,
  and the recovery of a torn suffix.

  What the kernel answers is an input of the definitions: a list of \<open>write\<close> results, success
  or failure of \<open>lseek\<close>, \<open>fsync\<close>, \<open>flock\<close> and the like, and the \<open>stat\<close> replies. A list of
  write results that is used up stands for the process ending in the middle of the write. The
  append mutex makes every append one step.
\<close>

section \<open>What the kernel answers\<close>

datatype write_result = Wrote nat | Write_eintr | Write_error

datatype flock_reply = Flock_ok | Flock_would_block | Flock_error

record os_stat =
  os_size :: int
  os_dev :: nat
  os_ino :: nat

record dir_io =
  dir_open_ok :: bool
  dir_fsync_ok :: bool

record append_io =
  io_lseek_ok :: bool
  io_writes :: "write_result list"
  io_fsync_ok :: bool

section \<open>Writing\<close>

text \<open>\<open>None\<close>: the process ended before \<^verbatim>\<open>write_all\<close> returned.\<close>

type_synonym write_state = "unit result option \<times> bytes \<times> write_result list"

fun write_all :: "write_result list \<Rightarrow> bytes \<Rightarrow> bytes \<Rightarrow> write_state" where
  "write_all ws file [] = (Some (Inr ()), file, ws)"
| "write_all [] file (d # ds) = (None, file, [])"
| "write_all (Wrote wrote # ws) file (d # ds) =
     write_all ws (file @ take wrote (d # ds)) (drop wrote (d # ds))"
| "write_all (Write_eintr # ws) file (d # ds) = write_all ws file (d # ds)"
| "write_all (Write_error # ws) file (d # ds) =
     (Some (Inl (GError IO_ERRNO (Syscall ''write''))), file, ws)"

text \<open>The \<^verbatim>\<open>write_all\<close> calls of an append, each made only if the one before succeeded.\<close>

fun write_parts :: "write_result list \<Rightarrow> bytes \<Rightarrow> bytes list \<Rightarrow> write_state" where
  "write_parts ws file [] = (Some (Inr ()), file, ws)"
| "write_parts ws file (part # parts) =
     (case write_all ws file part of
        (Some (Inr _), file', ws') \<Rightarrow> write_parts ws' file' parts
      | stopped \<Rightarrow> stopped)"

text \<open>Header, event type and, unless it is empty, payload: what an append writes, in this order.\<close>

definition record_parts :: "(bytes \<Rightarrow> bytes) \<Rightarrow> bytes \<Rightarrow> u64 \<Rightarrow> bytes \<Rightarrow> bytes list" where
  "record_parts sha event_type_name sequence payload_data =
     [record_header sha event_type_name sequence payload_data, event_type_name] @
     (if payload_data = [] then [] else [payload_data])"

section \<open>The writer and its appends\<close>

record journal_writer =
  w_root :: bytes
  w_next_sequence :: u64
  w_durable_end :: nat
  w_failed :: bool
  w_synced :: nat

text \<open>
  \<open>w_synced\<close> belongs to the descriptor of the writer: the length of the file at the last \<open>fsync\<close>
  that returned zero. It is what the kernel has promised to keep, and no other operation moves it.
\<close>

definition fsync_fd :: "bool \<Rightarrow> bytes \<Rightarrow> journal_writer \<Rightarrow> unit result \<times> journal_writer" where
  "fsync_fd returns_zero file w =
     (if returns_zero then (Inr (), w\<lparr>w_synced := length file\<rparr>)
      else (Inl (GError IO_ERRNO (Syscall ''fsync'')), w))"

definition append_unlocked ::
  "(bytes \<Rightarrow> bytes) \<Rightarrow> append_io \<Rightarrow> journal_writer \<Rightarrow> bytes \<Rightarrow> nat \<Rightarrow> bytes option \<Rightarrow>
   (nat \<times> u64) result option \<times> journal_writer \<times> bytes" where
  "append_unlocked sha io w file event_type payload =
     (if w_failed w then (Some (Inl (GError IO_FAILED Writer_failed)), w, file)
      else if \<not> validate_event_type event_type
      then (Some (Inl (GError IO_INVALID_ARGUMENT (Invalid_value ''journal event type''))), w, file)
      else
        let event_type_name = the (event_type_to_string event_type);
            payload_data = (case payload of None \<Rightarrow> [] | Some data \<Rightarrow> data);
            sequence = w_next_sequence w
        in if \<not> io_lseek_ok io
           then (Some (Inl (GError IO_ERRNO (Syscall ''lseek''))), w\<lparr>w_failed := True\<rparr>, file)
           else
             let offset = length file
             in case write_parts (io_writes io) file
                       (record_parts sha event_type_name sequence payload_data) of
                  (None, file', _) \<Rightarrow> (None, w, file')
                | (Some (Inl e), file', _) \<Rightarrow> (Some (Inl e), w\<lparr>w_failed := True\<rparr>, file')
                | (Some (Inr _), file', _) \<Rightarrow>
                    (case fsync_fd (io_fsync_ok io) file' w of
                       (Inl e, w1) \<Rightarrow> (Some (Inl e), w1\<lparr>w_failed := True\<rparr>, file')
                     | (Inr _, w1) \<Rightarrow>
                         (Some (Inr (offset, sequence)),
                          w1\<lparr>w_next_sequence := sequence + 1,
                             w_durable_end := offset + RECORD_HEADER_SIZE + length event_type_name +
                               length payload_data\<rparr>,
                          file')))"

text \<open>\<^verbatim>\<open>wyrebox_journal_writer_append\<close>: the same under the mutex.\<close>

definition writer_append ::
  "(bytes \<Rightarrow> bytes) \<Rightarrow> append_io \<Rightarrow> journal_writer \<Rightarrow> bytes \<Rightarrow> nat \<Rightarrow> bytes option \<Rightarrow>
   (nat \<times> u64) result option \<times> journal_writer \<times> bytes" where
  "writer_append sha io w file event_type payload = append_unlocked sha io w file event_type payload"

text \<open>
  \<^verbatim>\<open>wyrebox_journal_writer_append_guarded\<close>: the callback sees the journal under the lock and
  either fails, or answers without a payload (its own offset and sequence are returned and
  nothing is written), or hands over the payload to append. The test hook may still refuse.
\<close>

definition append_guarded ::
  "(bytes \<Rightarrow> bytes) \<Rightarrow> append_io \<Rightarrow> (bytes \<Rightarrow> bytes \<Rightarrow> (bytes option \<times> nat \<times> u64) result) \<Rightarrow>
   (bytes \<Rightarrow> unit result) option \<Rightarrow> journal_writer \<Rightarrow> bytes \<Rightarrow> nat \<Rightarrow>
   (nat \<times> u64) result option \<times> journal_writer \<times> bytes" where
  "append_guarded sha io callback test_append_hook w file event_type =
     (case callback (w_root w) file of
        Inl e \<Rightarrow> (Some (Inl e), w, file)
      | Inr (None, offset, sequence) \<Rightarrow> (Some (Inr (offset, sequence)), w, file)
      | Inr (Some payload, _, _) \<Rightarrow>
          (case (case test_append_hook of None \<Rightarrow> Inr () | Some hook \<Rightarrow> hook (w_root w)) of
             Inl e \<Rightarrow> (Some (Inl e), w, file)
           | Inr _ \<Rightarrow> append_unlocked sha io w file event_type (Some payload)))"

definition get_durable_end :: "journal_writer \<Rightarrow> nat" where
  "get_durable_end w = w_durable_end w"

section \<open>Opening\<close>

text \<open>The replay loop keeps the last sequence number only; it starts from zero.\<close>

definition replay_existing_segment :: "(bytes \<Rightarrow> bytes) \<Rightarrow> bytes \<Rightarrow> bytes option \<Rightarrow> u64 result" where
  "replay_existing_segment sha root segment =
     bindE (reader_new root segment) (\<lambda>reader.
       case read_all sha reader of
         (recs, Some e, _) \<Rightarrow> Inl e
       | (recs, None, _) \<Rightarrow>
           let last_sequence = (if recs = [] then 0 else rec_sequence (last recs))
           in if unat last_sequence = G_MAXUINT64 then Inl (GError IO_INVALID_DATA Sequence_exhausted)
              else Inr (last_sequence + 1))"

definition fsync_directory_path :: "dir_io \<Rightarrow> unit result" where
  "fsync_directory_path io =
     (if \<not> dir_open_ok io then Inl (GError IO_ERRNO (Syscall ''open''))
      else if \<not> dir_fsync_ok io then Inl (GError IO_ERRNO (Syscall ''fsync''))
      else Inr ())"

definition fsync_journal_root_setup :: "dir_io \<Rightarrow> dir_io \<Rightarrow> unit result" where
  "fsync_journal_root_setup parent root =
     bindE (fsync_directory_path parent) (\<lambda>_. bindE (fsync_directory_path root) (\<lambda>_. Inr ()))"

definition lock_segment_for_writer :: "flock_reply \<Rightarrow> unit result" where
  "lock_segment_for_writer reply =
     (case reply of
        Flock_ok \<Rightarrow> Inr ()
      | Flock_would_block \<Rightarrow> Inl (GError IO_BUSY (Syscall ''flock''))
      | Flock_error \<Rightarrow> Inl (GError IO_ERRNO (Syscall ''flock'')))"

record open_io =
  o_mkdir_ok :: bool
  o_parent_dir :: dir_io
  o_root_dir :: dir_io
  o_open_ok :: bool
  o_lock :: flock_reply
  o_fstat_ok :: bool
  o_root_dir_again :: dir_io

text \<open>
  \<^verbatim>\<open>wyrebox_journal_writer_new\<close>. The open creates a missing segment, so the segment is
  part of the result.
\<close>

definition writer_new ::
  "(bytes \<Rightarrow> bytes) \<Rightarrow> open_io \<Rightarrow> bytes \<Rightarrow> bytes option \<Rightarrow> journal_writer result \<times> bytes option" where
  "writer_new sha io root segment =
     (if root = [] then (Inl (GError IO_INVALID_ARGUMENT (Required ''journal root directory'')), segment)
      else if \<not> o_mkdir_ok io then (Inl (GError IO_ERRNO (Syscall ''mkdir'')), segment)
      else case fsync_journal_root_setup (o_parent_dir io) (o_root_dir io) of
        Inl e \<Rightarrow> (Inl e, segment)
      | Inr _ \<Rightarrow>
          if \<not> o_open_ok io then (Inl (GError IO_ERRNO (Syscall ''open'')), segment)
          else
            let file = (case segment of None \<Rightarrow> [] | Some file \<Rightarrow> file)
            in (bindE (lock_segment_for_writer (o_lock io)) (\<lambda>_.
                bindE (failIf (\<not> o_fstat_ok io) (GError IO_ERRNO (Syscall ''fstat''))) (\<lambda>_.
                bindE (if length file \<noteq> 0 then replay_existing_segment sha root (Some file) else Inr 1)
                  (\<lambda>next_sequence.
                bindE (fsync_directory_path (o_root_dir_again io)) (\<lambda>_.
                Inr \<lparr>w_root = root, w_next_sequence = next_sequence,
                     w_durable_end = length file, w_failed = False, w_synced = 0\<rparr>)))), Some file))"

section \<open>Recovery\<close>

record segment_stat =
  st_size :: nat
  st_dev :: nat
  st_ino :: nat

definition segment_stat_from_stat :: "os_stat \<Rightarrow> segment_stat result" where
  "segment_stat_from_stat s =
     (if os_size s < 0 then Inl (GError IO_INVALID_DATA (Invalid_value ''journal segment size''))
      else Inr \<lparr>st_size = nat (os_size s), st_dev = os_dev s, st_ino = os_ino s\<rparr>)"

text \<open>\<^verbatim>\<open>stat_segment\<close> and \<^verbatim>\<open>fstat_segment\<close>; \<open>None\<close> is a failed system call.\<close>

definition stat_segment :: "os_stat option \<Rightarrow> segment_stat result" where
  "stat_segment reply =
     (case reply of
        None \<Rightarrow> Inl (GError IO_ERRNO (Syscall ''stat''))
      | Some s \<Rightarrow> segment_stat_from_stat s)"

definition segment_stat_same_file :: "segment_stat \<Rightarrow> segment_stat \<Rightarrow> bool" where
  "segment_stat_same_file left right \<longleftrightarrow> st_dev left = st_dev right \<and> st_ino left = st_ino right"

definition scan_safe_prefix_for_root :: "(bytes \<Rightarrow> bytes) \<Rightarrow> bytes \<Rightarrow> bytes option \<Rightarrow> safe_prefix result" where
  "scan_safe_prefix_for_root sha root segment = bindE (reader_new root segment) (scan_safe_prefix sha)"

definition is_recoverable_torn_suffix :: "safe_prefix \<Rightarrow> bool" where
  "is_recoverable_torn_suffix prefix \<longleftrightarrow>
     unsafe_suffix_found prefix \<and> has_last_safe_sequence prefix \<and> safe_end_offset prefix > 0 \<and>
     unsafe_offset prefix = safe_end_offset prefix \<and>
     (stopped_by prefix = STOP_PARTIAL_HEADER \<or> stopped_by prefix = STOP_PARTIAL_RECORD)"

definition recovery_state_equal :: "safe_prefix \<Rightarrow> safe_prefix \<Rightarrow> bool" where
  "recovery_state_equal left right \<longleftrightarrow>
     safe_end_offset left = safe_end_offset right \<and>
     last_safe_sequence left = last_safe_sequence right \<and>
     has_last_safe_sequence left = has_last_safe_sequence right \<and>
     reached_eof left = reached_eof right \<and>
     unsafe_suffix_found left = unsafe_suffix_found right \<and>
     stopped_by left = stopped_by right \<and>
     unsafe_offset left = unsafe_offset right \<and>
     unsafe_available_size left = unsafe_available_size right \<and>
     unsafe_required_size left = unsafe_required_size right"

text \<open>
  The segment before the lock is taken and the one seen through the locked descriptor are
  separate inputs: another process may have changed the file in between.
\<close>

record recover_io =
  r_initial_segment :: "bytes option"
  r_initial_stat :: "os_stat option"
  r_open_ok :: bool
  r_lock :: flock_reply
  r_locked_fd_stat :: "os_stat option"
  r_locked_path_stat :: "os_stat option"
  r_ftruncate_ok :: bool
  r_fsync_ok :: bool

definition recover_torn_suffix ::
  "(bytes \<Rightarrow> bytes) \<Rightarrow> recover_io \<Rightarrow> bytes \<Rightarrow> bytes \<Rightarrow> (nat \<times> u64) result \<times> bytes" where
  "recover_torn_suffix sha io root locked_segment =
     (case
        (if root = [] then Inl (GError IO_INVALID_ARGUMENT (Required ''journal root directory''))
         else
          bindE (scan_safe_prefix_for_root sha root (r_initial_segment io)) (\<lambda>initial_prefix.
          bindE (failIf (\<not> is_recoverable_torn_suffix initial_prefix) (GError IO_INVALID_DATA Not_recoverable)) (\<lambda>_.
          bindE (stat_segment (r_initial_stat io)) (\<lambda>initial_stat.
          bindE (failIf (\<not> r_open_ok io) (GError IO_ERRNO (Syscall ''open''))) (\<lambda>_.
          bindE (lock_segment_for_writer (r_lock io)) (\<lambda>_.
          bindE (stat_segment (r_locked_fd_stat io)) (\<lambda>locked_fd_stat.
          bindE (stat_segment (r_locked_path_stat io)) (\<lambda>locked_path_stat.
          bindE (scan_safe_prefix_for_segment_fd sha (Some locked_segment)) (\<lambda>locked_prefix.
          bindE (failIf
            (st_size initial_stat \<noteq> st_size locked_path_stat \<or>
             \<not> segment_stat_same_file initial_stat locked_path_stat \<or>
             \<not> segment_stat_same_file locked_fd_stat locked_path_stat \<or>
             \<not> recovery_state_equal initial_prefix locked_prefix \<or>
             \<not> is_recoverable_torn_suffix locked_prefix) (GError IO_BUSY Changed_before_recovery)) (\<lambda>_.
          bindE (failIf (safe_end_offset locked_prefix > G_MAXINT64) (GError IO_INVALID_DATA Offset_too_large)) (\<lambda>_.
          bindE (failIf (\<not> r_ftruncate_ok io) (GError IO_ERRNO (Syscall ''ftruncate''))) (\<lambda>_.
          Inr locked_prefix)))))))))))) of
        Inl e \<Rightarrow> (Inl e, locked_segment)
      | Inr locked_prefix \<Rightarrow>
          (if \<not> r_fsync_ok io then Inl (GError IO_ERRNO (Syscall ''fsync''))
           else Inr (safe_end_offset locked_prefix, last_safe_sequence locked_prefix),
           take (safe_end_offset locked_prefix) locked_segment))"

section \<open>Facts about writing\<close>

lemma write_all_cases:
  "write_all ws file data = (r, file', ws') \<Longrightarrow>
     (\<exists>k \<le> length data. file' = file @ take k data) \<and> (r = Some (Inr ()) \<longrightarrow> file' = file @ data)"
proof (induction ws "file" data rule: write_all.induct)
  case (3 wrote ws fl d ds)
  then obtain k where k: "k \<le> length (drop wrote (d # ds))"
    "file' = (fl @ take wrote (d # ds)) @ take k (drop wrote (d # ds))"
    and all: "r = Some (Inr ()) \<longrightarrow> file' = (fl @ take wrote (d # ds)) @ drop wrote (d # ds)"
    by auto
  have "file' = fl @ take (wrote + k) (d # ds)"
    using k(2) by (simp add: take_add)
  moreover have "take (wrote + k) (d # ds) = take (min (wrote + k) (length (d # ds))) (d # ds)"
    by (metis take_all_iff min.cobounded1 min_def nle_le)
  ultimately show ?case
    using all by (intro conjI exI [of _ "min (wrote + k) (length (d # ds))"]) auto
qed auto

lemma write_parts_cases:
  "write_parts ws file parts = (r, file', ws') \<Longrightarrow>
     (\<exists>k \<le> length (concat parts). file' = file @ take k (concat parts)) \<and>
     (r = Some (Inr ()) \<longrightarrow> file' = file @ concat parts)"
proof (induction parts arbitrary: ws "file")
  case (Cons part parts)
  obtain r1 file1 ws1 where w: "write_all ws file part = (r1, file1, ws1)"
    by (cases "write_all ws file part")
  from write_all_cases [OF w] obtain k where
    k: "k \<le> length part" "file1 = file @ take k part" and all: "r1 = Some (Inr ()) \<longrightarrow> file1 = file @ part"
    by blast
  show ?case
  proof (cases "r1 = Some (Inr ())")
    case True
    with w Cons.prems have rest: "write_parts ws1 file1 parts = (r, file', ws')"
      by simp
    from Cons.IH [OF rest] obtain j where
      j: "j \<le> length (concat parts)" "file' = file1 @ take j (concat parts)"
      and fin: "r = Some (Inr ()) \<longrightarrow> file' = file1 @ concat parts" by blast
    with True all show ?thesis
      by (intro conjI exI [of _ "length part + j"]) auto
  next
    case False
    with w Cons.prems have "r = r1" "file' = file1"
      by (auto split: option.splits sum.splits)
    with False k show ?thesis
      by (intro conjI exI [of _ k]) auto
  qed
qed simp

text \<open>The parts of an append make up the record.\<close>

lemma append_parts_record:
  "event_type_to_string t = Some name \<Longrightarrow>
   concat (record_parts sha name s p) = record_bytes sha s (t, p)"
  by (simp add: record_bytes_def record_parts_def)

abbreviation payload_bytes :: "bytes option \<Rightarrow> bytes" where
  "payload_bytes payload \<equiv> (case payload of None \<Rightarrow> [] | Some data \<Rightarrow> data)"

text \<open>
  The course of an append: either it is refused before the file is touched, or the parts are
  written with some outcome \<open>q\<close>.
\<close>

lemma append_refused:
  assumes "w_failed w \<or> \<not> validate_event_type t \<or> \<not> io_lseek_ok io"
  shows "\<exists>e w'. append_unlocked sha io w file t payload = (Some (Inl e), w', file) \<and>
     (w' = w \<or> w' = w\<lparr>w_failed := True\<rparr>)"
  using assms by (cases "w_failed w"; cases "validate_event_type t") (simp_all add: append_unlocked_def Let_def)

lemma append_written:
  assumes "\<not> w_failed w" "event_type_to_string t = Some name" "io_lseek_ok io"
  shows "append_unlocked sha io w file t payload =
     (case write_parts (io_writes io) file (record_parts sha name (w_next_sequence w) (payload_bytes payload)) of
        (None, file', _) \<Rightarrow> (None, w, file')
      | (Some (Inl e), file', _) \<Rightarrow> (Some (Inl e), w\<lparr>w_failed := True\<rparr>, file')
      | (Some (Inr _), file', _) \<Rightarrow>
          if \<not> io_fsync_ok io
          then (Some (Inl (GError IO_ERRNO (Syscall ''fsync''))), w\<lparr>w_failed := True\<rparr>, file')
          else (Some (Inr (length file, w_next_sequence w)),
                w\<lparr>w_synced := length file', w_next_sequence := w_next_sequence w + 1,
                  w_durable_end := length file + 64 + length name + length (payload_bytes payload)\<rparr>, file'))"
proof -
  have "validate_event_type t"
    using assms(2) by (simp add: event_type_to_string_Some)
  with assms show ?thesis
    by (auto simp: append_unlocked_def fsync_fd_def Let_def split: prod.split option.split sum.split)
qed

lemma append_outcome:
  assumes "append_unlocked sha io w file t payload = (r, w', file')"
  obtains (refused) e where "r = Some (Inl e)" "file' = file" "w' = w \<or> w' = w\<lparr>w_failed := True\<rparr>"
  | (cut) name k where "\<not> w_failed w" "event_type_to_string t = Some name" "r = None" "w' = w"
      "k \<le> length (record_bytes sha (w_next_sequence w) (t, payload_bytes payload))"
      "file' = file @ take k (record_bytes sha (w_next_sequence w) (t, payload_bytes payload))"
  | (error) name k e where "\<not> w_failed w" "event_type_to_string t = Some name" "r = Some (Inl e)"
      "w' = w\<lparr>w_failed := True\<rparr>"
      "k \<le> length (record_bytes sha (w_next_sequence w) (t, payload_bytes payload))"
      "file' = file @ take k (record_bytes sha (w_next_sequence w) (t, payload_bytes payload))"
  | (ok) name where "\<not> w_failed w" "event_type_to_string t = Some name"
      "r = Some (Inr (length file, w_next_sequence w))"
      "file' = file @ record_bytes sha (w_next_sequence w) (t, payload_bytes payload)"
      "w' = w\<lparr>w_synced := length file', w_next_sequence := w_next_sequence w + 1,
             w_durable_end := length file + 64 + length name + length (payload_bytes payload)\<rparr>"
proof (cases "w_failed w \<or> \<not> validate_event_type t \<or> \<not> io_lseek_ok io")
  case True
  from append_refused [OF this, of sha "file" payload] assms obtain e where
    "r = Some (Inl e)" "file' = file" "w' = w \<or> w' = w\<lparr>w_failed := True\<rparr>"
    by auto
  then show thesis by (rule refused)
next
  case False
  then obtain name where str: "event_type_to_string t = Some name" and nf: "\<not> w_failed w"
    and sk: "io_lseek_ok io"
    by (auto simp: event_type_to_string_def)
  obtain q f ws where wp: "write_parts (io_writes io) file
      (record_parts sha name (w_next_sequence w) (payload_bytes payload)) = (q, f, ws)"
    by (metis prod.exhaust)
  note app = assms [unfolded append_written [OF nf str sk] wp]
  from write_parts_cases [OF wp] obtain k where
    k: "k \<le> length (record_bytes sha (w_next_sequence w) (t, payload_bytes payload))"
      "f = file @ take k (record_bytes sha (w_next_sequence w) (t, payload_bytes payload))"
    and all: "q = Some (Inr ()) \<longrightarrow> f = file @ record_bytes sha (w_next_sequence w) (t, payload_bytes payload)"
    unfolding append_parts_record [OF str] by blast
  consider "q = None" | e where "q = Some (Inl e)" | "q = Some (Inr ())" "\<not> io_fsync_ok io"
    | "q = Some (Inr ())" "io_fsync_ok io"
    by (metis (full_types) old.unit.exhaust option.exhaust sum.exhaust)
  then show thesis
  proof cases
    case 1
    with app k show thesis by (intro cut [OF nf str, of k]) auto
  next
    case 2
    with app k show thesis by (intro error [OF nf str, of e k]) auto
  next
    case 3
    from app [unfolded 3(1)] 3(2) have "r = Some (Inl (GError IO_ERRNO (Syscall ''fsync'')))"
      "w' = w\<lparr>w_failed := True\<rparr>" "file' = f" by simp_all
    with k show thesis by (intro error [OF nf str]) simp_all
  next
    case 4
    from app [unfolded 4(1)] 4(2) have "r = Some (Inr (length file, w_next_sequence w))" "file' = f"
      "w' = w\<lparr>w_synced := length file', w_next_sequence := w_next_sequence w + 1,
             w_durable_end := length file + 64 + length name + length (payload_bytes payload)\<rparr>"
      by auto
    with all 4(1) show thesis by (intro ok [OF nf str]) simp_all
  qed
qed

text \<open>Whatever happens, at most the record was added, and only at the end.\<close>

lemma append_any:
  assumes "append_unlocked sha io w file t payload = (r, w', file')"
  shows "\<exists>k \<le> length (record_bytes sha (w_next_sequence w) (t, payload_bytes payload)).
      file' = file @ take k (record_bytes sha (w_next_sequence w) (t, payload_bytes payload))"
  using assms by (cases rule: append_outcome) (auto intro: exI [of _ 0])

lemma append_failed_writer:
  "w_failed w \<Longrightarrow> append_unlocked sha io w file t payload = (Some (Inl (GError IO_FAILED Writer_failed)), w, file)"
  by (simp add: append_unlocked_def)

section \<open>Opening a segment\<close>

lemma reader_new_on:
  "root \<noteq> [] \<Longrightarrow> length seg \<le> G_MAXSIZE \<Longrightarrow>
   reader_new root (Some seg) = Inr (reader_on seg (length seg) 0 1)"
  by (simp add: reader_new_def reader_new_with_limit_def reader_on_def)

lemma last_log_sequence:
  "rs \<noteq> [] \<Longrightarrow> rec_sequence (last (log_records sha off s rs)) = s + of_nat (length rs - 1)"
proof -
  assume ne: "rs \<noteq> []"
  have "rec_sequence (last (log_records sha off s rs)) = last (map rec_sequence (log_records sha off s rs))"
    using ne by (cases rs) (simp_all add: last_map)
  also have "\<dots> = s + of_nat (length rs - 1)"
    using ne unfolding log_records_sequences by (cases "length rs") (auto simp: last_map)
  finally show ?thesis .
qed

text \<open>Replay accepts exactly the logs and yields the sequence number after the last record.\<close>

lemma replay_iff:
  assumes "root \<noteq> []" "length seg \<le> G_MAXSIZE"
  shows "replay_existing_segment sha root (Some seg) = Inr n \<longleftrightarrow>
    (\<exists>rs. log_ok sha 1 rs \<and> seg = log_bytes sha 1 rs \<and> n = 1 + of_nat (length rs) \<and> (rs = [] \<or> n \<noteq> 0))"
    (is "?L \<longleftrightarrow> ?R")
proof -
  have len: "length seg \<le> length seg" by simp
  have last: "unat (if recs = [] then 0 else rec_sequence (last recs)) = G_MAXUINT64 \<longleftrightarrow> rs \<noteq> [] \<and> 1 + of_nat (length rs) = (0 :: u64)"
    "(if recs = [] then 0 else rec_sequence (last recs)) + 1 = 1 + of_nat (length rs)"
    if "recs = log_records sha 0 1 rs" for recs rs
  proof -
    have seq: "(if recs = [] then 0 else rec_sequence (last recs)) = of_nat (length rs)"
      using that last_log_sequence [of rs sha 0 1] by (cases rs) auto
    have "unat x = G_MAXUINT64 \<longleftrightarrow> 1 + x = 0" for x :: u64
    proof -
      have max: "unat (- 1 :: u64) = G_MAXUINT64"
        by (simp add: unsigned_minus_1_eq_mask mask_eq_exp_minus_1)
      have "unat x = G_MAXUINT64 \<longleftrightarrow> x = - 1"
        unfolding max [symmetric] by (rule word_unat_eq_iff [symmetric])
      also have "\<dots> \<longleftrightarrow> 1 + x = 0"
        by (metis add.commute add_eq_0_iff)
      finally show ?thesis .
    qed
    then show "unat (if recs = [] then 0 else rec_sequence (last recs)) = G_MAXUINT64 \<longleftrightarrow> rs \<noteq> [] \<and> 1 + of_nat (length rs) = (0 :: u64)"
      unfolding seq by (cases rs) auto
    show "(if recs = [] then 0 else rec_sequence (last recs)) + 1 = 1 + of_nat (length rs)"
      unfolding seq by simp
  qed
  obtain recs e r' where all: "read_all sha (reader_on seg (length seg) 0 1) = (recs, e, r')"
    by (cases "read_all sha (reader_on seg (length seg) 0 1)")
  have iff: "e = None \<longleftrightarrow> (\<exists>rs. log_ok sha 1 rs \<and> seg = log_bytes sha 1 rs \<and> recs = log_records sha 0 1 rs)"
    using read_all_iff_log [OF len, of sha 1 recs] all by auto
  have "?L \<longleftrightarrow> e = None \<and> unat (if recs = [] then 0 else rec_sequence (last recs)) \<noteq> G_MAXUINT64 \<and>
      n = (if recs = [] then 0 else rec_sequence (last recs)) + 1"
    using all unfolding replay_existing_segment_def reader_new_on [OF assms]
    by (auto simp: Let_def split: option.splits)
  also have "\<dots> \<longleftrightarrow> ?R"
  proof
    assume h: "e = None \<and> unat (if recs = [] then 0 else rec_sequence (last recs)) \<noteq> G_MAXUINT64 \<and>
      n = (if recs = [] then 0 else rec_sequence (last recs)) + 1"
    then obtain rs where rs: "log_ok sha 1 rs" "seg = log_bytes sha 1 rs" "recs = log_records sha 0 1 rs"
      using iff by blast
    from h last [OF rs(3)] rs show ?R
      by (intro exI [of _ rs]) (auto simp: add.commute)
  next
    assume ?R
    then obtain rs where rs: "log_ok sha 1 rs" "seg = log_bytes sha 1 rs" "n = 1 + of_nat (length rs)"
      "rs = [] \<or> n \<noteq> 0" by blast
    have "read_all sha (reader_on seg (length seg) 0 1) =
        (log_records sha 0 1 rs, None, reader_on seg (length seg) (length seg) (1 + of_nat (length rs)))"
      using rs by (intro read_all_log) auto
    with all have recs: "recs = log_records sha 0 1 rs" "e = None" by auto
    from last [OF recs(1)] rs recs show "e = None \<and> unat (if recs = [] then 0 else rec_sequence (last recs)) \<noteq> G_MAXUINT64 \<and>
      n = (if recs = [] then 0 else rec_sequence (last recs)) + 1" by auto
  qed
  finally show ?thesis .
qed

lemma last_read_sequence:
  assumes "root \<noteq> []" "log_ok sha 1 rs" "length (log_bytes sha 1 rs) \<le> G_MAXSIZE" "rs = [] \<or> 1 + of_nat (length rs) \<noteq> (0 :: u64)"
  shows "replay_existing_segment sha root (Some (log_bytes sha 1 rs)) = Inr (1 + of_nat (length rs))"
  using replay_iff [OF assms(1,3)] assms(2,4) by auto

text \<open>The replies with which nothing fails.\<close>

definition open_io_ok :: open_io where
  "open_io_ok = \<lparr>o_mkdir_ok = True, o_parent_dir = \<lparr>dir_open_ok = True, dir_fsync_ok = True\<rparr>,
     o_root_dir = \<lparr>dir_open_ok = True, dir_fsync_ok = True\<rparr>, o_open_ok = True, o_lock = Flock_ok,
     o_fstat_ok = True, o_root_dir_again = \<lparr>dir_open_ok = True, dir_fsync_ok = True\<rparr>\<rparr>"

text \<open>A writer opens only on a log, and continues its numbering.\<close>

lemma writer_new_Inr:
  assumes "writer_new sha io root (Some seg) = (Inr w, seg')" "length seg \<le> G_MAXSIZE"
  shows "seg' = Some seg \<and> root \<noteq> [] \<and>
    (\<exists>rs. log_ok sha 1 rs \<and> seg = log_bytes sha 1 rs \<and>
      w = \<lparr>w_root = root, w_next_sequence = 1 + of_nat (length rs), w_durable_end = length seg, w_failed = False, w_synced = 0\<rparr>)"
proof -
  obtain n where n: "(if length seg \<noteq> 0 then replay_existing_segment sha root (Some seg) else Inr 1) = Inr n"
    and root: "root \<noteq> []" and seg': "seg' = Some seg"
    and w: "w = \<lparr>w_root = root, w_next_sequence = n, w_durable_end = length seg, w_failed = False, w_synced = 0\<rparr>"
    using assms(1) by (auto simp: writer_new_def Let_def bindE_Inr_iff split: if_splits sum.splits)
  show ?thesis
  proof (cases "length seg = 0")
    case True
    with n root seg' w show ?thesis
      by (intro conjI exI [of _ "[]"]) auto
  next
    case False
    with n have "replay_existing_segment sha root (Some seg) = Inr n" by simp
    then obtain rs where "log_ok sha 1 rs" "seg = log_bytes sha 1 rs" "n = 1 + of_nat (length rs)"
      using replay_iff [OF root assms(2)] by auto
    with root seg' w show ?thesis
      by (intro conjI exI [of _ rs]) auto
  qed
qed

lemma writer_new_log:
  assumes "root \<noteq> []" "log_ok sha 1 rs" "length (log_bytes sha 1 rs) \<le> G_MAXSIZE"
    "rs = [] \<or> 1 + of_nat (length rs) \<noteq> (0 :: u64)"
  shows "writer_new sha open_io_ok root (Some (log_bytes sha 1 rs)) =
    (Inr \<lparr>w_root = root, w_next_sequence = 1 + of_nat (length rs),
          w_durable_end = length (log_bytes sha 1 rs), w_failed = False, w_synced = 0\<rparr>, Some (log_bytes sha 1 rs))"
proof (cases "length (log_bytes sha 1 rs) = 0")
  case True
  have "rs = []"
  proof (rule ccontr)
    assume "rs \<noteq> []"
    then obtain r qs where "rs = r # qs" by (cases rs) auto
    with assms(2) True record_ok_length [of sha 1 r] show False by simp
  qed
  with assms(1) show ?thesis
    by (simp add: writer_new_def open_io_ok_def fsync_journal_root_setup_def fsync_directory_path_def
        lock_segment_for_writer_def)
next
  case False
  with assms last_read_sequence [OF assms] show ?thesis
    by (simp add: Let_def writer_new_def open_io_ok_def fsync_journal_root_setup_def fsync_directory_path_def
        lock_segment_for_writer_def)
qed

section \<open>Facts about recovery\<close>

lemma recovery_state_equal_iff: "recovery_state_equal p q \<longleftrightarrow> p = q"
  by (cases p; cases q) (auto simp: recovery_state_equal_def)

lemma scan_for_root_on:
  assumes "root \<noteq> []" "length seg \<le> G_MAXSIZE"
  shows "scan_safe_prefix_for_root sha root (Some seg) = scan_safe_prefix sha (reader_on seg (length seg) 0 1)"
  using reader_new_on [OF assms] by (simp add: scan_safe_prefix_for_root_def)

lemma scan_for_fd_on:
  "length seg \<le> G_MAXSIZE \<Longrightarrow>
   scan_safe_prefix_for_segment_fd sha (Some seg) = scan_safe_prefix sha (reader_on seg (length seg) 0 1)"
  by (simp add: scan_safe_prefix_for_segment_fd_def reader_new_for_segment_fd_def reader_on_def)

text \<open>Replies of an undisturbed recovery of the segment \<open>seg\<close>.\<close>

definition recover_io_ok :: "bytes \<Rightarrow> recover_io" where
  "recover_io_ok seg =
     (let st = \<lparr>os_size = int (length seg), os_dev = 0, os_ino = 0\<rparr>
      in \<lparr>r_initial_segment = Some seg, r_initial_stat = Some st, r_open_ok = True, r_lock = Flock_ok,
          r_locked_fd_stat = Some st, r_locked_path_stat = Some st, r_ftruncate_ok = True, r_fsync_ok = True\<rparr>)"

text \<open>
  Recovery truncates to the end of the last whole record or leaves the segment alone, whatever
  the kernel answers and whoever else changes the file before the lock.
\<close>

lemma recover_any:
  assumes small: "length seg \<le> G_MAXINT64" and rec: "recover_torn_suffix sha io root seg = (res, seg')"
  shows "seg' = seg \<or>
    (\<exists>rs p. log_ok sha 1 rs \<and> rs \<noteq> [] \<and> seg' = log_bytes sha 1 rs \<and> length seg' < length seg \<and>
       scan_safe_prefix sha (reader_on seg (length seg) 0 1) = Inr p \<and> is_recoverable_torn_suffix p \<and>
       seg' = take (safe_end_offset p) seg \<and>
       (\<forall>e s. res = Inr (e, s) \<longrightarrow> e = length seg' \<and> s = of_nat (length rs)))"
proof (cases "seg' = seg")
  case False
  have size: "length seg \<le> G_MAXSIZE" using small by simp
  have "\<exists>p. scan_safe_prefix sha (reader_on seg (length seg) 0 1) = Inr p \<and> is_recoverable_torn_suffix p \<and>
      seg' = take (safe_end_offset p) seg \<and>
      (\<forall>e s. res = Inr (e, s) \<longrightarrow> e = safe_end_offset p \<and> s = last_safe_sequence p)"
    using rec False
    by (auto simp: recover_torn_suffix_def scan_for_fd_on [OF size] bindE_Inr_iff failIf_Inr_iff
        split: sum.splits if_splits)
  then obtain p where p: "scan_safe_prefix sha (reader_on seg (length seg) 0 1) = Inr p"
    "is_recoverable_torn_suffix p" "seg' = take (safe_end_offset p) seg"
    "\<forall>e s. res = Inr (e, s) \<longrightarrow> e = safe_end_offset p \<and> s = last_safe_sequence p" by blast
  have on: "rd_segment (reader_on seg (length seg) 0 1) = Some seg"
    "rd_file_size (reader_on seg (length seg) 0 1) = length seg"
    by (simp_all add: reader_on_def)
  from scan_safe_prefix_reports [OF small on(1) _ p(1)] obtain rs where
    rs: "log_ok sha 1 rs" "take (safe_end_offset p) seg = log_bytes sha 1 rs"
      "safe_end_offset p \<le> length seg" "has_last_safe_sequence p \<longleftrightarrow> rs \<noteq> []"
      "rs \<noteq> [] \<longrightarrow> last_safe_sequence p = of_nat (length rs)"
      "unsafe_suffix_found p \<longleftrightarrow> \<not> safe_end_offset p = length seg"
    unfolding on by auto
  have "length seg' = safe_end_offset p"
    using p(3) rs(3) by simp
  with p rs show ?thesis
    by (intro disjI2 exI [of _ rs] exI [of _ p]) (auto simp: is_recoverable_torn_suffix_def)
qed simp

text \<open>
  After a crash in the middle of a log the recovery succeeds as soon as one record is whole
  and something is torn behind it.
\<close>

lemma crash_prefix_recoverable:
  assumes rs: "log_ok sha 1 rs" and k: "k \<le> length (log_bytes sha 1 rs)"
    and some: "0 < whole_records sha 1 rs k"
    and torn: "k \<noteq> length (log_bytes sha 1 (take (whole_records sha 1 rs k) rs))"
  shows "is_recoverable_torn_suffix (crash_prefix sha rs k)"
    "safe_end_offset (crash_prefix sha rs k) = length (log_bytes sha 1 (take (whole_records sha 1 rs k) rs))"
    "last_safe_sequence (crash_prefix sha rs k) = of_nat (whole_records sha 1 rs k)"
proof -
  let ?m = "whole_records sha 1 rs k"
  let ?e = "length (log_bytes sha 1 (take ?m rs))"
  have m: "?m \<le> length rs" by (rule whole_records_le)
  obtain r qs where rqs: "rs = r # qs"
    using some by (cases rs) auto
  then have "64 < length (record_bytes sha 1 r)"
    using rs record_ok_length by auto
  then have e: "0 < ?e"
    using some rqs by (cases ?m) auto
  have k0: "k \<noteq> 0"
    using whole_records_fit [of sha 1 rs k] e by linarith
  have ne: "take ?m rs \<noteq> []"
    using some rqs by auto
  then have q: "prefix_after sha 0 1 safe_prefix_init (take ?m rs) =
      safe_prefix_init\<lparr>safe_end_offset := ?e, last_safe_sequence := of_nat ?m, has_last_safe_sequence := True\<rparr>"
    using m by (simp add: prefix_after_def)
  show "is_recoverable_torn_suffix (crash_prefix sha rs k)" "safe_end_offset (crash_prefix sha rs k) = ?e"
    "last_safe_sequence (crash_prefix sha rs k) = of_nat ?m"
    using k0 torn e
    by (simp_all add: crash_prefix_def Let_def q is_recoverable_torn_suffix_def safe_prefix_set_unsafe_def)
qed

lemma recover_crashed:
  assumes rs: "log_ok sha 1 rs" and max: "length (log_bytes sha 1 rs) \<le> G_MAXINT64"
    and k: "k \<le> length (log_bytes sha 1 rs)" and root: "root \<noteq> []"
    and some: "0 < whole_records sha 1 rs k"
    and torn: "k \<noteq> length (log_bytes sha 1 (take (whole_records sha 1 rs k) rs))"
  defines "seg \<equiv> take k (log_bytes sha 1 rs)"
  defines "kept \<equiv> log_bytes sha 1 (take (whole_records sha 1 rs k) rs)"
  shows "recover_torn_suffix sha (recover_io_ok seg) root seg =
    (Inr (length kept, of_nat (whole_records sha 1 rs k)), kept)"
proof -
  let ?m = "whole_records sha 1 rs k"
  let ?p = "crash_prefix sha rs k"
  have len: "length seg = k" and size: "length seg \<le> G_MAXSIZE"
    using k max by (auto simp: seg_def)
  have scan: "scan_safe_prefix sha (reader_on seg (length seg) 0 1) = Inr ?p"
    using scan_crashed [OF rs max k, of "reader_on seg (length seg) 0 1"] len by (simp add: reader_on_def seg_def)
  note p = crash_prefix_recoverable [OF rs k some torn]
  have e: "length kept \<le> k"
    unfolding kept_def by (rule whole_records_fit)
  have "stands (log_bytes sha 1 rs) 0 kept"
    using log_bytes_append [of sha 1 "take ?m rs" "drop ?m rs"] by (simp add: stands_prefix kept_def)
  then have "take (length kept) seg = kept"
    using e by (simp add: seg_def stands_def min_def)
  with p e max k root show ?thesis
    by (simp add: recover_torn_suffix_def recover_io_ok_def Let_def scan_for_root_on [OF root size]
        scan_for_fd_on [OF size] scan stat_segment_def segment_stat_from_stat_def
        lock_segment_for_writer_def segment_stat_same_file_def recovery_state_equal_iff kept_def [symmetric])
qed

text \<open>With no whole record the recovery refuses, and so does opening a non-empty segment.\<close>

lemma recover_no_record:
  assumes rs: "log_ok sha 1 rs" and max: "length (log_bytes sha 1 rs) \<le> G_MAXINT64"
    and k: "k \<le> length (log_bytes sha 1 rs)" and root: "root \<noteq> []"
    and none: "whole_records sha 1 rs k = 0"
    and init: "r_initial_segment io = Some (take k (log_bytes sha 1 rs))"
  shows "recover_torn_suffix sha io root seg = (Inl (GError IO_INVALID_DATA Not_recoverable), seg)"
proof -
  let ?seg = "take k (log_bytes sha 1 rs)"
  have len: "length ?seg = k" and size: "length ?seg \<le> G_MAXSIZE"
    using k max by auto
  have scan: "scan_safe_prefix sha (reader_on ?seg (length ?seg) 0 1) = Inr (crash_prefix sha rs k)"
    using scan_crashed [OF rs max k, of "reader_on ?seg (length ?seg) 0 1"] len by (simp add: reader_on_def)
  have "\<not> is_recoverable_torn_suffix (crash_prefix sha rs k)"
    using none by (simp add: Let_def is_recoverable_torn_suffix_def crash_prefix_def prefix_after_def
        safe_prefix_init_def safe_prefix_set_unsafe_def)
  moreover have "scan_safe_prefix_for_root sha root (Some ?seg) = Inr (crash_prefix sha rs k)"
    by (simp only: scan_for_root_on [OF root size] scan)
  ultimately show ?thesis
    using root by (simp add: recover_torn_suffix_def init)
qed

section \<open>Progress of a write\<close>

text \<open>A kernel that never fails and writes at least a byte each time it writes anything.\<close>

definition writes_progress :: "write_result list \<Rightarrow> nat \<Rightarrow> bool" where
  "writes_progress ws n \<longleftrightarrow> Write_error \<notin> set ws \<and> Wrote 0 \<notin> set ws \<and> n \<le> length (filter (\<lambda>x. x \<noteq> Write_eintr) ws)"

lemma write_all_progress:
  "writes_progress ws (length data + n) \<Longrightarrow>
   \<exists>ws'. write_all ws file data = (Some (Inr ()), file @ data, ws') \<and> writes_progress ws' n"
proof (induction ws "file" data rule: write_all.induct)
  case (3 wrote ws fl d ds)
  have "writes_progress ws (length (drop wrote (d # ds)) + n)"
    using "3.prems" by (cases wrote) (auto simp: writes_progress_def)
  from "3.IH" [OF this] show ?case by simp
qed (auto simp: writes_progress_def)

lemma write_parts_progress:
  "writes_progress ws (length (concat parts)) \<Longrightarrow>
   \<exists>ws'. write_parts ws file parts = (Some (Inr ()), file @ concat parts, ws')"
proof (induction parts arbitrary: ws "file")
  case (Cons part parts)
  then obtain ws' where "write_all ws file part = (Some (Inr ()), file @ part, ws')"
    "writes_progress ws' (length (concat parts))"
    using write_all_progress [of ws part "length (concat parts)" "file"] by auto
  with Cons.IH [of ws' "file @ part"] show ?case by auto
qed simp

lemma append_progress:
  assumes "\<not> w_failed w" "event_type_to_string t = Some name" "io_lseek_ok io" "io_fsync_ok io"
    "writes_progress (io_writes io) (length (record_bytes sha (w_next_sequence w) (t, payload_bytes payload)))"
  shows "append_unlocked sha io w file t payload =
     (Some (Inr (length file, w_next_sequence w)),
      w\<lparr>w_synced := length file + length (record_bytes sha (w_next_sequence w) (t, payload_bytes payload)),
        w_next_sequence := w_next_sequence w + 1,
        w_durable_end := length file + 64 + length name + length (payload_bytes payload)\<rparr>,
      file @ record_bytes sha (w_next_sequence w) (t, payload_bytes payload))"
proof -
  have "concat (record_parts sha name (w_next_sequence w) (payload_bytes payload)) =
      record_bytes sha (w_next_sequence w) (t, payload_bytes payload)"
    using assms(2) by (rule append_parts_record)
  with assms(4,5) write_parts_progress [of "io_writes io"
      "record_parts sha name (w_next_sequence w) (payload_bytes payload)" "file"]
  show ?thesis
    unfolding append_written [OF assms(1-3)] by auto
qed

text \<open>An append that writes everything but cannot sync: an error, with the whole record in the file.\<close>

lemma append_unsynced:
  assumes "\<not> w_failed w" "event_type_to_string t = Some name" "io_lseek_ok io" "\<not> io_fsync_ok io"
    "writes_progress (io_writes io) (length (record_bytes sha (w_next_sequence w) (t, payload_bytes payload)))"
  shows "append_unlocked sha io w file t payload =
     (Some (Inl (GError IO_ERRNO (Syscall ''fsync''))), w\<lparr>w_failed := True\<rparr>,
      file @ record_bytes sha (w_next_sequence w) (t, payload_bytes payload))"
proof -
  have "concat (record_parts sha name (w_next_sequence w) (payload_bytes payload)) =
      record_bytes sha (w_next_sequence w) (t, payload_bytes payload)"
    using assms(2) by (rule append_parts_record)
  with assms(4,5) write_parts_progress [of "io_writes io"
      "record_parts sha name (w_next_sequence w) (payload_bytes payload)" "file"]
  show ?thesis
    unfolding append_written [OF assms(1-3)] by auto
qed

text \<open>A process that ends after \<open>n\<close> bytes of the header.\<close>

lemma append_dies:
  assumes "\<not> w_failed w" "event_type_to_string t = Some name" "io_lseek_ok io" "io_writes io = [Wrote n]"
    "n < length (record_header sha name (w_next_sequence w) (payload_bytes payload))"
  shows "append_unlocked sha io w file t payload =
     (None, w, file @ take n (record_bytes sha (w_next_sequence w) (t, payload_bytes payload)))"
proof -
  let ?h = "record_header sha name (w_next_sequence w) (payload_bytes payload)"
  obtain d ds where h: "?h = d # ds"
    using assms(5) by (cases ?h) auto
  have "drop n (d # ds) \<noteq> []"
    using assms(5) h by simp
  then have "write_all [Wrote n] file ?h = (None, file @ take n ?h, [])"
    unfolding h by (cases "drop n (d # ds)") auto
  then show ?thesis
    unfolding append_written [OF assms(1-3)] record_parts_def assms(4)
    using assms(2,5) by (simp add: record_bytes_def)
qed

end
