(* ===== verification/Journal_System.thy ===== *)
theory Journal_System
  imports Journal_Writer
begin

text \<open>
  The journal as a state machine: one segment file, at most one writer (the lock sees to
  that), crashes at any point, reopening and recovery.

  \<^item> A state holds the file as processes see it, the length that is known to be on disk, the
    open writer, and the records whose append returned success.
  \<^item> Bytes are on disk when an \<open>fsync\<close> of the writer has returned zero behind them, and for no other
    reason: an append moves \<open>j_synced\<close> to where \<open>w_synced\<close> says the calls of \<open>append_unlocked\<close> got, whatever
    the append returns to its caller. Opening and recovery never move it ahead.
  \<^item> A crash keeps at least the synced bytes and some prefix of the others. That a prefix is
    kept, and not a file with holes, is the assumption the scan of the code makes too.
  \<^item> The steps bound the file by \<open>G_MAXINT64\<close>, the range of \<^verbatim>\<open>off_t\<close>.
\<close>

section \<open>Steps\<close>

record journal_state =
  j_file :: bytes
  j_synced :: nat
  j_writer :: "journal_writer option"
  j_acked :: "journal_record list"

definition journal_init :: journal_state where
  "journal_init = \<lparr>j_file = [], j_synced = 0, j_writer = None, j_acked = []\<rparr>"

definition append_fits :: "(bytes \<Rightarrow> bytes) \<Rightarrow> journal_writer \<Rightarrow> bytes \<Rightarrow> nat \<Rightarrow> bytes option \<Rightarrow> bool" where
  "append_fits sha w file t payload \<longleftrightarrow>
     length file + length (record_bytes sha (w_next_sequence w) (t, payload_bytes payload)) \<le> G_MAXINT64"

inductive journal_step :: "(bytes \<Rightarrow> bytes) \<Rightarrow> journal_state \<Rightarrow> journal_state \<Rightarrow> bool" for sha where
  step_append:
    "j_writer st = Some w \<Longrightarrow> append_fits sha w (j_file st) t payload \<Longrightarrow>
     writer_append sha io w (j_file st) t payload = (Some (Inr (off, s)), w', file') \<Longrightarrow>
     journal_step sha st
       \<lparr>j_file = file', j_synced = max (j_synced st) (w_synced w'), j_writer = Some w',
        j_acked = j_acked st @ [\<lparr>rec_offset = off, rec_sequence = s, rec_event_type = t,
                                 rec_payload = payload_bytes payload\<rparr>]\<rparr>"
| step_append_error:
    "j_writer st = Some w \<Longrightarrow> append_fits sha w (j_file st) t payload \<Longrightarrow>
     writer_append sha io w (j_file st) t payload = (Some (Inl e), w', file') \<Longrightarrow>
     journal_step sha st (st\<lparr>j_file := file', j_writer := Some w'\<rparr>)"
| step_append_cut:
    "j_writer st = Some w \<Longrightarrow> append_fits sha w (j_file st) t payload \<Longrightarrow>
     writer_append sha io w (j_file st) t payload = (None, w', file') \<Longrightarrow>
     journal_step sha st (st\<lparr>j_file := file', j_writer := None\<rparr>)"
| step_crash:
    "j_synced st \<le> k \<Longrightarrow> k \<le> length (j_file st) \<Longrightarrow>
     journal_step sha st (st\<lparr>j_file := take k (j_file st), j_writer := None\<rparr>)"
| step_open:
    "j_writer st = None \<Longrightarrow> writer_new sha io root (Some (j_file st)) = (Inr w, Some file') \<Longrightarrow>
     journal_step sha st (st\<lparr>j_file := file', j_writer := Some w\<rparr>)"
| step_recover:
    "j_writer st = None \<Longrightarrow> recover_torn_suffix sha io root (j_file st) = (res, file') \<Longrightarrow>
     journal_step sha st
       (st\<lparr>j_file := file', j_synced := min (j_synced st) (length file')\<rparr>)"

inductive journal_reachable :: "(bytes \<Rightarrow> bytes) \<Rightarrow> journal_state \<Rightarrow> bool" for sha where
  reach_init: "journal_reachable sha journal_init"
| reach_step: "journal_reachable sha st \<Longrightarrow> journal_step sha st st' \<Longrightarrow> journal_reachable sha st'"

inductive_cases journal_stepE: "journal_step sha st st'"

section \<open>Prefixes of logs\<close>

lemma log_size: "log_ok sha s rs \<Longrightarrow> 64 * length rs \<le> length (log_bytes sha s rs)"
proof (induction rs arbitrary: s)
  case (Cons r rs)
  then have "64 < length (record_bytes sha s r)" "64 * length rs \<le> length (log_bytes sha (s + 1) rs)"
    using record_ok_length by auto
  then show ?case by simp
qed simp

lemma log_bytes_Nil: "log_ok sha s rs \<Longrightarrow> log_bytes sha s rs = [] \<Longrightarrow> rs = []"
  using log_size [of sha s rs] by simp

lemma log_prefix_unique:
  assumes "log_ok sha s rs" "log_ok sha s qs" "stands (log_bytes sha s rs) 0 (log_bytes sha s qs)"
  shows "qs = take (length qs) rs \<and> length qs \<le> length rs"
  using assms
proof (induction qs arbitrary: s rs)
  case (Cons q qs)
  have "64 < length (record_bytes sha s q)"
    using Cons.prems(2) record_ok_length by auto
  then have "rs \<noteq> []"
    using stands_length [OF Cons.prems(3)] by (cases rs) auto
  then obtain r rs' where rs: "rs = r # rs'" by (cases rs) auto
  let ?all = "record_bytes sha s r @ log_bytes sha (s + 1) rs'"
  have "stands ?all 0 (record_bytes sha s q)" "stands ?all 0 (record_bytes sha s r)"
    using Cons.prems(3) by (simp_all add: rs stands_append stands_prefix)
  then have "read_record_at sha s ?all 0 = Inr (q, length (record_bytes sha s q))"
    "read_record_at sha s ?all 0 = Inr (r, length (record_bytes sha s r))"
    using Cons.prems(1,2) rs by (simp_all add: rec_wire.dec_iff)
  then have "q = r" by simp
  moreover from this have "stands (log_bytes sha (s + 1) rs') 0 (log_bytes sha (s + 1) qs)"
    using Cons.prems(3) by (simp add: rs stands_append stands_def)
  ultimately show ?case
    using Cons.IH [of "s + 1" rs'] Cons.prems(1,2) rs by simp
qed simp

lemma log_cut_unique:
  assumes "log_ok sha s rs" "log_ok sha s qs" "log_bytes sha s qs = take k (log_bytes sha s rs)"
    "k \<le> length (log_bytes sha s rs)"
  shows "qs = take (whole_records sha s rs k) rs" "k = length (log_bytes sha s qs)"
proof -
  show k: "k = length (log_bytes sha s qs)"
    using assms(3,4) by simp
  have "stands (log_bytes sha s rs) 0 (log_bytes sha s qs)"
    using assms(3) k by (simp add: stands_def)
  from log_prefix_unique [OF assms(1,2) this]
  have pre: "qs = take (length qs) rs" "length qs \<le> length rs" by auto
  let ?m = "whole_records sha s rs k"
  have "length (log_bytes sha s (take (length qs) rs)) \<le> k"
    using pre(1) k by simp
  then have le: "length qs \<le> ?m"
    using whole_records_mono pre(2) by blast
  define xs where "xs = drop (length qs) (take ?m rs)"
  have "take (length qs) (take ?m rs) = qs"
    using le pre(1) by (simp add: min_def)
  then have split: "take ?m rs = qs @ xs"
    unfolding xs_def by (metis append_take_drop_id)
  have "log_bytes sha (s + of_nat (length qs)) xs = []"
  proof -
    have "length (log_bytes sha s (take ?m rs)) \<le> length (log_bytes sha s qs)"
      unfolding k [symmetric] by (rule whole_records_fit)
    then show ?thesis
      unfolding split log_bytes_append by simp
  qed
  moreover have "log_ok sha (s + of_nat (length qs)) xs"
    using log_ok_take [OF assms(1), of ?m] by (simp add: split log_ok_append)
  ultimately have "xs = []"
    by (intro log_bytes_Nil)
  then have "?m \<le> length qs"
    using whole_records_le [of sha s rs k] by (simp add: xs_def)
  with le pre(1) show "qs = take ?m rs" by simp
qed

lemma log_bytes_take_mono:
  "i \<le> j \<Longrightarrow> length (log_bytes sha s (take i rs)) \<le> length (log_bytes sha s (take j rs))"
proof -
  assume "i \<le> j"
  then have "take j rs = take i rs @ drop i (take j rs)"
    by (metis append_take_drop_id min.absorb1 take_take)
  then show ?thesis
    by (metis length_append le_add1 log_bytes_append)
qed

lemma nth_log_records_prefix:
  "i < length rs \<Longrightarrow> log_records sha off s (rs @ qs) ! i = log_records sha off s rs ! i"
  by (simp add: log_records_append nth_append)

section \<open>Invariant\<close>

text \<open>
  The file is the first \<open>k\<close> bytes of a log; every acknowledged record is one of the log's and
  ends within the synced part. A healthy writer stands at the end of the log with the right
  sequence number; the durable end of any writer is a record boundary behind all acknowledged
  records.
\<close>

definition acked_in :: "(bytes \<Rightarrow> bytes) \<Rightarrow> (nat \<times> bytes) list \<Rightarrow> nat \<Rightarrow> journal_record \<Rightarrow> bool" where
  "acked_in sha rs j a \<longleftrightarrow> (\<exists>i<j. i < length rs \<and> a = log_records sha 0 1 rs ! i)"

definition writer_at :: "(bytes \<Rightarrow> bytes) \<Rightarrow> (nat \<times> bytes) list \<Rightarrow> nat \<Rightarrow> journal_record list \<Rightarrow> journal_writer \<Rightarrow> bool" where
  "writer_at sha rs k acked w \<longleftrightarrow>
     (\<exists>j \<le> length rs. w_durable_end w = length (log_bytes sha 1 (take j rs)) \<and> w_durable_end w \<le> k \<and>
        (\<forall>a \<in> set acked. acked_in sha rs j a)) \<and>
     (\<not> w_failed w \<longrightarrow> k = length (log_bytes sha 1 rs) \<and> w_next_sequence w = 1 + of_nat (length rs))"

definition journal_inv :: "(bytes \<Rightarrow> bytes) \<Rightarrow> (nat \<times> bytes) list \<Rightarrow> nat \<Rightarrow> journal_state \<Rightarrow> bool" where
  "journal_inv sha rs k st \<longleftrightarrow>
     log_ok sha 1 rs \<and> length (log_bytes sha 1 rs) \<le> G_MAXINT64 \<and> k \<le> length (log_bytes sha 1 rs) \<and>
     j_file st = take k (log_bytes sha 1 rs) \<and> j_synced st \<le> k \<and>
     (\<forall>a \<in> set (j_acked st). acked_in sha rs (whole_records sha 1 rs (j_synced st)) a) \<and>
     (\<forall>w. j_writer st = Some w \<longrightarrow> writer_at sha rs k (j_acked st) w)"

lemma acked_in_mono: "acked_in sha rs i a \<Longrightarrow> i \<le> j \<Longrightarrow> acked_in sha rs j a"
  unfolding acked_in_def using less_le_trans by blast

lemma acked_in_append: "acked_in sha rs j a \<Longrightarrow> acked_in sha (rs @ qs) j a"
  unfolding acked_in_def by (metis length_append nth_log_records_prefix trans_less_add1)

lemma acked_in_take:
  assumes "acked_in sha rs j a" "j \<le> m"
  shows "acked_in sha (take m rs) j a"
proof -
  obtain i where i: "i < j" "i < length rs" "a = log_records sha 0 1 rs ! i"
    using assms(1) by (auto simp: acked_in_def)
  then have "i < length (take m rs)"
    using assms(2) by simp
  from nth_log_records_prefix [OF this, of sha 0 1 "drop m rs"] i
  have "a = log_records sha 0 1 (take m rs) ! i" by simp
  with i assms(2) show ?thesis
    by (auto simp: acked_in_def)
qed

lemma whole_records_grow: "k \<le> k' \<Longrightarrow> whole_records sha s rs k \<le> whole_records sha s rs k'"
  using whole_records_fit [of sha s rs k] whole_records_le [of sha s rs k]
  by (intro whole_records_mono) auto

lemma whole_records_append: "whole_records sha s rs k \<le> whole_records sha s (rs @ qs) k"
  using whole_records_fit [of sha s rs k] whole_records_le [of sha s rs k]
  by (intro whole_records_mono) auto

lemma whole_records_cut:
  assumes "k \<le> k'"
  shows "whole_records sha s (take (whole_records sha s rs k') rs) k = whole_records sha s rs k"
  using assms
proof (induction rs arbitrary: s k k')
  case (Cons r rs)
  show ?case
    using Cons.prems Cons.IH [of "k - length (record_bytes sha s r)" "k' - length (record_bytes sha s r)" "s + 1"]
    by auto
qed simp

text \<open>Cutting the log after its whole records keeps everything the synced part vouches for.\<close>

lemma acked_in_cut:
  assumes "acked_in sha rs (whole_records sha 1 rs y) a" "y \<le> k"
  shows "acked_in sha (take (whole_records sha 1 rs k) rs) (whole_records sha 1 rs y) a"
  using assms whole_records_grow by (intro acked_in_take) auto

lemma recoverable_crash_end:
  "is_recoverable_torn_suffix (crash_prefix sha rs k) \<Longrightarrow>
   safe_end_offset (crash_prefix sha rs k) = length (log_bytes sha 1 (take (whole_records sha 1 rs k) rs))"
  by (auto simp: is_recoverable_torn_suffix_def crash_prefix_def Let_def safe_prefix_init_def
      safe_prefix_set_unsafe_def split: if_splits)

text \<open>Recovery of the file of a state: nothing, or the whole records.\<close>

lemma recover_in_state:
  assumes rs: "log_ok sha 1 rs" and max: "length (log_bytes sha 1 rs) \<le> G_MAXINT64"
    and k: "k \<le> length (log_bytes sha 1 rs)"
    and rec: "recover_torn_suffix sha io root (take k (log_bytes sha 1 rs)) = (res, file')"
  shows "file' = take k (log_bytes sha 1 rs) \<or>
    file' = log_bytes sha 1 (take (whole_records sha 1 rs k) rs)"
proof -
  let ?seg = "take k (log_bytes sha 1 rs)"
  have small: "length ?seg \<le> G_MAXINT64" and len: "length ?seg = k"
    using max k by auto
  have scan: "scan_safe_prefix sha (reader_on ?seg (length ?seg) 0 1) = Inr (crash_prefix sha rs k)"
    using scan_crashed [OF rs max k, of "reader_on ?seg (length ?seg) 0 1"] len by (simp add: reader_on_def)
  have fit: "length (log_bytes sha 1 (take (whole_records sha 1 rs k) rs)) \<le> k"
    by (rule whole_records_fit)
  have "stands (log_bytes sha 1 rs) 0 (log_bytes sha 1 (take (whole_records sha 1 rs k) rs))"
    using log_bytes_append [of sha 1 "take (whole_records sha 1 rs k) rs" "drop (whole_records sha 1 rs k) rs"]
    by (simp add: stands_prefix)
  then have "take (length (log_bytes sha 1 (take (whole_records sha 1 rs k) rs))) ?seg =
      log_bytes sha 1 (take (whole_records sha 1 rs k) rs)"
    using fit by (simp add: stands_def min_def)
  then show ?thesis
    using recover_any [OF small rec] unfolding scan by (auto simp: recoverable_crash_end)
qed

section \<open>Preservation\<close>

lemma record_ok_fits:
  assumes "sha256_like sha" "event_type_to_string t = Some name" "length p \<le> G_MAXSIZE"
  shows "record_ok sha s (t, p)"
  using assms by (simp add: record_ok_def sha256_like_def)

text \<open>An append of any outcome extends the log by its record and the file by a part of that record.\<close>

lemma append_extends:
  assumes inv: "journal_inv sha rs k st" and w: "j_writer st = Some w" "\<not> w_failed w"
    and sha: "sha256_like sha" and fits: "append_fits sha w (j_file st) t payload"
    and t: "event_type_to_string t = Some name" and n: "n \<le> length (record_bytes sha (w_next_sequence w) (t, payload_bytes payload))"
  defines "r \<equiv> (t, payload_bytes payload)"
  shows "log_ok sha 1 (rs @ [r])" "length (log_bytes sha 1 (rs @ [r])) \<le> G_MAXINT64"
    "k = length (log_bytes sha 1 rs)" "w_next_sequence w = 1 + of_nat (length rs)"
    "k + n \<le> length (log_bytes sha 1 (rs @ [r]))"
    "j_file st @ take n (record_bytes sha (w_next_sequence w) r) = take (k + n) (log_bytes sha 1 (rs @ [r]))"
    "j_file st = log_bytes sha 1 rs"
proof -
  show k: "k = length (log_bytes sha 1 rs)" and s: "w_next_sequence w = 1 + of_nat (length rs)"
    using inv w by (auto simp: journal_inv_def writer_at_def)
  show f: "j_file st = log_bytes sha 1 rs"
    using inv k by (simp add: journal_inv_def)
  have len: "length (payload_bytes payload) \<le> length (record_bytes sha (w_next_sequence w) r)"
    by (simp add: r_def record_bytes_def t)
  with fits have "length (payload_bytes payload) \<le> G_MAXSIZE"
    by (simp add: append_fits_def r_def)
  then have "record_ok sha (1 + of_nat (length rs)) r"
    unfolding r_def by (rule record_ok_fits [OF sha t])
  then show "log_ok sha 1 (rs @ [r])"
    using inv by (simp add: log_ok_append journal_inv_def)
  show "length (log_bytes sha 1 (rs @ [r])) \<le> G_MAXINT64"
    using fits f by (simp add: append_fits_def log_bytes_append s r_def)
  show "k + n \<le> length (log_bytes sha 1 (rs @ [r]))"
    using n k by (simp add: log_bytes_append s r_def)
  show "j_file st @ take n (record_bytes sha (w_next_sequence w) r) = take (k + n) (log_bytes sha 1 (rs @ [r]))"
    unfolding f k by (simp add: log_bytes_append s)
qed

lemma writer_at_later:
  assumes "writer_at sha rs k acked w"
  shows "writer_at sha (rs @ qs) (k + n) acked (w\<lparr>w_failed := True\<rparr>)"
proof -
  obtain j where "j \<le> length rs" "w_durable_end w = length (log_bytes sha 1 (take j rs))" "w_durable_end w \<le> k"
    "\<forall>a \<in> set acked. acked_in sha rs j a"
    using assms unfolding writer_at_def by blast
  then show ?thesis
    by (auto simp: writer_at_def intro!: exI [of _ j] acked_in_append)
qed

lemma acked_later:
  "acked_in sha rs (whole_records sha 1 rs y) a \<Longrightarrow>
   acked_in sha (rs @ qs) (whole_records sha 1 (rs @ qs) y) a"
  by (blast intro: acked_in_mono acked_in_append whole_records_append)

lemma journal_inv_later:
  assumes inv: "journal_inv sha rs k st" and w: "j_writer st = Some w"
    and ok: "log_ok sha 1 (rs @ qs)" "length (log_bytes sha 1 (rs @ qs)) \<le> G_MAXINT64"
    and n: "k + n \<le> length (log_bytes sha 1 (rs @ qs))"
    and cut: "file' = take (k + n) (log_bytes sha 1 (rs @ qs))"
    and w': "w' = None \<or> w' = Some (w\<lparr>w_failed := True\<rparr>)"
  shows "journal_inv sha (rs @ qs) (k + n) (st\<lparr>j_file := file', j_writer := w'\<rparr>)"
proof -
  have "writer_at sha (rs @ qs) (k + n) (j_acked st) (w\<lparr>w_failed := True\<rparr>)"
    using inv w by (intro writer_at_later) (simp add: journal_inv_def)
  with assms show ?thesis
    by (auto simp: journal_inv_def intro: acked_later)
qed

lemma append_error_inv:
  assumes inv: "journal_inv sha rs k st" and w: "j_writer st = Some w"
    and sha: "sha256_like sha" and fits: "append_fits sha w (j_file st) t payload"
    and app: "append_unlocked sha io w (j_file st) t payload = (r, w', file')"
    and r: "\<forall>x. r \<noteq> Some (Inr x)"
  shows "\<exists>rs' k'. journal_inv sha rs' k'
     (st\<lparr>j_file := file', j_writer := (if r = None then None else Some w')\<rparr>)"
  using app
proof (cases rule: append_outcome)
  case (refused e)
  from refused(3) show ?thesis
  proof
    assume "w' = w"
    with inv w refused show ?thesis
      by (intro exI [of _ rs] exI [of _ k]) (simp add: journal_inv_def)
  next
    assume "w' = w\<lparr>w_failed := True\<rparr>"
    with journal_inv_later [OF inv w, of "[]" 0] inv refused show ?thesis
      by (intro exI [of _ rs] exI [of _ k]) (auto simp: journal_inv_def)
  qed
next
  case (cut name n)
  note ext = append_extends [OF inv w cut(1) sha fits cut(2,5)]
  from journal_inv_later [OF inv w ext(1,2,5) refl, of None] cut ext show ?thesis
    by (intro exI [of _ "rs @ [(t, payload_bytes payload)]"] exI [of _ "k + n"]) simp
next
  case (error name n e)
  note ext = append_extends [OF inv w error(1) sha fits error(2,5)]
  from journal_inv_later [OF inv w ext(1,2,5) refl, of "Some w'"] error ext show ?thesis
    by (intro exI [of _ "rs @ [(t, payload_bytes payload)]"] exI [of _ "k + n"]) simp
next
  case (ok name)
  with r show ?thesis by blast
qed

lemma append_ok_inv:
  assumes inv: "journal_inv sha rs k st" and w: "j_writer st = Some w"
    and sha: "sha256_like sha" and fits: "append_fits sha w (j_file st) t payload"
    and app: "append_unlocked sha io w (j_file st) t payload = (Some (Inr (off, s)), w', file')"
  shows "journal_inv sha (rs @ [(t, payload_bytes payload)]) (length file')
     \<lparr>j_file = file', j_synced = max (j_synced st) (w_synced w'), j_writer = Some w',
      j_acked = j_acked st @ [\<lparr>rec_offset = off, rec_sequence = s, rec_event_type = t,
                               rec_payload = payload_bytes payload\<rparr>]\<rparr>"
  using app
proof (cases rule: append_outcome)
  case (ok name)
  let ?r = "(t, payload_bytes payload)"
  let ?a = "\<lparr>rec_offset = off, rec_sequence = s, rec_event_type = t, rec_payload = payload_bytes payload\<rparr>"
  note ext = append_extends [OF inv w ok(1) sha fits ok(2) order_refl]
  have rok: "record_ok sha (1 + of_nat (length rs)) ?r"
    using ext(1) by (simp add: log_ok_append)
  have file': "file' = log_bytes sha 1 (rs @ [?r])"
    using ok(4) ext(4,7) by (simp add: log_bytes_append)
  have new: "?a = log_records sha 0 1 (rs @ [?r]) ! length rs"
    using ok(3) ext(4,7) by (simp add: log_records_append nth_append)
  have whole: "whole_records sha 1 (rs @ [?r]) (length file') = Suc (length rs)"
    using whole_records_all [of sha 1 "rs @ [?r]"] by (simp add: file')
  have acked: "acked_in sha (rs @ [?r]) (Suc (length rs)) a" if "a \<in> set (j_acked st @ [?a])" for a
  proof (cases "a = ?a")
    case True
    with new show ?thesis
      unfolding acked_in_def by (intro exI [of _ "length rs"]) simp
  next
    case False
    with that inv have "acked_in sha rs (whole_records sha 1 rs (j_synced st)) a"
      by (auto simp: journal_inv_def)
    then show ?thesis
      using whole_records_le [of sha 1 rs "j_synced st"] by (blast intro: acked_in_mono acked_in_append le_SucI)
  qed
  have len: "length file' = length (j_file st) + 64 + length name + length (payload_bytes payload)"
    using length_record_bytes [OF ok(2) rok] ext(4,7) by (simp add: file' log_bytes_append)
  have "writer_at sha (rs @ [?r]) (length file') (j_acked st @ [?a]) w'"
    unfolding writer_at_def
    using ok(1,5) acked len ext(4) file' by (intro conjI exI [of _ "Suc (length rs)"]) auto
  moreover have "max (j_synced st) (w_synced w') = length file'"
  proof -
    have "j_synced st \<le> length (j_file st)"
      using inv ext(3,7) by (simp add: journal_inv_def)
    with ok(5) len show ?thesis by simp
  qed
  ultimately show ?thesis
    using ext(1,2) acked whole file' by (simp add: journal_inv_def)
qed auto

lemma crash_inv:
  assumes inv: "journal_inv sha rs k st" and y: "j_synced st \<le> y" "y \<le> length (j_file st)"
  shows "journal_inv sha rs y (st\<lparr>j_file := take y (j_file st), j_writer := None\<rparr>)"
proof -
  have "y \<le> k"
    using inv y by (auto simp: journal_inv_def)
  with inv y show ?thesis
    by (auto simp: journal_inv_def min_absorb1)
qed

text \<open>Cutting the log down to the whole records of the file, as opening and recovery do.\<close>

lemma whole_inv:
  assumes inv: "journal_inv sha rs k st"
  defines "m \<equiv> whole_records sha 1 rs k"
  defines "e \<equiv> length (log_bytes sha 1 (take m rs))"
  assumes w: "\<And>w. w' = Some w \<Longrightarrow> writer_at sha (take m rs) e (j_acked st) w"
    and y: "y = min (j_synced st) e \<or> y = e"
  shows "journal_inv sha (take m rs) e
    (st\<lparr>j_file := log_bytes sha 1 (take m rs), j_synced := y, j_writer := w'\<rparr>)"
proof -
  let ?n = "whole_records sha 1 rs (j_synced st)"
  have e: "e \<le> k"
    unfolding e_def m_def by (rule whole_records_fit)
  have "stands (log_bytes sha 1 rs) 0 (log_bytes sha 1 (take m rs))"
    using log_bytes_append [of sha 1 "take m rs" "drop m rs"] by (simp add: stands_prefix)
  then have len: "e \<le> length (log_bytes sha 1 rs)"
    using stands_length by (fastforce simp: e_def)
  have n: "?n \<le> m"
    using inv by (auto simp: m_def journal_inv_def intro: whole_records_grow)
  have "length (log_bytes sha 1 (take ?n (take m rs))) \<le> j_synced st"
    using whole_records_fit [of sha 1 rs "j_synced st"] n by (simp add: min_def)
  moreover have "length (log_bytes sha 1 (take ?n (take m rs))) \<le> e"
    using log_bytes_take_mono [of ?n m sha 1 rs] n by (simp add: e_def min_def)
  ultimately have "length (log_bytes sha 1 (take ?n (take m rs))) \<le> y"
    using y by auto
  then have "?n \<le> whole_records sha 1 (take m rs) y"
    using n whole_records_le [of sha 1 rs "j_synced st"] by (intro whole_records_mono) auto
  then have "acked_in sha (take m rs) (whole_records sha 1 (take m rs) y) a" if "a \<in> set (j_acked st)" for a
    using acked_in_mono [OF acked_in_take [OF _ n, of sha rs a]] that inv by (simp add: journal_inv_def)
  then show ?thesis
    using inv w y len by (auto simp: journal_inv_def e_def intro: log_ok_take)
qed

lemma open_inv:
  assumes inv: "journal_inv sha rs k st"
    and open_ok: "writer_new sha io root (Some (j_file st)) = (Inr w, Some file')"
  shows "\<exists>rs' k'. journal_inv sha rs' k' (st\<lparr>j_file := file', j_writer := Some w\<rparr>)"
proof -
  let ?m = "whole_records sha 1 rs k"
  let ?rs = "take ?m rs"
  have facts: "log_ok sha 1 rs" "j_file st = take k (log_bytes sha 1 rs)" "k \<le> length (log_bytes sha 1 rs)"
    "length (log_bytes sha 1 rs) \<le> G_MAXINT64" "j_synced st \<le> k"
    using inv by (auto simp: journal_inv_def)
  have size: "length (j_file st) \<le> G_MAXSIZE"
    using facts by simp
  obtain qs where qs: "log_ok sha 1 qs" "j_file st = log_bytes sha 1 qs" "file' = j_file st"
    "w = \<lparr>w_root = root, w_next_sequence = 1 + of_nat (length qs), w_durable_end = length (j_file st), w_failed = False, w_synced = 0\<rparr>"
    using writer_new_Inr [OF open_ok size] by auto
  have "log_bytes sha 1 qs = take k (log_bytes sha 1 rs)"
    using qs(2) facts(2) by simp
  from log_cut_unique [OF facts(1) qs(1) this facts(3)] have rs: "qs = ?rs" and k: "k = length (log_bytes sha 1 qs)"
    by auto
  have acked: "acked_in sha ?rs (length ?rs) a" if "a \<in> set (j_acked st)" for a
  proof -
    have "acked_in sha rs (whole_records sha 1 rs (j_synced st)) a"
      using that inv by (simp add: journal_inv_def)
    then have "acked_in sha ?rs (whole_records sha 1 rs (j_synced st)) a"
      using facts(5) by (rule acked_in_cut)
    then show ?thesis
      using whole_records_grow [OF facts(5), of sha 1 rs] whole_records_le [of sha 1 rs k]
      by (auto elim: acked_in_mono)
  qed
  have wf: "w_durable_end w = length (log_bytes sha 1 qs)" "w_next_sequence w = 1 + of_nat (length qs)"
    by (simp_all only: qs(4) journal_writer.simps qs(2))
  have "\<forall>a \<in> set (j_acked st). acked_in sha qs (length qs) a"
    using acked unfolding rs [symmetric] by blast
  then have "writer_at sha qs (length (log_bytes sha 1 qs)) (j_acked st) w"
    unfolding writer_at_def using wf by (intro conjI exI [of _ "length qs"]) simp_all
  then have w: "writer_at sha ?rs (length (log_bytes sha 1 ?rs)) (j_acked st) w"
    unfolding rs [symmetric] .
  have "j_synced st \<le> length (log_bytes sha 1 qs)"
    using facts(5) k by linarith
  then have y: "j_synced st \<le> length (log_bytes sha 1 ?rs)"
    unfolding rs [symmetric] .
  have "journal_inv sha ?rs (length (log_bytes sha 1 ?rs))
      (st\<lparr>j_file := log_bytes sha 1 ?rs, j_synced := j_synced st, j_writer := Some w\<rparr>)"
    using w y by (intro whole_inv [OF inv]) auto
  moreover have "file' = log_bytes sha 1 ?rs"
    unfolding rs [symmetric] using qs(2,3) by simp
  ultimately show ?thesis
    by (intro exI [of _ ?rs] exI [of _ "length (log_bytes sha 1 ?rs)"]) simp
qed

lemma recover_inv:
  assumes inv: "journal_inv sha rs k st" and w: "j_writer st = None"
    and rec: "recover_torn_suffix sha io root (j_file st) = (res, file')"
  shows "\<exists>rs' k'. journal_inv sha rs' k' (st\<lparr>j_file := file', j_synced := min (j_synced st) (length file')\<rparr>)"
proof -
  have facts: "log_ok sha 1 rs" "j_file st = take k (log_bytes sha 1 rs)" "k \<le> length (log_bytes sha 1 rs)"
    "length (log_bytes sha 1 rs) \<le> G_MAXINT64" "j_synced st \<le> k"
    using inv by (auto simp: journal_inv_def)
  let ?y = "min (j_synced st) (length file')"
  have "recover_torn_suffix sha io root (take k (log_bytes sha 1 rs)) = (res, file')"
    using rec facts(2) by simp
  from recover_in_state [OF facts(1,4,3) this] show ?thesis
  proof
    assume f: "file' = take k (log_bytes sha 1 rs)"
    then have y: "j_synced st \<le> ?y" "?y \<le> k"
      using facts by simp_all
    have "acked_in sha rs (whole_records sha 1 rs ?y) a" if "a \<in> set (j_acked st)" for a
      using that inv whole_records_grow [OF y(1), of sha 1 rs] by (auto simp: journal_inv_def intro: acked_in_mono)
    with inv f w y show ?thesis
      by (intro exI [of _ rs] exI [of _ k]) (simp add: journal_inv_def)
  next
    assume f: "file' = log_bytes sha 1 (take (whole_records sha 1 rs k) rs)"
    have "journal_inv sha (take (whole_records sha 1 rs k) rs) (length (log_bytes sha 1 (take (whole_records sha 1 rs k) rs)))
      (st\<lparr>j_file := log_bytes sha 1 (take (whole_records sha 1 rs k) rs), j_synced := ?y, j_writer := None\<rparr>)"
      using f by (intro whole_inv [OF inv]) simp_all
    with f w show ?thesis
      by (intro exI) (cases st; auto)
  qed
qed

lemma journal_step_inv:
  assumes "journal_step sha st st'" "sha256_like sha" "journal_inv sha rs k st"
  shows "\<exists>rs' k'. journal_inv sha rs' k' st'"
  using assms(1)
proof cases
  case (step_append w t payload io off s w' file')
  from append_ok_inv [OF assms(3) step_append(2) assms(2) step_append(3)
      step_append(4) [unfolded writer_append_def]] step_append(1)
  show ?thesis by blast
next
  case (step_append_error w t payload io e w' file')
  then show ?thesis
    using append_error_inv [OF assms(3) _ assms(2), of w t payload io "Some (Inl e)" w' file']
    by (auto simp: writer_append_def)
next
  case (step_append_cut w t payload io w' file')
  then show ?thesis
    using append_error_inv [OF assms(3) _ assms(2), of w t payload io None w' file']
    by (auto simp: writer_append_def)
next
  case (step_crash k)
  then show ?thesis
    using crash_inv [OF assms(3)] by blast
next
  case (step_open io root w file')
  then show ?thesis
    using open_inv [OF assms(3)] by blast
next
  case (step_recover io root res file')
  then show ?thesis
    using recover_inv [OF assms(3)] by blast
qed

lemma journal_reachable_inv:
  assumes "journal_reachable sha st" "sha256_like sha"
  shows "\<exists>rs k. journal_inv sha rs k st"
  using assms
proof (induction rule: journal_reachable.induct)
  case reach_init
  show ?case
    by (intro exI [of _ "[]"] exI [of _ 0]) (simp add: journal_inv_def journal_init_def)
next
  case (reach_step st st')
  then show ?case
    using journal_step_inv by blast
qed

text \<open>A reader limited to the durable end of an open writer reads a log that has every acknowledged record.\<close>

lemma durable_reader:
  assumes "journal_reachable sha st" "sha256_like sha" "j_writer st = Some w" "root \<noteq> []"
  obtains r rs r' where "reader_new_with_limit root (Some (j_file st)) (get_durable_end w) = Inr r"
    "read_all sha r = (log_records sha 0 1 rs, None, r')" "log_ok sha 1 rs"
    "set (j_acked st) \<subseteq> set (log_records sha 0 1 rs)" "get_durable_end w \<le> length (j_file st)"
    "length (log_bytes sha 1 rs) = get_durable_end w" "get_durable_end w \<le> G_MAXINT64"
proof -
  obtain rs k where inv: "journal_inv sha rs k st"
    using journal_reachable_inv [OF assms(1,2)] by blast
  then have f: "log_ok sha 1 rs" "j_file st = take k (log_bytes sha 1 rs)" "k \<le> length (log_bytes sha 1 rs)"
    "length (log_bytes sha 1 rs) \<le> G_MAXINT64" "writer_at sha rs k (j_acked st) w"
    using assms(3) by (auto simp: journal_inv_def)
  then obtain j where j: "j \<le> length rs" "w_durable_end w = length (log_bytes sha 1 (take j rs))"
    "w_durable_end w \<le> k" "\<forall>a \<in> set (j_acked st). acked_in sha rs j a"
    unfolding writer_at_def by blast
  let ?d = "w_durable_end w"
  let ?r = "reader_on (j_file st) ?d 0 1"
  have len: "length (j_file st) = k"
    using f by simp
  have new: "reader_new_with_limit root (Some (j_file st)) ?d = Inr ?r"
    using assms(4) f j(3) len by (simp add: reader_new_with_limit_def reader_on_def)
  have "stands (log_bytes sha 1 rs) 0 (log_bytes sha 1 (take j rs))"
    using log_bytes_append [of sha 1 "take j rs" "drop j rs"] by (simp add: stands_prefix)
  then have "stands (take ?d (j_file st)) 0 (log_bytes sha 1 (take j rs))"
    using j(2,3) f(2) by (simp add: stands_take)
  then have rd: "read_all sha ?r = (log_records sha 0 1 (take j rs), None, reader_on (j_file st) ?d ?d (1 + of_nat (length (take j rs))))"
    using j(2,3) len log_ok_take [OF f(1)] by (intro read_all_log) auto
  have "set (j_acked st) \<subseteq> set (log_records sha 0 1 (take j rs))"
  proof
    fix a assume "a \<in> set (j_acked st)"
    with j(4) have "acked_in sha (take j rs) j a"
      by (auto intro: acked_in_take)
    then show "a \<in> set (log_records sha 0 1 (take j rs))"
      by (auto simp: acked_in_def)
  qed
  moreover have "?d \<le> length (j_file st)" "?d \<le> G_MAXINT64"
    using j(3) f(3,4) len by simp_all
  ultimately show thesis
    using new rd log_ok_take [OF f(1)] j(2) by (intro that [of ?r "take j rs"]) (simp_all only: get_durable_end_def)
qed

end
