(* ===== verification/Payload_Common.thy ===== *)
theory Payload_Common
  imports Wire
begin

text \<open>
  What the payload codecs of \<^verbatim>\<open>src/wyrebox/journal\<close> share: the checks on
  strings, flags and keywords, the size computation in front of the allocation, and the
  contract every codec is proved to keep.

  \<^item> A payload struct is a record; its \<^verbatim>\<open>char *\<close> and \<^verbatim>\<open>GStrv\<close> fields are optional
    values (\<open>None\<close> is NULL), its enumerations are the numbers of their constants.
  \<^item> An encoder computes the size first, allocates, fills the buffer and asserts that it was
    filled exactly; the failed assertion is the value \<open>Inl Abort\<close>, which the lemmas exclude.
  \<^item> A helper that several C files repeat verbatim is one definition here.
\<close>

section \<open>Contracts\<close>

text \<open>
  \<open>payload_codec\<close>: what was encoded from a well-formed payload decodes to that payload up to
  \<open>canon\<close> (a vector without strings comes back as NULL). \<open>exact_codec\<close>: moreover whatever
  decodes is the encoding of its result, so no two byte strings, up to the size that can be
  encoded at all, denote the same payload.
\<close>

locale payload_codec =
  fixes encode :: "'p \<Rightarrow> bytes result"
    and decode :: "bytes \<Rightarrow> 'p result"
    and canon :: "'p \<Rightarrow> 'p"
    and wf :: "'p \<Rightarrow> bool"
  assumes round: "wf p \<Longrightarrow> encode p = Inr data \<Longrightarrow> decode data = Inr (canon p)"
begin

lemma encode_separates:
  "wf p \<Longrightarrow> wf q \<Longrightarrow> encode p = Inr data \<Longrightarrow> encode q = Inr data \<Longrightarrow> canon p = canon q"
  using round [of p data] round [of q data] by simp

end

locale exact_codec = payload_codec +
  fixes max_size :: nat
  assumes unique: "decode data = Inr p \<Longrightarrow> length data \<le> max_size \<Longrightarrow> encode p = Inr data \<and> wf p \<and> canon p = p"
begin

lemma decode_separates:
  "decode data = Inr p \<Longrightarrow> decode data' = Inr p \<Longrightarrow> length data \<le> max_size \<Longrightarrow> length data' \<le> max_size \<Longrightarrow>
   data = data'"
  using unique [of data p] unique [of data' p] by simp

lemma decode_iff_encode:
  "length data \<le> max_size \<Longrightarrow>
   decode data = Inr p \<longleftrightarrow> wf p \<and> canon p = p \<and> encode p = Inr data"
  using unique round by metis

end

section \<open>Flags, keywords and required strings\<close>

definition system_flag_names :: "bytes list" where
  "system_flag_names = map lit
     [[CHR 0x5C] @ ''Seen'', [CHR 0x5C] @ ''Answered'', [CHR 0x5C] @ ''Flagged'',
      [CHR 0x5C] @ ''Deleted'', [CHR 0x5C] @ ''Draft'']"

definition is_system_flag :: "bytes \<Rightarrow> bool" where
  "is_system_flag value = list_ex (\<lambda>name. value = name) system_flag_names"

definition is_user_keyword :: "bytes \<Rightarrow> bool" where
  "is_user_keyword value =
     (if value = [] \<or> hd value = 0x5C then False
      else list_all (\<lambda>c. \<not> (g_ascii_iscntrl c \<or> g_ascii_isspace c)) value)"

definition validate_required_string :: "string \<Rightarrow> cstring \<Rightarrow> io_code \<Rightarrow> unit result" where
  "validate_required_string field value code =
     (if value = None \<or> value = Some [] then Inl (GError code (Required field)) else Inr ())"

text \<open>The nested loops of \<^verbatim>\<open>validate_names\<close>; \<open>seen\<close> holds the values before index \<^verbatim>\<open>i\<close>.\<close>

fun validate_names_from :: "string \<Rightarrow> (bytes \<Rightarrow> bool) \<Rightarrow> io_code \<Rightarrow> bytes list \<Rightarrow> bytes list \<Rightarrow> unit result" where
  "validate_names_from field is_valid code seen [] = Inr ()"
| "validate_names_from field is_valid code seen (v # vs) =
     (if \<not> is_valid v then Inl (GError code (Invalid_value field))
      else if list_ex (\<lambda>u. v = u) seen then Inl (GError code (Duplicate_value field))
      else validate_names_from field is_valid code (seen @ [v]) vs)"

definition validate_names :: "string \<Rightarrow> strv \<Rightarrow> (bytes \<Rightarrow> bool) \<Rightarrow> io_code \<Rightarrow> unit result" where
  "validate_names field values is_valid code = validate_names_from field is_valid code [] (strv_items values)"

definition strv_count :: "strv \<Rightarrow> nat" where
  "strv_count values = length (strv_items values)"

lemma validate_required_string_Inr [result_simps]:
  "validate_required_string field v code = Inr u \<longleftrightarrow> (\<exists>s. v = Some s \<and> s \<noteq> [])"
  by (cases v) (auto simp: validate_required_string_def)

lemma validate_names_from_Inr:
  "validate_names_from field is_valid code seen vs = Inr u \<longleftrightarrow>
     list_all is_valid vs \<and> distinct vs \<and> set vs \<inter> set seen = {}"
  by (induction vs arbitrary: seen) (auto simp: list_ex_iff)

lemma validate_names_Inr [result_simps]:
  "validate_names field values is_valid code = Inr u \<longleftrightarrow>
     list_all is_valid (strv_items values) \<and> distinct (strv_items values)"
  by (simp add: validate_names_def validate_names_from_Inr)

lemma is_system_flag_iff: "is_system_flag v \<longleftrightarrow> v \<in> set system_flag_names"
  by (auto simp: is_system_flag_def list_ex_iff)

text \<open>A vector of distinct system flags is short, which is why the encoders do not count it.\<close>

lemma system_flags_bound:
  assumes "list_all is_system_flag vs" "distinct vs"
  shows "length vs \<le> 5"
proof -
  have "set vs \<subseteq> set system_flag_names"
    using assms(1) by (auto simp: list_all_iff is_system_flag_iff)
  then have "card (set vs) \<le> card (set system_flag_names)"
    by (intro card_mono) auto
  also have "\<dots> \<le> length system_flag_names"
    by (rule card_length)
  finally show ?thesis
    using assms(2) by (simp add: distinct_card system_flag_names_def)
qed

section \<open>Sizes\<close>

definition checked_add_string :: "nat \<Rightarrow> bytes \<Rightarrow> nat result" where
  "checked_add_string total_size value =
     (let len = length value
      in if len > G_MAXUINT32 \<or> len + 4 > G_MAXSIZE - total_size
         then Inl (GError IO_INVALID_ARGUMENT String_too_large)
         else Inr (total_size + 4 + len))"

fun checked_add_strings :: "nat \<Rightarrow> bytes list \<Rightarrow> nat result" where
  "checked_add_strings total_size [] = Inr total_size"
| "checked_add_strings total_size (v # vs) =
     bindE (checked_add_string total_size v) (\<lambda>total_next. checked_add_strings total_next vs)"

definition strings_size :: "bytes list \<Rightarrow> nat" where
  "strings_size vs = sum_list (map (\<lambda>v. 4 + length v) vs)"

lemma checked_add_string_Inr [result_simps]:
  "total_size \<le> G_MAXSIZE \<Longrightarrow> checked_add_string total_size v = Inr n \<longleftrightarrow>
     length v \<le> G_MAXUINT32 \<and> total_size + 4 + length v \<le> G_MAXSIZE \<and> n = total_size + 4 + length v"
  by (auto simp: checked_add_string_def Let_def)

lemma checked_add_strings_Inr [result_simps]:
  "total_size \<le> G_MAXSIZE \<Longrightarrow> checked_add_strings total_size vs = Inr n \<longleftrightarrow>
     list_all (\<lambda>v. length v \<le> G_MAXUINT32) vs \<and> total_size + strings_size vs \<le> G_MAXSIZE \<and>
     n = total_size + strings_size vs"
proof (induction vs arbitrary: total_size)
  case (Cons v vs)
  show ?case
  proof (cases "length v \<le> G_MAXUINT32 \<and> total_size + 4 + length v \<le> G_MAXSIZE")
    case True
    then show ?thesis
      using Cons.IH [of "total_size + 4 + length v"] Cons.prems
      by (auto simp: bindE_Inr_iff checked_add_string_Inr strings_size_def)
  next
    case False
    then show ?thesis
      using Cons.prems by (auto simp: bindE_Inr_iff checked_add_string_Inr strings_size_def)
  qed
qed (auto simp: strings_size_def)

lemma length_write_string [simp]: "length (write_string s) = 4 + length s"
  by (simp add: write_string_def)

lemma length_write_strings [simp]: "length (write_strings vs) = strings_size vs"
  by (induction vs) (simp_all add: write_strings_def strings_size_def)

lemma strings_size_simps [simp]:
  "strings_size [] = 0" "strings_size (v # vs) = 4 + length v + strings_size vs"
  by (simp_all add: strings_size_def)

definition checked_add_size :: "nat \<Rightarrow> nat \<Rightarrow> nat result" where
  "checked_add_size total_size value =
     (if value > G_MAXSIZE - total_size then Inl (GError IO_INVALID_ARGUMENT Length_overflow)
      else Inr (total_size + value))"

text \<open>The buffer is filled and the assertion on the cursor is checked.\<close>

definition filled :: "nat \<Rightarrow> bytes \<Rightarrow> bytes result" where
  "filled payload_len data = (if length data = payload_len then Inr data else Inl Abort)"

lemma filled_Inr [result_simps]: "filled n data = Inr d \<longleftrightarrow> length data = n \<and> d = data"
  by (auto simp: filled_def)

section \<open>Object keys\<close>

text \<open>\<^verbatim>\<open>sha256:\<close> and 64 lower-case hexadecimal digits.\<close>

definition is_sha256_object_key :: "cstring \<Rightarrow> bool" where
  "is_sha256_object_key key =
     (case key of
        None \<Rightarrow> False
      | Some value \<Rightarrow>
          if length value \<noteq> 71 \<or> take 7 value \<noteq> lit ''sha256:'' then False
          else list_all (\<lambda>c. \<not> (\<not> g_ascii_isxdigit c \<or> g_ascii_isupper c)) (drop 7 value))"

section \<open>Strings of C\<close>

text \<open>What holds of every \<^verbatim>\<open>char *\<close> and \<^verbatim>\<open>GStrv\<close> a caller passes.\<close>

fun cstring_wf :: "cstring \<Rightarrow> bool" where
  "cstring_wf None = True"
| "cstring_wf (Some s) = nul_free s"

definition strv_wf :: "strv \<Rightarrow> bool" where
  "strv_wf v = list_all nul_free (strv_items v)"

lemma strv_wf_canon [simp]: "strv_wf (strv_canon v) = strv_wf v"
  by (simp add: strv_wf_def)

lemma strv_ok_iff:
  "strv_ok v \<longleftrightarrow> strv_wf v \<and> list_all (\<lambda>s. length s \<le> G_MAXUINT32) (strv_items v) \<and>
     length (strv_items v) \<le> G_MAXUINT32"
  by (auto simp: strv_ok_def strv_wf_def string_ok_def list_all_iff)

section \<open>Arrays of 64-bit numbers\<close>

definition write_u64s :: "u64 list \<Rightarrow> bytes" where
  "write_u64s us = concat (map write_u64_le us)"

text \<open>The reading loop, which runs after a check that the bytes are there.\<close>

fun read_u64s :: "bytes \<Rightarrow> nat \<Rightarrow> nat \<Rightarrow> u64 list" where
  "read_u64s data off 0 = []"
| "read_u64s data off (Suc n) = read_u64_le data off # read_u64s data (off + 8) n"

lemma write_u64s_simps [simp]:
  "write_u64s [] = []" "write_u64s (u # us) = write_u64_le u @ write_u64s us"
  by (simp_all add: write_u64s_def)

lemma length_write_u64s [simp]: "length (write_u64s us) = 8 * length us"
  by (induction us) simp_all

lemma length_read_u64s [simp]: "length (read_u64s data off n) = n"
  by (induction n arbitrary: off) simp_all

lemma stands_u64s:
  "stands data off (write_u64s us) \<longleftrightarrow>
     (us = [] \<or> off + 8 * length us \<le> length data) \<and> read_u64s data off (length us) = us"
proof (induction us arbitrary: off)
  case (Cons u us)
  have "stands data off (write_u64s (u # us)) \<longleftrightarrow> off + 8 \<le> length data \<and> read_u64_le data off = u \<and>
      (us = [] \<or> off + 8 + 8 * length us \<le> length data) \<and> read_u64s data (off + 8) (length us) = us"
    using Cons.IH [of "off + 8"] by (simp add: stands_append stands_u64)
  also have "\<dots> \<longleftrightarrow> (u # us = [] \<or> off + 8 * length (u # us) \<le> length data) \<and>
      read_u64s data off (length (u # us)) = u # us"
    by (cases "us = []") auto
  finally show ?case .
qed simp

text \<open>The loop of \<^verbatim>\<open>validate_payload\<close> over a strictly ascending array of UIDs.\<close>

fun validate_uids_from :: "io_code \<Rightarrow> u64 option \<Rightarrow> u64 list \<Rightarrow> unit result" where
  "validate_uids_from code prev [] = Inr ()"
| "validate_uids_from code prev (uid # uids) =
     (if uid = 0 then Inl (GError code (Invalid_value ''uid''))
      else if (case prev of None \<Rightarrow> False | Some before \<Rightarrow> uid \<le> before)
      then Inl (GError code Not_ascending)
      else validate_uids_from code (Some uid) uids)"

lemma validate_uids_from_Inr:
  "validate_uids_from code prev uids = Inr u \<longleftrightarrow>
     0 \<notin> set uids \<and> sorted_wrt (<) uids \<and> (\<forall>before. prev = Some before \<longrightarrow> uids = [] \<or> before < hd uids)"
proof (induction uids arbitrary: prev)
  case (Cons v vs)
  have "sorted_wrt (<) (v # vs) \<longleftrightarrow> sorted_wrt (<) vs \<and> (vs = [] \<or> v < hd vs)"
    by (cases vs) (auto simp: sorted_wrt1 sorted_wrt2 simp del: sorted_wrt.simps(2))
  then show ?case
    using Cons.IH [of "Some v"] by (auto split: option.splits simp del: sorted_wrt.simps)
qed simp

section \<open>Strings that may not be empty\<close>

definition read_nonempty_string :: "bytes \<Rightarrow> nat \<Rightarrow> (bytes \<times> nat) result" where
  "read_nonempty_string data off =
     bindE (read_u32 data off) (\<lambda>(len, off1).
       if unat len > length data - off1 then Inl (GError IO_INVALID_DATA Truncated)
       else if len = 0 then Inl (GError IO_INVALID_DATA Empty_string)
       else if has_nul data off1 (unat len) then Inl (GError IO_INVALID_DATA Embedded_nul)
       else Inr (g_strndup data off1 (unat len), off1 + unat len))"

lemma read_nonempty_string_iff [wire_simps]:
  "read_nonempty_string data off = Inr (s, off') \<longleftrightarrow>
     string_ok s \<and> s \<noteq> [] \<and> stands data off (write_string s) \<and> off' = off + length (write_string s)"
proof -
  have "read_nonempty_string data off = Inr (s, off') \<longleftrightarrow> read_string data off = Inr (s, off') \<and> s \<noteq> []"
  proof (cases "read_u32 data off")
    case (Inr r)
    obtain len off1 where r: "r = (len, off1)" by (cases r)
    have "g_strndup data off1 (unat len) = [] \<longleftrightarrow> len = 0"
      if "unat len \<le> length data - off1" "\<not> has_nul data off1 (unat len)"
      using that string_body_iff [of "unat len" data off1 "g_strndup data off1 (unat len)"]
      by (auto simp: unat_eq_0)
    then show ?thesis
      using Inr r by (auto simp: read_nonempty_string_def read_string_def)
  qed (simp add: read_nonempty_string_def read_string_def)
  then show ?thesis
    by (auto simp: str_wire.dec_iff)
qed

section \<open>Strings in place of nullable strings\<close>

text \<open>One round of the loop of \<^verbatim>\<open>read_strv\<close>: a NULL string is an error.\<close>

definition read_name :: "bytes \<Rightarrow> nat \<Rightarrow> (bytes \<times> nat) result" where
  "read_name data off =
     bindE (read_nullable_string data off) (\<lambda>(value, off1).
       case value of
         None \<Rightarrow> Inl (GError IO_INVALID_DATA Null_string)
       | Some s \<Rightarrow> Inr (s, off1))"

definition name_ok :: "bytes \<Rightarrow> bool" where
  "name_ok s \<longleftrightarrow> nul_free s \<and> length s < G_MAXUINT32"

interpretation name_wire: sized_wire_format write_string read_name name_ok 4
proof
  fix data off x off'
  have "read_name data off = Inr (x, off') \<longleftrightarrow> read_nullable_string data off = Inr (Some x, off')"
    by (auto simp: read_name_def bindE_Inr_iff split: option.splits)
  then show "read_name data off = Inr (x, off') \<longleftrightarrow>
      name_ok x \<and> stands data off (write_string x) \<and> off' = off + length (write_string x)"
    by (simp add: nstr_wire.dec_iff name_ok_def write_string_def)
qed simp_all

section \<open>Vectors with their own count\<close>

definition write_strv :: "strv \<Rightarrow> bytes" where
  "write_strv values = write_u32_le (of_nat (strv_count values)) @ write_strings (strv_items values)"

definition read_strv :: "bytes \<Rightarrow> nat \<Rightarrow> (strv \<times> nat) result" where
  "read_strv data off = bindE (read_u32 data off) (\<lambda>(count, off1). read_strv_counted data off1 count)"

lemma length_write_strv [simp]: "length (write_strv v) = 4 + strings_size (strv_items v)"
  by (simp add: write_strv_def)

lemma write_strv_canon [simp]: "write_strv (strv_canon v) = write_strv v"
  by (simp add: write_strv_def strv_count_def)

interpretation strv_wire: sized_wire_format write_strv read_strv "\<lambda>v. strv_ok v \<and> strv_canon v = v" 4
proof
  fix data off and x :: strv and off'
  have "read_strv data off = Inr (x, off') \<longleftrightarrow>
      (\<exists>count. off + 4 \<le> length data \<and> read_u32_le data off = count \<and>
         read_strv_counted data (off + 4) count = Inr (x, off'))"
    by (auto simp: read_strv_def bindE_Inr_iff u32_wire.dec_iff stands_u32)
  also have "\<dots> \<longleftrightarrow> strv_ok x \<and> strv_canon x = x \<and> off + 4 \<le> length data \<and>
      length (strv_items x) = unat (read_u32_le data off) \<and> stands data (off + 4) (write_strings (strv_items x)) \<and>
      off' = off + length (write_strv x)"
    by (auto simp: read_strv_counted_iff)
  also have "\<dots> \<longleftrightarrow> (strv_ok x \<and> strv_canon x = x) \<and> stands data off (write_strv x) \<and>
      off' = off + length (write_strv x)"
    using of_nat_u32_eq_iff [of "length (strv_items x)" "read_u32_le data off"]
    by (auto simp: write_strv_def stands_append stands_u32 strv_ok_def strv_count_def)
  finally show "read_strv data off = Inr (x, off') \<longleftrightarrow> (strv_ok x \<and> strv_canon x = x) \<and>
      stands data off (write_strv x) \<and> off' = off + length (write_strv x)" .
qed (auto simp: write_strv_def)

section \<open>Growing buffers\<close>

definition append_u32 :: "bytes \<Rightarrow> u32 \<Rightarrow> bytes result" where
  "append_u32 buffer value = append_bytes buffer (write_u32_le value)"

definition append_u64 :: "bytes \<Rightarrow> u64 \<Rightarrow> bytes result" where
  "append_u64 buffer value = append_bytes buffer (write_u64_le value)"

definition append_string :: "bytes \<Rightarrow> bytes \<Rightarrow> bytes result" where
  "append_string buffer value =
     (if length value > G_MAXUINT32 then Inl (GError IO_INVALID_ARGUMENT String_too_large)
      else bindE (append_bytes buffer (write_u32_le (of_nat (length value)))) (\<lambda>buffer1.
           append_bytes buffer1 value))"

fun append_strings :: "bytes \<Rightarrow> bytes list \<Rightarrow> bytes result" where
  "append_strings buffer [] = Inr buffer"
| "append_strings buffer (v # vs) = bindE (append_string buffer v) (\<lambda>buffer1. append_strings buffer1 vs)"

definition append_strv :: "bytes \<Rightarrow> strv \<Rightarrow> bytes result" where
  "append_strv buffer values =
     (let count = strv_count values
      in if count > G_MAXUINT32 then Inl (GError IO_INVALID_ARGUMENT (Too_many ''flags or keywords''))
         else bindE (append_u32 buffer (of_nat count)) (\<lambda>buffer1. append_strings buffer1 (strv_items values)))"

lemma append_bytes_Inr [result_simps]:
  "length buffer \<le> G_MAXUINT32 \<Longrightarrow> append_bytes buffer xs = Inr b \<longleftrightarrow>
     length (buffer @ xs) \<le> G_MAXUINT32 \<and> b = buffer @ xs"
  by (auto simp: append_bytes_def)

lemma append_u32_Inr [result_simps]:
  "length buffer \<le> G_MAXUINT32 \<Longrightarrow> append_u32 buffer v = Inr b \<longleftrightarrow>
     length (buffer @ write_u32_le v) \<le> G_MAXUINT32 \<and> b = buffer @ write_u32_le v"
  by (auto simp: append_u32_def append_bytes_Inr)

lemma append_u64_Inr [result_simps]:
  "length buffer \<le> G_MAXUINT32 \<Longrightarrow> append_u64 buffer v = Inr b \<longleftrightarrow>
     length (buffer @ write_u64_le v) \<le> G_MAXUINT32 \<and> b = buffer @ write_u64_le v"
  by (auto simp: append_u64_def append_bytes_Inr)

lemma append_string_Inr [result_simps]:
  "length buffer \<le> G_MAXUINT32 \<Longrightarrow> append_string buffer v = Inr b \<longleftrightarrow>
     length (buffer @ write_string v) \<le> G_MAXUINT32 \<and> b = buffer @ write_string v"
  by (auto simp: append_string_def append_bytes_def bindE_Inr_iff write_string_def)

lemma append_strings_Inr [result_simps]:
  "length buffer \<le> G_MAXUINT32 \<Longrightarrow> append_strings buffer vs = Inr b \<longleftrightarrow>
     length (buffer @ write_strings vs) \<le> G_MAXUINT32 \<and> b = buffer @ write_strings vs"
proof (induction vs arbitrary: buffer)
  case (Cons v vs)
  show ?case
  proof (cases "length (buffer @ write_string v) \<le> G_MAXUINT32")
    case True
    then show ?thesis
      using Cons.IH [OF True] Cons.prems
      by (auto simp: bindE_Inr_iff append_string_Inr write_strings_def)
  next
    case False
    then show ?thesis
      using Cons.prems by (auto simp: bindE_Inr_iff append_string_Inr write_strings_def)
  qed
qed (auto simp: write_strings_def)

lemma strings_size_ge: "length vs \<le> strings_size vs"
  by (induction vs) simp_all

lemma append_strv_Inr [result_simps]:
  assumes "length buffer \<le> G_MAXUINT32"
  shows "append_strv buffer v = Inr b \<longleftrightarrow>
     length (buffer @ write_strv v) \<le> G_MAXUINT32 \<and> b = buffer @ write_strv v"
proof (cases "length buffer + 4 \<le> G_MAXUINT32")
  case True
  then have "length (buffer @ write_u32_le (of_nat (strv_count v))) \<le> G_MAXUINT32"
    by simp
  from append_strings_Inr [OF this] append_u32_Inr [OF assms, of "of_nat (strv_count v)"]
  show ?thesis
    using True strings_size_ge [of "strv_items v"]
    by (auto simp: append_strv_def Let_def bindE_Inr_iff write_strv_def strv_count_def)
next
  case False
  then show ?thesis
    using append_u32_Inr [OF assms, of "of_nat (strv_count v)"]
    by (auto simp: append_strv_def Let_def bindE_Inr_iff)
qed

lemma length_concat_member: "x \<in> set xs \<Longrightarrow> length (f x) \<le> length (concat (map f xs))"
  by (induction xs) auto

lemma strings_size_member: "x \<in> set vs \<Longrightarrow> length x + 4 \<le> strings_size vs"
  by (induction vs) auto

lemma strings_fit:
  "strings_size vs \<le> G_MAXUINT32 \<Longrightarrow> list_all (\<lambda>s. length s \<le> G_MAXUINT32) vs \<and> length vs \<le> G_MAXUINT32"
proof -
  assume h: "strings_size vs \<le> G_MAXUINT32"
  have "list_all (\<lambda>s. length s \<le> strings_size vs) vs"
    by (induction vs) (auto simp: list_all_iff intro: trans_le_add2)
  with h strings_size_ge [of vs] show ?thesis
    by (auto simp: list_all_iff)
qed

section \<open>Errors of the shared code\<close>

lemma raises_validate_names [raises_simps]:
  "raises (io_errors code) (validate_names field values is_valid code)"
proof -
  have "raises (io_errors code) (validate_names_from field is_valid code seen vs)" for seen vs
    by (induction vs arbitrary: seen) (simp_all add: raises_simps)
  then show ?thesis
    by (simp add: validate_names_def)
qed

lemma raises_validate_uids [raises_simps]: "raises (io_errors code) (validate_uids_from code prev uids)"
  by (induction uids arbitrary: prev) (simp_all add: raises_simps)

lemma raises_payload_helpers [raises_simps]:
  "raises (io_errors code) (validate_required_string field v code)"
  "raises (io_errors IO_INVALID_ARGUMENT) (checked_add_string n s)"
  "raises (io_errors IO_INVALID_DATA) (read_nonempty_string data off)"
  "raises (io_errors IO_INVALID_DATA) (read_strv data off)"
  "raises E (filled n data) \<longleftrightarrow> (length data \<noteq> n \<longrightarrow> Abort \<in> E)"
  by (simp_all add: validate_required_string_def checked_add_string_def Let_def read_nonempty_string_def
      read_strv_def filled_def raises_simps)

lemma raises_read_name [raises_simps]: "raises (io_errors IO_INVALID_DATA) (read_name data off)"
  by (auto simp: read_name_def raises_simps split: option.splits)

lemma raises_checked_add_size [raises_simps]: "raises (io_errors IO_INVALID_ARGUMENT) (checked_add_size n m)"
  by (simp add: checked_add_size_def raises_simps)

lemma raises_checked_add_strings [raises_simps]:
  "raises (io_errors IO_INVALID_ARGUMENT) (checked_add_strings n vs)"
  by (induction vs arbitrary: n) (simp_all add: raises_simps)

lemma filled_errors:
  "raises (io_errors IO_INVALID_ARGUMENT) (filled n data) \<longleftrightarrow> length data = n"
  by (auto simp: raises_simps)

text \<open>
  An append to a growing buffer aborts at most where the result would not fit: \<open>append_errors n\<close>
  are the errors of code that builds \<open>n\<close> bytes in all.
\<close>

definition append_errors :: "nat \<Rightarrow> gerror set" where
  "append_errors total_size =
     io_errors IO_INVALID_ARGUMENT \<union> (if total_size > G_MAXUINT32 then {Abort} else {})"

lemma append_errors_mono: "n \<le> m \<Longrightarrow> append_errors n \<subseteq> append_errors m"
  by (auto simp: append_errors_def)

lemma append_errors_mem [simp]:
  "GError IO_INVALID_ARGUMENT r \<in> append_errors n" "Abort \<in> append_errors n \<longleftrightarrow> n > G_MAXUINT32"
  by (auto simp: append_errors_def)

lemma raises_io_append: "raises (io_errors IO_INVALID_ARGUMENT) m \<Longrightarrow> raises (append_errors n) m"
  by (rule raises_mono) (auto simp: append_errors_def)

lemma raises_append_bytes:
  "length buffer + length xs \<le> n \<Longrightarrow> raises (append_errors n) (append_bytes buffer xs)"
  by (auto simp: append_bytes_def raises_simps)

lemma raises_append_string:
  "length buffer \<le> G_MAXUINT32 \<Longrightarrow> length buffer + length (write_string s) \<le> n \<Longrightarrow>
   raises (append_errors n) (append_string buffer s)"
  by (auto simp: append_string_def raises_simps append_bytes_Inr intro!: raises_append_bytes)

lemma raises_append_strings:
  "length buffer \<le> G_MAXUINT32 \<Longrightarrow> length buffer + strings_size vs \<le> n \<Longrightarrow>
   raises (append_errors n) (append_strings buffer vs)"
  by (induction vs arbitrary: buffer)
    (auto simp: raises_simps append_string_Inr intro!: raises_append_string)

lemma raises_append_strv:
  "length buffer \<le> G_MAXUINT32 \<Longrightarrow> length buffer + length (write_strv v) \<le> n \<Longrightarrow>
   raises (append_errors n) (append_strv buffer v)"
  by (auto simp: append_strv_def Let_def raises_simps append_u32_def append_bytes_Inr
      intro!: raises_append_strings raises_append_bytes)

lemmas raises_appends = raises_append_bytes raises_append_string raises_append_strv

end
