(* ===== verification/Flag_Changed.thy ===== *)
theory Flag_Changed
  imports Payload_Common
begin

text \<open>
  The payload of FlagChanged events (\<^verbatim>\<open>wyrebox-flag-changed-payload.c\<close>): an ordered
  set of system flags and user keywords to set, to clear or to replace on one message.
\<close>

record flag_changed_payload =
  fc_account_id :: cstring
  fc_mailbox_id :: cstring
  fc_uidvalidity :: u64
  fc_uid :: u64
  fc_mode :: nat
  fc_system_flags :: strv
  fc_user_keywords :: strv

definition FLAG_CHANGED_MAGIC :: bytes where
  "FLAG_CHANGED_MAGIC = lit ''WYREFLC1''"

abbreviation FLAG_CHANGED_HEADER_SIZE :: nat where "FLAG_CHANGED_HEADER_SIZE \<equiv> 33"
abbreviation FLAG_MODE_SET :: nat where "FLAG_MODE_SET \<equiv> 0"
abbreviation FLAG_MODE_CLEAR :: nat where "FLAG_MODE_CLEAR \<equiv> 1"
abbreviation FLAG_MODE_REPLACE :: nat where "FLAG_MODE_REPLACE \<equiv> 2"

text \<open>\<open>None\<close> is a NULL payload pointer.\<close>

definition fc_validate_payload :: "flag_changed_payload option \<Rightarrow> io_code \<Rightarrow> unit result" where
  "fc_validate_payload payload code =
     (case payload of
        None \<Rightarrow> Inl (GError code (Required ''payload''))
      | Some p \<Rightarrow>
          bindE (validate_required_string ''account_id'' (fc_account_id p) code) (\<lambda>_.
          bindE (validate_required_string ''mailbox_id'' (fc_mailbox_id p) code) (\<lambda>_.
          if fc_uid p = 0 \<or> fc_uidvalidity p = 0
          then Inl (GError code (Required ''uid and uidvalidity''))
          else if fc_mode p \<notin> {FLAG_MODE_SET, FLAG_MODE_CLEAR, FLAG_MODE_REPLACE}
          then Inl (GError code (Invalid_value ''mode''))
          else
            bindE (validate_names ''system_flags'' (fc_system_flags p) is_system_flag code) (\<lambda>_.
            bindE (validate_names ''user_keywords'' (fc_user_keywords p) is_user_keyword code) (\<lambda>_.
            if fc_mode p \<noteq> FLAG_MODE_REPLACE \<and> strv_count (fc_system_flags p) = 0 \<and>
               strv_count (fc_user_keywords p) = 0
            then Inl (GError code (Required ''system flag or user keyword''))
            else Inr ())))))"

definition fc_encode :: "flag_changed_payload option \<Rightarrow> bytes result" where
  "fc_encode payload =
     bindE (fc_validate_payload payload IO_INVALID_ARGUMENT) (\<lambda>_.
     let p = the payload;
         account_id = the (fc_account_id p);
         mailbox_id = the (fc_mailbox_id p);
         n_flags = strv_count (fc_system_flags p);
         n_keywords = strv_count (fc_user_keywords p)
     in if n_keywords > G_MAXUINT32
        then Inl (GError IO_INVALID_ARGUMENT (Too_many ''user keywords''))
        else
          bindE (checked_add_string FLAG_CHANGED_HEADER_SIZE account_id) (\<lambda>len1.
          bindE (checked_add_string len1 mailbox_id) (\<lambda>len2.
          bindE (checked_add_strings len2 (strv_items (fc_system_flags p))) (\<lambda>len3.
          bindE (checked_add_strings len3 (strv_items (fc_user_keywords p))) (\<lambda>payload_len.
          filled payload_len
            (FLAG_CHANGED_MAGIC @ write_u64_le (fc_uid p) @ write_u64_le (fc_uidvalidity p) @
             [of_nat (fc_mode p)] @ write_u32_le (of_nat n_flags) @ write_u32_le (of_nat n_keywords) @
             write_string account_id @ write_string mailbox_id @
             write_strings (strv_items (fc_system_flags p)) @
             write_strings (strv_items (fc_user_keywords p))))))))"

definition fc_decode :: "bytes \<Rightarrow> flag_changed_payload result" where
  "fc_decode data =
     (if length data < FLAG_CHANGED_HEADER_SIZE then Inl (GError IO_INVALID_DATA Truncated)
      else if take 8 data \<noteq> FLAG_CHANGED_MAGIC then Inl (GError IO_INVALID_DATA Bad_magic)
      else
        bindE (read_string data FLAG_CHANGED_HEADER_SIZE) (\<lambda>(account_id, off1).
        bindE (read_string data off1) (\<lambda>(mailbox_id, off2).
        bindE (read_strv_counted data off2 (read_u32_le data 25)) (\<lambda>(system_flags, off3).
        bindE (read_strv_counted data off3 (read_u32_le data 29)) (\<lambda>(user_keywords, off4).
        if off4 \<noteq> length data then Inl (GError IO_INVALID_DATA Length_malformed)
        else
          let decoded = \<lparr>fc_account_id = Some account_id, fc_mailbox_id = Some mailbox_id,
                fc_uidvalidity = read_u64_le data 16, fc_uid = read_u64_le data 8,
                fc_mode = unat (data ! 24), fc_system_flags = system_flags,
                fc_user_keywords = user_keywords\<rparr>
          in bindE (fc_validate_payload (Some decoded) IO_INVALID_DATA) (\<lambda>_. Inr decoded))))))"

section \<open>What is encoded and what decodes\<close>

definition fc_valid :: "flag_changed_payload \<Rightarrow> bool" where
  "fc_valid p \<longleftrightarrow>
     (\<exists>a. fc_account_id p = Some a \<and> a \<noteq> []) \<and> (\<exists>m. fc_mailbox_id p = Some m \<and> m \<noteq> []) \<and>
     fc_uid p \<noteq> 0 \<and> fc_uidvalidity p \<noteq> 0 \<and> fc_mode p \<le> 2 \<and>
     list_all is_system_flag (strv_items (fc_system_flags p)) \<and> distinct (strv_items (fc_system_flags p)) \<and>
     list_all is_user_keyword (strv_items (fc_user_keywords p)) \<and> distinct (strv_items (fc_user_keywords p)) \<and>
     (fc_mode p = 2 \<or> strv_items (fc_system_flags p) \<noteq> [] \<or> strv_items (fc_user_keywords p) \<noteq> [])"

definition fc_raw :: "flag_changed_payload \<Rightarrow> bytes" where
  "fc_raw p =
     FLAG_CHANGED_MAGIC @ write_u64_le (fc_uid p) @ write_u64_le (fc_uidvalidity p) @
     [of_nat (fc_mode p)] @ write_u32_le (of_nat (strv_count (fc_system_flags p))) @
     write_u32_le (of_nat (strv_count (fc_user_keywords p))) @
     write_string (the (fc_account_id p)) @ write_string (the (fc_mailbox_id p)) @
     write_strings (strv_items (fc_system_flags p)) @ write_strings (strv_items (fc_user_keywords p))"

definition fc_wf :: "flag_changed_payload \<Rightarrow> bool" where
  "fc_wf p \<longleftrightarrow> cstring_wf (fc_account_id p) \<and> cstring_wf (fc_mailbox_id p) \<and>
     strv_wf (fc_system_flags p) \<and> strv_wf (fc_user_keywords p)"

definition fc_fits :: "flag_changed_payload \<Rightarrow> bool" where
  "fc_fits p \<longleftrightarrow>
     length (the (fc_account_id p)) \<le> G_MAXUINT32 \<and> length (the (fc_mailbox_id p)) \<le> G_MAXUINT32 \<and>
     list_all (\<lambda>s. length s \<le> G_MAXUINT32) (strv_items (fc_system_flags p)) \<and>
     list_all (\<lambda>s. length s \<le> G_MAXUINT32) (strv_items (fc_user_keywords p)) \<and>
     strv_count (fc_user_keywords p) \<le> G_MAXUINT32"

definition fc_canon :: "flag_changed_payload \<Rightarrow> flag_changed_payload" where
  "fc_canon p = p\<lparr>fc_system_flags := strv_canon (fc_system_flags p),
                  fc_user_keywords := strv_canon (fc_user_keywords p)\<rparr>"

lemma fc_validate_Inr: "fc_validate_payload (Some p) code = Inr u \<longleftrightarrow> fc_valid p"
  by (auto simp: fc_validate_payload_def fc_valid_def result_simps strv_count_def)

lemma length_FLAG_CHANGED_MAGIC [simp]: "length FLAG_CHANGED_MAGIC = 8"
  by (simp add: FLAG_CHANGED_MAGIC_def)

lemma length_fc_raw:
  "length (fc_raw p) = 33 + (4 + length (the (fc_account_id p))) + (4 + length (the (fc_mailbox_id p))) +
     strings_size (strv_items (fc_system_flags p)) + strings_size (strv_items (fc_user_keywords p))"
  by (simp add: fc_raw_def)

lemma fc_encode_iff:
  "fc_encode (Some p) = Inr data \<longleftrightarrow>
     fc_valid p \<and> fc_fits p \<and> length (fc_raw p) \<le> G_MAXSIZE \<and> data = fc_raw p"
proof -
  have "fc_encode (Some p) = Inr data \<longleftrightarrow> fc_valid p \<and> fc_fits p \<and> length (fc_raw p) \<le> G_MAXSIZE \<and>
      filled (length (fc_raw p)) (fc_raw p) = Inr data"
    unfolding fc_encode_def length_fc_raw fc_raw_def fc_fits_def
    by (auto simp: result_simps fc_validate_Inr Let_def strv_count_def add.assoc)
  then show ?thesis
    by (auto simp: filled_Inr)
qed

text \<open>
  A byte string decodes to \<open>p\<close> exactly when it is the raw encoding of \<open>p\<close>, \<open>p\<close> is valid and its
  empty vectors are NULL.
\<close>

lemma fc_raw_stands:
  "stands data 0 (fc_raw p) \<longleftrightarrow>
     take 8 data = FLAG_CHANGED_MAGIC \<and> stands data 8 (write_u64_le (fc_uid p)) \<and>
     stands data 16 (write_u64_le (fc_uidvalidity p)) \<and> stands data 24 [of_nat (fc_mode p)] \<and>
     stands data 25 (write_u32_le (of_nat (strv_count (fc_system_flags p)))) \<and>
     stands data 29 (write_u32_le (of_nat (strv_count (fc_user_keywords p)))) \<and>
     (let o1 = 33 + length (write_string (the (fc_account_id p)));
          o2 = o1 + length (write_string (the (fc_mailbox_id p)));
          o3 = o2 + length (write_strings (strv_items (fc_system_flags p)))
      in stands data 33 (write_string (the (fc_account_id p))) \<and>
         stands data o1 (write_string (the (fc_mailbox_id p))) \<and>
         stands data o2 (write_strings (strv_items (fc_system_flags p))) \<and>
         stands data o3 (write_strings (strv_items (fc_user_keywords p))))"
  unfolding fc_raw_def stands_append by (simp add: Let_def stands_def)

lemma fc_decode_iff:
  "fc_decode data = Inr p \<longleftrightarrow>
     fc_valid p \<and> fc_wf p \<and> fc_fits p \<and> fc_canon p = p \<and> data = fc_raw p"
    (is "?L \<longleftrightarrow> ?R")
proof
  assume ?L
  then obtain a m off1 off2 off3 where h: "33 \<le> length data" "take 8 data = FLAG_CHANGED_MAGIC"
    and a: "read_string data 33 = Inr (a, off1)" and m: "read_string data off1 = Inr (m, off2)"
    and f: "read_strv_counted data off2 (read_u32_le data 25) = Inr (fc_system_flags p, off3)"
    and k: "read_strv_counted data off3 (read_u32_le data 29) = Inr (fc_user_keywords p, length data)"
    and p: "fc_account_id p = Some a" "fc_mailbox_id p = Some m" "fc_uidvalidity p = read_u64_le data 16"
      "fc_uid p = read_u64_le data 8" "fc_mode p = unat (data ! 24)"
    and v: "fc_valid p"
    by (auto simp: fc_decode_def result_simps Let_def fc_validate_Inr split: if_splits)
  note facts = a [unfolded str_wire.dec_iff] m [unfolded str_wire.dec_iff]
    f [unfolded read_strv_counted_iff] k [unfolded read_strv_counted_iff]
  have "stands data 0 (fc_raw p)"
    unfolding fc_raw_stands using h facts p
    by (auto simp: stands_u32 stands_u64 stands_single strv_count_def)
  moreover have "length (fc_raw p) = length data"
    using facts p by (simp add: length_fc_raw)
  ultimately have "data = fc_raw p"
    by (rule stands_whole)
  with v facts p show ?R
    by (auto simp: fc_wf_def fc_fits_def strv_ok_iff string_ok_def strv_count_def fc_canon_def)
next
  assume ?R
  then have v: "fc_valid p" and wf: "fc_wf p" and fit: "fc_fits p" and c: "fc_canon p = p"
    and raw: "data = fc_raw p" by auto
  obtain a m where am: "fc_account_id p = Some a" "fc_mailbox_id p = Some m"
    using v by (auto simp: fc_valid_def)
  have canon: "strv_canon (fc_system_flags p) = fc_system_flags p" "strv_canon (fc_user_keywords p) = fc_user_keywords p"
    using arg_cong [OF c, of fc_system_flags] arg_cong [OF c, of fc_user_keywords] by (simp_all add: fc_canon_def)
  have nf: "strv_count (fc_system_flags p) \<le> G_MAXUINT32"
    using v system_flags_bound by (fastforce simp: fc_valid_def strv_count_def)
  have len: "length data = length (fc_raw p)"
    using raw by simp
  have st: "stands data 0 (fc_raw p)"
    using raw by simp
  note parts = st [unfolded fc_raw_stands Let_def]
  have mode: "of_nat (fc_mode p) = data ! 24" "unat (of_nat (fc_mode p) :: byte) = fc_mode p"
    using parts v by (auto simp: stands_single fc_valid_def unat_of_nat take_bit_eq_mod)
  have counts: "unat (read_u32_le data 25) = length (strv_items (fc_system_flags p))"
    "unat (read_u32_le data 29) = length (strv_items (fc_user_keywords p))"
    using parts nf fit by (auto simp: stands_u32 fc_fits_def strv_count_def unat_of_nat_u32)
  have ok: "string_ok a" "string_ok m" "strv_ok (fc_system_flags p)" "strv_ok (fc_user_keywords p)"
    using wf fit am nf by (auto simp: string_ok_def fc_wf_def fc_fits_def strv_ok_iff strv_count_def)
  let ?o1 = "33 + length (write_string a)"
  let ?o2 = "?o1 + length (write_string m)"
  let ?o3 = "?o2 + length (write_strings (strv_items (fc_system_flags p)))"
  have reads: "read_string data 33 = Inr (a, ?o1)" "read_string data ?o1 = Inr (m, ?o2)"
    "read_strv_counted data ?o2 (read_u32_le data 25) = Inr (fc_system_flags p, ?o3)"
    "read_strv_counted data ?o3 (read_u32_le data 29) = Inr (fc_user_keywords p, length data)"
    using parts am ok canon counts len
    by (simp_all only: str_wire.dec_iff read_strv_counted_iff option.sel length_fc_raw length_write_string
        length_write_strings simp_thms)
  have fields: "read_u64_le data 8 = fc_uid p" "read_u64_le data 16 = fc_uidvalidity p"
    using parts by (auto simp: stands_u64)
  have h: "\<not> length data < 33" "take 8 data = FLAG_CHANGED_MAGIC"
    using len parts by (auto simp: length_fc_raw)
  have p: "\<lparr>fc_account_id = Some a, fc_mailbox_id = Some m, fc_uidvalidity = fc_uidvalidity p, fc_uid = fc_uid p,
      fc_mode = unat (data ! 24), fc_system_flags = fc_system_flags p, fc_user_keywords = fc_user_keywords p\<rparr> = p"
    using mode am by (cases p) auto
  have "fc_validate_payload (Some p) IO_INVALID_DATA = Inr ()"
    using v by (simp add: fc_validate_Inr)
  with h reads fields p show ?L
    by (simp add: fc_decode_def)
qed

interpretation fc_codec: exact_codec "\<lambda>p. fc_encode (Some p)" fc_decode fc_canon fc_wf G_MAXSIZE
proof
  fix p data
  assume wf: "fc_wf p" and e: "fc_encode (Some p) = Inr data"
  then have e': "fc_valid p" "fc_fits p" "data = fc_raw p"
    by (auto simp: fc_encode_iff)
  have "fc_valid (fc_canon p)" "fc_fits (fc_canon p)" "fc_wf (fc_canon p)" "fc_raw (fc_canon p) = fc_raw p"
    "fc_canon (fc_canon p) = fc_canon p"
    using wf e' by (simp_all add: fc_valid_def fc_fits_def fc_wf_def fc_raw_def fc_canon_def strv_count_def)
  with e' show "fc_decode data = Inr (fc_canon p)"
    by (simp add: fc_decode_iff)
next
  fix data p
  assume "fc_decode data = Inr p" "length data \<le> G_MAXSIZE"
  then show "fc_encode (Some p) = Inr data \<and> fc_wf p \<and> fc_canon p = p"
    by (auto simp: fc_decode_iff fc_encode_iff)
qed

section \<open>Errors\<close>

lemma raises_fc_validate [raises_simps]: "raises (io_errors code) (fc_validate_payload payload code)"
  by (simp add: fc_validate_payload_def raises_simps split: option.splits)

lemma raises_fc_decode: "raises (io_errors IO_INVALID_DATA) (fc_decode data)"
  by (simp add: fc_decode_def Let_def raises_simps)

lemma raises_fc_encode: "raises (io_errors IO_INVALID_ARGUMENT) (fc_encode payload)"
  by (auto simp: fc_encode_def Let_def raises_simps result_simps strv_count_def)

end
