(* ===== verification/Memberships_Expunged.thy ===== *)
theory Memberships_Expunged
  imports Payload_Common
begin

text \<open>
  The payload of MembershipsExpunged events
  (\<^verbatim>\<open>wyrebox-memberships-expunged-payload.c\<close>): the UIDs, strictly ascending, that an
  EXPUNGE hid in one mailbox. The pair of the array pointer and its length is an optional list.
\<close>

record memberships_expunged_payload =
  me_account_id :: cstring
  me_mailbox_id :: cstring
  me_uidvalidity :: u64
  me_uids :: "u64 list option"

definition EXPUNGED_MAGIC :: bytes where
  "EXPUNGED_MAGIC = lit ''WYREMEX1''"

abbreviation EXPUNGED_HEADER_SIZE :: nat where "EXPUNGED_HEADER_SIZE \<equiv> 20"

definition me_validate_payload :: "memberships_expunged_payload option \<Rightarrow> io_code \<Rightarrow> unit result" where
  "me_validate_payload payload code =
     (case payload of
        None \<Rightarrow> Inl (GError code (Required ''payload''))
      | Some p \<Rightarrow>
          bindE (validate_required_string ''account_id'' (me_account_id p) code) (\<lambda>_.
          bindE (validate_required_string ''mailbox_id'' (me_mailbox_id p) code) (\<lambda>_.
          if me_uidvalidity p = 0 then Inl (GError code (Required ''uidvalidity''))
          else if me_uids p = None \<or> me_uids p = Some [] then Inl (GError code (Required ''uid''))
          else if length (the (me_uids p)) > G_MAXUINT32 then Inl (GError code (Too_many ''uids''))
          else validate_uids_from code None (the (me_uids p)))))"

definition me_encode :: "memberships_expunged_payload option \<Rightarrow> bytes result" where
  "me_encode payload =
     bindE (me_validate_payload payload IO_INVALID_ARGUMENT) (\<lambda>_.
     let p = the payload;
         account_id = the (me_account_id p);
         mailbox_id = the (me_mailbox_id p);
         uids = the (me_uids p)
     in bindE (checked_add_string EXPUNGED_HEADER_SIZE account_id) (\<lambda>len1.
        bindE (checked_add_string len1 mailbox_id) (\<lambda>len2.
        if length uids > (G_MAXSIZE - len2) div 8 then Inl (GError IO_INVALID_ARGUMENT Length_overflow)
        else
          let payload_len = len2 + length uids * 8
          in filled payload_len
               (EXPUNGED_MAGIC @ write_u64_le (me_uidvalidity p) @ write_u32_le (of_nat (length uids)) @
                write_string account_id @ write_string mailbox_id @ write_u64s uids))))"

definition me_decode :: "bytes \<Rightarrow> memberships_expunged_payload result" where
  "me_decode data =
     (if length data < EXPUNGED_HEADER_SIZE then Inl (GError IO_INVALID_DATA Truncated)
      else if take 8 data \<noteq> EXPUNGED_MAGIC then Inl (GError IO_INVALID_DATA Bad_magic)
      else
        let n_uids = read_u32_le data 16
        in bindE (read_string data EXPUNGED_HEADER_SIZE) (\<lambda>(account_id, off1).
           bindE (read_string data off1) (\<lambda>(mailbox_id, off2).
           if n_uids = 0 \<or> unat n_uids > (length data - off2) div 8
           then Inl (GError IO_INVALID_DATA Truncated)
           else if off2 + 8 * unat n_uids \<noteq> length data then Inl (GError IO_INVALID_DATA Length_malformed)
           else
             let decoded = \<lparr>me_account_id = Some account_id, me_mailbox_id = Some mailbox_id,
                   me_uidvalidity = read_u64_le data 8, me_uids = Some (read_u64s data off2 (unat n_uids))\<rparr>
             in bindE (me_validate_payload (Some decoded) IO_INVALID_DATA) (\<lambda>_. Inr decoded))))"

section \<open>What is encoded and what decodes\<close>

definition me_valid :: "memberships_expunged_payload \<Rightarrow> bool" where
  "me_valid p \<longleftrightarrow>
     (\<exists>a. me_account_id p = Some a \<and> a \<noteq> []) \<and> (\<exists>m. me_mailbox_id p = Some m \<and> m \<noteq> []) \<and>
     me_uidvalidity p \<noteq> 0 \<and>
     (\<exists>us. me_uids p = Some us \<and> us \<noteq> [] \<and> length us \<le> G_MAXUINT32 \<and> 0 \<notin> set us \<and> sorted_wrt (<) us)"

definition me_raw :: "memberships_expunged_payload \<Rightarrow> bytes" where
  "me_raw p =
     EXPUNGED_MAGIC @ write_u64_le (me_uidvalidity p) @ write_u32_le (of_nat (length (the (me_uids p)))) @
     write_string (the (me_account_id p)) @ write_string (the (me_mailbox_id p)) @ write_u64s (the (me_uids p))"

definition me_wf :: "memberships_expunged_payload \<Rightarrow> bool" where
  "me_wf p \<longleftrightarrow> cstring_wf (me_account_id p) \<and> cstring_wf (me_mailbox_id p)"

definition me_fits :: "memberships_expunged_payload \<Rightarrow> bool" where
  "me_fits p \<longleftrightarrow> length (the (me_account_id p)) \<le> G_MAXUINT32 \<and> length (the (me_mailbox_id p)) \<le> G_MAXUINT32"

lemma me_validate_Inr: "me_validate_payload (Some p) code = Inr u \<longleftrightarrow> me_valid p"
  by (auto simp: me_validate_payload_def me_valid_def result_simps validate_uids_from_Inr)

lemma length_EXPUNGED_MAGIC [simp]: "length EXPUNGED_MAGIC = 8"
  by (simp add: EXPUNGED_MAGIC_def)

lemma length_me_raw:
  "length (me_raw p) = 20 + (4 + length (the (me_account_id p))) + (4 + length (the (me_mailbox_id p))) +
     8 * length (the (me_uids p))"
  by (simp add: me_raw_def)

lemma me_encode_iff:
  "me_encode (Some p) = Inr data \<longleftrightarrow>
     me_valid p \<and> me_fits p \<and> length (me_raw p) \<le> G_MAXSIZE \<and> data = me_raw p"
proof -
  have "me_encode (Some p) = Inr data \<longleftrightarrow> me_valid p \<and> me_fits p \<and> length (me_raw p) \<le> G_MAXSIZE \<and>
      filled (length (me_raw p)) (me_raw p) = Inr data"
    unfolding me_encode_def length_me_raw me_raw_def me_fits_def
    by (auto simp: result_simps me_validate_Inr Let_def add.assoc mult.commute less_eq_div_iff_mult_less_eq not_less)
  then show ?thesis
    by (auto simp: filled_Inr)
qed

lemma me_raw_stands:
  "stands data 0 (me_raw p) \<longleftrightarrow>
     take 8 data = EXPUNGED_MAGIC \<and> stands data 8 (write_u64_le (me_uidvalidity p)) \<and>
     stands data 16 (write_u32_le (of_nat (length (the (me_uids p))))) \<and>
     (let o1 = 20 + length (write_string (the (me_account_id p)));
          o2 = o1 + length (write_string (the (me_mailbox_id p)))
      in stands data 20 (write_string (the (me_account_id p))) \<and>
         stands data o1 (write_string (the (me_mailbox_id p))) \<and>
         stands data o2 (write_u64s (the (me_uids p))))"
  unfolding me_raw_def stands_append by (simp add: Let_def stands_def)

lemma me_decode_iff:
  "me_decode data = Inr p \<longleftrightarrow> me_valid p \<and> me_wf p \<and> me_fits p \<and> data = me_raw p"
    (is "?L \<longleftrightarrow> ?R")
proof
  assume ?L
  then obtain a m off1 off2 where h: "20 \<le> length data" "take 8 data = EXPUNGED_MAGIC"
    and a: "read_string data 20 = Inr (a, off1)" and m: "read_string data off1 = Inr (m, off2)"
    and n: "off2 + 8 * unat (read_u32_le data 16) = length data"
    and p: "me_account_id p = Some a" "me_mailbox_id p = Some m" "me_uidvalidity p = read_u64_le data 8"
      "me_uids p = Some (read_u64s data off2 (unat (read_u32_le data 16)))"
    and v: "me_valid p"
    by (auto simp: me_decode_def result_simps Let_def me_validate_Inr split: if_splits)
  note facts = a [unfolded str_wire.dec_iff] m [unfolded str_wire.dec_iff]
  have "stands data 0 (me_raw p)"
    unfolding me_raw_stands using h facts p n
    by (auto simp: stands_u32 stands_u64 stands_u64s)
  moreover have "length (me_raw p) = length data"
    using facts p n by (simp add: length_me_raw)
  ultimately have "data = me_raw p"
    by (rule stands_whole)
  with v facts p show ?R
    by (auto simp: me_wf_def me_fits_def string_ok_def)
next
  assume ?R
  then have v: "me_valid p" and wf: "me_wf p" and fit: "me_fits p" and raw: "data = me_raw p" by auto
  obtain a m us where am: "me_account_id p = Some a" "me_mailbox_id p = Some m" "me_uids p = Some us"
    and us: "us \<noteq> []" "length us \<le> G_MAXUINT32"
    using v by (auto simp: me_valid_def)
  have len: "length data = length (me_raw p)"
    using raw by simp
  have st: "stands data 0 (me_raw p)"
    using raw by simp
  note parts = st [unfolded me_raw_stands Let_def]
  have count: "unat (read_u32_le data 16) = length us"
    using parts us am by (auto simp: stands_u32 unat_of_nat_u32)
  then have nz: "read_u32_le data 16 \<noteq> 0"
    using us by auto
  have ok: "string_ok a" "string_ok m"
    using wf fit am by (auto simp: string_ok_def me_wf_def me_fits_def)
  let ?o1 = "20 + length (write_string a)"
  let ?o2 = "?o1 + length (write_string m)"
  have reads: "read_string data 20 = Inr (a, ?o1)" "read_string data ?o1 = Inr (m, ?o2)"
    using parts am ok by (simp_all only: str_wire.dec_iff option.sel simp_thms)
  have uids: "read_u64s data ?o2 (length us) = us"
    using parts am by (simp add: stands_u64s)
  have room: "?o2 + 8 * length us = length data"
    using len am by (simp add: length_me_raw)
  then have "\<not> length us > (length data - ?o2) div 8"
    by simp
  moreover have field: "read_u64_le data 8 = me_uidvalidity p"
    using parts by (auto simp: stands_u64)
  moreover have h: "\<not> length data < 20" "take 8 data = EXPUNGED_MAGIC"
    using len parts by (auto simp: length_me_raw)
  moreover have p: "\<lparr>me_account_id = Some a, me_mailbox_id = Some m, me_uidvalidity = me_uidvalidity p,
      me_uids = Some us\<rparr> = p"
    using am by (cases p) auto
  moreover have "me_validate_payload (Some p) IO_INVALID_DATA = Inr ()"
    using v by (simp add: me_validate_Inr)
  ultimately show ?L
    using reads uids count nz room by (simp add: me_decode_def Let_def)
qed

interpretation me_codec: exact_codec "\<lambda>p. me_encode (Some p)" me_decode "\<lambda>p. p" me_wf G_MAXSIZE
  by unfold_locales (auto simp: me_encode_iff me_decode_iff)

section \<open>Errors\<close>

lemma raises_me_validate [raises_simps]: "raises (io_errors code) (me_validate_payload payload code)"
  by (simp add: me_validate_payload_def raises_simps split: option.splits)

lemma raises_me_decode: "raises (io_errors IO_INVALID_DATA) (me_decode data)"
  by (simp add: me_decode_def Let_def raises_simps)

lemma raises_me_encode: "raises (io_errors IO_INVALID_ARGUMENT) (me_encode payload)"
  by (auto simp: me_encode_def Let_def raises_simps result_simps)

end
