(* ===== verification/Memberships_Copied.thy ===== *)
theory Memberships_Copied
  imports Payload_Common
begin

text \<open>
  The payload of MembershipsCopied and MembershipsMoved events
  (\<^verbatim>\<open>wyrebox-memberships-copied-payload.c\<close>): one COPY or MOVE with its items, built
  in a growing byte array. The items are a wire format of their own, so the reading loop is
  covered by the interface lemmas of \<open>sized_wire_format\<close>.
\<close>

record copied_item =
  ci_src_uid :: u64
  ci_dst_uid :: u64
  ci_internal_date_unix_us :: u64
  ci_message_id :: cstring
  ci_system_flags :: strv
  ci_user_keywords :: strv

record memberships_copied_payload =
  mc_account_id :: cstring
  mc_source_mailbox_id :: cstring
  mc_dest_mailbox_id :: cstring
  mc_source_uidvalidity :: u64
  mc_dest_uidvalidity :: u64
  mc_items :: "copied_item list option"

definition COPIED_MAGIC :: bytes where
  "COPIED_MAGIC = lit ''WYREMCP1''"

abbreviation COPIED_HEADER_SIZE :: nat where "COPIED_HEADER_SIZE \<equiv> 28"
abbreviation COPIED_ITEM_MIN_SIZE :: nat where "COPIED_ITEM_MIN_SIZE \<equiv> 36"

section \<open>Validation\<close>

definition validate_item :: "copied_item \<Rightarrow> io_code \<Rightarrow> unit result" where
  "validate_item item code =
     (if ci_src_uid item = 0 \<or> ci_dst_uid item = 0 then Inl (GError code (Invalid_value ''uid''))
      else
        bindE (validate_required_string ''message_id'' (ci_message_id item) code) (\<lambda>_.
        bindE (validate_names ''system_flags'' (ci_system_flags item) is_system_flag code) (\<lambda>_.
        validate_names ''user_keywords'' (ci_user_keywords item) is_user_keyword code)))"

text \<open>The loop over the items with the hash table of the destination UIDs seen so far.\<close>

fun validate_items :: "io_code \<Rightarrow> u64 set \<Rightarrow> copied_item list \<Rightarrow> unit result" where
  "validate_items code dst_uids [] = Inr ()"
| "validate_items code dst_uids (item # items) =
     bindE (validate_item item code) (\<lambda>_.
     if ci_dst_uid item \<in> dst_uids then Inl (GError code (Duplicate_value ''destination uids''))
     else validate_items code (insert (ci_dst_uid item) dst_uids) items)"

definition mc_validate_payload :: "memberships_copied_payload option \<Rightarrow> io_code \<Rightarrow> unit result" where
  "mc_validate_payload payload code =
     (case payload of
        None \<Rightarrow> Inl (GError code (Required ''payload''))
      | Some p \<Rightarrow>
          bindE (validate_required_string ''account_id'' (mc_account_id p) code) (\<lambda>_.
          bindE (validate_required_string ''source_mailbox_id'' (mc_source_mailbox_id p) code) (\<lambda>_.
          bindE (validate_required_string ''dest_mailbox_id'' (mc_dest_mailbox_id p) code) (\<lambda>_.
          if mc_source_uidvalidity p = 0 \<or> mc_dest_uidvalidity p = 0
          then Inl (GError code (Required ''uidvalidity''))
          else if mc_items p = None \<or> mc_items p = Some [] then Inl (GError code (Required ''item''))
          else if length (the (mc_items p)) > G_MAXUINT32 then Inl (GError code (Too_many ''items''))
          else validate_items code {} (the (mc_items p))))))"

section \<open>Items\<close>

definition append_item :: "bytes \<Rightarrow> copied_item \<Rightarrow> bytes result" where
  "append_item buffer item =
     bindE (append_u64 buffer (ci_src_uid item)) (\<lambda>b1.
     bindE (append_u64 b1 (ci_dst_uid item)) (\<lambda>b2.
     bindE (append_u64 b2 (ci_internal_date_unix_us item)) (\<lambda>b3.
     bindE (append_string b3 (the (ci_message_id item))) (\<lambda>b4.
     bindE (append_strv b4 (ci_system_flags item)) (\<lambda>b5.
     append_strv b5 (ci_user_keywords item))))))"

fun append_items :: "bytes \<Rightarrow> copied_item list \<Rightarrow> bytes result" where
  "append_items buffer [] = Inr buffer"
| "append_items buffer (item # items) = bindE (append_item buffer item) (\<lambda>b. append_items b items)"

definition read_item :: "bytes \<Rightarrow> nat \<Rightarrow> (copied_item \<times> nat) result" where
  "read_item data off =
     bindE (read_u64 data off) (\<lambda>(src_uid, off1).
     bindE (read_u64 data off1) (\<lambda>(dst_uid, off2).
     bindE (read_u64 data off2) (\<lambda>(internal_date, off3).
     bindE (read_string data off3) (\<lambda>(message_id, off4).
     bindE (read_strv data off4) (\<lambda>(system_flags, off5).
     bindE (read_strv data off5) (\<lambda>(user_keywords, off6).
     Inr (\<lparr>ci_src_uid = src_uid, ci_dst_uid = dst_uid, ci_internal_date_unix_us = internal_date,
           ci_message_id = Some message_id, ci_system_flags = system_flags,
           ci_user_keywords = user_keywords\<rparr>, off6)))))))"

section \<open>Encoder and decoder\<close>

definition mc_encode :: "memberships_copied_payload option \<Rightarrow> bytes result" where
  "mc_encode payload =
     bindE (mc_validate_payload payload IO_INVALID_ARGUMENT) (\<lambda>_.
     let p = the payload
     in bindE (append_bytes [] COPIED_MAGIC) (\<lambda>b1.
        bindE (append_u64 b1 (mc_source_uidvalidity p)) (\<lambda>b2.
        bindE (append_u64 b2 (mc_dest_uidvalidity p)) (\<lambda>b3.
        bindE (append_u32 b3 (of_nat (length (the (mc_items p))))) (\<lambda>b4.
        bindE (failIf (length b4 \<noteq> COPIED_HEADER_SIZE) Abort) (\<lambda>_.
        bindE (append_string b4 (the (mc_account_id p))) (\<lambda>b5.
        bindE (append_string b5 (the (mc_source_mailbox_id p))) (\<lambda>b6.
        bindE (append_string b6 (the (mc_dest_mailbox_id p))) (\<lambda>b7.
        append_items b7 (the (mc_items p)))))))))))"

definition mc_decode :: "bytes \<Rightarrow> memberships_copied_payload result" where
  "mc_decode data =
     (if length data < COPIED_HEADER_SIZE then Inl (GError IO_INVALID_DATA Truncated)
      else if take 8 data \<noteq> COPIED_MAGIC then Inl (GError IO_INVALID_DATA Bad_magic)
      else
        let n_items = read_u32_le data 24
        in bindE (read_string data COPIED_HEADER_SIZE) (\<lambda>(account_id, off1).
           bindE (read_string data off1) (\<lambda>(source_mailbox_id, off2).
           bindE (read_string data off2) (\<lambda>(dest_mailbox_id, off3).
           if n_items = 0 \<or> unat n_items > (length data - off3) div COPIED_ITEM_MIN_SIZE
           then Inl (GError IO_INVALID_DATA Truncated)
           else
             bindE (read_n read_item (unat n_items) data off3) (\<lambda>(items, off4).
             if off4 \<noteq> length data then Inl (GError IO_INVALID_DATA Length_malformed)
             else
               let decoded = \<lparr>mc_account_id = Some account_id, mc_source_mailbox_id = Some source_mailbox_id,
                     mc_dest_mailbox_id = Some dest_mailbox_id,
                     mc_source_uidvalidity = read_u64_le data 8, mc_dest_uidvalidity = read_u64_le data 16,
                     mc_items = Some items\<rparr>
               in bindE (mc_validate_payload (Some decoded) IO_INVALID_DATA) (\<lambda>_. Inr decoded))))))"

section \<open>Items as a wire format\<close>

definition write_item :: "copied_item \<Rightarrow> bytes" where
  "write_item item =
     write_u64_le (ci_src_uid item) @ write_u64_le (ci_dst_uid item) @
     write_u64_le (ci_internal_date_unix_us item) @ write_string (the (ci_message_id item)) @
     write_strv (ci_system_flags item) @ write_strv (ci_user_keywords item)"

definition item_canon :: "copied_item \<Rightarrow> copied_item" where
  "item_canon item = item\<lparr>ci_system_flags := strv_canon (ci_system_flags item),
                          ci_user_keywords := strv_canon (ci_user_keywords item)\<rparr>"

definition item_ok :: "copied_item \<Rightarrow> bool" where
  "item_ok item \<longleftrightarrow>
     (\<exists>m. ci_message_id item = Some m \<and> string_ok m) \<and> strv_ok (ci_system_flags item) \<and>
     strv_ok (ci_user_keywords item) \<and> item_canon item = item"

lemma item_canon_eq:
  "item_canon item = item \<longleftrightarrow> strv_canon (ci_system_flags item) = ci_system_flags item \<and>
     strv_canon (ci_user_keywords item) = ci_user_keywords item"
  by (cases item) (simp add: item_canon_def)

interpretation item_wire: sized_wire_format write_item read_item item_ok COPIED_ITEM_MIN_SIZE
proof
  fix data off and x :: copied_item and off'
  show "read_item data off = Inr (x, off') \<longleftrightarrow>
      item_ok x \<and> stands data off (write_item x) \<and> off' = off + length (write_item x)"
    by (cases x)
      (auto simp: read_item_def bindE_Inr_iff u64_wire.dec_iff str_wire.dec_iff strv_wire.dec_iff
        item_ok_def item_canon_eq write_item_def stands_append add.assoc)
next
  fix x
  show "item_ok x \<Longrightarrow> COPIED_ITEM_MIN_SIZE \<le> length (write_item x)"
    by (simp add: write_item_def)
qed simp

lemma append_item_Inr [result_simps]:
  assumes "length buffer \<le> G_MAXUINT32"
  shows "append_item buffer item = Inr b \<longleftrightarrow>
     length (buffer @ write_item item) \<le> G_MAXUINT32 \<and> b = buffer @ write_item item"
  using assms
  by (auto simp: append_item_def write_item_def bindE_Inr_iff append_u64_Inr append_string_Inr append_strv_Inr)

lemma append_items_Inr [result_simps]:
  "length buffer \<le> G_MAXUINT32 \<Longrightarrow> append_items buffer items = Inr b \<longleftrightarrow>
     length (buffer @ concat (map write_item items)) \<le> G_MAXUINT32 \<and>
     b = buffer @ concat (map write_item items)"
proof (induction items arbitrary: buffer)
  case (Cons item items)
  show ?case
  proof (cases "length (buffer @ write_item item) \<le> G_MAXUINT32")
    case True
    then show ?thesis
      using Cons.IH [OF True] Cons.prems by (auto simp: bindE_Inr_iff append_item_Inr)
  next
    case False
    then show ?thesis
      using Cons.prems by (auto simp: bindE_Inr_iff append_item_Inr)
  qed
qed auto

section \<open>What is encoded and what decodes\<close>

definition item_valid :: "copied_item \<Rightarrow> bool" where
  "item_valid item \<longleftrightarrow>
     ci_src_uid item \<noteq> 0 \<and> ci_dst_uid item \<noteq> 0 \<and> (\<exists>m. ci_message_id item = Some m \<and> m \<noteq> []) \<and>
     list_all is_system_flag (strv_items (ci_system_flags item)) \<and> distinct (strv_items (ci_system_flags item)) \<and>
     list_all is_user_keyword (strv_items (ci_user_keywords item)) \<and> distinct (strv_items (ci_user_keywords item))"

definition mc_valid :: "memberships_copied_payload \<Rightarrow> bool" where
  "mc_valid p \<longleftrightarrow>
     (\<exists>a. mc_account_id p = Some a \<and> a \<noteq> []) \<and> (\<exists>s. mc_source_mailbox_id p = Some s \<and> s \<noteq> []) \<and>
     (\<exists>d. mc_dest_mailbox_id p = Some d \<and> d \<noteq> []) \<and>
     mc_source_uidvalidity p \<noteq> 0 \<and> mc_dest_uidvalidity p \<noteq> 0 \<and>
     (\<exists>is. mc_items p = Some is \<and> is \<noteq> [] \<and> length is \<le> G_MAXUINT32 \<and> list_all item_valid is \<and>
        distinct (map ci_dst_uid is))"

definition mc_raw :: "memberships_copied_payload \<Rightarrow> bytes" where
  "mc_raw p =
     COPIED_MAGIC @ write_u64_le (mc_source_uidvalidity p) @ write_u64_le (mc_dest_uidvalidity p) @
     write_u32_le (of_nat (length (the (mc_items p)))) @
     write_string (the (mc_account_id p)) @ write_string (the (mc_source_mailbox_id p)) @
     write_string (the (mc_dest_mailbox_id p)) @ concat (map write_item (the (mc_items p)))"

definition item_wf :: "copied_item \<Rightarrow> bool" where
  "item_wf item \<longleftrightarrow> cstring_wf (ci_message_id item) \<and> strv_wf (ci_system_flags item) \<and>
     strv_wf (ci_user_keywords item)"

definition mc_wf :: "memberships_copied_payload \<Rightarrow> bool" where
  "mc_wf p \<longleftrightarrow> cstring_wf (mc_account_id p) \<and> cstring_wf (mc_source_mailbox_id p) \<and>
     cstring_wf (mc_dest_mailbox_id p) \<and> list_all item_wf (case mc_items p of None \<Rightarrow> [] | Some is \<Rightarrow> is)"

definition mc_canon :: "memberships_copied_payload \<Rightarrow> memberships_copied_payload" where
  "mc_canon p = p\<lparr>mc_items := map_option (map item_canon) (mc_items p)\<rparr>"

lemma validate_item_Inr [result_simps]: "validate_item item code = Inr u \<longleftrightarrow> item_valid item"
  by (auto simp: validate_item_def item_valid_def result_simps)

lemma validate_items_Inr:
  "validate_items code seen items = Inr u \<longleftrightarrow>
     list_all item_valid items \<and> distinct (map ci_dst_uid items) \<and> ci_dst_uid ` set items \<inter> seen = {}"
  by (induction items arbitrary: seen) (auto simp: bindE_Inr_iff validate_item_Inr)

lemma mc_validate_Inr: "mc_validate_payload (Some p) code = Inr u \<longleftrightarrow> mc_valid p"
  by (auto simp: mc_validate_payload_def mc_valid_def result_simps validate_items_Inr)

lemma length_COPIED_MAGIC [simp]: "length COPIED_MAGIC = 8"
  by (simp add: COPIED_MAGIC_def)

lemma mc_encode_iff:
  "mc_encode (Some p) = Inr data \<longleftrightarrow> mc_valid p \<and> length (mc_raw p) \<le> G_MAXUINT32 \<and> data = mc_raw p"
  unfolding mc_encode_def mc_raw_def
  by (auto simp: mc_validate_Inr Let_def result_simps)

lemma mc_raw_stands:
  "stands data 0 (mc_raw p) \<longleftrightarrow>
     take 8 data = COPIED_MAGIC \<and> stands data 8 (write_u64_le (mc_source_uidvalidity p)) \<and>
     stands data 16 (write_u64_le (mc_dest_uidvalidity p)) \<and>
     stands data 24 (write_u32_le (of_nat (length (the (mc_items p))))) \<and>
     (let o1 = 28 + length (write_string (the (mc_account_id p)));
          o2 = o1 + length (write_string (the (mc_source_mailbox_id p)));
          o3 = o2 + length (write_string (the (mc_dest_mailbox_id p)))
      in stands data 28 (write_string (the (mc_account_id p))) \<and>
         stands data o1 (write_string (the (mc_source_mailbox_id p))) \<and>
         stands data o2 (write_string (the (mc_dest_mailbox_id p))) \<and>
         stands data o3 (concat (map write_item (the (mc_items p)))))"
  unfolding mc_raw_def stands_append by (simp add: Let_def stands_def)

definition mc_ok :: "memberships_copied_payload \<Rightarrow> bool" where
  "mc_ok p \<longleftrightarrow>
     list_all (\<lambda>v. \<exists>s. v = Some s \<and> string_ok s) [mc_account_id p, mc_source_mailbox_id p, mc_dest_mailbox_id p] \<and>
     (\<exists>is. mc_items p = Some is \<and> list_all item_ok is)"

lemma mc_decode_iff: "mc_decode data = Inr p \<longleftrightarrow> mc_valid p \<and> mc_ok p \<and> data = mc_raw p"
    (is "?L \<longleftrightarrow> ?R")
proof
  assume ?L
  then obtain a s d items off1 off2 off3 where h: "28 \<le> length data" "take 8 data = COPIED_MAGIC"
    and reads: "read_string data 28 = Inr (a, off1)" "read_string data off1 = Inr (s, off2)"
      "read_string data off2 = Inr (d, off3)"
    and items: "read_n read_item (unat (read_u32_le data 24)) data off3 = Inr (items, length data)"
    and p: "mc_account_id p = Some a" "mc_source_mailbox_id p = Some s" "mc_dest_mailbox_id p = Some d"
      "mc_source_uidvalidity p = read_u64_le data 8" "mc_dest_uidvalidity p = read_u64_le data 16"
      "mc_items p = Some items"
    and v: "mc_valid p"
    by (auto simp: mc_decode_def result_simps Let_def mc_validate_Inr split: if_splits)
  note facts = reads [unfolded str_wire.dec_iff] items [unfolded item_wire.read_n_iff]
  have "stands data 0 (mc_raw p)"
    unfolding mc_raw_stands using h facts p
    by (auto simp: stands_u32 stands_u64)
  moreover have "length (mc_raw p) = length data"
    using facts p by (simp add: mc_raw_def)
  ultimately have "data = mc_raw p"
    by (rule stands_whole)
  with v facts p show ?R
    by (auto simp: mc_ok_def)
next
  assume ?R
  then have v: "mc_valid p" and ok: "mc_ok p" and raw: "data = mc_raw p" by auto
  obtain a s d items where am: "mc_account_id p = Some a" "mc_source_mailbox_id p = Some s"
    "mc_dest_mailbox_id p = Some d" "mc_items p = Some items"
    and sok: "string_ok a" "string_ok s" "string_ok d" "list_all item_ok items"
    using ok by (auto simp: mc_ok_def)
  have its: "items \<noteq> []" "length items \<le> G_MAXUINT32"
    using v am by (auto simp: mc_valid_def)
  have len: "length data = length (mc_raw p)"
    using raw by simp
  have st: "stands data 0 (mc_raw p)"
    using raw by simp
  note parts = st [unfolded mc_raw_stands Let_def am option.sel]
  have count: "unat (read_u32_le data 24) = length items"
    using parts its by (auto simp: stands_u32 unat_of_nat_u32)
  then have nz: "read_u32_le data 24 \<noteq> 0"
    using its by auto
  let ?o1 = "28 + length (write_string a)"
  let ?o2 = "?o1 + length (write_string s)"
  let ?o3 = "?o2 + length (write_string d)"
  have reads: "read_string data 28 = Inr (a, ?o1)" "read_string data ?o1 = Inr (s, ?o2)"
    "read_string data ?o2 = Inr (d, ?o3)"
    using parts sok by (simp_all only: str_wire.dec_iff simp_thms)
  have end_eq: "?o3 + length (concat (map write_item items)) = length data"
    using len am by (simp add: mc_raw_def)
  have it: "read_n read_item (length items) data ?o3 = Inr (items, length data)"
    using parts sok end_eq by (simp only: item_wire.read_n_iff simp_thms)
  have room: "\<not> length items > (length data - ?o3) div 36"
    using item_wire.count_fits [OF sok(4), of data ?o3] parts by auto
  have fields: "read_u64_le data 8 = mc_source_uidvalidity p" "read_u64_le data 16 = mc_dest_uidvalidity p"
    using parts by (auto simp: stands_u64)
  have h: "\<not> length data < 28" "take 8 data = COPIED_MAGIC"
    using end_eq parts by auto
  have p: "\<lparr>mc_account_id = Some a, mc_source_mailbox_id = Some s, mc_dest_mailbox_id = Some d,
      mc_source_uidvalidity = mc_source_uidvalidity p, mc_dest_uidvalidity = mc_dest_uidvalidity p,
      mc_items = Some items\<rparr> = p"
    using am by (cases p) auto
  have "mc_validate_payload (Some p) IO_INVALID_DATA = Inr ()"
    using v by (simp add: mc_validate_Inr)
  with h reads it room nz count fields p show ?L
    by (simp add: mc_decode_def Let_def)
qed

lemma write_item_canon [simp]: "write_item (item_canon item) = write_item item"
  by (simp add: write_item_def item_canon_def)

lemma item_ok_canon:
  assumes "item_wf item" "item_valid item" "length (write_item item) \<le> G_MAXUINT32"
  shows "item_ok (item_canon item)"
proof -
  have "strings_size (strv_items (ci_system_flags item)) \<le> G_MAXUINT32"
    "strings_size (strv_items (ci_user_keywords item)) \<le> G_MAXUINT32"
    "length (the (ci_message_id item)) \<le> G_MAXUINT32"
    using assms(3) by (simp_all add: write_item_def)
  then show ?thesis
    using assms(1,2) strings_fit
    by (auto simp: item_ok_def item_canon_def strv_ok_iff item_wf_def item_valid_def string_ok_def)
qed

lemma mc_ok_canon:
  assumes wf: "mc_wf p" and v: "mc_valid p" and len: "length (mc_raw p) \<le> G_MAXUINT32"
  shows "mc_ok (mc_canon p)" "mc_valid (mc_canon p)" "mc_raw (mc_canon p) = mc_raw p"
proof -
  obtain a s d items where am: "mc_account_id p = Some a" "mc_source_mailbox_id p = Some s"
    "mc_dest_mailbox_id p = Some d" "mc_items p = Some items"
    and it: "list_all item_valid items"
    using v by (auto simp: mc_valid_def)
  have "item_ok (item_canon x)" if "x \<in> set items" for x
  proof (rule item_ok_canon)
    show "item_wf x" "item_valid x"
      using that wf it am by (auto simp: mc_wf_def list_all_iff)
    have "length (write_item x) \<le> length (concat (map write_item items))"
      using that by (rule length_concat_member)
    also have "\<dots> \<le> length (mc_raw p)"
      using am by (simp add: mc_raw_def)
    finally show "length (write_item x) \<le> G_MAXUINT32"
      using len by simp
  qed
  moreover have "string_ok a" "string_ok s" "string_ok d"
    using wf am len by (auto simp: mc_wf_def string_ok_def mc_raw_def)
  ultimately show "mc_ok (mc_canon p)"
    using am by (simp add: mc_ok_def mc_canon_def list_all_iff)
  have "map write_item (map item_canon items) = map write_item items"
    by simp
  then show "mc_raw (mc_canon p) = mc_raw p"
    using am by (simp add: mc_raw_def mc_canon_def comp_def)
  have "ci_dst_uid \<circ> item_canon = ci_dst_uid"
    by (rule ext) (simp add: item_canon_def)
  moreover have "list_all item_valid (map item_canon items)"
    using it by (auto simp: list_all_iff item_valid_def item_canon_def)
  ultimately show "mc_valid (mc_canon p)"
    using v am unfolding mc_valid_def mc_canon_def by auto
qed

interpretation mc_codec: exact_codec "\<lambda>p. mc_encode (Some p)" mc_decode mc_canon mc_wf G_MAXUINT32
proof
  fix p data
  assume "mc_wf p" "mc_encode (Some p) = Inr data"
  with mc_ok_canon [of p] show "mc_decode data = Inr (mc_canon p)"
    by (auto simp: mc_encode_iff mc_decode_iff)
next
  fix data p
  assume d: "mc_decode data = Inr p" "length data \<le> G_MAXUINT32"
  then have p: "mc_valid p" "mc_ok p" "data = mc_raw p"
    by (auto simp: mc_decode_iff)
  have "item_wf x \<and> item_canon x = x" if "item_ok x" for x
    using that by (auto simp: item_ok_def item_wf_def strv_ok_iff string_ok_def)
  then have "mc_wf p" "mc_canon p = p"
    using p(2) by (auto simp: mc_ok_def mc_wf_def mc_canon_def list_all_iff string_ok_def
        intro!: memberships_copied_payload.equality map_idI)
  with p d(2) show "mc_encode (Some p) = Inr data \<and> mc_wf p \<and> mc_canon p = p"
    by (simp add: mc_encode_iff)
qed

section \<open>Errors\<close>

lemma raises_validate_items [raises_simps]: "raises (io_errors code) (validate_items code seen items)"
  by (induction items arbitrary: seen) (simp_all add: validate_item_def raises_simps)

lemma raises_mc_validate [raises_simps]: "raises (io_errors code) (mc_validate_payload payload code)"
  by (simp add: mc_validate_payload_def raises_simps split: option.splits)

lemmas raises_mc_validate_append = raises_io_append [OF raises_mc_validate]

lemma raises_mc_decode: "raises (io_errors IO_INVALID_DATA) (mc_decode data)"
  by (simp add: mc_decode_def read_item_def Let_def raises_simps)

lemma raises_append_item:
  "length buffer \<le> G_MAXUINT32 \<Longrightarrow> length buffer + length (write_item item) \<le> n \<Longrightarrow>
   raises (append_errors n) (append_item buffer item)"
  by (auto simp: append_item_def write_item_def raises_simps append_u64_def append_bytes_Inr append_string_Inr
      append_strv_Inr intro!: raises_appends)

lemma raises_append_items:
  "length buffer \<le> G_MAXUINT32 \<Longrightarrow> length buffer + length (concat (map write_item items)) \<le> n \<Longrightarrow>
   raises (append_errors n) (append_items buffer items)"
  by (induction items arbitrary: buffer)
    (auto simp: raises_simps append_item_Inr intro!: raises_append_item)

lemma raises_mc_encode: "raises (append_errors (length (mc_raw p))) (mc_encode (Some p))"
  by (auto simp: raises_mc_validate_append mc_encode_def mc_raw_def Let_def raises_simps append_u64_def append_u32_def append_bytes_Inr
      append_string_Inr intro!: raises_appends raises_append_items)

end
