(* ===== verification/Derived_View_Changed.thy ===== *)
theory Derived_View_Changed
  imports Payload_Common
begin

text \<open>
  The payload of DerivedViewMembershipChanged events
  (\<^verbatim>\<open>wyrebox-derived-view-membership-changed-payload.c\<close>): one message enters or leaves
  a derived mailbox.
\<close>

record derived_view_payload =
  dv_account_id :: cstring
  dv_view_id :: cstring
  dv_message_id :: cstring
  dv_membership_id :: cstring
  dv_rule_version_hash :: cstring
  dv_uid :: u64
  dv_uidvalidity :: u64
  dv_is_visible :: bool
  dv_materialized_at_unix_us :: u64

definition DERIVED_VIEW_MAGIC :: bytes where
  "DERIVED_VIEW_MAGIC = lit ''WYREDVC1''"

abbreviation DERIVED_VIEW_HEADER_SIZE :: nat where "DERIVED_VIEW_HEADER_SIZE \<equiv> 33"

definition checked_add_required_string :: "nat \<Rightarrow> string \<Rightarrow> cstring \<Rightarrow> nat result" where
  "checked_add_required_string total_size field value =
     bindE (validate_required_string field value IO_INVALID_ARGUMENT) (\<lambda>_.
     let len = length (the value)
     in if len > G_MAXUINT32 then Inl (GError IO_INVALID_ARGUMENT String_too_large)
        else bindE (checked_add_size total_size 4) (\<lambda>total_next. checked_add_size total_next len))"

definition dv_validate_payload :: "derived_view_payload option \<Rightarrow> io_code \<Rightarrow> unit result" where
  "dv_validate_payload payload code =
     (case payload of
        None \<Rightarrow> Inl (GError code (Required ''payload''))
      | Some p \<Rightarrow>
          bindE (validate_required_string ''account_id'' (dv_account_id p) code) (\<lambda>_.
          bindE (validate_required_string ''view_id'' (dv_view_id p) code) (\<lambda>_.
          bindE (validate_required_string ''message_id'' (dv_message_id p) code) (\<lambda>_.
          bindE (validate_required_string ''membership_id'' (dv_membership_id p) code) (\<lambda>_.
          bindE (validate_required_string ''rule_version_hash'' (dv_rule_version_hash p) code) (\<lambda>_.
          if dv_uid p = 0 then Inl (GError code (Required ''uid''))
          else if dv_uidvalidity p = 0 then Inl (GError code (Required ''uidvalidity''))
          else if dv_materialized_at_unix_us p = 0
          then Inl (GError code (Required ''materialization timestamp''))
          else Inr ()))))))"

definition dv_encode :: "derived_view_payload option \<Rightarrow> bytes result" where
  "dv_encode payload =
     bindE (dv_validate_payload payload IO_INVALID_ARGUMENT) (\<lambda>_.
     let p = the payload
     in bindE (checked_add_required_string DERIVED_VIEW_HEADER_SIZE ''account_id'' (dv_account_id p)) (\<lambda>len1.
        bindE (checked_add_required_string len1 ''view_id'' (dv_view_id p)) (\<lambda>len2.
        bindE (checked_add_required_string len2 ''message_id'' (dv_message_id p)) (\<lambda>len3.
        bindE (checked_add_required_string len3 ''membership_id'' (dv_membership_id p)) (\<lambda>len4.
        bindE (checked_add_required_string len4 ''rule_version_hash'' (dv_rule_version_hash p)) (\<lambda>payload_len.
        filled payload_len
          (DERIVED_VIEW_MAGIC @ write_u64_le (dv_uid p) @ write_u64_le (dv_uidvalidity p) @
           [if dv_is_visible p then 1 else 0] @ write_u64_le (dv_materialized_at_unix_us p) @
           write_string (the (dv_account_id p)) @ write_string (the (dv_view_id p)) @
           write_string (the (dv_message_id p)) @ write_string (the (dv_membership_id p)) @
           write_string (the (dv_rule_version_hash p)))))))))"

definition dv_decode :: "bytes \<Rightarrow> derived_view_payload result" where
  "dv_decode data =
     (if length data < 8 then Inl (GError IO_INVALID_DATA Truncated)
      else if take 8 data \<noteq> DERIVED_VIEW_MAGIC then Inl (GError IO_INVALID_DATA Bad_magic)
      else if length data < DERIVED_VIEW_HEADER_SIZE then Inl (GError IO_INVALID_DATA Truncated)
      else if data ! 24 > 1 then Inl (GError IO_INVALID_DATA (Invalid_value ''visibility''))
      else
        bindE (read_nonempty_string data DERIVED_VIEW_HEADER_SIZE) (\<lambda>(account_id, off1).
        bindE (read_nonempty_string data off1) (\<lambda>(view_id, off2).
        bindE (read_nonempty_string data off2) (\<lambda>(message_id, off3).
        bindE (read_nonempty_string data off3) (\<lambda>(membership_id, off4).
        bindE (read_nonempty_string data off4) (\<lambda>(rule_version_hash, off5).
        if off5 \<noteq> length data then Inl (GError IO_INVALID_DATA Length_malformed)
        else
          let decoded = \<lparr>dv_account_id = Some account_id, dv_view_id = Some view_id,
                dv_message_id = Some message_id, dv_membership_id = Some membership_id,
                dv_rule_version_hash = Some rule_version_hash,
                dv_uid = read_u64_le data 8, dv_uidvalidity = read_u64_le data 16,
                dv_is_visible = (data ! 24 = 1), dv_materialized_at_unix_us = read_u64_le data 25\<rparr>
          in bindE (dv_validate_payload (Some decoded) IO_INVALID_DATA) (\<lambda>_. Inr decoded)))))))"

section \<open>What is encoded and what decodes\<close>

definition dv_strings :: "derived_view_payload \<Rightarrow> cstring list" where
  "dv_strings p = [dv_account_id p, dv_view_id p, dv_message_id p, dv_membership_id p, dv_rule_version_hash p]"

definition dv_valid :: "derived_view_payload \<Rightarrow> bool" where
  "dv_valid p \<longleftrightarrow> list_all (\<lambda>v. \<exists>s. v = Some s \<and> s \<noteq> []) (dv_strings p) \<and>
     dv_uid p \<noteq> 0 \<and> dv_uidvalidity p \<noteq> 0 \<and> dv_materialized_at_unix_us p \<noteq> 0"

definition dv_raw :: "derived_view_payload \<Rightarrow> bytes" where
  "dv_raw p =
     DERIVED_VIEW_MAGIC @ write_u64_le (dv_uid p) @ write_u64_le (dv_uidvalidity p) @
     [if dv_is_visible p then 1 else 0] @ write_u64_le (dv_materialized_at_unix_us p) @
     write_string (the (dv_account_id p)) @ write_string (the (dv_view_id p)) @
     write_string (the (dv_message_id p)) @ write_string (the (dv_membership_id p)) @
     write_string (the (dv_rule_version_hash p))"

definition dv_wf :: "derived_view_payload \<Rightarrow> bool" where
  "dv_wf p \<longleftrightarrow> list_all cstring_wf (dv_strings p)"

definition dv_fits :: "derived_view_payload \<Rightarrow> bool" where
  "dv_fits p \<longleftrightarrow> list_all (\<lambda>v. length (the v) \<le> G_MAXUINT32) (dv_strings p)"

lemma dv_validate_Inr: "dv_validate_payload (Some p) code = Inr u \<longleftrightarrow> dv_valid p"
  by (auto simp: dv_validate_payload_def dv_valid_def dv_strings_def result_simps)

lemma checked_add_required_string_Inr [result_simps]:
  "total_size \<le> G_MAXSIZE \<Longrightarrow> checked_add_required_string total_size field v = Inr n \<longleftrightarrow>
     (\<exists>s. v = Some s \<and> s \<noteq> [] \<and> length s \<le> G_MAXUINT32 \<and> total_size + 4 + length s \<le> G_MAXSIZE \<and>
        n = total_size + 4 + length s)"
  by (auto simp: checked_add_required_string_def checked_add_size_def result_simps Let_def)

lemma length_DERIVED_VIEW_MAGIC [simp]: "length DERIVED_VIEW_MAGIC = 8"
  by (simp add: DERIVED_VIEW_MAGIC_def)

lemma length_dv_raw:
  "length (dv_raw p) = 33 + (4 + length (the (dv_account_id p))) + (4 + length (the (dv_view_id p))) +
     (4 + length (the (dv_message_id p))) + (4 + length (the (dv_membership_id p))) +
     (4 + length (the (dv_rule_version_hash p)))"
  by (simp add: dv_raw_def)

lemma dv_encode_iff:
  "dv_encode (Some p) = Inr data \<longleftrightarrow>
     dv_valid p \<and> dv_fits p \<and> length (dv_raw p) \<le> G_MAXSIZE \<and> data = dv_raw p"
proof -
  have "dv_encode (Some p) = Inr data \<longleftrightarrow> dv_valid p \<and> dv_fits p \<and> length (dv_raw p) \<le> G_MAXSIZE \<and>
      filled (length (dv_raw p)) (dv_raw p) = Inr data"
    unfolding dv_encode_def length_dv_raw dv_raw_def dv_fits_def dv_strings_def dv_valid_def
    by (auto simp: result_simps dv_validate_Inr dv_valid_def dv_strings_def Let_def add.assoc)
  then show ?thesis
    by (auto simp: filled_Inr)
qed

lemma dv_raw_stands:
  "stands data 0 (dv_raw p) \<longleftrightarrow>
     take 8 data = DERIVED_VIEW_MAGIC \<and> stands data 8 (write_u64_le (dv_uid p)) \<and>
     stands data 16 (write_u64_le (dv_uidvalidity p)) \<and>
     stands data 24 [if dv_is_visible p then 1 else 0] \<and>
     stands data 25 (write_u64_le (dv_materialized_at_unix_us p)) \<and>
     (let o1 = 33 + length (write_string (the (dv_account_id p)));
          o2 = o1 + length (write_string (the (dv_view_id p)));
          o3 = o2 + length (write_string (the (dv_message_id p)));
          o4 = o3 + length (write_string (the (dv_membership_id p)))
      in stands data 33 (write_string (the (dv_account_id p))) \<and>
         stands data o1 (write_string (the (dv_view_id p))) \<and>
         stands data o2 (write_string (the (dv_message_id p))) \<and>
         stands data o3 (write_string (the (dv_membership_id p))) \<and>
         stands data o4 (write_string (the (dv_rule_version_hash p))))"
  unfolding dv_raw_def stands_append by (simp add: Let_def stands_def)

lemma dv_decode_iff:
  "dv_decode data = Inr p \<longleftrightarrow> dv_valid p \<and> dv_wf p \<and> dv_fits p \<and> data = dv_raw p"
    (is "?L \<longleftrightarrow> ?R")
proof
  assume ?L
  then obtain a v m b r off1 off2 off3 off4 where h: "33 \<le> length data" "take 8 data = DERIVED_VIEW_MAGIC"
    and vis: "\<not> data ! 24 > 1"
    and reads: "read_nonempty_string data 33 = Inr (a, off1)" "read_nonempty_string data off1 = Inr (v, off2)"
      "read_nonempty_string data off2 = Inr (m, off3)" "read_nonempty_string data off3 = Inr (b, off4)"
      "read_nonempty_string data off4 = Inr (r, length data)"
    and p: "p = \<lparr>dv_account_id = Some a, dv_view_id = Some v, dv_message_id = Some m, dv_membership_id = Some b,
      dv_rule_version_hash = Some r, dv_uid = read_u64_le data 8, dv_uidvalidity = read_u64_le data 16,
      dv_is_visible = (data ! 24 = 1), dv_materialized_at_unix_us = read_u64_le data 25\<rparr>"
    and v: "dv_valid p"
    by (auto simp: dv_decode_def result_simps Let_def dv_validate_Inr split: if_splits)
  note facts = reads [unfolded read_nonempty_string_iff]
  have bit: "(if data ! 24 = 1 then 1 else 0) = data ! 24"
  proof -
    have "unat (data ! 24) \<le> 1"
      using vis by (simp add: word_le_nat_alt not_less)
    then have "unat (data ! 24) = unat (0 :: byte) \<or> unat (data ! 24) = unat (1 :: byte)" by auto
    then show ?thesis
      unfolding word_unat_eq_iff [symmetric] by auto
  qed
  have bit_p: "(if dv_is_visible p then 1 else 0) = data ! 24"
    unfolding p using bit by simp
  have pf: "dv_account_id p = Some a" "dv_view_id p = Some v" "dv_message_id p = Some m"
    "dv_membership_id p = Some b" "dv_rule_version_hash p = Some r" "dv_uid p = read_u64_le data 8"
    "dv_uidvalidity p = read_u64_le data 16" "dv_materialized_at_unix_us p = read_u64_le data 25"
    by (simp_all only: p derived_view_payload.simps)
  have o: "off1 = 33 + length (write_string a)" "off2 = off1 + length (write_string v)"
    "off3 = off2 + length (write_string m)" "off4 = off3 + length (write_string b)"
    using facts by simp_all
  have "stands data 0 (dv_raw p)"
    unfolding dv_raw_stands bit_p Let_def pf option.sel o [symmetric] stands_u64 stands_single
    using h facts by simp
  moreover have "length (dv_raw p) = length data"
    using facts pf by (simp add: length_dv_raw)
  ultimately have raw: "data = dv_raw p"
    by (rule stands_whole)
  have "dv_wf p" "dv_fits p"
    using facts pf by (simp_all add: dv_wf_def dv_fits_def dv_strings_def string_ok_def)
  with v raw show ?R by simp
next
  assume ?R
  then have v: "dv_valid p" and wf: "dv_wf p" and fit: "dv_fits p" and raw: "data = dv_raw p" by auto
  obtain a v m b r where s: "dv_account_id p = Some a" "dv_view_id p = Some v" "dv_message_id p = Some m"
    "dv_membership_id p = Some b" "dv_rule_version_hash p = Some r"
    and ne: "a \<noteq> []" "v \<noteq> []" "m \<noteq> []" "b \<noteq> []" "r \<noteq> []"
    using v by (auto simp: dv_valid_def dv_strings_def)
  have len: "length data = length (dv_raw p)"
    using raw by simp
  have st: "stands data 0 (dv_raw p)"
    using raw by simp
  note parts = st [unfolded dv_raw_stands Let_def]
  have ok: "string_ok a" "string_ok v" "string_ok m" "string_ok b" "string_ok r"
    using wf fit s by (auto simp: string_ok_def dv_wf_def dv_fits_def dv_strings_def)
  let ?o1 = "33 + length (write_string a)"
  let ?o2 = "?o1 + length (write_string v)"
  let ?o3 = "?o2 + length (write_string m)"
  let ?o4 = "?o3 + length (write_string b)"
  have reads: "read_nonempty_string data 33 = Inr (a, ?o1)" "read_nonempty_string data ?o1 = Inr (v, ?o2)"
    "read_nonempty_string data ?o2 = Inr (m, ?o3)" "read_nonempty_string data ?o3 = Inr (b, ?o4)"
    "read_nonempty_string data ?o4 = Inr (r, length data)"
    using parts s ok ne len
    by (simp_all only: read_nonempty_string_iff option.sel length_dv_raw length_write_string simp_thms)
  have vis: "data ! 24 = (if dv_is_visible p then 1 else 0)"
    using parts by (simp add: stands_single)
  have fields: "read_u64_le data 8 = dv_uid p" "read_u64_le data 16 = dv_uidvalidity p"
    "read_u64_le data 25 = dv_materialized_at_unix_us p"
    using parts by (auto simp: stands_u64)
  have h: "\<not> length data < 33" "take 8 data = DERIVED_VIEW_MAGIC"
    using len parts by (auto simp: length_dv_raw)
  have p: "\<lparr>dv_account_id = Some a, dv_view_id = Some v, dv_message_id = Some m, dv_membership_id = Some b,
      dv_rule_version_hash = Some r, dv_uid = dv_uid p, dv_uidvalidity = dv_uidvalidity p,
      dv_is_visible = dv_is_visible p, dv_materialized_at_unix_us = dv_materialized_at_unix_us p\<rparr> = p"
    using s by (cases p) auto
  have "dv_validate_payload (Some p) IO_INVALID_DATA = Inr ()"
    using v by (simp add: dv_validate_Inr)
  with h reads fields p vis show ?L
    by (cases "dv_is_visible p") (simp_all add: dv_decode_def)
qed

interpretation dv_codec: exact_codec "\<lambda>p. dv_encode (Some p)" dv_decode "\<lambda>p. p" dv_wf G_MAXSIZE
  by unfold_locales (auto simp: dv_encode_iff dv_decode_iff)

section \<open>Errors\<close>

lemma raises_dv_validate [raises_simps]: "raises (io_errors code) (dv_validate_payload payload code)"
  by (simp add: dv_validate_payload_def raises_simps split: option.splits)

lemma raises_checked_add_required [raises_simps]:
  "raises (io_errors IO_INVALID_ARGUMENT) (checked_add_required_string n field v)"
  by (simp add: checked_add_required_string_def checked_add_size_def Let_def raises_simps)

lemma raises_dv_decode: "raises (io_errors IO_INVALID_DATA) (dv_decode data)"
  by (simp add: dv_decode_def Let_def raises_simps)

lemma raises_dv_encode: "raises (io_errors IO_INVALID_ARGUMENT) (dv_encode payload)"
  by (auto simp: dv_encode_def Let_def raises_simps result_simps)

end
