(* ===== verification/Message_Appended.thy ===== *)
theory Message_Appended
  imports Payload_Common
begin

text \<open>
  The payload of MessageAppended events (\<^verbatim>\<open>wyrebox-message-appended-payload.c\<close>): one
  message appended to a mailbox, with the raw header values the EML parser found, the byte
  spans of two of them, and the first flags and keywords. Every string is nullable on the
  wire; a NULL flag or keyword is refused.
\<close>

record message_appended_payload =
  ma_account_id :: cstring
  ma_mailbox_id :: cstring
  ma_uidvalidity :: u64
  ma_uid :: u64
  ma_object_key :: cstring
  ma_size_bytes :: u64
  ma_internal_date_unix_us :: u64
  ma_message_id :: cstring
  ma_subject :: cstring
  ma_from :: cstring
  ma_to :: cstring
  ma_cc :: cstring
  ma_bcc :: cstring
  ma_date :: cstring
  ma_duplicate_message_id_count :: u32
  ma_message_id_span_valid :: bool
  ma_message_id_span_start :: u64
  ma_message_id_span_end :: u64
  ma_subject_span_valid :: bool
  ma_subject_span_start :: u64
  ma_subject_span_end :: u64
  ma_system_flags :: strv
  ma_user_keywords :: strv

definition MESSAGE_APPENDED_MAGIC :: bytes where
  "MESSAGE_APPENDED_MAGIC = lit ''WYREMAP1''"

abbreviation MESSAGE_APPENDED_HEADER_SIZE :: nat where "MESSAGE_APPENDED_HEADER_SIZE \<equiv> 80"
abbreviation SPAN_FLAG_MESSAGE_ID :: u32 where "SPAN_FLAG_MESSAGE_ID \<equiv> 1"
abbreviation SPAN_FLAG_SUBJECT :: u32 where "SPAN_FLAG_SUBJECT \<equiv> 2"
abbreviation SPAN_FLAGS_MASK :: u32 where "SPAN_FLAGS_MASK \<equiv> 3"

section \<open>Validation\<close>

definition validate_span :: "string \<Rightarrow> bool \<Rightarrow> u64 \<Rightarrow> u64 \<Rightarrow> io_code \<Rightarrow> unit result" where
  "validate_span field valid start stop code =
     (if (valid \<and> start > stop) \<or> (\<not> valid \<and> (start \<noteq> 0 \<or> stop \<noteq> 0))
      then Inl (GError code (Span_malformed field)) else Inr ())"

definition ma_validate_payload :: "message_appended_payload option \<Rightarrow> io_code \<Rightarrow> unit result" where
  "ma_validate_payload payload code =
     (case payload of
        None \<Rightarrow> Inl (GError code (Required ''payload''))
      | Some p \<Rightarrow>
          bindE (validate_required_string ''account_id'' (ma_account_id p) code) (\<lambda>_.
          bindE (validate_required_string ''mailbox_id'' (ma_mailbox_id p) code) (\<lambda>_.
          if ma_uidvalidity p = 0 \<or> ma_uid p = 0
          then Inl (GError code (Required ''uidvalidity and uid''))
          else if \<not> is_sha256_object_key (ma_object_key p) then Inl (GError code Bad_object_key)
          else
            bindE (validate_span ''message_id'' (ma_message_id_span_valid p) (ma_message_id_span_start p)
              (ma_message_id_span_end p) code) (\<lambda>_.
            bindE (validate_span ''subject'' (ma_subject_span_valid p) (ma_subject_span_start p)
              (ma_subject_span_end p) code) (\<lambda>_.
            bindE (validate_names ''system_flags'' (ma_system_flags p) is_system_flag code) (\<lambda>_.
            validate_names ''user_keywords'' (ma_user_keywords p) is_user_keyword code))))))"

section \<open>Strings and vectors\<close>

definition append_nullable_string :: "bytes \<Rightarrow> cstring \<Rightarrow> bytes result" where
  "append_nullable_string buffer value =
     (case value of
        None \<Rightarrow> append_bytes buffer (write_u32_le 0xFFFFFFFF)
      | Some s \<Rightarrow>
          if length s \<ge> G_MAXUINT32 then Inl (GError IO_INVALID_ARGUMENT String_too_large)
          else bindE (append_bytes buffer (write_u32_le (of_nat (length s)))) (\<lambda>buffer1.
               append_bytes buffer1 s))"

fun append_names :: "bytes \<Rightarrow> bytes list \<Rightarrow> bytes result" where
  "append_names buffer [] = Inr buffer"
| "append_names buffer (v # vs) =
     bindE (append_nullable_string buffer (Some v)) (\<lambda>buffer1. append_names buffer1 vs)"

definition ma_append_strv :: "bytes \<Rightarrow> strv \<Rightarrow> bytes result" where
  "ma_append_strv buffer values =
     (let count = strv_count values
      in if count \<ge> G_MAXUINT32 then Inl (GError IO_INVALID_ARGUMENT (Too_many ''flags or keywords''))
         else bindE (append_u32 buffer (of_nat count)) (\<lambda>buffer1. append_names buffer1 (strv_items values)))"

definition ma_read_strv :: "bytes \<Rightarrow> nat \<Rightarrow> (strv \<times> nat) result" where
  "ma_read_strv data off =
     bindE (read_u32 data off) (\<lambda>(count, off1).
       if count = 0 then Inr (None, off1)
       else if unat count > (length data - off1) div 4 then Inl (GError IO_INVALID_DATA Truncated)
       else bindE (read_n read_name (unat count) data off1) (\<lambda>(values, off2). Inr (Some values, off2)))"

section \<open>Encoder and decoder\<close>

definition span_flags :: "bool \<Rightarrow> bool \<Rightarrow> u32" where
  "span_flags message_id_valid subject_valid =
     (let flags1 = (if message_id_valid then 0 OR SPAN_FLAG_MESSAGE_ID else 0)
      in if subject_valid then flags1 OR SPAN_FLAG_SUBJECT else flags1)"

definition ma_encode :: "message_appended_payload option \<Rightarrow> bytes result" where
  "ma_encode payload =
     bindE (ma_validate_payload payload IO_INVALID_ARGUMENT) (\<lambda>_.
     let p = the payload
     in bindE (append_bytes [] MESSAGE_APPENDED_MAGIC) (\<lambda>b1.
        bindE (append_u64 b1 (ma_uidvalidity p)) (\<lambda>b2.
        bindE (append_u64 b2 (ma_uid p)) (\<lambda>b3.
        bindE (append_u64 b3 (ma_size_bytes p)) (\<lambda>b4.
        bindE (append_u64 b4 (ma_internal_date_unix_us p)) (\<lambda>b5.
        bindE (append_u32 b5 (ma_duplicate_message_id_count p)) (\<lambda>b6.
        bindE (append_u32 b6 (span_flags (ma_message_id_span_valid p) (ma_subject_span_valid p))) (\<lambda>b7.
        bindE (append_u64 b7 (ma_message_id_span_start p)) (\<lambda>b8.
        bindE (append_u64 b8 (ma_message_id_span_end p)) (\<lambda>b9.
        bindE (append_u64 b9 (ma_subject_span_start p)) (\<lambda>b10.
        bindE (append_u64 b10 (ma_subject_span_end p)) (\<lambda>b11.
        bindE (failIf (length b11 \<noteq> MESSAGE_APPENDED_HEADER_SIZE) Abort) (\<lambda>_.
        bindE (append_nullable_string b11 (ma_account_id p)) (\<lambda>b12.
        bindE (append_nullable_string b12 (ma_mailbox_id p)) (\<lambda>b13.
        bindE (append_nullable_string b13 (ma_object_key p)) (\<lambda>b14.
        bindE (append_nullable_string b14 (ma_message_id p)) (\<lambda>b15.
        bindE (append_nullable_string b15 (ma_subject p)) (\<lambda>b16.
        bindE (append_nullable_string b16 (ma_from p)) (\<lambda>b17.
        bindE (append_nullable_string b17 (ma_to p)) (\<lambda>b18.
        bindE (append_nullable_string b18 (ma_cc p)) (\<lambda>b19.
        bindE (append_nullable_string b19 (ma_bcc p)) (\<lambda>b20.
        bindE (append_nullable_string b20 (ma_date p)) (\<lambda>b21.
        bindE (ma_append_strv b21 (ma_system_flags p)) (\<lambda>b22.
        ma_append_strv b22 (ma_user_keywords p)))))))))))))))))))))))))"

definition ma_decode :: "bytes \<Rightarrow> message_appended_payload result" where
  "ma_decode data =
     (if length data < MESSAGE_APPENDED_HEADER_SIZE then Inl (GError IO_INVALID_DATA Truncated)
      else if take 8 data \<noteq> MESSAGE_APPENDED_MAGIC then Inl (GError IO_INVALID_DATA Bad_magic)
      else if read_u32_le data 44 AND NOT SPAN_FLAGS_MASK \<noteq> 0
      then Inl (GError IO_INVALID_DATA Unknown_span_flags)
      else
        bindE (read_nullable_string data MESSAGE_APPENDED_HEADER_SIZE) (\<lambda>(account_id, off1).
        bindE (read_nullable_string data off1) (\<lambda>(mailbox_id, off2).
        bindE (read_nullable_string data off2) (\<lambda>(object_key, off3).
        bindE (read_nullable_string data off3) (\<lambda>(message_id, off4).
        bindE (read_nullable_string data off4) (\<lambda>(subject, off5).
        bindE (read_nullable_string data off5) (\<lambda>(sender, off6).
        bindE (read_nullable_string data off6) (\<lambda>(to, off7).
        bindE (read_nullable_string data off7) (\<lambda>(cc, off8).
        bindE (read_nullable_string data off8) (\<lambda>(bcc, off9).
        bindE (read_nullable_string data off9) (\<lambda>(date, off10).
        bindE (ma_read_strv data off10) (\<lambda>(system_flags, off11).
        bindE (ma_read_strv data off11) (\<lambda>(user_keywords, off12).
        if off12 \<noteq> length data then Inl (GError IO_INVALID_DATA Length_malformed)
        else
          let decoded = \<lparr>ma_account_id = account_id, ma_mailbox_id = mailbox_id,
                ma_uidvalidity = read_u64_le data 8, ma_uid = read_u64_le data 16,
                ma_object_key = object_key, ma_size_bytes = read_u64_le data 24,
                ma_internal_date_unix_us = read_u64_le data 32, ma_message_id = message_id,
                ma_subject = subject, ma_from = sender, ma_to = to, ma_cc = cc, ma_bcc = bcc, ma_date = date,
                ma_duplicate_message_id_count = read_u32_le data 40,
                ma_message_id_span_valid = (read_u32_le data 44 AND SPAN_FLAG_MESSAGE_ID \<noteq> 0),
                ma_message_id_span_start = read_u64_le data 48, ma_message_id_span_end = read_u64_le data 56,
                ma_subject_span_valid = (read_u32_le data 44 AND SPAN_FLAG_SUBJECT \<noteq> 0),
                ma_subject_span_start = read_u64_le data 64, ma_subject_span_end = read_u64_le data 72,
                ma_system_flags = system_flags, ma_user_keywords = user_keywords\<rparr>
          in bindE (ma_validate_payload (Some decoded) IO_INVALID_DATA) (\<lambda>_. Inr decoded))))))))))))))"

section \<open>The readers as wire formats\<close>

definition names_ok :: "strv \<Rightarrow> bool" where
  "names_ok v \<longleftrightarrow> list_all name_ok (strv_items v) \<and> length (strv_items v) \<le> G_MAXUINT32 \<and> strv_canon v = v"

interpretation names_wire: wire_format write_strv ma_read_strv names_ok
proof
  fix data off and x :: strv and off'
  define n where "n = read_u32_le data off"
  have fits: "length xs \<le> (length data - (off + 4)) div 4"
    if "list_all name_ok xs" "stands data (off + 4) (write_strings xs)" for xs
    using name_wire.count_fits [of xs data "off + 4"] that by (simp add: write_strings_def)
  have body: "(if n = 0 then Inr (None, off + 4)
       else if unat n > (length data - (off + 4)) div 4 then Inl (GError IO_INVALID_DATA Truncated)
       else bindE (read_n read_name (unat n) data (off + 4)) (\<lambda>(values, off2). Inr (Some values, off2)))
       = Inr (x, off') \<longleftrightarrow>
     list_all name_ok (strv_items x) \<and> strv_canon x = x \<and> length (strv_items x) = unat n \<and>
     stands data (off + 4) (write_strings (strv_items x)) \<and>
     off' = off + 4 + length (write_strings (strv_items x))"
  proof (cases "n = 0")
    case True
    then show ?thesis
      by (cases x) (auto simp: strv_canon_def write_strings_def)
  next
    case False
    then have pos: "0 < unat n"
      by (simp add: unat_gt_0)
    show ?thesis
    proof (cases x)
      case None
      with pos False show ?thesis
        by (auto simp: bindE_Inr_iff)
    next
      case (Some xs)
      with pos False fits [of xs] show ?thesis
        by (auto simp: bindE_Inr_iff name_wire.read_n_iff strv_canon_def write_strings_def)
    qed
  qed
  have "ma_read_strv data off = Inr (x, off') \<longleftrightarrow> off + 4 \<le> length data \<and>
     list_all name_ok (strv_items x) \<and> strv_canon x = x \<and> length (strv_items x) = unat n \<and>
     stands data (off + 4) (write_strings (strv_items x)) \<and>
     off' = off + 4 + length (write_strings (strv_items x))"
    unfolding body [symmetric] by (auto simp: ma_read_strv_def bindE_Inr_iff u32_wire.dec_iff stands_u32 n_def)
  also have "\<dots> \<longleftrightarrow> names_ok x \<and> stands data off (write_strv x) \<and> off' = off + length (write_strv x)"
    using of_nat_u32_eq_iff [of "length (strv_items x)" n] unat_u32_le [of n]
    by (auto simp: names_ok_def write_strv_def stands_append stands_u32 strv_count_def n_def)
  finally show "ma_read_strv data off = Inr (x, off') \<longleftrightarrow>
      names_ok x \<and> stands data off (write_strv x) \<and> off' = off + length (write_strv x)" .
qed

lemma append_nullable_string_Inr [result_simps]:
  "length buffer \<le> G_MAXUINT32 \<Longrightarrow> append_nullable_string buffer v = Inr b \<longleftrightarrow>
     length (buffer @ write_nullable_string v) \<le> G_MAXUINT32 \<and> b = buffer @ write_nullable_string v"
  by (cases v) (auto simp: append_nullable_string_def append_bytes_def bindE_Inr_iff)

lemma append_names_Inr:
  "length buffer \<le> G_MAXUINT32 \<Longrightarrow> append_names buffer vs = Inr b \<longleftrightarrow>
     length (buffer @ write_strings vs) \<le> G_MAXUINT32 \<and> b = buffer @ write_strings vs"
proof (induction vs arbitrary: buffer)
  case (Cons v vs)
  show ?case
  proof (cases "length (buffer @ write_string v) \<le> G_MAXUINT32")
    case True
    then show ?thesis
      using Cons.IH [OF True] Cons.prems append_nullable_string_Inr [of buffer "Some v"]
      by (auto simp: bindE_Inr_iff write_strings_def write_string_def)
  next
    case False
    then show ?thesis
      using Cons.prems append_nullable_string_Inr [of buffer "Some v"]
      by (auto simp: bindE_Inr_iff write_strings_def write_string_def)
  qed
qed (auto simp: write_strings_def)

lemma ma_append_strv_Inr [result_simps]:
  assumes "length buffer \<le> G_MAXUINT32"
  shows "ma_append_strv buffer v = Inr b \<longleftrightarrow>
     length (buffer @ write_strv v) \<le> G_MAXUINT32 \<and> b = buffer @ write_strv v"
proof (cases "length buffer + 4 \<le> G_MAXUINT32")
  case True
  then have "length (buffer @ write_u32_le (of_nat (strv_count v))) \<le> G_MAXUINT32"
    by simp
  from append_names_Inr [OF this] append_u32_Inr [OF assms, of "of_nat (strv_count v)"]
  show ?thesis
    using True strings_size_ge [of "strv_items v"]
    by (auto simp: ma_append_strv_def Let_def bindE_Inr_iff write_strv_def strv_count_def)
next
  case False
  then show ?thesis
    using append_u32_Inr [OF assms, of "of_nat (strv_count v)"]
    by (auto simp: ma_append_strv_def Let_def bindE_Inr_iff)
qed

section \<open>What is encoded and what decodes\<close>

definition span_ok :: "bool \<Rightarrow> u64 \<Rightarrow> u64 \<Rightarrow> bool" where
  "span_ok valid start stop \<longleftrightarrow> (if valid then start \<le> stop else start = 0 \<and> stop = 0)"

definition ma_valid :: "message_appended_payload \<Rightarrow> bool" where
  "ma_valid p \<longleftrightarrow>
     (\<exists>a. ma_account_id p = Some a \<and> a \<noteq> []) \<and> (\<exists>m. ma_mailbox_id p = Some m \<and> m \<noteq> []) \<and>
     ma_uidvalidity p \<noteq> 0 \<and> ma_uid p \<noteq> 0 \<and> is_sha256_object_key (ma_object_key p) \<and>
     span_ok (ma_message_id_span_valid p) (ma_message_id_span_start p) (ma_message_id_span_end p) \<and>
     span_ok (ma_subject_span_valid p) (ma_subject_span_start p) (ma_subject_span_end p) \<and>
     list_all is_system_flag (strv_items (ma_system_flags p)) \<and> distinct (strv_items (ma_system_flags p)) \<and>
     list_all is_user_keyword (strv_items (ma_user_keywords p)) \<and> distinct (strv_items (ma_user_keywords p))"

definition ma_strings :: "message_appended_payload \<Rightarrow> cstring list" where
  "ma_strings p = [ma_account_id p, ma_mailbox_id p, ma_object_key p, ma_message_id p, ma_subject p,
     ma_from p, ma_to p, ma_cc p, ma_bcc p, ma_date p]"

definition ma_header :: "message_appended_payload \<Rightarrow> bytes" where
  "ma_header p =
     MESSAGE_APPENDED_MAGIC @ write_u64_le (ma_uidvalidity p) @ write_u64_le (ma_uid p) @
     write_u64_le (ma_size_bytes p) @ write_u64_le (ma_internal_date_unix_us p) @
     write_u32_le (ma_duplicate_message_id_count p) @
     write_u32_le (span_flags (ma_message_id_span_valid p) (ma_subject_span_valid p)) @
     write_u64_le (ma_message_id_span_start p) @ write_u64_le (ma_message_id_span_end p) @
     write_u64_le (ma_subject_span_start p) @ write_u64_le (ma_subject_span_end p)"

definition ma_body :: "message_appended_payload \<Rightarrow> bytes" where
  "ma_body p = concat (map write_nullable_string (ma_strings p)) @ write_strv (ma_system_flags p) @
     write_strv (ma_user_keywords p)"

definition ma_wf :: "message_appended_payload \<Rightarrow> bool" where
  "ma_wf p \<longleftrightarrow> list_all cstring_wf (ma_strings p) \<and> strv_wf (ma_system_flags p) \<and>
     strv_wf (ma_user_keywords p)"

definition ma_canon :: "message_appended_payload \<Rightarrow> message_appended_payload" where
  "ma_canon p = p\<lparr>ma_system_flags := strv_canon (ma_system_flags p),
                  ma_user_keywords := strv_canon (ma_user_keywords p)\<rparr>"

definition ma_ok :: "message_appended_payload \<Rightarrow> bool" where
  "ma_ok p \<longleftrightarrow> list_all nullable_string_ok (ma_strings p) \<and> names_ok (ma_system_flags p) \<and>
     names_ok (ma_user_keywords p)"

lemma validate_span_Inr [result_simps]:
  "validate_span field valid start stop code = Inr u \<longleftrightarrow> span_ok valid start stop"
  by (auto simp: validate_span_def span_ok_def)

lemma ma_validate_Inr: "ma_validate_payload (Some p) code = Inr u \<longleftrightarrow> ma_valid p"
  by (auto simp: ma_validate_payload_def ma_valid_def result_simps)

lemma length_MESSAGE_APPENDED_MAGIC [simp]: "length MESSAGE_APPENDED_MAGIC = 8"
  by (simp add: MESSAGE_APPENDED_MAGIC_def)

lemma length_ma_header [simp]: "length (ma_header p) = 80"
  by (simp add: ma_header_def)

lemma ma_encode_iff:
  "ma_encode (Some p) = Inr data \<longleftrightarrow>
     ma_valid p \<and> length (ma_header p @ ma_body p) \<le> G_MAXUINT32 \<and> data = ma_header p @ ma_body p"
  unfolding ma_encode_def ma_header_def ma_body_def ma_strings_def
  by (auto simp: ma_validate_Inr Let_def result_simps)

text \<open>The two bits of the span flags and the check for unknown ones.\<close>

lemma u32_below_4:
  assumes "v AND NOT SPAN_FLAGS_MASK = 0"
  shows "v \<in> {0, 1, 2, 3}"
proof -
  have "v = v AND (SPAN_FLAGS_MASK OR NOT SPAN_FLAGS_MASK)"
    by simp
  also have "\<dots> = v AND SPAN_FLAGS_MASK"
    using assms by (simp only: bit.conj_disj_distrib) simp
  also have "\<dots> = take_bit 2 v"
    by (simp add: take_bit_eq_mask mask_eq_exp_minus_1)
  finally have "unat v = unat (take_bit 2 v)"
    by simp
  then have "unat v < 4"
    by (simp add: take_bit_eq_mod unat_mod)
  then have "unat v \<in> {0, 1, 2, 3}"
    by auto
  moreover have "of_nat n \<in> {0, 1, 2, 3 :: u32}" if "n \<in> {0, 1, 2, 3}" for n
    using that by auto
  ultimately have "of_nat (unat v) \<in> {0, 1, 2, 3 :: u32}"
    by blast
  then show ?thesis
    by simp
qed

lemma span_flags_iff:
  "v = span_flags m s \<longleftrightarrow>
     v AND NOT SPAN_FLAGS_MASK = 0 \<and> (v AND SPAN_FLAG_MESSAGE_ID \<noteq> 0) = m \<and> (v AND SPAN_FLAG_SUBJECT \<noteq> 0) = s"
proof
  assume "v = span_flags m s"
  then show "v AND NOT SPAN_FLAGS_MASK = 0 \<and> (v AND SPAN_FLAG_MESSAGE_ID \<noteq> 0) = m \<and>
      (v AND SPAN_FLAG_SUBJECT \<noteq> 0) = s"
    by (cases m; cases s) (simp_all add: span_flags_def)
next
  assume h: "v AND NOT SPAN_FLAGS_MASK = 0 \<and> (v AND SPAN_FLAG_MESSAGE_ID \<noteq> 0) = m \<and>
      (v AND SPAN_FLAG_SUBJECT \<noteq> 0) = s"
  then have "v \<in> {0, 1, 2, 3}"
    using u32_below_4 by blast
  with h show "v = span_flags m s"
    by (auto simp: span_flags_def)
qed

text \<open>The readers accept the raw encoding of a payload and nothing else.\<close>

lemma ma_header_stands:
  "stands data 0 (ma_header p) \<longleftrightarrow> 80 \<le> length data \<and> take 8 data = MESSAGE_APPENDED_MAGIC \<and>
     read_u32_le data 44 AND NOT SPAN_FLAGS_MASK = 0 \<and>
     ma_uidvalidity p = read_u64_le data 8 \<and> ma_uid p = read_u64_le data 16 \<and>
     ma_size_bytes p = read_u64_le data 24 \<and> ma_internal_date_unix_us p = read_u64_le data 32 \<and>
     ma_duplicate_message_id_count p = read_u32_le data 40 \<and>
     ma_message_id_span_valid p = (read_u32_le data 44 AND SPAN_FLAG_MESSAGE_ID \<noteq> 0) \<and>
     ma_subject_span_valid p = (read_u32_le data 44 AND SPAN_FLAG_SUBJECT \<noteq> 0) \<and>
     ma_message_id_span_start p = read_u64_le data 48 \<and> ma_message_id_span_end p = read_u64_le data 56 \<and>
     ma_subject_span_start p = read_u64_le data 64 \<and> ma_subject_span_end p = read_u64_le data 72"
proof -
  have "stands data 0 MESSAGE_APPENDED_MAGIC \<longleftrightarrow> take 8 data = MESSAGE_APPENDED_MAGIC"
    by (simp add: stands_def)
  then show ?thesis
    unfolding ma_header_def stands_append
    by (auto simp: stands_u32 stands_u64 span_flags_iff)
qed

lemma ma_decode_Inr:
  "ma_decode data = Inr p \<longleftrightarrow>
     ma_valid p \<and> ma_ok p \<and> stands data 0 (ma_header p) \<and> stands data 80 (ma_body p) \<and>
     80 + length (ma_body p) = length data"
  unfolding ma_header_stands
  by (cases p)
    (auto simp: ma_decode_def result_simps Let_def ma_validate_Inr nstr_wire.dec_iff names_wire.dec_iff
      ma_ok_def ma_strings_def ma_body_def stands_append add.assoc)

lemma ma_decode_iff: "ma_decode data = Inr p \<longleftrightarrow> ma_valid p \<and> ma_ok p \<and> data = ma_header p @ ma_body p"
proof -
  have "stands data 0 (ma_header p) \<and> stands data 80 (ma_body p) \<longleftrightarrow> stands data 0 (ma_header p @ ma_body p)"
    by (simp add: stands_append)
  then show ?thesis
    using stands_all_iff [of data "ma_header p @ ma_body p"] by (auto simp: ma_decode_Inr)
qed

lemma nullable_fits: "length (write_nullable_string v) \<le> G_MAXUINT32 \<Longrightarrow> cstring_wf v \<Longrightarrow> nullable_string_ok v"
  by (cases v) auto

lemma strv_fits: "length (write_strv v) \<le> G_MAXUINT32 \<Longrightarrow> strv_wf v \<Longrightarrow> names_ok (strv_canon v)"
proof -
  assume h: "length (write_strv v) \<le> G_MAXUINT32" "strv_wf v"
  then have s: "strings_size (strv_items v) + 4 \<le> G_MAXUINT32"
    by simp
  then show ?thesis
    using h(2) strings_fit [of "strv_items v"] strings_size_member [of _ "strv_items v"]
    by (force simp: names_ok_def name_ok_def list_all_iff strv_wf_def)
qed

interpretation ma_codec: exact_codec "\<lambda>p. ma_encode (Some p)" ma_decode ma_canon ma_wf G_MAXUINT32
proof
  fix p data
  assume wf: "ma_wf p" and e: "ma_encode (Some p) = Inr data"
  then have e': "ma_valid p" "length (ma_header p @ ma_body p) \<le> G_MAXUINT32" "data = ma_header p @ ma_body p"
    by (auto simp: ma_encode_iff)
  have "nullable_string_ok v" if "v \<in> set (ma_strings p)" for v
  proof (rule nullable_fits)
    have "length (write_nullable_string v) \<le> length (concat (map write_nullable_string (ma_strings p)))"
      using that by (rule length_concat_member)
    then show "length (write_nullable_string v) \<le> G_MAXUINT32"
      using e'(2) by (simp add: ma_body_def)
    show "cstring_wf v"
      using that wf by (auto simp: ma_wf_def list_all_iff)
  qed
  moreover have "names_ok (strv_canon (ma_system_flags p))" "names_ok (strv_canon (ma_user_keywords p))"
    using e'(2) wf by (auto simp: ma_body_def ma_wf_def intro!: strv_fits)
  moreover have "ma_strings (ma_canon p) = ma_strings p" "ma_valid (ma_canon p) = ma_valid p"
    "ma_header (ma_canon p) = ma_header p" "ma_body (ma_canon p) = ma_body p"
    by (simp_all add: ma_strings_def ma_canon_def ma_valid_def ma_header_def ma_body_def)
  ultimately show "ma_decode data = Inr (ma_canon p)"
    using e' by (simp add: ma_decode_iff ma_ok_def list_all_iff) (simp add: ma_canon_def)
next
  fix data p
  assume d: "ma_decode data = Inr p" "length data \<le> G_MAXUINT32"
  then have p: "ma_valid p" "ma_ok p" "data = ma_header p @ ma_body p"
    by (auto simp: ma_decode_iff)
  have "cstring_wf v" if "nullable_string_ok v" for v
    using that by (cases v) auto
  then have "ma_wf p" "ma_canon p = p"
    using p(2) by (auto simp: ma_ok_def ma_wf_def names_ok_def name_ok_def strv_wf_def list_all_iff ma_canon_def
        intro!: message_appended_payload.equality)
  with p d(2) show "ma_encode (Some p) = Inr data \<and> ma_wf p \<and> ma_canon p = p"
    by (simp add: ma_encode_iff)
qed

section \<open>Errors\<close>

lemma raises_ma_validate [raises_simps]: "raises (io_errors code) (ma_validate_payload payload code)"
  by (simp add: ma_validate_payload_def validate_span_def raises_simps split: option.splits)

lemma raises_ma_read_strv [raises_simps]: "raises (io_errors IO_INVALID_DATA) (ma_read_strv data off)"
  by (simp add: ma_read_strv_def raises_simps)

lemmas raises_ma_validate_append = raises_io_append [OF raises_ma_validate]

lemma raises_ma_decode: "raises (io_errors IO_INVALID_DATA) (ma_decode data)"
  by (simp add: ma_decode_def Let_def raises_simps)

lemma raises_append_nullable:
  "length buffer \<le> G_MAXUINT32 \<Longrightarrow> length buffer + length (write_nullable_string v) \<le> n \<Longrightarrow>
   raises (append_errors n) (append_nullable_string buffer v)"
  by (cases v) (auto simp: append_nullable_string_def raises_simps append_bytes_Inr intro!: raises_append_bytes)

lemma raises_append_names:
  "length buffer \<le> G_MAXUINT32 \<Longrightarrow> length buffer + strings_size vs \<le> n \<Longrightarrow>
   raises (append_errors n) (append_names buffer vs)"
  by (induction vs arbitrary: buffer)
    (auto simp: raises_simps append_nullable_string_Inr intro!: raises_append_nullable)

lemma raises_ma_append_strv:
  "length buffer \<le> G_MAXUINT32 \<Longrightarrow> length buffer + length (write_strv v) \<le> n \<Longrightarrow>
   raises (append_errors n) (ma_append_strv buffer v)"
  by (auto simp: ma_append_strv_def Let_def raises_simps append_u32_def append_bytes_Inr
      intro!: raises_append_names raises_append_bytes)

lemma raises_ma_encode: "raises (append_errors (length (ma_header p @ ma_body p))) (ma_encode (Some p))"
  by (auto simp: raises_ma_validate_append ma_encode_def ma_header_def ma_body_def ma_strings_def Let_def raises_simps append_u64_def
      append_u32_def append_bytes_Inr append_nullable_string_Inr ma_append_strv_Inr
      intro!: raises_append_bytes raises_append_nullable raises_ma_append_strv)

end
