(* ===== verification/Message_Delivered.thy ===== *)
theory Message_Delivered
  imports Payload_Common
begin

text \<open>
  The payload of MessageDelivered events (\<^verbatim>\<open>wyrebox-message-delivered-payload.c\<close>) in
  its four versions: the encoder picks version 2, 3 or 4 from what it is given, the decoder
  dispatches on the magic and still reads version 1. The pairs of calls that C writes out one
  by one for the seven header values and the four identity strings run over a list here, which
  stops at the first failure as the chain of conditions does.
\<close>

record eml_metadata =
  em_message_id :: cstring
  em_message_id_span_valid :: bool
  em_message_id_span_start :: u64
  em_message_id_span_end :: u64
  em_subject :: cstring
  em_from :: cstring
  em_to :: cstring
  em_cc :: cstring
  em_bcc :: cstring
  em_date :: cstring
  em_in_reply_to :: cstring
  em_references :: cstring
  em_list_id :: cstring
  em_delivered_to :: cstring
  em_x_original_to :: cstring
  em_subject_span_valid :: bool
  em_subject_span_start :: u64
  em_subject_span_end :: u64
  em_size_bytes :: u64
  em_duplicate_message_id_count :: u32

record message_delivered_payload =
  md_object_key :: cstring
  md_size_bytes :: u64
  md_internal_date_unix_us :: u64
  md_message_id :: cstring
  md_subject :: cstring
  md_from :: cstring
  md_to :: cstring
  md_cc :: cstring
  md_bcc :: cstring
  md_date :: cstring
  md_message_id_span_valid :: bool
  md_message_id_span_start :: u64
  md_message_id_span_end :: u64
  md_subject_span_valid :: bool
  md_subject_span_start :: u64
  md_subject_span_end :: u64
  md_duplicate_message_id_count :: u32
  md_delivery_id :: cstring
  md_queue_id :: cstring
  md_account_identity :: cstring
  md_envelope_sender :: cstring
  md_recipients :: strv

definition MD_MAGIC_V1 :: bytes where "MD_MAGIC_V1 = lit ''WYREMDP1''"
definition MD_MAGIC_V2 :: bytes where "MD_MAGIC_V2 = lit ''WYREMDP2''"
definition MD_MAGIC_V3 :: bytes where "MD_MAGIC_V3 = lit ''WYREMDP3''"
definition MD_MAGIC_V4 :: bytes where "MD_MAGIC_V4 = lit ''WYREMDP4''"

abbreviation MD_HEADER_SIZE_V1 :: nat where "MD_HEADER_SIZE_V1 \<equiv> 18"
abbreviation MD_HEADER_SIZE_V2 :: nat where "MD_HEADER_SIZE_V2 \<equiv> 30"
abbreviation MD_HEADER_SIZE_V3 :: nat where "MD_HEADER_SIZE_V3 \<equiv> 30"
abbreviation MD_HEADER_SIZE_V4 :: nat where "MD_HEADER_SIZE_V4 \<equiv> 30"
abbreviation SHA256_OBJECT_KEY_LEN :: nat where "SHA256_OBJECT_KEY_LEN \<equiv> 71"

text \<open>The cleared payload, \<^verbatim>\<open>{ 0 }\<close>.\<close>

definition md_empty :: message_delivered_payload where
  "md_empty = \<lparr>md_object_key = None, md_size_bytes = 0, md_internal_date_unix_us = 0, md_message_id = None,
     md_subject = None, md_from = None, md_to = None, md_cc = None, md_bcc = None, md_date = None,
     md_message_id_span_valid = False, md_message_id_span_start = 0, md_message_id_span_end = 0,
     md_subject_span_valid = False, md_subject_span_start = 0, md_subject_span_end = 0,
     md_duplicate_message_id_count = 0, md_delivery_id = None, md_queue_id = None,
     md_account_identity = None, md_envelope_sender = None, md_recipients = None\<rparr>"

section \<open>Sizes and checks\<close>

definition metadata_has_span_provenance :: "eml_metadata option \<Rightarrow> bool" where
  "metadata_has_span_provenance metadata =
     (case metadata of None \<Rightarrow> False
      | Some m \<Rightarrow> em_message_id_span_valid m \<or> em_subject_span_valid m)"

definition checked_add_encoded_string_len :: "nat \<Rightarrow> cstring \<Rightarrow> nat result" where
  "checked_add_encoded_string_len total_size value =
     bindE (checked_add_size total_size 4) (\<lambda>total1.
     case value of
       None \<Rightarrow> Inr total1
     | Some s \<Rightarrow>
         if length s \<ge> G_MAXUINT32 then Inl (GError IO_INVALID_ARGUMENT String_too_large)
         else checked_add_size total1 (length s))"

fun checked_add_encoded_string_lens :: "nat \<Rightarrow> cstring list \<Rightarrow> nat result" where
  "checked_add_encoded_string_lens total_size [] = Inr total_size"
| "checked_add_encoded_string_lens total_size (v # vs) =
     bindE (checked_add_encoded_string_len total_size v) (\<lambda>total1. checked_add_encoded_string_lens total1 vs)"

text \<open>The loop of \<^verbatim>\<open>checked_add_encoded_strv_len\<close> at index \<open>i\<close>.\<close>

fun checked_add_strv_from :: "nat \<Rightarrow> nat \<Rightarrow> bytes list \<Rightarrow> nat result" where
  "checked_add_strv_from i total_size [] = Inr total_size"
| "checked_add_strv_from i total_size (v # vs) =
     (if i = G_MAXUINT32 then Inl (GError IO_INVALID_ARGUMENT (Too_many ''recipients''))
      else bindE (checked_add_encoded_string_len total_size (Some v)) (\<lambda>total1.
           checked_add_strv_from (i + 1) total1 vs))"

definition checked_add_encoded_strv_len :: "nat \<Rightarrow> strv \<Rightarrow> nat result" where
  "checked_add_encoded_strv_len total_size values =
     bindE (checked_add_size total_size 4) (\<lambda>total1. checked_add_strv_from 0 total1 (strv_items values))"

definition is_lowercase_hex :: "byte \<Rightarrow> bool" where
  "is_lowercase_hex value \<longleftrightarrow> (48 \<le> value \<and> value \<le> 57) \<or> (97 \<le> value \<and> value \<le> 102)"

definition validate_object_key :: "cstring \<Rightarrow> io_code \<Rightarrow> unit result" where
  "validate_object_key object_key code =
     (case object_key of
        None \<Rightarrow> Inl (GError IO_INVALID_ARGUMENT (Required ''object key''))
      | Some key \<Rightarrow>
          if length key \<noteq> SHA256_OBJECT_KEY_LEN \<or> take 7 key \<noteq> lit ''sha256:''
          then Inl (GError code Bad_object_key)
          else if list_all is_lowercase_hex (drop 7 key) then Inr ()
          else Inl (GError code Bad_object_key))"

section \<open>Encoder\<close>

text \<open>
  The write functions with their assertions: they run after the size has been computed and
  abort when a string or a vector is longer than its prefix can say.
\<close>

fun put_nullable_string :: "cstring \<Rightarrow> bytes result" where
  "put_nullable_string None = Inr (write_u32_le 0xFFFFFFFF)"
| "put_nullable_string (Some s) =
     bindE (failIf (\<not> length s < G_MAXUINT32) Abort) (\<lambda>_. Inr (write_u32_le (of_nat (length s)) @ s))"

fun put_nullable_strings :: "cstring list \<Rightarrow> bytes result" where
  "put_nullable_strings [] = Inr []"
| "put_nullable_strings (v # vs) =
     bindE (put_nullable_string v) (\<lambda>b. bindE (put_nullable_strings vs) (\<lambda>bs. Inr (b @ bs)))"

definition put_strv :: "strv \<Rightarrow> bytes result" where
  "put_strv values =
     bindE (failIf (length (strv_items values) > G_MAXUINT32) Abort) (\<lambda>_.
     bindE (put_nullable_strings (map Some (strv_items values))) (\<lambda>bs.
     Inr (write_u32_le (of_nat (length (strv_items values))) @ bs)))"

definition md_metadata_strings :: "eml_metadata option \<Rightarrow> cstring list" where
  "md_metadata_strings metadata =
     (case metadata of
        None \<Rightarrow> [None, None, None, None, None, None, None]
      | Some m \<Rightarrow> [em_message_id m, em_subject m, em_from m, em_to m, em_cc m, em_bcc m, em_date m])"

definition md_span_fields :: "eml_metadata option \<Rightarrow> bytes" where
  "md_span_fields metadata =
     (case metadata of
        None \<Rightarrow> write_u32_le 0 @ write_u64_le 0 @ write_u64_le 0 @ write_u32_le 0 @ write_u64_le 0 @ write_u64_le 0
      | Some m \<Rightarrow>
          write_u32_le (if em_message_id_span_valid m then 1 else 0) @
          write_u64_le (em_message_id_span_start m) @ write_u64_le (em_message_id_span_end m) @
          write_u32_le (if em_subject_span_valid m then 1 else 0) @
          write_u64_le (em_subject_span_start m) @ write_u64_le (em_subject_span_end m))"

text \<open>The size computation in front of the allocation.\<close>

definition md_payload_len ::
  "bool \<Rightarrow> bool \<Rightarrow> bytes \<Rightarrow> eml_metadata option \<Rightarrow> cstring list \<Rightarrow> strv \<Rightarrow> nat result" where
  "md_payload_len has_span_provenance has_identity key metadata identity recipients =
     (let header_size = (if has_span_provenance then MD_HEADER_SIZE_V4
                         else if has_identity then MD_HEADER_SIZE_V3 else MD_HEADER_SIZE_V2)
      in bindE (checked_add_size header_size (length key)) (\<lambda>len1.
         bindE (checked_add_encoded_string_lens len1 (md_metadata_strings metadata)) (\<lambda>len2.
         bindE (if has_span_provenance
                then bindE (checked_add_size len2 4) (\<lambda>l1. bindE (checked_add_size l1 8) (\<lambda>l2.
                     bindE (checked_add_size l2 8) (\<lambda>l3. bindE (checked_add_size l3 4) (\<lambda>l4.
                     bindE (checked_add_size l4 8) (\<lambda>l5. checked_add_size l5 8)))))
                else Inr len2) (\<lambda>len3.
         if has_identity
         then bindE (checked_add_encoded_string_lens len3 identity) (\<lambda>l1.
              checked_add_encoded_strv_len l1 recipients)
         else Inr len3))))"

definition md_encode_with_identity ::
  "cstring \<Rightarrow> u64 \<Rightarrow> eml_metadata option \<Rightarrow> u64 \<Rightarrow> cstring \<Rightarrow> cstring \<Rightarrow> cstring \<Rightarrow> cstring \<Rightarrow> strv \<Rightarrow> bytes result" where
  "md_encode_with_identity object_key size_bytes metadata internal_date_unix_us delivery_id queue_id
     account_identity envelope_sender recipients =
     bindE (validate_object_key object_key IO_INVALID_ARGUMENT) (\<lambda>_.
     let has_identity = (delivery_id \<noteq> None);
         has_span_provenance = metadata_has_span_provenance metadata;
         key = the object_key;
         duplicates = (case metadata of None \<Rightarrow> 0 | Some m \<Rightarrow> em_duplicate_message_id_count m);
         identity = [delivery_id, queue_id, account_identity, envelope_sender];
         magic = (if has_span_provenance then MD_MAGIC_V4 else if has_identity then MD_MAGIC_V3 else MD_MAGIC_V2)
     in if delivery_id = Some [] then Inl (GError IO_INVALID_ARGUMENT (Required ''delivery_id''))
        else
          bindE (md_payload_len has_span_provenance has_identity key metadata identity recipients) (\<lambda>payload_len.
          bindE (put_nullable_strings (md_metadata_strings metadata)) (\<lambda>strings.
          bindE (if has_identity
                 then bindE (put_nullable_strings identity) (\<lambda>ids. bindE (put_strv recipients) (\<lambda>rs. Inr (ids @ rs)))
                 else Inr []) (\<lambda>identity_bytes.
          filled payload_len
            (magic @ write_u64_le size_bytes @ write_u64_le internal_date_unix_us @ write_u32_le duplicates @
             write_u16_le (of_nat (length key)) @ key @ strings @
             (if has_span_provenance then md_span_fields metadata else []) @ identity_bytes)))))"

definition md_encode_full :: "cstring \<Rightarrow> u64 \<Rightarrow> eml_metadata option \<Rightarrow> u64 \<Rightarrow> bytes result" where
  "md_encode_full object_key size_bytes metadata internal_date_unix_us =
     md_encode_with_identity object_key size_bytes metadata internal_date_unix_us None None None None None"

definition md_encode :: "cstring \<Rightarrow> u64 \<Rightarrow> bytes result" where
  "md_encode object_key size_bytes = md_encode_full object_key size_bytes None 0"

section \<open>Decoders\<close>

text \<open>\<^verbatim>\<open>read_strv\<close> of this payload never returns NULL.\<close>

definition md_read_strv :: "bytes \<Rightarrow> nat \<Rightarrow> (strv \<times> nat) result" where
  "md_read_strv data off =
     bindE (read_u32 data off) (\<lambda>(count, off1).
       if unat count > (length data - off1) div 4 then Inl (GError IO_INVALID_DATA Truncated)
       else bindE (read_n read_name (unat count) data off1) (\<lambda>(values, off2). Inr (Some values, off2)))"

definition decode_v1_payload :: "bytes \<Rightarrow> message_delivered_payload result" where
  "decode_v1_payload data =
     (if length data < MD_HEADER_SIZE_V1 then Inl (GError IO_INVALID_DATA Truncated)
      else
        let object_key_len = unat (read_u16_le data 16);
            expected_size = MD_HEADER_SIZE_V1 + object_key_len
        in if object_key_len \<noteq> SHA256_OBJECT_KEY_LEN then Inl (GError IO_INVALID_DATA Bad_object_key)
           else if expected_size \<noteq> length data
           then Inl (GError IO_INVALID_DATA (if expected_size > length data then Truncated else Length_malformed))
           else
             let decoded = md_empty\<lparr>md_object_key := Some (g_strndup data MD_HEADER_SIZE_V1 object_key_len),
                   md_size_bytes := read_u64_le data 8\<rparr>
             in bindE (validate_object_key (md_object_key decoded) IO_INVALID_DATA) (\<lambda>_. Inr decoded))"

text \<open>The code that the decoders of the versions 2, 3 and 4 start with, word for word.\<close>

definition read_fixed_fields :: "bytes \<Rightarrow> (message_delivered_payload \<times> nat) result" where
  "read_fixed_fields data =
     (if length data < MD_HEADER_SIZE_V2 then Inl (GError IO_INVALID_DATA Truncated)
      else
        let object_key_len = unat (read_u16_le data 28)
        in if object_key_len \<noteq> SHA256_OBJECT_KEY_LEN then Inl (GError IO_INVALID_DATA Bad_object_key)
           else if object_key_len > length data - MD_HEADER_SIZE_V2 then Inl (GError IO_INVALID_DATA Truncated)
           else
             let decoded = md_empty\<lparr>md_object_key := Some (g_strndup data MD_HEADER_SIZE_V2 object_key_len),
                   md_size_bytes := read_u64_le data 8, md_internal_date_unix_us := read_u64_le data 16,
                   md_duplicate_message_id_count := read_u32_le data 24\<rparr>
             in bindE (validate_object_key (md_object_key decoded) IO_INVALID_DATA) (\<lambda>_.
                Inr (decoded, MD_HEADER_SIZE_V2 + object_key_len)))"

definition read_metadata_strings ::
  "bytes \<Rightarrow> message_delivered_payload \<Rightarrow> nat \<Rightarrow> (message_delivered_payload \<times> nat) result" where
  "read_metadata_strings data decoded off =
     bindE (read_n read_nullable_string 7 data off) (\<lambda>(s, off1).
     Inr (decoded\<lparr>md_message_id := s ! 0, md_subject := s ! 1, md_from := s ! 2, md_to := s ! 3,
                  md_cc := s ! 4, md_bcc := s ! 5, md_date := s ! 6\<rparr>, off1))"

definition read_identity ::
  "bytes \<Rightarrow> message_delivered_payload \<Rightarrow> nat \<Rightarrow> (message_delivered_payload \<times> nat) result" where
  "read_identity data decoded off =
     bindE (read_n read_nullable_string 4 data off) (\<lambda>(s, off1).
     bindE (md_read_strv data off1) (\<lambda>(recipients, off2).
     if s ! 0 = None then Inl (GError IO_INVALID_DATA (Required ''delivery_id''))
     else Inr (decoded\<lparr>md_delivery_id := s ! 0, md_queue_id := s ! 1, md_account_identity := s ! 2,
                       md_envelope_sender := s ! 3, md_recipients := recipients\<rparr>, off2)))"

definition decode_v2_payload :: "bytes \<Rightarrow> message_delivered_payload result" where
  "decode_v2_payload data =
     bindE (read_fixed_fields data) (\<lambda>(decoded1, off1).
     bindE (read_metadata_strings data decoded1 off1) (\<lambda>(decoded2, off2).
     if off2 \<noteq> length data then Inl (GError IO_INVALID_DATA Length_malformed) else Inr decoded2))"

definition decode_v3_payload :: "bytes \<Rightarrow> message_delivered_payload result" where
  "decode_v3_payload data =
     bindE (read_fixed_fields data) (\<lambda>(decoded1, off1).
     bindE (read_metadata_strings data decoded1 off1) (\<lambda>(decoded2, off2).
     bindE (read_identity data decoded2 off2) (\<lambda>(decoded3, off3).
     if off3 \<noteq> length data then Inl (GError IO_INVALID_DATA Length_malformed) else Inr decoded3)))"

definition decode_v4_payload :: "bytes \<Rightarrow> message_delivered_payload result" where
  "decode_v4_payload data =
     bindE (read_fixed_fields data) (\<lambda>(decoded1, off1).
     bindE (read_metadata_strings data decoded1 off1) (\<lambda>(decoded2, off2).
     if length data - off2 < 40 then Inl (GError IO_INVALID_DATA Truncated)
     else
       bindE (if off2 + 40 < length data then read_identity data decoded2 (off2 + 40)
              else Inr (decoded2, off2 + 40)) (\<lambda>(decoded3, off3).
       if off3 \<noteq> length data then Inl (GError IO_INVALID_DATA Length_malformed)
       else Inr (decoded3\<lparr>
         md_message_id_span_valid := (read_u32_le data off2 \<noteq> 0),
         md_message_id_span_start := read_u64_le data (off2 + 4),
         md_message_id_span_end := read_u64_le data (off2 + 12),
         md_subject_span_valid := (read_u32_le data (off2 + 20) \<noteq> 0),
         md_subject_span_start := read_u64_le data (off2 + 24),
         md_subject_span_end := read_u64_le data (off2 + 32)\<rparr>))))"

definition md_decode :: "bytes \<Rightarrow> message_delivered_payload result" where
  "md_decode data =
     (if length data = 0 then Inl (GError IO_INVALID_DATA (Required ''payload''))
      else if length data < 8 then Inl (GError IO_INVALID_DATA Truncated)
      else if take 8 data = MD_MAGIC_V1 then decode_v1_payload data
      else if take 8 data = MD_MAGIC_V2 then decode_v2_payload data
      else if take 8 data = MD_MAGIC_V3 then decode_v3_payload data
      else if take 8 data = MD_MAGIC_V4 then decode_v4_payload data
      else Inl (GError IO_INVALID_DATA Bad_magic))"

section \<open>Facts\<close>

fun cstring_fits :: "cstring \<Rightarrow> bool" where
  "cstring_fits None = True"
| "cstring_fits (Some s) = (length s < G_MAXUINT32)"

abbreviation nullable_bytes :: "cstring list \<Rightarrow> bytes" where
  "nullable_bytes vs \<equiv> concat (map write_nullable_string vs)"

lemma checked_add_size_Inr [result_simps]:
  "checked_add_size n m = Inr k \<longleftrightarrow> m \<le> G_MAXSIZE - n \<and> k = n + m"
  by (auto simp: checked_add_size_def)

lemma add_string_len_Inr [result_simps]:
  "n \<le> G_MAXSIZE \<Longrightarrow> checked_add_encoded_string_len n v = Inr k \<longleftrightarrow>
     cstring_fits v \<and> n + length (write_nullable_string v) \<le> G_MAXSIZE \<and> k = n + length (write_nullable_string v)"
  by (cases v) (auto simp: checked_add_encoded_string_len_def result_simps)

lemma add_string_lens_Inr [result_simps]:
  "n \<le> G_MAXSIZE \<Longrightarrow> checked_add_encoded_string_lens n vs = Inr k \<longleftrightarrow>
     list_all cstring_fits vs \<and> n + length (nullable_bytes vs) \<le> G_MAXSIZE \<and> k = n + length (nullable_bytes vs)"
proof (induction vs arbitrary: n)
  case (Cons v vs)
  show ?case
  proof (cases "n + length (write_nullable_string v) \<le> G_MAXSIZE")
    case True
    then show ?thesis
      using Cons.IH [OF True] Cons.prems by (auto simp: bindE_Inr_iff add_string_len_Inr)
  next
    case False
    then show ?thesis
      using Cons.prems by (auto simp: bindE_Inr_iff add_string_len_Inr)
  qed
qed auto

lemma add_strv_from_Inr:
  "n \<le> G_MAXSIZE \<Longrightarrow> i \<le> G_MAXUINT32 \<Longrightarrow> checked_add_strv_from i n vs = Inr k \<longleftrightarrow>
     list_all (\<lambda>s. length s < G_MAXUINT32) vs \<and> i + length vs \<le> G_MAXUINT32 \<and>
     n + strings_size vs \<le> G_MAXSIZE \<and> k = n + strings_size vs"
proof (induction vs arbitrary: n i)
  case (Cons v vs)
  show ?case
  proof (cases "n + (4 + length v) \<le> G_MAXSIZE \<and> i + 1 \<le> G_MAXUINT32")
    case True
    then show ?thesis
      using Cons.IH [of "n + (4 + length v)" "i + 1"] Cons.prems
      by (auto simp: bindE_Inr_iff add_string_len_Inr)
  next
    case False
    then show ?thesis
      using Cons.prems by (auto simp: bindE_Inr_iff add_string_len_Inr)
  qed
qed auto

lemma add_strv_len_Inr [result_simps]:
  "n \<le> G_MAXSIZE \<Longrightarrow> checked_add_encoded_strv_len n values = Inr k \<longleftrightarrow>
     list_all (\<lambda>s. length s < G_MAXUINT32) (strv_items values) \<and> length (strv_items values) \<le> G_MAXUINT32 \<and>
     n + length (write_strv values) \<le> G_MAXSIZE \<and> k = n + length (write_strv values)"
proof (cases "n + 4 \<le> G_MAXSIZE")
  case True
  then show ?thesis
    using add_strv_from_Inr [of "n + 4" 0 "strv_items values" k]
    by (auto simp: checked_add_encoded_strv_len_def bindE_Inr_iff checked_add_size_Inr)
qed (auto simp: checked_add_encoded_strv_len_def bindE_Inr_iff checked_add_size_Inr)

lemma put_nullable_string_Inr [result_simps]:
  "put_nullable_string v = Inr b \<longleftrightarrow> cstring_fits v \<and> b = write_nullable_string v"
  by (cases v) (auto simp: result_simps)

lemma put_nullable_strings_Inr [result_simps]:
  "put_nullable_strings vs = Inr b \<longleftrightarrow> list_all cstring_fits vs \<and> b = nullable_bytes vs"
  by (induction vs arbitrary: b) (auto simp: bindE_Inr_iff put_nullable_string_Inr)

lemma put_strv_Inr [result_simps]:
  "put_strv values = Inr b \<longleftrightarrow>
     list_all (\<lambda>s. length s < G_MAXUINT32) (strv_items values) \<and> length (strv_items values) \<le> G_MAXUINT32 \<and>
     b = write_strv values"
proof -
  have "write_nullable_string \<circ> Some = write_string"
    by (rule ext) (simp add: write_string_def)
  then show ?thesis
    by (auto simp: put_strv_def result_simps list_all_iff write_strv_def strv_count_def write_strings_def)
qed

lemma length_md_span_fields [simp]: "length (md_span_fields metadata) = 40"
  by (simp add: md_span_fields_def split: option.splits)

lemma length_md_magic [simp]:
  "length MD_MAGIC_V1 = 8" "length MD_MAGIC_V2 = 8" "length MD_MAGIC_V3 = 8" "length MD_MAGIC_V4 = 8"
  by (simp_all add: MD_MAGIC_V1_def MD_MAGIC_V2_def MD_MAGIC_V3_def MD_MAGIC_V4_def)

lemma md_magic_distinct [simp]:
  "MD_MAGIC_V2 \<noteq> MD_MAGIC_V1" "MD_MAGIC_V3 \<noteq> MD_MAGIC_V1" "MD_MAGIC_V4 \<noteq> MD_MAGIC_V1"
  "MD_MAGIC_V3 \<noteq> MD_MAGIC_V2" "MD_MAGIC_V4 \<noteq> MD_MAGIC_V2" "MD_MAGIC_V4 \<noteq> MD_MAGIC_V3"
  unfolding MD_MAGIC_V1_def MD_MAGIC_V2_def MD_MAGIC_V3_def MD_MAGIC_V4_def lit_eq_iff by simp_all

definition md_key_ok :: "bytes \<Rightarrow> bool" where
  "md_key_ok key \<longleftrightarrow> length key = SHA256_OBJECT_KEY_LEN \<and> take 7 key = lit ''sha256:'' \<and>
     list_all is_lowercase_hex (drop 7 key)"

lemma validate_object_key_Inr [result_simps]:
  "validate_object_key k code = Inr u \<longleftrightarrow> (\<exists>key. k = Some key \<and> md_key_ok key)"
  by (auto simp: validate_object_key_def md_key_ok_def split: option.splits)

lemma md_key_nul_free: "md_key_ok key \<Longrightarrow> nul_free key"
proof -
  assume k: "md_key_ok key"
  then have "set key \<subseteq> set (take 7 key) \<union> set (drop 7 key)"
    by (metis append_take_drop_id order_refl set_append)
  moreover have "0 \<notin> set (take 7 key)"
    using k by (simp add: md_key_ok_def lit_def)
  moreover have "0 \<notin> set (drop 7 key)"
    using k by (auto simp: md_key_ok_def list_all_iff is_lowercase_hex_def)
  ultimately show ?thesis
    by (auto simp: nul_free_def)
qed

section \<open>What the encoder writes\<close>

definition md_fixed :: "bytes \<Rightarrow> u64 \<Rightarrow> u64 \<Rightarrow> u32 \<Rightarrow> bytes \<Rightarrow> bytes" where
  "md_fixed magic size_bytes internal_date duplicates key =
     magic @ write_u64_le size_bytes @ write_u64_le internal_date @ write_u32_le duplicates @
     write_u16_le (of_nat (length key)) @ key"

definition md_duplicates :: "eml_metadata option \<Rightarrow> u32" where
  "md_duplicates metadata = (case metadata of None \<Rightarrow> 0 | Some m \<Rightarrow> em_duplicate_message_id_count m)"

definition md_identity_bytes :: "cstring list \<Rightarrow> strv \<Rightarrow> bytes" where
  "md_identity_bytes identity recipients = nullable_bytes identity @ write_strv recipients"

definition md_raw ::
  "bytes \<Rightarrow> u64 \<Rightarrow> eml_metadata option \<Rightarrow> u64 \<Rightarrow> cstring list \<Rightarrow> strv \<Rightarrow> bytes" where
  "md_raw key size_bytes metadata internal_date identity recipients =
     (let has_identity = (hd identity \<noteq> None);
          has_span_provenance = metadata_has_span_provenance metadata
      in md_fixed (if has_span_provenance then MD_MAGIC_V4 else if has_identity then MD_MAGIC_V3 else MD_MAGIC_V2)
           size_bytes internal_date (md_duplicates metadata) key @
         nullable_bytes (md_metadata_strings metadata) @
         (if has_span_provenance then md_span_fields metadata else []) @
         (if has_identity then md_identity_bytes identity recipients else []))"

definition recipients_fit :: "strv \<Rightarrow> bool" where
  "recipients_fit values \<longleftrightarrow> list_all (\<lambda>s. length s < G_MAXUINT32) (strv_items values) \<and>
     length (strv_items values) \<le> G_MAXUINT32"

lemma length_md_fixed [simp]: "length (md_fixed magic n d c key) = length magic + 22 + length key"
  by (simp add: md_fixed_def)

lemma md_payload_len_Inr:
  assumes "length key = 71"
  shows "md_payload_len span ident key metadata identity rs = Inr k \<longleftrightarrow>
     list_all cstring_fits (md_metadata_strings metadata) \<and>
     (ident \<longrightarrow> list_all cstring_fits identity \<and> recipients_fit rs) \<and> k \<le> G_MAXSIZE \<and>
     k = 101 + length (nullable_bytes (md_metadata_strings metadata)) + (if span then 40 else 0) +
         (if ident then length (md_identity_bytes identity rs) else 0)"
  using assms
  by (cases span; cases ident)
    (auto simp: md_payload_len_def result_simps Let_def md_identity_bytes_def recipients_fit_def)

lemma length_md_raw:
  assumes "length key = 71"
  shows "length (md_raw key n metadata d identity rs) =
     101 + length (nullable_bytes (md_metadata_strings metadata)) +
     (if metadata_has_span_provenance metadata then 40 else 0) +
     (if hd identity \<noteq> None then length (md_identity_bytes identity rs) else 0)"
  using assms by (simp add: md_raw_def Let_def)

lemma md_encode_iff:
  "md_encode_with_identity object_key n metadata d di q a e rs = Inr data \<longleftrightarrow>
     (\<exists>key. object_key = Some key \<and> md_key_ok key \<and> di \<noteq> Some [] \<and>
        list_all cstring_fits (md_metadata_strings metadata) \<and>
        (di \<noteq> None \<longrightarrow> list_all cstring_fits [di, q, a, e] \<and> recipients_fit rs) \<and>
        length (md_raw key n metadata d [di, q, a, e] rs) \<le> G_MAXSIZE \<and>
        data = md_raw key n metadata d [di, q, a, e] rs)"
proof (cases "\<exists>key. object_key = Some key \<and> md_key_ok key")
  case False
  then show ?thesis
    by (auto simp: md_encode_with_identity_def result_simps)
next
  case True
  then obtain key where key: "object_key = Some key" "md_key_ok key" by blast
  have l: "length key = 71"
    using key by (simp add: md_key_ok_def)
  have v: "validate_object_key object_key IO_INVALID_ARGUMENT = Inr ()"
    using key by (simp add: validate_object_key_Inr)
  show ?thesis
    using key l unfolding length_md_raw [OF l]
    by (cases "di = None")
      (auto simp: md_encode_with_identity_def v result_simps Let_def md_payload_len_Inr md_raw_def md_fixed_def
        md_duplicates_def md_identity_bytes_def recipients_fit_def)
qed

section \<open>What the decoders read\<close>

lemma md_fixed_stands:
  assumes "length magic = 8" "length key = 71"
  shows "stands data 0 (md_fixed magic n d c key) \<longleftrightarrow>
     101 \<le> length data \<and> take 8 data = magic \<and> read_u64_le data 8 = n \<and> read_u64_le data 16 = d \<and>
     read_u32_le data 24 = c \<and> read_u16_le data 28 = 71 \<and> stands data 30 key"
proof -
  have "stands data 0 magic \<longleftrightarrow> take 8 data = magic"
    using assms(1) by (simp add: stands_def)
  moreover have "stands data 30 key \<Longrightarrow> 101 \<le> length data"
    using assms(2) stands_bound [of data 30 key] by (cases key) auto
  ultimately show ?thesis
    using assms unfolding md_fixed_def stands_append
    by (auto simp: stands_u16 stands_u32 stands_u64)
qed

lemma read_fixed_fields_at:
  assumes "stands data 0 (md_fixed magic n d c key)" "length magic = 8" "md_key_ok key"
  shows "read_fixed_fields data = Inr (md_empty\<lparr>md_object_key := Some key, md_size_bytes := n,
      md_internal_date_unix_us := d, md_duplicate_message_id_count := c\<rparr>, 101)"
proof -
  have l: "length key = 71"
    using assms(3) by (simp add: md_key_ok_def)
  note at = assms(1) [unfolded md_fixed_stands [OF assms(2) l]]
  have "g_strndup data 30 71 = key"
    using string_body_iff [of 71 data 30 key] at l md_key_nul_free [OF assms(3)] by auto
  moreover have "71 \<le> length data - 30"
    using at by linarith
  ultimately show ?thesis
    using at assms(3) by (simp add: read_fixed_fields_def Let_def validate_object_key_def md_key_ok_def)
qed

lemma read_metadata_strings_Inr:
  "read_metadata_strings data decoded off = Inr (p, off') \<longleftrightarrow>
     (\<exists>s. length s = 7 \<and> list_all nullable_string_ok s \<and> stands data off (nullable_bytes s) \<and>
        off' = off + length (nullable_bytes s) \<and>
        p = decoded\<lparr>md_message_id := s ! 0, md_subject := s ! 1, md_from := s ! 2, md_to := s ! 3,
                    md_cc := s ! 4, md_bcc := s ! 5, md_date := s ! 6\<rparr>)"
  by (auto simp: read_metadata_strings_def bindE_Inr_iff nstr_wire.read_n_iff)

lemma md_read_strv_Inr:
  "md_read_strv data off = Inr (v, off') \<longleftrightarrow>
     (\<exists>xs. v = Some xs \<and> list_all name_ok xs \<and> length xs \<le> G_MAXUINT32 \<and>
        stands data off (write_strv v) \<and> off' = off + length (write_strv v))"
proof -
  have fits: "length xs \<le> (length data - (off + 4)) div 4"
    if "list_all name_ok xs" "stands data (off + 4) (concat (map write_string xs))" for xs
    using name_wire.count_fits [of xs data "off + 4"] that by simp
  have "md_read_strv data off = Inr (v, off') \<longleftrightarrow> off + 4 \<le> length data \<and>
     (\<exists>xs. v = Some xs \<and> list_all name_ok xs \<and> length xs = unat (read_u32_le data off) \<and>
        stands data (off + 4) (write_strings xs) \<and> off' = off + 4 + length (write_strings xs))"
    by (auto simp: md_read_strv_def bindE_Inr_iff u32_wire.dec_iff stands_u32 name_wire.read_n_iff
        write_strings_def dest: fits)
  also have "\<dots> \<longleftrightarrow> (\<exists>xs. v = Some xs \<and> list_all name_ok xs \<and> length xs \<le> G_MAXUINT32 \<and>
        stands data off (write_strv v) \<and> off' = off + length (write_strv v))"
    using of_nat_u32_eq_iff [of "length (strv_items v)" "read_u32_le data off"]
    by (auto simp: write_strv_def stands_append stands_u32 strv_count_def unat_u32_le)
  finally show ?thesis .
qed

lemma read_identity_at:
  assumes "length s = 4" "list_all nullable_string_ok s" "s ! 0 \<noteq> None" "list_all name_ok xs"
    and "length xs \<le> G_MAXUINT32" "stands data off (md_identity_bytes s (Some xs))"
    and "off' = off + length (md_identity_bytes s (Some xs))"
  shows "read_identity data decoded off = Inr (decoded\<lparr>md_delivery_id := s ! 0, md_queue_id := s ! 1,
      md_account_identity := s ! 2, md_envelope_sender := s ! 3, md_recipients := Some xs\<rparr>, off')"
proof -
  have "read_n read_nullable_string 4 data off = Inr (s, off + length (nullable_bytes s))"
    "md_read_strv data (off + length (nullable_bytes s)) = Inr (Some xs, off')"
    using assms by (simp_all add: nstr_wire.read_n_iff md_read_strv_Inr md_identity_bytes_def stands_append)
  with assms(3) show ?thesis
    by (simp add: read_identity_def)
qed

section \<open>Round trip\<close>

text \<open>
  What a decoder makes of the encoder's arguments: the spans survive when one of them is valid,
  the identity when there is a delivery id, and a NULL recipient vector comes back empty.
\<close>

definition md_base :: "bytes \<Rightarrow> u64 \<Rightarrow> eml_metadata option \<Rightarrow> u64 \<Rightarrow> message_delivered_payload" where
  "md_base key size_bytes metadata internal_date =
     (let s = md_metadata_strings metadata
      in md_empty\<lparr>md_object_key := Some key, md_size_bytes := size_bytes,
           md_internal_date_unix_us := internal_date, md_duplicate_message_id_count := md_duplicates metadata,
           md_message_id := s ! 0, md_subject := s ! 1, md_from := s ! 2, md_to := s ! 3,
           md_cc := s ! 4, md_bcc := s ! 5, md_date := s ! 6\<rparr>)"

definition md_payload_of ::
  "bytes \<Rightarrow> u64 \<Rightarrow> eml_metadata option \<Rightarrow> u64 \<Rightarrow> cstring list \<Rightarrow> strv \<Rightarrow> message_delivered_payload" where
  "md_payload_of key size_bytes metadata internal_date identity recipients =
     (let p1 = md_base key size_bytes metadata internal_date;
          p2 = (if hd identity = None then p1
                else p1\<lparr>md_delivery_id := identity ! 0, md_queue_id := identity ! 1,
                  md_account_identity := identity ! 2, md_envelope_sender := identity ! 3,
                  md_recipients := Some (strv_items recipients)\<rparr>)
      in case metadata of
           None \<Rightarrow> p2
         | Some m \<Rightarrow>
             if metadata_has_span_provenance metadata
             then p2\<lparr>md_message_id_span_valid := em_message_id_span_valid m,
               md_message_id_span_start := em_message_id_span_start m,
               md_message_id_span_end := em_message_id_span_end m,
               md_subject_span_valid := em_subject_span_valid m,
               md_subject_span_start := em_subject_span_start m,
               md_subject_span_end := em_subject_span_end m\<rparr>
             else p2)"

definition md_args_wf :: "eml_metadata option \<Rightarrow> cstring list \<Rightarrow> strv \<Rightarrow> bool" where
  "md_args_wf metadata identity recipients \<longleftrightarrow>
     list_all cstring_wf (md_metadata_strings metadata) \<and> list_all cstring_wf identity \<and> strv_wf recipients"

lemma fits_ok: "list_all cstring_wf vs \<Longrightarrow> list_all cstring_fits vs \<Longrightarrow> list_all nullable_string_ok vs"
proof -
  have "nullable_string_ok v" if "cstring_wf v" "cstring_fits v" for v
    using that by (cases v) auto
  then show "list_all cstring_wf vs \<Longrightarrow> list_all cstring_fits vs \<Longrightarrow> list_all nullable_string_ok vs"
    by (auto simp: list_all_iff)
qed

lemma md_span_fields_stands:
  "stands data off (md_span_fields (Some m)) \<Longrightarrow>
     read_u32_le data off = (if em_message_id_span_valid m then 1 else 0) \<and>
     read_u64_le data (off + 4) = em_message_id_span_start m \<and>
     read_u64_le data (off + 12) = em_message_id_span_end m \<and>
     read_u32_le data (off + 20) = (if em_subject_span_valid m then 1 else 0) \<and>
     read_u64_le data (off + 24) = em_subject_span_start m \<and>
     read_u64_le data (off + 32) = em_subject_span_end m \<and> off + 40 \<le> length data"
  by (auto simp: md_span_fields_def stands_append stands_u32 stands_u64 add.assoc)

text \<open>The bytes in front of the spans and the identity.\<close>

lemma md_prefix_reads:
  assumes "md_key_ok key" "length magic = 8" "list_all nullable_string_ok (md_metadata_strings metadata)"
    and data: "data = md_fixed magic n d (md_duplicates metadata) key @ nullable_bytes (md_metadata_strings metadata) @ rest"
  defines "s \<equiv> md_metadata_strings metadata" and "o2 \<equiv> 101 + length (nullable_bytes (md_metadata_strings metadata))"
  shows "bindE (read_fixed_fields data) (\<lambda>(p1, o1). bindE (read_metadata_strings data p1 o1) k) =
      k (md_base key n metadata d, o2)"
    and "stands data o2 rest" "length data = o2 + length rest" "take 8 data = magic"
proof -
  have l: "length key = 71"
    using assms(1) by (simp add: md_key_ok_def)
  have st: "stands data 0 (md_fixed magic n d (md_duplicates metadata) key)" "stands data 101 (nullable_bytes s)"
    "stands data o2 rest"
    unfolding data using assms(2) l by (simp_all add: stands_def s_def o2_def)
  have len: "length s = 7"
    by (simp add: s_def md_metadata_strings_def split: option.splits)
  have "read_fixed_fields data = Inr (md_empty\<lparr>md_object_key := Some key, md_size_bytes := n,
      md_internal_date_unix_us := d, md_duplicate_message_id_count := md_duplicates metadata\<rparr>, 101)"
    using st(1) assms(2,1) by (rule read_fixed_fields_at)
  moreover have "read_metadata_strings data decoded 101 = Inr (decoded\<lparr>md_message_id := s ! 0, md_subject := s ! 1,
      md_from := s ! 2, md_to := s ! 3, md_cc := s ! 4, md_bcc := s ! 5, md_date := s ! 6\<rparr>, o2)" for decoded
    unfolding read_metadata_strings_Inr using st(2) len assms(3) by (intro exI [of _ s]) (simp add: s_def o2_def)
  ultimately show "bindE (read_fixed_fields data) (\<lambda>(p1, o1). bindE (read_metadata_strings data p1 o1) k) =
      k (md_base key n metadata d, o2)"
    by (simp add: md_base_def Let_def s_def)
  show "stands data o2 rest" by (rule st(3))
  show "length data = o2 + length rest" "take 8 data = magic"
    using l assms(2) by (simp_all add: data o2_def) (simp add: md_fixed_def)
qed

lemma md_payload_of_plain:
  assumes "\<not> metadata_has_span_provenance metadata"
  shows "md_payload_of key n metadata d identity rs =
    (if hd identity = None then md_base key n metadata d
     else md_base key n metadata d\<lparr>md_delivery_id := identity ! 0, md_queue_id := identity ! 1,
       md_account_identity := identity ! 2, md_envelope_sender := identity ! 3,
       md_recipients := Some (strv_items rs)\<rparr>)"
  unfolding md_payload_of_def Let_def using assms by (cases metadata) simp_all

lemma md_round:
  assumes wf: "md_args_wf metadata [di, q, a, e] rs"
    and enc: "md_encode_with_identity object_key n metadata d di q a e rs = Inr data"
  shows "md_decode data = Inr (md_payload_of (the object_key) n metadata d [di, q, a, e] rs)"
proof -
  let ?ids = "[di, q, a, e]" and ?strings = "md_metadata_strings metadata"
  obtain key where key: "object_key = Some key" "md_key_ok key"
    and fit: "list_all cstring_fits ?strings" "di \<noteq> None \<longrightarrow> list_all cstring_fits ?ids \<and> recipients_fit rs"
    and data: "data = md_raw key n metadata d ?ids rs"
    using enc by (auto simp: md_encode_iff)
  define spans where "spans = (if metadata_has_span_provenance metadata then md_span_fields metadata else [])"
  define ids where "ids = (if di = None then [] else md_identity_bytes ?ids rs)"
  define magic where "magic = (if metadata_has_span_provenance metadata then MD_MAGIC_V4
    else if di \<noteq> None then MD_MAGIC_V3 else MD_MAGIC_V2)"
  define o2 where "o2 = 101 + length (nullable_bytes ?strings)"
  have m8: "length magic = 8"
    by (simp add: magic_def)
  have ok: "list_all nullable_string_ok ?strings"
    using fits_ok wf fit(1) by (auto simp: md_args_wf_def)
  have "data = md_fixed magic n d (md_duplicates metadata) key @ nullable_bytes ?strings @ (spans @ ids)"
    by (simp add: data md_raw_def magic_def spans_def ids_def Let_def)
  note reads = md_prefix_reads [OF key(2) m8 ok this, folded o2_def]
  have idr: "read_identity data p (o2 + length spans) = Inr (p\<lparr>md_delivery_id := di, md_queue_id := q,
      md_account_identity := a, md_envelope_sender := e, md_recipients := Some (strv_items rs)\<rparr>, length data)"
    if "di \<noteq> None" for p
  proof -
    have s: "list_all nullable_string_ok ?ids" "list_all name_ok (strv_items rs)" "length (strv_items rs) \<le> G_MAXUINT32"
      using that wf fit fits_ok [of ?ids]
      by (auto simp: md_args_wf_def recipients_fit_def strv_wf_def name_ok_def list_all_iff)
    have ids: "ids = md_identity_bytes ?ids (Some (strv_items rs))"
      using that by (cases di) (simp_all add: ids_def md_identity_bytes_def write_strv_def strv_count_def)
    have "stands data (o2 + length spans) ids"
      using reads(2) by (simp add: stands_append)
    then show ?thesis
      using read_identity_at [of ?ids "strv_items rs" data "o2 + length spans" "length data" p] s that reads(3)
      unfolding ids by simp
  qed
  note dec_defs = decode_v2_payload_def decode_v3_payload_def decode_v4_payload_def
  show ?thesis
  proof (cases "metadata_has_span_provenance metadata")
    case False
    then have sp: "spans = []"
      by (simp add: spans_def)
    have out: "md_payload_of key n metadata d ?ids rs =
      (if di = None then md_base key n metadata d
       else md_base key n metadata d\<lparr>md_delivery_id := di, md_queue_id := q, md_account_identity := a,
         md_envelope_sender := e, md_recipients := Some (strv_items rs)\<rparr>)"
      using md_payload_of_plain [OF False] by simp
    show ?thesis
    proof (cases "di = None")
      case True
      then have "md_decode data = decode_v2_payload data" "length data = o2"
        using False reads(3,4) sp by (simp_all add: md_decode_def magic_def o2_def ids_def)
      then show ?thesis
        unfolding dec_defs reads(1) using True key out by simp
    next
      case di: False
      then have "md_decode data = decode_v3_payload data"
        using False reads(3,4) by (simp add: md_decode_def magic_def o2_def)
      then show ?thesis
        unfolding dec_defs reads(1) using di key out idr [OF di] sp by (cases di) simp_all
    qed
  next
    case True
    then obtain m where m: "metadata = Some m"
      by (auto simp: metadata_has_span_provenance_def split: option.splits)
    have dec: "md_decode data = decode_v4_payload data" and sp: "length spans = 40"
      using True reads(3,4) by (simp_all add: md_decode_def magic_def o2_def spans_def)
    have "stands data o2 (md_span_fields (Some m))"
      using reads(2) True m by (simp add: stands_append spans_def)
    note f = md_span_fields_stands [OF this]
    show ?thesis
    proof (cases "di = None")
      case none: True
      then have "length data = o2 + 40"
        using reads(3) sp by (simp add: ids_def)
      then show ?thesis
        unfolding dec dec_defs reads(1) using none True key f m
        by (simp add: md_payload_of_def Let_def)
    next
      case di: False
      then have "0 < length ids"
        by (cases di) (auto simp: ids_def md_identity_bytes_def)
      then have "o2 + 40 < length data"
        using reads(3) sp by simp
      then show ?thesis
        unfolding dec dec_defs reads(1) using di True key f m idr [OF di] sp
        by (cases di) (simp_all add: md_payload_of_def Let_def)
    qed
  qed
qed

section \<open>Errors\<close>

lemma raises_md_sizes [raises_simps]:
  "raises (io_errors IO_INVALID_ARGUMENT) (checked_add_encoded_string_len n v)"
  "raises (io_errors IO_INVALID_ARGUMENT) (checked_add_encoded_string_lens n vs)"
  "raises (io_errors IO_INVALID_ARGUMENT) (checked_add_encoded_strv_len n values)"
proof -
  show s: "raises (io_errors IO_INVALID_ARGUMENT) (checked_add_encoded_string_len n v)" for n v
    by (simp add: checked_add_encoded_string_len_def raises_simps split: option.splits)
  show "raises (io_errors IO_INVALID_ARGUMENT) (checked_add_encoded_string_lens n vs)"
    by (induction vs arbitrary: n) (simp_all add: raises_simps s)
  have "raises (io_errors IO_INVALID_ARGUMENT) (checked_add_strv_from i n vs)" for i vs n
    by (induction vs arbitrary: i n) (simp_all add: raises_simps s)
  then show "raises (io_errors IO_INVALID_ARGUMENT) (checked_add_encoded_strv_len n values)"
    by (simp add: checked_add_encoded_strv_len_def raises_simps)
qed

lemma raises_put [raises_simps]:
  "cstring_fits v \<Longrightarrow> raises E (put_nullable_string v)"
  "list_all cstring_fits vs \<Longrightarrow> raises E (put_nullable_strings vs)"
  "recipients_fit rs \<Longrightarrow> raises E (put_strv rs)"
proof -
  show "cstring_fits v \<Longrightarrow> raises E (put_nullable_string v)"
    by (cases v) (simp_all add: raises_simps)
  show "list_all cstring_fits vs \<Longrightarrow> raises E (put_nullable_strings vs)" for vs
    using put_nullable_strings_Inr [of vs "nullable_bytes vs"] by (auto simp: raises_def)
  show "recipients_fit rs \<Longrightarrow> raises E (put_strv rs)"
    using put_strv_Inr [of rs "write_strv rs"] by (auto simp: raises_def recipients_fit_def)
qed

lemma raises_md_decode: "raises (io_errors IO_INVALID_DATA) (md_decode data)"
proof -
  have "raises (io_errors IO_INVALID_DATA) (validate_object_key (Some key) IO_INVALID_DATA)" for key
    by (simp add: validate_object_key_def raises_simps)
  moreover have "raises (io_errors IO_INVALID_DATA) (md_read_strv data off)" for off
    by (simp add: md_read_strv_def raises_simps)
  ultimately show ?thesis
    by (simp add: md_decode_def decode_v1_payload_def decode_v2_payload_def decode_v3_payload_def
        decode_v4_payload_def read_fixed_fields_def read_metadata_strings_def read_identity_def Let_def raises_simps)
qed

lemma raises_md_payload_len [raises_simps]:
  "raises (io_errors IO_INVALID_ARGUMENT) (md_payload_len span ident key metadata identity rs)"
  by (simp add: md_payload_len_def Let_def raises_simps)

lemma raises_md_encode:
  "raises (io_errors IO_INVALID_ARGUMENT) (md_encode_with_identity object_key n metadata d di q a e rs)"
proof (cases "\<exists>key. object_key = Some key \<and> md_key_ok key")
  case False
  then have "\<nexists>u. validate_object_key object_key IO_INVALID_ARGUMENT = Inr u"
    by (simp add: validate_object_key_Inr)
  moreover have "raises (io_errors IO_INVALID_ARGUMENT) (validate_object_key object_key IO_INVALID_ARGUMENT)"
    by (simp add: validate_object_key_def raises_simps split: option.splits)
  ultimately show ?thesis
    by (simp add: md_encode_with_identity_def raises_simps)
next
  case True
  then obtain key where key: "object_key = Some key" "md_key_ok key" "length key = 71"
    by (auto simp: md_key_ok_def)
  then have v: "validate_object_key (Some key) IO_INVALID_ARGUMENT = Inr ()"
    by (simp add: validate_object_key_Inr)
  show ?thesis
    using key
    by (auto simp: md_encode_with_identity_def v raises_simps result_simps Let_def md_payload_len_Inr
        md_identity_bytes_def)
qed

end
