(* ===== verification/Payload_Properties.thy ===== *)
theory Payload_Properties
  imports Flag_Changed Memberships_Expunged Memberships_Copied Derived_View_Changed Message_Appended
    Message_Delivered Journal_Event
begin

text \<open>
  The properties of the payload codecs, each over the encoder and the decoder of its event, and
  the concrete payloads that instantiate them. A decoder accepts exactly what its encoder
  writes: the formats are canonical, which is what lets a journal be compared byte by byte.
\<close>

section \<open>Concrete payloads\<close>

definition sample_key :: bytes where
  "sample_key = lit ''sha256:'' @ replicate 64 97"

definition fc_sample :: flag_changed_payload where
  "fc_sample = \<lparr>fc_account_id = Some [97], fc_mailbox_id = Some [109], fc_uidvalidity = 7, fc_uid = 258,
     fc_mode = FLAG_MODE_SET, fc_system_flags = Some [lit ([CHR 0x5C] @ ''Seen'')], fc_user_keywords = None\<rparr>"

definition me_sample :: memberships_expunged_payload where
  "me_sample = \<lparr>me_account_id = Some [97], me_mailbox_id = Some [109], me_uidvalidity = 7,
     me_uids = Some [3, 258]\<rparr>"

definition dv_sample :: derived_view_payload where
  "dv_sample = \<lparr>dv_account_id = Some [97], dv_view_id = Some [118], dv_message_id = Some [109],
     dv_membership_id = Some [115], dv_rule_version_hash = Some [114], dv_uid = 5, dv_uidvalidity = 7,
     dv_is_visible = True, dv_materialized_at_unix_us = 9\<rparr>"

definition mc_sample :: memberships_copied_payload where
  "mc_sample = \<lparr>mc_account_id = Some [97], mc_source_mailbox_id = Some [109], mc_dest_mailbox_id = Some [110],
     mc_source_uidvalidity = 7, mc_dest_uidvalidity = 8,
     mc_items = Some [\<lparr>ci_src_uid = 3, ci_dst_uid = 4, ci_internal_date_unix_us = 0, ci_message_id = Some [120],
       ci_system_flags = None, ci_user_keywords = Some [[107], [108]]\<rparr>]\<rparr>"

definition ma_sample :: message_appended_payload where
  "ma_sample = \<lparr>ma_account_id = Some [97], ma_mailbox_id = Some [109], ma_uidvalidity = 7, ma_uid = 3,
     ma_object_key = Some sample_key, ma_size_bytes = 12, ma_internal_date_unix_us = 0, ma_message_id = Some [60],
     ma_subject = None, ma_from = Some [], ma_to = None, ma_cc = None, ma_bcc = None, ma_date = None,
     ma_duplicate_message_id_count = 0, ma_message_id_span_valid = True, ma_message_id_span_start = 2,
     ma_message_id_span_end = 9, ma_subject_span_valid = False, ma_subject_span_start = 0,
     ma_subject_span_end = 0, ma_system_flags = None, ma_user_keywords = Some [[107]]\<rparr>"

definition em_sample :: eml_metadata where
  "em_sample = \<lparr>em_message_id = Some [60], em_message_id_span_valid = True, em_message_id_span_start = 2,
     em_message_id_span_end = 9, em_subject = None, em_from = Some [102], em_to = None, em_cc = None, em_bcc = None,
     em_date = None, em_in_reply_to = None, em_references = None, em_list_id = None, em_delivered_to = None,
     em_x_original_to = None, em_subject_span_valid = False, em_subject_span_start = 0, em_subject_span_end = 0,
     em_size_bytes = 12, em_duplicate_message_id_count = 1\<rparr>"

lemma length_sample_key [simp]: "length sample_key = 71"
  by (simp add: sample_key_def)

lemma sample_key_ok [simp]: "is_sha256_object_key (Some sample_key)" "md_key_ok sample_key"
  by (simp_all add: is_sha256_object_key_def sample_key_def md_key_ok_def list_all_iff
      g_ascii_isxdigit_def g_ascii_isdigit_def g_ascii_isupper_def is_lowercase_hex_def)

lemma nul_free_sample_key [simp]: "nul_free sample_key"
  by (rule md_key_nul_free) simp

lemmas keyword_defs = is_user_keyword_def g_ascii_iscntrl_def g_ascii_isspace_def

lemma fc_sample_ok:
  "fc_valid fc_sample" "fc_fits fc_sample" "fc_wf fc_sample" "fc_canon fc_sample = fc_sample"
  "length (fc_raw fc_sample) \<le> G_MAXSIZE"
  unfolding length_fc_raw
  by (simp_all add: fc_sample_def fc_valid_def fc_fits_def fc_wf_def fc_canon_def strv_canon_def strv_wf_def
      strv_count_def nul_free_def is_system_flag_iff system_flag_names_def lit_def)

lemma me_sample_ok:
  "me_valid me_sample" "me_fits me_sample" "me_wf me_sample" "length (me_raw me_sample) \<le> G_MAXSIZE"
  unfolding length_me_raw
  by (simp_all add: me_sample_def me_valid_def me_fits_def me_wf_def nul_free_def)

lemma dv_sample_ok:
  "dv_valid dv_sample" "dv_fits dv_sample" "dv_wf dv_sample" "length (dv_raw dv_sample) \<le> G_MAXSIZE"
  unfolding length_dv_raw
  by (simp_all add: dv_sample_def dv_valid_def dv_fits_def dv_wf_def dv_strings_def nul_free_def)

lemma mc_sample_ok:
  "mc_valid mc_sample" "mc_wf mc_sample" "mc_canon mc_sample = mc_sample" "length (mc_raw mc_sample) \<le> G_MAXUINT32"
  by (simp_all add: mc_sample_def mc_valid_def mc_wf_def mc_canon_def mc_raw_def item_valid_def item_wf_def
      item_canon_def strv_canon_def strv_wf_def write_item_def nul_free_def keyword_defs)

lemma ma_sample_ok:
  "ma_valid ma_sample" "ma_wf ma_sample" "ma_canon ma_sample = ma_sample"
  "length (ma_header ma_sample @ ma_body ma_sample) \<le> G_MAXUINT32"
  by (simp_all add: ma_sample_def ma_valid_def ma_wf_def ma_canon_def ma_body_def ma_strings_def span_ok_def
      strv_canon_def strv_wf_def keyword_defs nul_free_sample_key [unfolded nul_free_def] nul_free_def)

section \<open>Properties\<close>

text \<open>
  C17. Five payload formats have one encoding. A byte string (of any size that can be in memory)
  decodes to a FlagChanged, MembershipsExpunged or DerivedViewMembershipChanged payload, and one
  of at most 4 GiB to a MembershipsCopied payload, for COPY and MOVE alike, or a MessageAppended
  payload, if and only if it is what the encoder writes for that payload, its strings have no
  zero byte and its empty vectors are NULL.
\<close>

theorem payload_codecs_exact:
  "(length data \<le> G_MAXSIZE \<longrightarrow>
     (fc_decode data = Inr p \<longleftrightarrow> fc_wf p \<and> fc_canon p = p \<and> fc_encode (Some p) = Inr data) \<and>
     (me_decode data = Inr q \<longleftrightarrow> me_wf q \<and> me_encode (Some q) = Inr data) \<and>
     (dv_decode data = Inr r \<longleftrightarrow> dv_wf r \<and> dv_encode (Some r) = Inr data)) \<and>
   (length data \<le> G_MAXUINT32 \<longrightarrow>
     (mc_decode data = Inr m \<longleftrightarrow> mc_wf m \<and> mc_canon m = m \<and> mc_encode (Some m) = Inr data) \<and>
     (ma_decode data = Inr n \<longleftrightarrow> ma_wf n \<and> ma_canon n = n \<and> ma_encode (Some n) = Inr data))"
  using fc_codec.decode_iff_encode [of data p] me_codec.decode_iff_encode [of data q]
    dv_codec.decode_iff_encode [of data r] mc_codec.decode_iff_encode [of data m] ma_codec.decode_iff_encode [of data n]
  by simp

theorem payload_codecs_exact_run:
  "fc_decode (fc_raw fc_sample) = Inr fc_sample \<and> me_decode (me_raw me_sample) = Inr me_sample \<and>
   dv_decode (dv_raw dv_sample) = Inr dv_sample \<and> mc_decode (mc_raw mc_sample) = Inr mc_sample \<and>
   ma_decode (ma_header ma_sample @ ma_body ma_sample) = Inr ma_sample"
  using payload_codecs_exact [of "fc_raw fc_sample" fc_sample] payload_codecs_exact [of "me_raw me_sample" _ me_sample]
    payload_codecs_exact [of "dv_raw dv_sample" _ _ dv_sample] payload_codecs_exact [of "mc_raw mc_sample" _ _ _ mc_sample]
    payload_codecs_exact [of "ma_header ma_sample @ ma_body ma_sample" _ _ _ _ ma_sample]
    fc_sample_ok me_sample_ok dv_sample_ok mc_sample_ok ma_sample_ok
  by (simp add: fc_encode_iff me_encode_iff dv_encode_iff mc_encode_iff ma_encode_iff)

text \<open>
  Neither end of the MembershipsExpunged codec lets an unordered list of UIDs through: what
  is encoded and what is decoded has at least one UID, none of them zero, strictly ascending.
\<close>

lemma expunged_uids_ascending:
  assumes "me_decode data = Inr p \<or> me_encode (Some p) = Inr data"
  shows "\<exists>uids. me_uids p = Some uids \<and> uids \<noteq> [] \<and> 0 \<notin> set uids \<and> sorted_wrt (<) uids"
  using assms by (auto simp: me_decode_iff me_encode_iff me_valid_def)

text \<open>
  C18. MessageDelivered round trip through all versions: whatever version the encoder picks, the
  decoder returns the arguments it was given: the object key, the sizes and dates, the seven
  header values, the spans when one of them is valid, and the delivery identity with its
  recipients when there is a delivery id.
\<close>

theorem message_delivered_round_trip:
  assumes "md_args_wf metadata [delivery_id, queue_id, account, sender] recipients"
    and "md_encode_with_identity object_key size_bytes metadata date delivery_id queue_id account sender recipients
         = Inr data"
  shows "md_decode data =
    Inr (md_payload_of (the object_key) size_bytes metadata date [delivery_id, queue_id, account, sender] recipients)"
  using assms by (rule md_round)

theorem message_delivered_round_trip_run:
  "\<exists>data. md_encode_with_identity (Some sample_key) 12 (Some em_sample) 5 (Some [100]) None (Some [97]) None (Some [[114]])
       = Inr data \<and>
     md_decode data = Inr (md_payload_of (the (Some sample_key)) 12 (Some em_sample) 5 [Some [100], None, Some [97], None]
       (Some [[114]]))"
proof -
  let ?raw = "md_raw sample_key 12 (Some em_sample) 5 [Some [100], None, Some [97], None] (Some [[114]])"
  have wf: "md_args_wf (Some em_sample) [Some [100], None, Some [97], None] (Some [[114]])"
    by (simp add: md_args_wf_def md_metadata_strings_def em_sample_def nul_free_def strv_wf_def)
  have str: "list_all cstring_fits (md_metadata_strings (Some em_sample))"
    by (simp add: md_metadata_strings_def em_sample_def)
  have len: "length ?raw \<le> G_MAXSIZE"
    unfolding length_md_raw [OF length_sample_key]
    by (simp add: md_metadata_strings_def em_sample_def md_identity_bytes_def)
  have enc: "md_encode_with_identity (Some sample_key) 12 (Some em_sample) 5 (Some [100]) None (Some [97]) None
      (Some [[114]]) = Inr ?raw"
    using len str by (simp add: md_encode_iff recipients_fit_def)
  from message_delivered_round_trip [OF wf enc] enc show ?thesis by blast
qed

text \<open>Which of the six decoders accept a byte string.\<close>

fun accepted :: "'a result \<Rightarrow> bool" where
  "accepted (Inl e) = False"
| "accepted (Inr x) = True"

lemma accepted_iff: "accepted m \<longleftrightarrow> (\<exists>x. m = Inr x)"
  by (cases m) auto

definition accepted_by :: "bytes \<Rightarrow> bool list" where
  "accepted_by data =
     [accepted (md_decode data), accepted (ma_decode data), accepted (fc_decode data), accepted (me_decode data), accepted (mc_decode data),
      accepted (dv_decode data)]"

lemma payload_magics:
  "md_decode data = Inr p1 \<Longrightarrow> take 8 data \<in> {MD_MAGIC_V1, MD_MAGIC_V2, MD_MAGIC_V3, MD_MAGIC_V4}"
  "ma_decode data = Inr p2 \<Longrightarrow> take 8 data = MESSAGE_APPENDED_MAGIC"
  "fc_decode data = Inr p3 \<Longrightarrow> take 8 data = FLAG_CHANGED_MAGIC"
  "me_decode data = Inr p4 \<Longrightarrow> take 8 data = EXPUNGED_MAGIC"
  "mc_decode data = Inr p5 \<Longrightarrow> take 8 data = COPIED_MAGIC"
  "dv_decode data = Inr p6 \<Longrightarrow> take 8 data = DERIVED_VIEW_MAGIC"
  by (auto simp: md_decode_def ma_decode_def fc_decode_def me_decode_def mc_decode_def dv_decode_def split: if_splits)

text \<open>
  C19. A payload is never taken for one of another event: at most one of the six decoders accepts
  a given byte string.
\<close>

theorem payloads_not_confused: "length (filter id (accepted_by data)) \<le> 1"
proof -
  let ?magic = "\<lambda>m. take 8 data = lit m"
  have kinds: "accepted (md_decode data) \<Longrightarrow>
      ?magic ''WYREMDP1'' \<or> ?magic ''WYREMDP2'' \<or> ?magic ''WYREMDP3'' \<or> ?magic ''WYREMDP4''"
    "accepted (ma_decode data) \<Longrightarrow> ?magic ''WYREMAP1''" "accepted (fc_decode data) \<Longrightarrow> ?magic ''WYREFLC1''"
    "accepted (me_decode data) \<Longrightarrow> ?magic ''WYREMEX1''" "accepted (mc_decode data) \<Longrightarrow> ?magic ''WYREMCP1''"
    "accepted (dv_decode data) \<Longrightarrow> ?magic ''WYREDVC1''"
    using payload_magics [of data]
    by (auto simp: accepted_iff MD_MAGIC_V1_def MD_MAGIC_V2_def MD_MAGIC_V3_def MD_MAGIC_V4_def
        MESSAGE_APPENDED_MAGIC_def FLAG_CHANGED_MAGIC_def EXPUNGED_MAGIC_def COPIED_MAGIC_def DERIVED_VIEW_MAGIC_def)
  show ?thesis
    unfolding accepted_by_def
    by (cases "accepted (md_decode data)"; cases "accepted (ma_decode data)"; cases "accepted (fc_decode data)";
        cases "accepted (me_decode data)"; cases "accepted (mc_decode data)"; cases "accepted (dv_decode data)")
      (use kinds in auto)
qed

text \<open>
  C20. Bad bytes are reported as such: every decoder fails only with
  \<^verbatim>\<open>G_IO_ERROR_INVALID_DATA\<close>, whatever bytes it is given.
\<close>

theorem decoders_report_invalid_data:
  "raises (io_errors IO_INVALID_DATA) (md_decode data) \<and> raises (io_errors IO_INVALID_DATA) (ma_decode data) \<and>
   raises (io_errors IO_INVALID_DATA) (fc_decode data) \<and> raises (io_errors IO_INVALID_DATA) (me_decode data) \<and>
   raises (io_errors IO_INVALID_DATA) (mc_decode data) \<and> raises (io_errors IO_INVALID_DATA) (dv_decode data)"
  by (intro conjI raises_md_decode raises_ma_decode raises_fc_decode raises_me_decode raises_mc_decode
      raises_dv_decode)

text \<open>
  The encoders that compute the size first fill the buffer exactly: their final assertion
  and the assertions of their write functions never fail, and they fail only with
  \<^verbatim>\<open>G_IO_ERROR_INVALID_ARGUMENT\<close>.
\<close>

lemma sized_encoders_never_abort:
  "raises (io_errors IO_INVALID_ARGUMENT)
     (md_encode_with_identity object_key n metadata d delivery_id queue_id account sender recipients) \<and>
   raises (io_errors IO_INVALID_ARGUMENT) (fc_encode p) \<and> raises (io_errors IO_INVALID_ARGUMENT) (me_encode q) \<and>
   raises (io_errors IO_INVALID_ARGUMENT) (dv_encode r)"
  by (intro conjI raises_md_encode raises_fc_encode raises_me_encode raises_dv_encode)

text \<open>
  C21. The encoders that build the payload in a \<^verbatim>\<open>GByteArray\<close> end the process only when the
  payload would be longer than 4 GiB; below that, every valid payload is encoded.
\<close>

theorem growing_encoders_abort_bound:
  "(mc_encode (Some p) = Inl Abort \<longrightarrow> length (mc_raw p) > G_MAXUINT32) \<and>
   (mc_valid p \<and> length (mc_raw p) \<le> G_MAXUINT32 \<longrightarrow> mc_encode (Some p) = Inr (mc_raw p)) \<and>
   (ma_encode (Some q) = Inl Abort \<longrightarrow> length (ma_header q @ ma_body q) > G_MAXUINT32) \<and>
   (ma_valid q \<and> length (ma_header q @ ma_body q) \<le> G_MAXUINT32 \<longrightarrow>
      ma_encode (Some q) = Inr (ma_header q @ ma_body q))"
  using raises_mc_encode [of p] raises_ma_encode [of q]
  by (auto simp: raises_def append_errors_def mc_encode_iff ma_encode_iff split: if_splits)

theorem growing_encoders_abort_bound_run:
  "mc_encode (Some mc_sample) = Inr (mc_raw mc_sample) \<and>
   ma_encode (Some ma_sample) = Inr (ma_header ma_sample @ ma_body ma_sample)"
  using growing_encoders_abort_bound [of mc_sample ma_sample] mc_sample_ok ma_sample_ok by blast

text \<open>
  The reader's parser of event names inverts the writer's table: a name parses to an event
  type exactly when it is the name written for that type, and a number that is not an event
  type has no name.
\<close>

lemma event_names_parse:
  "(parse_event_type name = Some t \<longleftrightarrow> event_type_to_string t = Some name) \<and>
   (event_type_to_string t = None \<longleftrightarrow> \<not> validate_event_type t)"
  by (simp add: parse_event_type_iff event_type_to_string_def)

end
