(* ===== verification/Text_Format.thy ===== *)
theory Text_Format
  imports Prelude "HOL-Library.List_Lexorder"
begin

text \<open>
  Text that the code builds and compares: decimal numbers as \<^verbatim>\<open>printf\<close> writes them,
  length-prefixed components of the hash table keys, and \<^verbatim>\<open>strcmp\<close>.
\<close>

section \<open>Decimal numbers\<close>

fun print_nat :: "nat \<Rightarrow> bytes" where
  "print_nat n = (if n < 10 then [of_nat (48 + n)] else print_nat (n div 10) @ [of_nat (48 + n mod 10)])"

declare print_nat.simps [simp del]

text \<open>A field of at least \<open>w\<close> digits, as \<^verbatim>\<open>%020u\<close> asks for.\<close>

definition print_padded :: "nat \<Rightarrow> nat \<Rightarrow> bytes" where
  "print_padded w n = replicate (w - length (print_nat n)) 48 @ print_nat n"

definition digits_value :: "bytes \<Rightarrow> nat" where
  "digits_value ds = foldl (\<lambda>a d. 10 * a + (unat d - 48)) 0 ds"

lemma unat_digit: "d < 10 \<Longrightarrow> unat (of_nat (48 + d) :: byte) = 48 + d"
  by (simp only: unat_of_nat) (simp add: take_bit_eq_mod)

lemma is_digit_of_nat [simp]: "d < 10 \<Longrightarrow> g_ascii_isdigit (of_nat (48 + d))"
  unfolding g_ascii_isdigit_def word_le_nat_alt using unat_digit [of d] by simp

lemma digits_value_snoc: "digits_value (ds @ [d]) = 10 * digits_value ds + (unat d - 48)"
  by (simp add: digits_value_def)

lemma print_nat_value [simp]: "digits_value (print_nat n) = n"
proof (induction n rule: print_nat.induct)
  case (1 n)
  show ?case
  proof (cases "n < 10")
    case True
    then show ?thesis
      using unat_digit [of n] by (subst print_nat.simps) (simp add: digits_value_def)
  next
    case False
    have "unat (of_nat (48 + n mod 10) :: byte) = 48 + n mod 10"
      by (rule unat_digit) simp
    then have "digits_value (print_nat n) = 10 * (n div 10) + n mod 10"
      using 1 False by (subst print_nat.simps) (simp add: digits_value_snoc)
    then show ?thesis by simp
  qed
qed

lemma print_nat_digits: "list_all g_ascii_isdigit (print_nat n)"
proof (induction n rule: print_nat.induct)
  case (1 n)
  then show ?case
    using is_digit_of_nat [of n] is_digit_of_nat [of "n mod 10"] by (subst print_nat.simps) simp
qed

lemma print_nat_inj: "print_nat m = print_nat n \<longleftrightarrow> m = n"
  by (metis print_nat_value)

lemma print_nat_nonempty [simp]: "print_nat n \<noteq> []"
  by (subst print_nat.simps) simp

lemma length_print_nat: "n < 10 ^ k \<Longrightarrow> 0 < k \<Longrightarrow> length (print_nat n) \<le> k"
proof (induction n arbitrary: k rule: print_nat.induct)
  case (1 n)
  show ?case
  proof (cases "n < 10")
    case True
    then show ?thesis
      using 1 by (subst print_nat.simps) simp
  next
    case False
    with 1 obtain j where k: "k = Suc j" "0 < j"
      by (cases k; cases "k - 1") auto
    have "n div 10 < 10 ^ j"
      using 1 k by (simp add: less_mult_imp_div_less mult.commute)
    with 1 False k show ?thesis
      by (subst print_nat.simps) simp
  qed
qed

lemma length_print_padded: "n < 10 ^ w \<Longrightarrow> 0 < w \<Longrightarrow> length (print_padded w n) = w"
  using length_print_nat [of n w] by (simp add: print_padded_def)

lemma digits_value_zeros: "digits_value (replicate k 48 @ ds) = digits_value ds"
proof -
  have "foldl (\<lambda>a d. 10 * a + (unat d - 48)) 0 (replicate k (48 :: byte)) = 0"
    by (induction k) simp_all
  then show ?thesis
    by (simp add: digits_value_def)
qed

lemma print_padded_value [simp]: "digits_value (print_padded w n) = n"
  by (simp add: print_padded_def digits_value_zeros)

lemma print_padded_digits: "list_all g_ascii_isdigit (print_padded w n)"
  using print_nat_digits [of n] by (auto simp: print_padded_def list_all_iff g_ascii_isdigit_def)

section \<open>Components with a length prefix\<close>

text \<open>\<^verbatim>\<open>"%zu:%s"\<close>\<close>

definition component :: "bytes \<Rightarrow> bytes" where
  "component v = print_nat (length v) @ [58] @ v"

lemma component_nonempty [simp]: "component v \<noteq> []"
  by (simp add: component_def)

lemma digits_stop:
  assumes "list_all g_ascii_isdigit ds" "list_all g_ascii_isdigit es" "ds @ 58 # r = es @ 58 # s"
  shows "ds = es \<and> r = s"
proof -
  have "\<not> g_ascii_isdigit 58"
    by (simp add: g_ascii_isdigit_def)
  then have "takeWhile g_ascii_isdigit (ds @ 58 # r) = ds" "takeWhile g_ascii_isdigit (es @ 58 # s) = es"
    using assms(1,2) by (simp_all add: takeWhile_append2 list_all_iff)
  with assms(3) show ?thesis by auto
qed

lemma component_prefix_free: "component v @ r = component w @ s \<Longrightarrow> v = w \<and> r = s"
proof -
  assume "component v @ r = component w @ s"
  then have "print_nat (length v) @ 58 # (v @ r) = print_nat (length w) @ 58 # (w @ s)"
    by (simp add: component_def)
  from digits_stop [OF print_nat_digits print_nat_digits this]
  show "v = w \<and> r = s"
    by (auto simp: print_nat_inj)
qed

text \<open>A first byte that starts each component tells the components of different kinds apart.\<close>

lemma components_inj: "concat (map component vs) = concat (map component ws) \<Longrightarrow> vs = ws"
proof (induction vs arbitrary: ws)
  case Nil
  then show ?case by (cases ws) auto
next
  case (Cons v vs)
  then obtain w ws' where ws: "ws = w # ws'"
    by (cases ws) auto
  with Cons.prems component_prefix_free [of v "concat (map component vs)" w "concat (map component ws')"]
  show ?case
    using Cons.IH [of ws'] by auto
qed

section \<open>strcmp\<close>

fun strcmp :: "bytes \<Rightarrow> bytes \<Rightarrow> int" where
  "strcmp [] [] = 0"
| "strcmp [] (y # ys) = -1"
| "strcmp (x # xs) [] = 1"
| "strcmp (x # xs) (y # ys) = (if x = y then strcmp xs ys else if x < y then -1 else 1)"

lemma strcmp_zero [simp]: "strcmp xs ys = 0 \<longleftrightarrow> xs = ys"
  by (induction xs ys rule: strcmp.induct) auto

text \<open>The lexicographic order of the library; a comparison that agrees with an order.\<close>

definition compares :: "('a :: linorder) \<Rightarrow> 'a \<Rightarrow> int" where
  "compares x y = (if x = y then 0 else if x < y then -1 else 1)"

lemma compares_simps [simp]: "compares x y \<le> 0 \<longleftrightarrow> x \<le> y" "compares x y < 0 \<longleftrightarrow> x < y" "compares x y = 0 \<longleftrightarrow> x = y"
  by (auto simp: compares_def)

lemma strcmp_compares: "strcmp xs ys = compares xs ys"
  by (induction xs ys rule: strcmp.induct) (auto simp: compares_def)

lemma strcmp_append: "length xs = length ys \<Longrightarrow> xs \<noteq> ys \<Longrightarrow> strcmp (xs @ r) (ys @ s) = strcmp xs ys"
  by (induction xs ys rule: strcmp.induct) auto

text \<open>Numbers of one width compare as text the way they compare as numbers.\<close>

lemma digits_value_Cons: "digits_value (d # ds) = (unat d - 48) * 10 ^ length ds + digits_value ds"
proof -
  have "foldl (\<lambda>a d. 10 * a + (unat d - 48)) b ds = b * 10 ^ length ds + foldl (\<lambda>a d. 10 * a + (unat d - 48)) 0 ds"
    for b and ds :: bytes
  proof (induction ds arbitrary: b)
    case (Cons d ds)
    show ?case
      using Cons.IH [of "10 * b + (unat d - 48)"] Cons.IH [of "unat d - 48"] by (simp add: algebra_simps)
  qed simp
  from this [of "unat d - 48" ds] show ?thesis
    by (simp add: digits_value_def)
qed

lemma digits_value_bound: "list_all g_ascii_isdigit ds \<Longrightarrow> digits_value ds < 10 ^ length ds"
proof (induction ds)
  case (Cons d ds)
  then have "unat d - 48 \<le> 9"
    by (auto simp: g_ascii_isdigit_def word_le_nat_alt)
  then have "(unat d - 48) * 10 ^ length ds \<le> 9 * 10 ^ length ds"
    by (rule mult_le_mono1)
  moreover have "digits_value ds < 10 ^ length ds"
    using Cons by simp
  ultimately have "(unat d - 48) * 10 ^ length ds + digits_value ds < 10 * 10 ^ length ds"
    by linarith
  then show ?case
    by (simp add: digits_value_Cons)
qed (simp add: digits_value_def)

lemma strcmp_digits:
  "list_all g_ascii_isdigit ds \<Longrightarrow> list_all g_ascii_isdigit es \<Longrightarrow> length ds = length es \<Longrightarrow>
   strcmp ds es < 0 \<longleftrightarrow> digits_value ds < digits_value es"
proof (induction ds es rule: strcmp.induct)
  case (4 x xs y ys)
  let ?p = "10 ^ length xs :: nat"
  have b: "digits_value xs < ?p" "digits_value ys < ?p"
    using digits_value_bound [of xs] digits_value_bound [of ys] 4 by auto
  have xy: "48 \<le> unat x" "48 \<le> unat y"
    using 4 by (auto simp: g_ascii_isdigit_def word_le_nat_alt)
  have less: "(unat a - 48) * ?p + u < (unat b - 48) * ?p + w"
    if "unat a < unat b" "48 \<le> unat a" "u < ?p" for a b :: byte and u w :: nat
  proof -
    have "Suc (unat a - 48) * ?p \<le> (unat b - 48) * ?p"
      by (rule mult_le_mono1) (use that in simp)
    with that(3) show ?thesis by simp
  qed
  show ?case
  proof (cases "x = y")
    case True
    then show ?thesis
      using 4 by (simp add: digits_value_Cons)
  next
    case False
    then have ne: "unat x \<noteq> unat y"
      by (simp add: word_unat_eq_iff)
    show ?thesis
    proof (cases "unat x < unat y")
      case True
      then show ?thesis
        using False less [OF True xy(1) b(1)] 4 by (simp add: digits_value_Cons word_less_nat_alt)
    next
      case gt: False
      then have lt: "unat y < unat x"
        using ne by simp
      then show ?thesis
        using False gt less [OF lt xy(2) b(2), of "digits_value xs"] 4
        by (simp add: digits_value_Cons word_less_nat_alt)
    qed
  qed
qed (auto simp: digits_value_def)

end
