(* ===== verification/Fact_Record.thy ===== *)
theory Fact_Record
  imports Text_Format Payload_Common
begin

text \<open>
  \<^verbatim>\<open>src/wyrebox/facts/wyrebox-fact-record.c\<close>: a fact, its checks, its text in the
  Wirelog language and the name of the file a batch is dumped to.

  A \<^verbatim>\<open>GPtrArray\<close> of facts is a list of optional records, since an element may be
  NULL. The functions that only hand the text to a stream or a file are not modelled.
\<close>

section \<open>Records\<close>

record fact_record =
  fr_predicate :: cstring
  fr_args :: strv
  fr_source :: cstring
  fr_confidence_ppm :: u32
  fr_created_at :: u64
  fr_retracted_at :: u64

definition confidence_exact :: u32 where
  "confidence_exact = 1000000"

definition is_predicate_start :: "byte \<Rightarrow> bool" where
  "is_predicate_start c \<longleftrightarrow> g_ascii_islower c \<or> c = 95"

definition is_predicate_char :: "byte \<Rightarrow> bool" where
  "is_predicate_char c \<longleftrightarrow> g_ascii_isalnum c \<or> c = 95"

fun validate_predicate :: "cstring \<Rightarrow> unit result" where
  "validate_predicate None = Inl (GError IO_INVALID_ARGUMENT (Required ''predicate''))"
| "validate_predicate (Some []) = Inl (GError IO_INVALID_ARGUMENT (Required ''predicate''))"
| "validate_predicate (Some (c # cs)) =
     (if \<not> is_predicate_start c then Inl (GError IO_INVALID_ARGUMENT (Invalid_value ''predicate''))
      else failIf (\<not> list_all is_predicate_char cs) (GError IO_INVALID_ARGUMENT (Invalid_value ''predicate'')))"

fun validate_args :: "strv \<Rightarrow> unit result" where
  "validate_args None = Inl (GError IO_INVALID_ARGUMENT (Required ''args''))"
| "validate_args (Some args) = failIf ([] \<in> set args) (GError IO_INVALID_ARGUMENT (Required ''args''))"

definition validate_source :: "cstring \<Rightarrow> unit result" where
  "validate_source src = failIf (src = None \<or> src = Some []) (GError IO_INVALID_ARGUMENT (Required ''source''))"

definition fact_record_init ::
  "cstring \<Rightarrow> strv \<Rightarrow> cstring \<Rightarrow> u32 \<Rightarrow> u64 \<Rightarrow> fact_record result" where
  "fact_record_init predicate args src confidence_ppm created_at =
     bindE (validate_predicate predicate) (\<lambda>_.
     bindE (validate_args args) (\<lambda>_.
     bindE (validate_source src) (\<lambda>_.
       if confidence_ppm > confidence_exact then Inl (GError IO_INVALID_ARGUMENT (Invalid_value ''confidence''))
       else if created_at = 0 then Inl (GError IO_INVALID_ARGUMENT (Required ''created timestamp''))
       else Inr \<lparr>fr_predicate = predicate, fr_args = args, fr_source = src,
                 fr_confidence_ppm = confidence_ppm, fr_created_at = created_at, fr_retracted_at = 0\<rparr>)))"

definition fact_record_mark_retracted :: "fact_record \<Rightarrow> u64 \<Rightarrow> fact_record result" where
  "fact_record_mark_retracted r retracted_at =
     (if fr_created_at r = 0 then Inl (GError IO_INVALID_ARGUMENT (Not_initialized ''fact''))
      else if retracted_at < fr_created_at r then Inl (GError IO_INVALID_ARGUMENT Precedes_creation)
      else Inr (r\<lparr>fr_retracted_at := retracted_at\<rparr>))"

text \<open>What the checks let through.\<close>

definition predicate_ok :: "cstring \<Rightarrow> bool" where
  "predicate_ok p \<longleftrightarrow> (\<exists>c cs. p = Some (c # cs) \<and> is_predicate_start c \<and> list_all is_predicate_char cs)"

definition args_ok :: "strv \<Rightarrow> bool" where
  "args_ok a \<longleftrightarrow> (\<exists>args. a = Some args \<and> [] \<notin> set args)"

lemma is_predicate_start_char: "is_predicate_start c \<Longrightarrow> is_predicate_char c"
  by (auto simp: is_predicate_start_def is_predicate_char_def g_ascii_isalnum_def)

lemma validate_predicate_Inr [result_simps]: "validate_predicate p = Inr u \<longleftrightarrow> predicate_ok p"
  by (cases p rule: validate_predicate.cases) (auto simp: predicate_ok_def result_simps)

lemma validate_args_Inr [result_simps]: "validate_args a = Inr u \<longleftrightarrow> args_ok a"
  by (cases a rule: validate_args.cases) (auto simp: args_ok_def result_simps)

lemma validate_source_Inr [result_simps]: "validate_source s = Inr u \<longleftrightarrow> s \<noteq> None \<and> s \<noteq> Some []"
  by (simp add: validate_source_def result_simps)

lemma fact_record_init_Inr [result_simps]:
  "fact_record_init p a s conf created = Inr r \<longleftrightarrow>
     predicate_ok p \<and> args_ok a \<and> s \<noteq> None \<and> s \<noteq> Some [] \<and> conf \<le> confidence_exact \<and> created \<noteq> 0 \<and>
     r = \<lparr>fr_predicate = p, fr_args = a, fr_source = s, fr_confidence_ppm = conf,
          fr_created_at = created, fr_retracted_at = 0\<rparr>"
  by (auto simp: fact_record_init_def result_simps not_less)

lemma fact_record_mark_retracted_Inr [result_simps]:
  "fact_record_mark_retracted r at = Inr r' \<longleftrightarrow>
     fr_created_at r \<noteq> 0 \<and> fr_created_at r \<le> at \<and> r' = r\<lparr>fr_retracted_at := at\<rparr>"
  by (auto simp: fact_record_mark_retracted_def not_less)

text \<open>The facts that \<^verbatim>\<open>wyrebox_fact_record_init\<close> makes.\<close>

definition fact_wf :: "fact_record \<Rightarrow> bool" where
  "fact_wf r \<longleftrightarrow> predicate_ok (fr_predicate r) \<and> args_ok (fr_args r) \<and>
     fr_source r \<noteq> None \<and> fr_source r \<noteq> Some [] \<and>
     fr_confidence_ppm r \<le> confidence_exact \<and> fr_created_at r \<noteq> 0"

lemma fact_record_init_wf: "fact_record_init p a s conf created = Inr r \<Longrightarrow> fact_wf r \<and> fr_retracted_at r = 0"
  by (auto simp: fact_wf_def result_simps)

lemma fact_record_init_again:
  "fact_wf r \<Longrightarrow> fact_record_init (fr_predicate r) (fr_args r) (fr_source r) (fr_confidence_ppm r) (fr_created_at r) =
     Inr (r\<lparr>fr_retracted_at := 0\<rparr>)"
  by (simp add: result_simps fact_wf_def)

section \<open>Wirelog text\<close>

definition escape_char :: "byte \<Rightarrow> bytes" where
  "escape_char c =
     (if c = 92 then [92, 92]
      else if c = 34 then [92, 34]
      else if c = 10 then [92, 110]
      else if c = 13 then [92, 114]
      else if c = 9 then [92, 116]
      else [c])"

definition wirelog_escaped_string :: "bytes \<Rightarrow> bytes" where
  "wirelog_escaped_string value = [34] @ concat (map escape_char value) @ [34]"

fun append_wirelog_args :: "bytes \<Rightarrow> nat \<Rightarrow> bytes list \<Rightarrow> bytes" where
  "append_wirelog_args builder index [] = builder"
| "append_wirelog_args builder index (arg # args) =
     append_wirelog_args ((if index > 0 then builder @ lit '', '' else builder) @ wirelog_escaped_string arg)
       (index + 1) args"

definition fact_record_to_wirelog_fact :: "fact_record \<Rightarrow> bytes result" where
  "fact_record_to_wirelog_fact r =
     bindE (validate_predicate (fr_predicate r)) (\<lambda>_.
     bindE (validate_args (fr_args r)) (\<lambda>_.
       Inr (append_wirelog_args (the (fr_predicate r) @ lit ''('') 0 (strv_items (fr_args r)) @ lit '').'')))"

fun append_wirelog_facts :: "bytes \<Rightarrow> fact_record option list \<Rightarrow> bytes result" where
  "append_wirelog_facts builder [] = Inr builder"
| "append_wirelog_facts builder (None # rs) = Inl (GError IO_INVALID_ARGUMENT (Required ''fact record''))"
| "append_wirelog_facts builder (Some r # rs) =
     bindE (fact_record_to_wirelog_fact r) (\<lambda>line. append_wirelog_facts (builder @ line @ [10]) rs)"

definition fact_record_array_to_wirelog_facts :: "fact_record option list \<Rightarrow> bytes result" where
  "fact_record_array_to_wirelog_facts records = append_wirelog_facts [] records"

text \<open>What the text shows of a fact.\<close>

definition fact_atom :: "fact_record \<Rightarrow> bytes \<times> bytes list" where
  "fact_atom r = (the (fr_predicate r), strv_items (fr_args r))"

text \<open>The quoted form of a string can be told from what follows it.\<close>

lemma escape_char_inj: "escape_char c @ r = escape_char d @ s \<Longrightarrow> c = d \<and> r = s"
  by (auto simp: escape_char_def split: if_splits)

lemma escape_char_quote: "escape_char c @ r \<noteq> 34 # s"
  by (auto simp: escape_char_def)

lemma escaped_prefix_free:
  "concat (map escape_char v) @ 34 # r = concat (map escape_char w) @ 34 # s \<Longrightarrow> v = w \<and> r = s"
proof (induction v arbitrary: w)
  case Nil
  then show ?case
    using escape_char_quote [of _ _ r] by (cases w) (auto dest: sym)
next
  case (Cons c v)
  then obtain d w' where w: "w = d # w'"
    using escape_char_quote [of c _ s] by (cases w) auto
  with Cons.prems
  have "escape_char c @ (concat (map escape_char v) @ 34 # r) = escape_char d @ (concat (map escape_char w') @ 34 # s)"
    by simp
  from escape_char_inj [OF this] Cons.IH [of w'] w show ?case
    by auto
qed

lemma wirelog_string_prefix_free:
  "wirelog_escaped_string v @ r = wirelog_escaped_string w @ s \<Longrightarrow> v = w \<and> r = s"
  using escaped_prefix_free [of v r w s] by (simp add: wirelog_escaped_string_def)

text \<open>No control character that could end a line or a field gets through.\<close>

lemma escape_char_newline: "10 \<notin> set (escape_char c)"
  by (auto simp: escape_char_def)

lemma wirelog_string_newline: "10 \<notin> set (wirelog_escaped_string v)"
  using escape_char_newline by (auto simp: wirelog_escaped_string_def)

text \<open>The arguments with the separators in front.\<close>

definition later_args :: "bytes list \<Rightarrow> bytes" where
  "later_args args = concat (map (\<lambda>arg. [44, 32] @ wirelog_escaped_string arg) args)"

lemma lit_separators [simp]: "lit '', '' = [44, 32]" "lit ''('' = [40]" "lit '').'' = [41, 46]"
  by (simp_all add: lit_def of_char_def)

lemma append_wirelog_args_later:
  "index > 0 \<Longrightarrow> append_wirelog_args builder index args = builder @ later_args args"
  by (induction args arbitrary: builder index) (simp_all add: later_args_def)

lemma append_wirelog_args_first:
  "append_wirelog_args builder 0 args =
     (case args of [] \<Rightarrow> builder | a # as \<Rightarrow> builder @ wirelog_escaped_string a @ later_args as)"
  by (cases args) (simp_all add: append_wirelog_args_later)

lemma later_args_prefix_free: "later_args v @ 41 # r = later_args w @ 41 # s \<Longrightarrow> v = w \<and> r = s"
proof (induction v arbitrary: w)
  case Nil
  then show ?case by (cases w) (auto simp: later_args_def)
next
  case (Cons a v)
  then obtain b w' where w: "w = b # w'"
    by (cases w) (auto simp: later_args_def)
  with Cons.prems
  have "wirelog_escaped_string a @ (later_args v @ 41 # r) = wirelog_escaped_string b @ (later_args w' @ 41 # s)"
    by (simp add: later_args_def)
  from wirelog_string_prefix_free [OF this] Cons.IH [of w'] w show ?case
    by auto
qed

definition args_text :: "bytes list \<Rightarrow> bytes" where
  "args_text args = append_wirelog_args [] 0 args"

lemma args_text_simps [simp]:
  "args_text [] = []" "args_text (a # as) = wirelog_escaped_string a @ later_args as"
  by (simp_all add: args_text_def append_wirelog_args_first append_wirelog_args_later)

lemma args_text_prefix_free: "args_text v @ 41 # r = args_text w @ 41 # s \<Longrightarrow> v = w \<and> r = s"
proof -
  assume h: "args_text v @ 41 # r = args_text w @ 41 # s"
  show ?thesis
  proof (cases v)
    case Nil
    with h show ?thesis
      by (cases w) (auto simp: wirelog_escaped_string_def)
  next
    case (Cons a v')
    with h obtain b w' where w: "w = b # w'"
      by (cases w) (auto simp: wirelog_escaped_string_def)
    with h Cons
    have "wirelog_escaped_string a @ (later_args v' @ 41 # r) = wirelog_escaped_string b @ (later_args w' @ 41 # s)"
      by simp
    from wirelog_string_prefix_free [OF this] later_args_prefix_free [of v' r w' s] Cons w show ?thesis
      by auto
  qed
qed

lemma fact_line_Inr [result_simps]:
  "fact_record_to_wirelog_fact r = Inr t \<longleftrightarrow>
     predicate_ok (fr_predicate r) \<and> args_ok (fr_args r) \<and>
     t = the (fr_predicate r) @ 40 # args_text (strv_items (fr_args r)) @ [41, 46]"
  by (auto simp: fact_record_to_wirelog_fact_def result_simps args_text_def append_wirelog_args_first
      split: list.split)

lemma predicate_ok_chars: "predicate_ok p \<Longrightarrow> p = Some v \<Longrightarrow> list_all is_predicate_char v"
  by (auto simp: predicate_ok_def is_predicate_start_char)

lemma predicate_stop:
  assumes "list_all is_predicate_char v" "list_all is_predicate_char w" "v @ 40 # r = w @ 40 # s"
  shows "v = w \<and> r = s"
proof -
  have "\<not> is_predicate_char 40"
    by (simp add: is_predicate_char_def g_ascii_isalnum_def g_ascii_isdigit_def g_ascii_isupper_def
        g_ascii_islower_def)
  then have "takeWhile is_predicate_char (v @ 40 # r) = v" "takeWhile is_predicate_char (w @ 40 # s) = w"
    using assms(1,2) by (simp_all add: takeWhile_append2 list_all_iff)
  with assms(3) show ?thesis by auto
qed

lemma fact_line_prefix_free:
  assumes "fact_record_to_wirelog_fact a = Inr t" "fact_record_to_wirelog_fact b = Inr u" "t @ r = u @ s"
  shows "fact_atom a = fact_atom b \<and> r = s"
proof -
  from assms(1,2) obtain p q where p: "fr_predicate a = Some p" "fr_predicate b = Some q"
    and chars: "list_all is_predicate_char p" "list_all is_predicate_char q"
    by (auto simp: result_simps predicate_ok_def is_predicate_start_char)
  have "p @ 40 # (args_text (strv_items (fr_args a)) @ 41 # 46 # r) =
      q @ 40 # (args_text (strv_items (fr_args b)) @ 41 # 46 # s)"
    using assms p by (simp add: result_simps)
  from predicate_stop [OF chars this]
    args_text_prefix_free [of "strv_items (fr_args a)" "46 # r" "strv_items (fr_args b)" "46 # s"] p
  show ?thesis
    by (auto simp: fact_atom_def)
qed

lemma append_wirelog_facts_builder:
  "append_wirelog_facts b rs = Inr t \<longleftrightarrow> (\<exists>u. append_wirelog_facts [] rs = Inr u \<and> t = b @ u)"
proof (induction rs arbitrary: b t)
  case (Cons r rs)
  show ?case
  proof (cases r)
    case (Some x)
    have "append_wirelog_facts b (r # rs) = Inr t \<longleftrightarrow>
        (\<exists>line u. fact_record_to_wirelog_fact x = Inr line \<and> append_wirelog_facts [] rs = Inr u \<and>
           t = (b @ line @ [10]) @ u)"
      using Some Cons.IH [of "b @ _ @ [10]"] by (auto simp: bindE_Inr_iff)
    also have "\<dots> \<longleftrightarrow> (\<exists>u. append_wirelog_facts [] (r # rs) = Inr u \<and> t = b @ u)"
      using Some Cons.IH [of "_ @ [10]"] by (auto simp: bindE_Inr_iff)
    finally show ?thesis .
  qed simp
qed auto

lemma append_wirelog_facts_Cons:
  "append_wirelog_facts [] (r # rs) = Inr t \<longleftrightarrow>
     (\<exists>x line u. r = Some x \<and> fact_record_to_wirelog_fact x = Inr line \<and>
        append_wirelog_facts [] rs = Inr u \<and> t = line @ 10 # u)"
proof (cases r)
  case (Some x)
  then show ?thesis
    using append_wirelog_facts_builder [of "_ @ [10]" rs t] by (auto simp: bindE_Inr_iff)
qed simp

lemma fact_lines_inj:
  "append_wirelog_facts [] rs = Inr t \<Longrightarrow> append_wirelog_facts [] qs = Inr t \<Longrightarrow>
     map (map_option fact_atom) rs = map (map_option fact_atom) qs"
proof (induction rs arbitrary: qs t)
  case Nil
  then show ?case
    by (cases qs) (simp_all add: append_wirelog_facts_Cons)
next
  case (Cons r rs)
  from Cons.prems(1) obtain x line u where r: "r = Some x" "fact_record_to_wirelog_fact x = Inr line"
    "append_wirelog_facts [] rs = Inr u" "t = line @ 10 # u"
    by (auto simp only: append_wirelog_facts_Cons)
  from Cons.prems(2) r(4) obtain q qs' where "qs = q # qs'"
    by (cases qs) auto
  with Cons.prems(2) obtain y line' u' where q: "qs = Some y # qs'" "fact_record_to_wirelog_fact y = Inr line'"
    "append_wirelog_facts [] qs' = Inr u'" "t = line' @ 10 # u'"
    by (auto simp only: append_wirelog_facts_Cons)
  from r(4) q(4) have "line @ 10 # u = line' @ 10 # u'"
    by simp
  from fact_line_prefix_free [OF r(2) q(2) this] have "fact_atom x = fact_atom y" "u = u'"
    by auto
  with Cons.IH [of u qs'] r q show ?case
    by auto
qed

lemma fact_line_newline: "fact_record_to_wirelog_fact r = Inr t \<Longrightarrow> 10 \<notin> set t"
proof -
  assume t: "fact_record_to_wirelog_fact r = Inr t"
  have "10 \<notin> set (later_args as)" for as
    using wirelog_string_newline by (auto simp: later_args_def)
  then have "10 \<notin> set (args_text as)" for as
    using wirelog_string_newline by (cases as) auto
  moreover have "\<not> is_predicate_char 10"
    by (simp add: is_predicate_char_def g_ascii_isalnum_def g_ascii_isdigit_def g_ascii_isupper_def
        g_ascii_islower_def)
  ultimately show "10 \<notin> set t"
    using t predicate_ok_chars [of "fr_predicate r"]
    by (auto simp: result_simps predicate_ok_def list_all_iff is_predicate_start_char)
qed

lemma fact_lines_count: "append_wirelog_facts [] rs = Inr t \<Longrightarrow> count_list t 10 = length rs"
proof (induction rs arbitrary: t)
  case (Cons r rs)
  then show ?case
    using fact_line_newline by (auto simp: append_wirelog_facts_Cons simp del: append_wirelog_facts.simps)
qed simp

section \<open>Dump file names\<close>

abbreviation NAME_MAX :: nat where "NAME_MAX \<equiv> 255"

definition dump_filename_fixed_bytes :: nat where
  "dump_filename_fixed_bytes = 24"

definition is_dump_filename_char :: "byte \<Rightarrow> bool" where
  "is_dump_filename_char c \<longleftrightarrow> g_ascii_isalnum c \<or> c = 95 \<or> c = 45"

definition build_wirelog_dump_filename :: "cstring \<Rightarrow> u64 \<Rightarrow> bytes result" where
  "build_wirelog_dump_filename batch_id journal_sequence =
     (if batch_id = None \<or> batch_id = Some []
      then Inl (GError IO_INVALID_ARGUMENT (Required ''Wirelog dump batch id''))
      else let sanitized = map (\<lambda>c. if is_dump_filename_char c then c else 95) (the batch_id)
      in if length sanitized > NAME_MAX - dump_filename_fixed_bytes
         then Inl (GError IO_INVALID_ARGUMENT (Too_long ''Wirelog dump batch id''))
         else Inr (print_padded 20 (unat journal_sequence) @ lit ''-'' @ sanitized @ lit ''.wl''))"

lemma u64_digits: "unat (s :: u64) < 10 ^ 20"
  using unsigned_less [of s, where 'a = nat] by simp

lemma length_sequence_digits [simp]: "length (print_padded 20 (unat (s :: u64))) = 20"
  by (rule length_print_padded [OF u64_digits]) simp

lemma dump_filename_Inr [result_simps]:
  "build_wirelog_dump_filename b s = Inr name \<longleftrightarrow>
     (\<exists>c cs. b = Some (c # cs) \<and> length cs < 231 \<and>
        name = print_padded 20 (unat s) @ lit ''-'' @
          map (\<lambda>c. if is_dump_filename_char c then c else 95) (c # cs) @ lit ''.wl'')"
  by (cases b; cases "the b") (auto simp: build_wirelog_dump_filename_def Let_def dump_filename_fixed_bytes_def)

end
