(* ===== verification/Fact_Reconciliation.thy ===== *)
theory Fact_Reconciliation
  imports Fact_Record
begin

text \<open>
  \<^verbatim>\<open>src/wyrebox/facts/wyrebox-fact-reconciliation.c\<close>: the difference of two snapshots of
  facts, as retractions followed by inserts. A \<^verbatim>\<open>GHashTable\<close> that is used as a set of keys
  is the list of the keys in the order they were added.
\<close>

section \<open>Identity keys\<close>

fun append_arg_keys :: "bytes \<Rightarrow> bytes list \<Rightarrow> bytes result" where
  "append_arg_keys key [] = Inr key"
| "append_arg_keys key (arg # args) =
     (if arg = [] then Inl (GError IO_INVALID_ARGUMENT (Required ''args''))
      else append_arg_keys (key @ lit ''A'' @ component arg) args)"

definition build_fact_identity_key :: "fact_record option \<Rightarrow> bytes result" where
  "build_fact_identity_key record_opt =
     (case record_opt of
        None \<Rightarrow> Inl (GError IO_INVALID_ARGUMENT (Required ''fact record''))
      | Some r \<Rightarrow>
          if fr_predicate r = None \<or> fr_predicate r = Some [] then Inl (GError IO_INVALID_ARGUMENT (Required ''predicate''))
          else if fr_args r = None then Inl (GError IO_INVALID_ARGUMENT (Required ''args''))
          else if fr_source r = None \<or> fr_source r = Some [] then Inl (GError IO_INVALID_ARGUMENT (Required ''source''))
          else bindE (append_arg_keys (lit ''P'' @ component (the (fr_predicate r))) (the (fr_args r))) (\<lambda>key.
               Inr (key @ lit ''S'' @ component (the (fr_source r)))))"

section \<open>Snapshots\<close>

fun validate_active_fact :: "fact_record option \<Rightarrow> unit result" where
  "validate_active_fact None = Inl (GError IO_INVALID_ARGUMENT (Required ''fact''))"
| "validate_active_fact (Some r) =
     (if fr_created_at r = 0 then Inl (GError IO_INVALID_ARGUMENT (Required ''creation timestamp''))
      else failIf (fr_retracted_at r \<noteq> 0) (GError IO_INVALID_ARGUMENT Not_active))"

fun build_identity_set_from :: "bytes list \<Rightarrow> fact_record option list \<Rightarrow> bytes list result" where
  "build_identity_set_from identities [] = Inr identities"
| "build_identity_set_from identities (r # rs) =
     bindE (validate_active_fact r) (\<lambda>_.
     bindE (build_fact_identity_key r) (\<lambda>key.
       if key \<in> set identities then Inl (GError IO_INVALID_ARGUMENT (Duplicate_value ''fact identity''))
       else build_identity_set_from (identities @ [key]) rs))"

definition build_identity_set :: "fact_record option list \<Rightarrow> bytes list result" where
  "build_identity_set records = build_identity_set_from [] records"

definition copy_fact_record :: "fact_record \<Rightarrow> fact_record result" where
  "copy_fact_record r =
     fact_record_init (fr_predicate r) (fr_args r) (fr_source r) (fr_confidence_ppm r) (fr_created_at r)"

text \<open>
  A NULL element stops the loops in \<^verbatim>\<open>build_fact_identity_key\<close>, so \<open>the\<close> is applied to
  elements only.
\<close>

fun append_retractions ::
  "fact_record list \<Rightarrow> fact_record option list \<Rightarrow> bytes list \<Rightarrow> u64 \<Rightarrow> fact_record list result" where
  "append_retractions changes [] new_identities retracted_at = Inr changes"
| "append_retractions changes (r # rs) new_identities retracted_at =
     bindE (build_fact_identity_key r) (\<lambda>key.
       if key \<in> set new_identities then append_retractions changes rs new_identities retracted_at
       else bindE (copy_fact_record (the r)) (\<lambda>copy.
            bindE (fact_record_mark_retracted copy retracted_at) (\<lambda>copy1.
              append_retractions (changes @ [copy1]) rs new_identities retracted_at)))"

fun append_inserts ::
  "fact_record list \<Rightarrow> fact_record option list \<Rightarrow> bytes list \<Rightarrow> fact_record list result" where
  "append_inserts changes [] previous_identities = Inr changes"
| "append_inserts changes (r # rs) previous_identities =
     bindE (build_fact_identity_key r) (\<lambda>key.
       if key \<in> set previous_identities then append_inserts changes rs previous_identities
       else bindE (copy_fact_record (the r)) (\<lambda>copy. append_inserts (changes @ [copy]) rs previous_identities))"

definition reconcile ::
  "fact_record option list option \<Rightarrow> fact_record option list option \<Rightarrow> u64 \<Rightarrow> fact_record list result" where
  "reconcile previous_facts new_facts retracted_at =
     (case previous_facts of
        None \<Rightarrow> Inl (GError IO_INVALID_ARGUMENT (Required ''previous facts''))
      | Some previous \<Rightarrow>
          (case new_facts of
             None \<Rightarrow> Inl (GError IO_INVALID_ARGUMENT (Required ''new facts''))
           | Some new \<Rightarrow>
               if retracted_at = 0 then Inl (GError IO_INVALID_ARGUMENT (Required ''retraction timestamp''))
               else
                 bindE (build_identity_set previous) (\<lambda>previous_identities.
                 bindE (build_identity_set new) (\<lambda>new_identities.
                 bindE (append_retractions [] previous new_identities retracted_at) (\<lambda>changes.
                   append_inserts changes new previous_identities)))))"

section \<open>What a key stands for\<close>

type_synonym identity = "bytes \<times> bytes list \<times> bytes"

definition fact_identity :: "fact_record \<Rightarrow> identity" where
  "fact_identity r = (the (fr_predicate r), strv_items (fr_args r), the (fr_source r))"

fun identity_key :: "identity \<Rightarrow> bytes" where
  "identity_key (p, as, s) =
     lit ''P'' @ component p @ concat (map (\<lambda>a. lit ''A'' @ component a) as) @ lit ''S'' @ component s"

definition keyable :: "fact_record \<Rightarrow> bool" where
  "keyable r \<longleftrightarrow> fr_predicate r \<noteq> None \<and> fr_predicate r \<noteq> Some [] \<and> args_ok (fr_args r) \<and>
     fr_source r \<noteq> None \<and> fr_source r \<noteq> Some []"

lemma lit_tags [simp]: "lit ''P'' = [80]" "lit ''A'' = [65]" "lit ''S'' = [83]"
  by (simp_all add: lit_def of_char_def)

lemma tagged_args_inj:
  "concat (map (\<lambda>a. 65 # component a) v) @ 83 # r = concat (map (\<lambda>a. 65 # component a) w) @ 83 # s \<Longrightarrow> v = w \<and> r = s"
proof (induction v arbitrary: w)
  case Nil
  then show ?case by (cases w) auto
next
  case (Cons a v)
  then obtain b w' where w: "w = b # w'"
    by (cases w) auto
  let ?t = "\<lambda>as. concat (map (\<lambda>a. 65 # component a) as)"
  have "component a @ (?t v @ 83 # r) = component b @ (?t w' @ 83 # s)"
    using Cons.prems w by simp
  from component_prefix_free [OF this] Cons.IH [of w'] w show ?case
    by auto
qed

lemma identity_key_inj: "identity_key i = identity_key j \<longleftrightarrow> i = j"
proof
  assume h: "identity_key i = identity_key j"
  obtain p as s where i: "i = (p, as, s)" by (cases i)
  obtain q bs t where j: "j = (q, bs, t)" by (cases j)
  let ?t = "\<lambda>as. concat (map (\<lambda>a. 65 # component a) as)"
  have "component p @ (?t as @ 83 # component s) = component q @ (?t bs @ 83 # component t)"
    using h i j by simp
  from component_prefix_free [OF this] tagged_args_inj [of as "component s" bs "component t"]
    component_prefix_free [of s "[]" t "[]"] i j
  show "i = j" by auto
qed simp

lemma append_arg_keys_Inr:
  "append_arg_keys key args = Inr k \<longleftrightarrow>
     [] \<notin> set args \<and> k = key @ concat (map (\<lambda>a. lit ''A'' @ component a) args)"
  by (induction args arbitrary: key) auto

lemma build_key_Inr [result_simps]:
  "build_fact_identity_key ro = Inr k \<longleftrightarrow> (\<exists>r. ro = Some r \<and> keyable r \<and> k = identity_key (fact_identity r))"
proof (cases ro)
  case (Some r)
  then show ?thesis
    by (auto simp: build_fact_identity_key_def result_simps append_arg_keys_Inr keyable_def args_ok_def fact_identity_def)
qed (simp add: build_fact_identity_key_def)

lemma fact_wf_keyable: "fact_wf r \<Longrightarrow> keyable r"
  by (auto simp: fact_wf_def keyable_def predicate_ok_def)

section \<open>What reconciliation computes\<close>

definition active_snapshot :: "fact_record list \<Rightarrow> bool" where
  "active_snapshot rs \<longleftrightarrow> list_all (\<lambda>r. fr_created_at r \<noteq> 0 \<and> fr_retracted_at r = 0 \<and> keyable r) rs \<and>
     distinct (map fact_identity rs)"

definition identities :: "fact_record list \<Rightarrow> identity set" where
  "identities rs = fact_identity ` set rs"

definition facts_without :: "identity set \<Rightarrow> fact_record list \<Rightarrow> fact_record list" where
  "facts_without ids rs = filter (\<lambda>r. fact_identity r \<notin> ids) rs"

lemma validate_active_Inr [result_simps]:
  "validate_active_fact ro = Inr u \<longleftrightarrow> (\<exists>r. ro = Some r \<and> fr_created_at r \<noteq> 0 \<and> fr_retracted_at r = 0)"
  by (cases ro) (auto simp: result_simps)

lemma identity_set_from_Inr:
  "build_identity_set_from ks rs = Inr ks' \<longleftrightarrow>
     (\<exists>as. rs = map Some as \<and> active_snapshot as \<and> ks' = ks @ map (identity_key \<circ> fact_identity) as \<and>
        set ks \<inter> set (map (identity_key \<circ> fact_identity) as) = {})"
proof (induction rs arbitrary: ks)
  case Nil
  then show ?case by (auto simp: active_snapshot_def)
next
  case (Cons ro rs)
  show ?case
  proof (cases ro)
    case (Some r)
    show ?thesis
      using Some Cons.IH [of "ks @ [identity_key (fact_identity r)]"]
      by (auto simp: result_simps active_snapshot_def Cons_eq_map_conv identity_key_inj image_iff)
  qed (auto simp: result_simps Cons_eq_map_conv)
qed

lemma identity_set_Inr [result_simps]:
  "build_identity_set rs = Inr ks \<longleftrightarrow>
     (\<exists>as. rs = map Some as \<and> active_snapshot as \<and> ks = map (identity_key \<circ> fact_identity) as)"
  by (simp add: build_identity_set_def identity_set_from_Inr)

lemma key_in_set: "identity_key i \<in> set (map (identity_key \<circ> fact_identity) as) \<longleftrightarrow> i \<in> identities as"
  by (auto simp: identities_def identity_key_inj image_iff)

lemma copy_Inr:
  "copy_fact_record r = Inr c \<longleftrightarrow> fact_wf r \<and> c = r\<lparr>fr_retracted_at := 0\<rparr>"
  by (cases r) (auto simp: copy_fact_record_def result_simps fact_wf_def)

lemma append_retractions_Inr:
  assumes "list_all keyable rs" "list_all (\<lambda>r. fr_retracted_at r = 0) rs"
  shows "append_retractions changes (map Some rs) (map (identity_key \<circ> fact_identity) new) at = Inr cs \<longleftrightarrow>
     list_all (\<lambda>r. fact_wf r \<and> fr_created_at r \<le> at) (facts_without (identities new) rs) \<and>
     cs = changes @ map (\<lambda>r. r\<lparr>fr_retracted_at := at\<rparr>) (facts_without (identities new) rs)"
  using assms
proof (induction rs arbitrary: changes)
  case (Cons r rs)
  then show ?case
    by (auto simp: bindE_Inr_iff build_key_Inr key_in_set [unfolded set_map] identities_def
        copy_Inr fact_record_mark_retracted_Inr facts_without_def fact_wf_def image_iff identity_key_inj)
qed (auto simp: facts_without_def)

lemma append_inserts_Inr:
  assumes "list_all keyable rs" "list_all (\<lambda>r. fr_retracted_at r = 0) rs"
  shows "append_inserts changes (map Some rs) (map (identity_key \<circ> fact_identity) previous) = Inr cs \<longleftrightarrow>
     list_all fact_wf (facts_without (identities previous) rs) \<and>
     cs = changes @ facts_without (identities previous) rs"
  using assms
proof (induction rs arbitrary: changes)
  case (Cons r rs)
  then show ?case
    by (auto simp: bindE_Inr_iff build_key_Inr copy_Inr facts_without_def identities_def image_iff identity_key_inj)
qed (auto simp: facts_without_def)

lemma reconcile_Inr:
  "reconcile (Some ps) (Some ns) at = Inr changes \<longleftrightarrow> at \<noteq> 0 \<and>
     (\<exists>previous new. ps = map Some previous \<and> ns = map Some new \<and>
        active_snapshot previous \<and> active_snapshot new \<and>
        list_all (\<lambda>r. fact_wf r \<and> fr_created_at r \<le> at) (facts_without (identities new) previous) \<and>
        list_all fact_wf (facts_without (identities previous) new) \<and>
        changes = map (\<lambda>r. r\<lparr>fr_retracted_at := at\<rparr>) (facts_without (identities new) previous) @
          facts_without (identities previous) new)"
    (is "?L \<longleftrightarrow> ?R")
proof -
  have key: "list_all keyable rs" "list_all (\<lambda>r. fr_retracted_at r = 0) rs" if "active_snapshot rs" for rs
    using that by (auto simp: active_snapshot_def list_all_iff)
  show ?thesis
  proof
    assume ?L
    then obtain previous new c where h: "at \<noteq> 0" "ps = map Some previous" "ns = map Some new"
        "active_snapshot previous" "active_snapshot new"
      and r: "append_retractions [] (map Some previous) (map (identity_key \<circ> fact_identity) new) at = Inr c"
      and i: "append_inserts c (map Some new) (map (identity_key \<circ> fact_identity) previous) = Inr changes"
      by (auto simp: reconcile_def result_simps split: if_splits)
    show ?R
      using h r [unfolded append_retractions_Inr [OF key [OF h(4)]]] i [unfolded append_inserts_Inr [OF key [OF h(5)]]]
      by auto
  next
    assume ?R
    then obtain previous new where h: "at \<noteq> 0" "ps = map Some previous" "ns = map Some new"
        "active_snapshot previous" "active_snapshot new"
        "list_all (\<lambda>r. fact_wf r \<and> fr_created_at r \<le> at) (facts_without (identities new) previous)"
        "list_all fact_wf (facts_without (identities previous) new)"
      and c: "changes = map (\<lambda>r. r\<lparr>fr_retracted_at := at\<rparr>) (facts_without (identities new) previous) @
          facts_without (identities previous) new"
      by blast
    let ?k = "map (identity_key \<circ> fact_identity)"
    have s: "build_identity_set (map Some previous) = Inr (?k previous)" "build_identity_set (map Some new) = Inr (?k new)"
      using h unfolding identity_set_Inr by auto
    have r: "append_retractions [] (map Some previous) (?k new) at =
        Inr (map (\<lambda>r. r\<lparr>fr_retracted_at := at\<rparr>) (facts_without (identities new) previous))"
      unfolding append_retractions_Inr [OF key [OF h(4)]] using h by simp
    have i: "append_inserts (map (\<lambda>r. r\<lparr>fr_retracted_at := at\<rparr>) (facts_without (identities new) previous))
        (map Some new) (?k previous) = Inr changes"
      unfolding append_inserts_Inr [OF key [OF h(5)]] using h c by simp
    show ?L
      using h(1) by (simp add: reconcile_def h(2,3) s r i)
  qed
qed

end
