(* ===== verification/Request_Text.thy ===== *)
theory Request_Text
  imports Prelude
begin

text \<open>
  Checks that the request and response structures of the daemon and of the mail intake share.
  Most files under \<^verbatim>\<open>src/wyrebox/daemon\<close> carry their own copy of these static functions; each copy
  is an instance of \<open>required_text\<close> or \<open>optional_text\<close> under the name of its file.
\<close>

text \<open>\<^verbatim>\<open>value == NULL || *value == '\0'\<close>\<close>

definition null_or_empty :: "cstring \<Rightarrow> bool" where
  "null_or_empty value \<longleftrightarrow> value = None \<or> value = Some []"

definition no_controls :: "bytes \<Rightarrow> bool" where
  "no_controls s \<longleftrightarrow> list_all (\<lambda>c. \<not> g_ascii_iscntrl c) s"

definition text_ok :: "bytes \<Rightarrow> bool" where
  "text_ok s \<longleftrightarrow> s \<noteq> [] \<and> list_all (\<lambda>c. \<not> g_ascii_iscntrl c) s"

fun scan_controls :: "string \<Rightarrow> bytes \<Rightarrow> unit result" where
  "scan_controls field_name [] = Inr ()"
| "scan_controls field_name (c # cursor) =
     (if g_ascii_iscntrl c then Inl (GError IO_INVALID_ARGUMENT (Control_character field_name))
      else scan_controls field_name cursor)"

definition required_text :: "string \<Rightarrow> cstring \<Rightarrow> unit result" where
  "required_text field_name value =
     (if null_or_empty value then Inl (GError IO_INVALID_ARGUMENT (Required field_name))
      else scan_controls field_name (the value))"

definition optional_text :: "string \<Rightarrow> cstring \<Rightarrow> unit result" where
  "optional_text field_name value =
     (if null_or_empty value then Inr () else scan_controls field_name (the value))"

text \<open>An empty optional string is stored as NULL.\<close>

definition copy_optional :: "cstring \<Rightarrow> cstring" where
  "copy_optional value = (if null_or_empty value then None else value)"

lemma null_or_empty_simps [simp]:
  "null_or_empty None" "null_or_empty (Some s) \<longleftrightarrow> s = []"
  by (simp_all add: null_or_empty_def)

lemma copy_optional_simps [simp]:
  "copy_optional None = None" "copy_optional (Some []) = None" "s \<noteq> [] \<Longrightarrow> copy_optional (Some s) = Some s"
  by (simp_all add: copy_optional_def)

lemma text_ok_iff: "text_ok s \<longleftrightarrow> s \<noteq> [] \<and> no_controls s"
  by (simp add: text_ok_def no_controls_def)

lemma scan_controls_Inr [result_simps]: "scan_controls f s = Inr u \<longleftrightarrow> no_controls s"
  by (induction s) (auto simp: no_controls_def)

lemma scan_controls_raises [raises_simps]: "raises (io_errors IO_INVALID_ARGUMENT) (scan_controls f s)"
  by (induction s) (auto simp: raises_simps)

lemma required_text_Inr [result_simps]: "required_text f v = Inr u \<longleftrightarrow> (\<exists>s. v = Some s \<and> text_ok s)"
  by (cases v) (auto simp: required_text_def text_ok_iff result_simps)

lemma optional_text_Inr [result_simps]: "optional_text f v = Inr u \<longleftrightarrow> (\<forall>s. v = Some s \<longrightarrow> no_controls s)"
  by (cases v) (auto simp: optional_text_def no_controls_def result_simps)

lemma required_text_raises [raises_simps]: "raises (io_errors IO_INVALID_ARGUMENT) (required_text f v)"
  by (auto simp: required_text_def raises_simps)

lemma optional_text_raises [raises_simps]: "raises (io_errors IO_INVALID_ARGUMENT) (optional_text f v)"
  by (auto simp: optional_text_def raises_simps)

lemma no_controls_append [simp]: "no_controls (s @ t) \<longleftrightarrow> no_controls s \<and> no_controls t"
  by (simp add: no_controls_def)

end
