(* ===== verification/Fact_Mutation.thy ===== *)
theory Fact_Mutation
  imports Request_Text Fact_Record Journal_Writer
begin

text \<open>
  \<^verbatim>\<open>src/wyrebox/daemon/wyrebox-daemon-fact-mutation-request.c\<close>: a request to insert or
  retract a fact, its checks, the payload it is journalled as and the append to the journal.

  The loops count arguments in a \<^verbatim>\<open>guint\<close>. A vector of more than \<^verbatim>\<open>G_MAXUINT\<close>
  strings (32 GiB of pointers) would make them run for ever; \<open>fm_wf\<close> leaves it out.
\<close>

record fact_mutation_request =
  fm_mutation :: nat
  fm_predicate_id :: cstring
  fm_scope_id :: cstring
  fm_arguments :: strv

abbreviation FACT_MUTATION_INSERT :: nat where "FACT_MUTATION_INSERT \<equiv> 0"
abbreviation FACT_MUTATION_RETRACT :: nat where "FACT_MUTATION_RETRACT \<equiv> 1"

definition FACT_MUTATION_MAGIC :: bytes where
  "FACT_MUTATION_MAGIC = lit ''WYREFMP1''"

abbreviation FACT_MUTATION_HEADER_SIZE :: nat where "FACT_MUTATION_HEADER_SIZE \<equiv> 9"

section \<open>Kinds\<close>

definition mutation_kind_to_wire_name :: "nat \<Rightarrow> cstring" where
  "mutation_kind_to_wire_name mutation =
     (if mutation = FACT_MUTATION_INSERT then Some (lit ''insert'')
      else if mutation = FACT_MUTATION_RETRACT then Some (lit ''retract'')
      else None)"

definition mutation_kind_from_wire_name :: "cstring \<Rightarrow> nat result" where
  "mutation_kind_from_wire_name wire_name =
     (if wire_name = Some (lit ''insert'') then Inr FACT_MUTATION_INSERT
      else if wire_name = Some (lit ''retract'') then Inr FACT_MUTATION_RETRACT
      else Inl (GError IO_INVALID_ARGUMENT (Unsupported ''wire name'')))"

definition mutation_to_event :: "nat \<Rightarrow> nat result" where
  "mutation_to_event mutation =
     (if mutation = FACT_MUTATION_INSERT then Inr (event_code FACT_INSERTED)
      else if mutation = FACT_MUTATION_RETRACT then Inr (event_code FACT_RETRACTED)
      else Inl (GError IO_INVALID_ARGUMENT (Unsupported ''journal event type'')))"

definition is_supported_mutation :: "nat \<Rightarrow> bool" where
  "is_supported_mutation mutation \<longleftrightarrow> mutation_kind_to_wire_name mutation \<noteq> None"

lemma is_supported_mutation_iff [simp]: "is_supported_mutation m \<longleftrightarrow> m \<le> 1"
  by (auto simp: is_supported_mutation_def mutation_kind_to_wire_name_def)

section \<open>Checks\<close>

text \<open>\<^verbatim>\<open>validate_predicate_id\<close> repeats the check of the fact record.\<close>

definition validate_required_text :: "string \<Rightarrow> cstring \<Rightarrow> unit result" where
  "validate_required_text field_name value =
     (if value = None \<or> value = Some [] then Inl (GError IO_INVALID_ARGUMENT (Required field_name))
      else failIf (list_ex g_ascii_iscntrl (the value)) (GError IO_INVALID_ARGUMENT (Invalid_value field_name)))"

fun validate_argument_list :: "bytes list \<Rightarrow> unit result" where
  "validate_argument_list [] = Inr ()"
| "validate_argument_list (a # as) =
     (if a = [] then Inl (GError IO_INVALID_ARGUMENT (Required ''argument''))
      else if list_ex g_ascii_iscntrl a then Inl (GError IO_INVALID_ARGUMENT (Invalid_value ''argument''))
      else validate_argument_list as)"

definition validate_arguments :: "strv \<Rightarrow> unit result" where
  "validate_arguments arguments =
     (case arguments of
        None \<Rightarrow> Inl (GError IO_INVALID_ARGUMENT (Required ''arguments''))
      | Some as \<Rightarrow> validate_argument_list as)"

definition fact_mutation_request_init ::
  "nat \<Rightarrow> cstring \<Rightarrow> cstring \<Rightarrow> strv \<Rightarrow> fact_mutation_request result" where
  "fact_mutation_request_init mutation predicate_id scope_id arguments =
     (if \<not> is_supported_mutation mutation then Inl (GError IO_INVALID_ARGUMENT (Unsupported ''kind''))
      else bindE (validate_predicate predicate_id) (\<lambda>_.
           bindE (validate_required_text ''scope_id'' scope_id) (\<lambda>_.
           bindE (validate_arguments arguments) (\<lambda>_.
             Inr \<lparr>fm_mutation = mutation, fm_predicate_id = predicate_id, fm_scope_id = scope_id,
                  fm_arguments = arguments\<rparr>))))"

definition request_is_initialized :: "fact_mutation_request \<Rightarrow> bool" where
  "request_is_initialized request \<longleftrightarrow>
     fm_predicate_id request \<noteq> None \<and> fm_scope_id request \<noteq> None \<and> fm_arguments request \<noteq> None"

definition fact_mutation_request_get_event :: "fact_mutation_request \<Rightarrow> nat result" where
  "fact_mutation_request_get_event request =
     (if \<not> request_is_initialized request then Inl (GError IO_INVALID_ARGUMENT (Not_initialized ''request''))
      else mutation_to_event (fm_mutation request))"

lemma validate_required_text_Inr [result_simps]:
  "validate_required_text f v = Inr u \<longleftrightarrow> (\<exists>s. v = Some s \<and> text_ok s)"
  by (cases v) (auto simp: validate_required_text_def text_ok_def list_ex_iff list_all_iff result_simps)

lemma validate_arguments_Inr [result_simps]:
  "validate_arguments a = Inr u \<longleftrightarrow> (\<exists>as. a = Some as \<and> list_all text_ok as)"
proof -
  have "validate_argument_list as = Inr u \<longleftrightarrow> list_all text_ok as" for as
    by (induction as) (auto simp: text_ok_def list_ex_iff list_all_iff)
  then show ?thesis
    by (auto simp: validate_arguments_def split: option.splits)
qed

definition fm_valid :: "fact_mutation_request \<Rightarrow> bool" where
  "fm_valid r \<longleftrightarrow> fm_mutation r \<le> 1 \<and> predicate_ok (fm_predicate_id r) \<and>
     (\<exists>s. fm_scope_id r = Some s \<and> text_ok s) \<and> (\<exists>as. fm_arguments r = Some as \<and> list_all text_ok as)"

lemma fact_mutation_request_init_Inr [result_simps]:
  "fact_mutation_request_init m p s a = Inr r \<longleftrightarrow>
     fm_valid r \<and> r = \<lparr>fm_mutation = m, fm_predicate_id = p, fm_scope_id = s, fm_arguments = a\<rparr>"
  by (auto simp: fact_mutation_request_init_def result_simps fm_valid_def)

section \<open>Payload\<close>

definition fm_checked_add_string_len :: "nat \<Rightarrow> bytes \<Rightarrow> nat result" where
  "fm_checked_add_string_len total_size value =
     bindE (checked_add_size total_size 4) (\<lambda>total_next.
       if length value > G_MAXUINT32 then Inl (GError IO_INVALID_ARGUMENT String_too_large)
       else checked_add_size total_next (length value))"

fun fm_checked_add_strings :: "nat \<Rightarrow> bytes list \<Rightarrow> nat result" where
  "fm_checked_add_strings total_size [] = Inr total_size"
| "fm_checked_add_strings total_size (v # vs) =
     bindE (fm_checked_add_string_len total_size v) (\<lambda>total_next. fm_checked_add_strings total_next vs)"

definition fact_mutation_request_encode :: "fact_mutation_request \<Rightarrow> bytes result" where
  "fact_mutation_request_encode request =
     (if \<not> request_is_initialized request then Inl (GError IO_INVALID_ARGUMENT (Not_initialized ''request''))
      else if \<not> is_supported_mutation (fm_mutation request) then Inl (GError IO_INVALID_ARGUMENT (Unsupported ''kind''))
      else
        bindE (validate_predicate (fm_predicate_id request)) (\<lambda>_.
        bindE (validate_required_text ''scope_id'' (fm_scope_id request)) (\<lambda>_.
        bindE (validate_arguments (fm_arguments request)) (\<lambda>_.
        let predicate_id = the (fm_predicate_id request);
            scope_id = the (fm_scope_id request);
            arguments = strv_items (fm_arguments request);
            argument_count = (of_nat (length arguments) :: u32)
        in
        bindE (fm_checked_add_string_len FACT_MUTATION_HEADER_SIZE predicate_id) (\<lambda>size1.
        bindE (fm_checked_add_string_len size1 scope_id) (\<lambda>size2.
        bindE (checked_add_size size2 4) (\<lambda>size3.
        bindE (fm_checked_add_strings size3 arguments) (\<lambda>payload_size.
          filled payload_size
            (FACT_MUTATION_MAGIC @ [of_nat (fm_mutation request)] @ write_string predicate_id @
             write_string scope_id @ write_u32_le argument_count @ write_strings arguments)))))))))"

definition fact_mutation_request_decode :: "bytes \<Rightarrow> fact_mutation_request result" where
  "fact_mutation_request_decode data =
     (if length data < FACT_MUTATION_HEADER_SIZE then Inl (GError IO_INVALID_DATA Truncated)
      else if take 8 data \<noteq> FACT_MUTATION_MAGIC then Inl (GError IO_INVALID_DATA Bad_magic)
      else
        let mutation = unat (data ! 8)
        in if \<not> is_supported_mutation mutation then Inl (GError IO_INVALID_DATA (Unsupported ''kind''))
        else
          bindE (read_string data 9) (\<lambda>(predicate_id, off1).
          bindE (read_string data off1) (\<lambda>(scope_id, off2).
          bindE (read_u32 data off2) (\<lambda>(argument_count, off3).
          bindE (read_n read_string (unat argument_count) data off3) (\<lambda>(arguments, off4).
            if off4 \<noteq> length data then Inl (GError IO_INVALID_DATA Trailing_bytes)
            else fact_mutation_request_init mutation (Some predicate_id) (Some scope_id) (Some arguments))))))"

definition fm_raw :: "fact_mutation_request \<Rightarrow> bytes" where
  "fm_raw r =
     FACT_MUTATION_MAGIC @ [of_nat (fm_mutation r)] @ write_string (the (fm_predicate_id r)) @
     write_string (the (fm_scope_id r)) @ write_u32_le (of_nat (length (strv_items (fm_arguments r)))) @
     write_strings (strv_items (fm_arguments r))"

definition fm_wf :: "fact_mutation_request \<Rightarrow> bool" where
  "fm_wf r \<longleftrightarrow> cstring_wf (fm_predicate_id r) \<and> cstring_wf (fm_scope_id r) \<and> strv_wf (fm_arguments r) \<and>
     length (strv_items (fm_arguments r)) \<le> G_MAXUINT32"

definition fm_fits :: "fact_mutation_request \<Rightarrow> bool" where
  "fm_fits r \<longleftrightarrow> length (the (fm_predicate_id r)) \<le> G_MAXUINT32 \<and> length (the (fm_scope_id r)) \<le> G_MAXUINT32 \<and>
     list_all (\<lambda>s. length s \<le> G_MAXUINT32) (strv_items (fm_arguments r))"

lemma fm_checked_add_size_Inr [result_simps]:
  "n \<le> G_MAXSIZE \<Longrightarrow> checked_add_size n m = Inr k \<longleftrightarrow> n + m \<le> G_MAXSIZE \<and> k = n + m"
  by (auto simp: checked_add_size_def)

lemma fm_checked_add_string_len_Inr [result_simps]:
  "n \<le> G_MAXSIZE \<Longrightarrow> fm_checked_add_string_len n v = Inr k \<longleftrightarrow>
     length v \<le> G_MAXUINT32 \<and> n + 4 + length v \<le> G_MAXSIZE \<and> k = n + 4 + length v"
  by (auto simp: fm_checked_add_string_len_def result_simps)

lemma fm_checked_add_strings_Inr [result_simps]:
  "n \<le> G_MAXSIZE \<Longrightarrow> fm_checked_add_strings n vs = Inr k \<longleftrightarrow>
     list_all (\<lambda>v. length v \<le> G_MAXUINT32) vs \<and> n + strings_size vs \<le> G_MAXSIZE \<and> k = n + strings_size vs"
proof (induction vs arbitrary: n)
  case (Cons v vs)
  show ?case
  proof (cases "length v \<le> G_MAXUINT32 \<and> n + 4 + length v \<le> G_MAXSIZE")
    case True
    then show ?thesis
      using Cons.IH [of "n + 4 + length v"] Cons.prems
      by (auto simp: bindE_Inr_iff fm_checked_add_string_len_Inr)
  next
    case False
    then show ?thesis
      using Cons.prems by (auto simp: bindE_Inr_iff fm_checked_add_string_len_Inr)
  qed
qed auto

lemma length_FACT_MUTATION_MAGIC [simp]: "length FACT_MUTATION_MAGIC = 8"
  by (simp add: FACT_MUTATION_MAGIC_def)

lemma length_fm_raw:
  "length (fm_raw r) = 9 + (4 + length (the (fm_predicate_id r))) + (4 + length (the (fm_scope_id r))) + 4 +
     strings_size (strv_items (fm_arguments r))"
  by (simp add: fm_raw_def)

lemma fm_valid_initialized: "fm_valid r \<Longrightarrow> request_is_initialized r"
  by (auto simp: fm_valid_def request_is_initialized_def predicate_ok_def)

lemma fm_encode_iff:
  "fact_mutation_request_encode r = Inr data \<longleftrightarrow>
     fm_valid r \<and> fm_fits r \<and> length (fm_raw r) \<le> G_MAXSIZE \<and> data = fm_raw r"
proof (cases "fm_valid r")
  case True
  then obtain p s as where f: "fm_predicate_id r = Some p" "fm_scope_id r = Some s" "fm_arguments r = Some as"
    by (auto simp: fm_valid_def predicate_ok_def)
  have v: "validate_predicate (Some p) = Inr ()" "validate_required_text ''scope_id'' (Some s) = Inr ()"
    "validate_arguments (Some as) = Inr ()" "fm_mutation r \<le> 1"
    using True f by (simp_all add: fm_valid_def result_simps)
  show ?thesis
    using True v(4) fm_valid_initialized [OF True] length_fm_raw [of r]
    by (auto simp: fact_mutation_request_encode_def f v Let_def result_simps fm_fits_def fm_raw_def)
next
  case False
  then show ?thesis
    by (auto simp: fact_mutation_request_encode_def result_simps fm_valid_def request_is_initialized_def Let_def)
qed

lemma fm_raw_stands:
  "stands data 0 (fm_raw r) \<longleftrightarrow>
     take 8 data = FACT_MUTATION_MAGIC \<and> stands data 8 [of_nat (fm_mutation r)] \<and>
     (let o1 = 9 + length (write_string (the (fm_predicate_id r)));
          o2 = o1 + length (write_string (the (fm_scope_id r)))
      in stands data 9 (write_string (the (fm_predicate_id r))) \<and>
         stands data o1 (write_string (the (fm_scope_id r))) \<and>
         stands data o2 (write_u32_le (of_nat (length (strv_items (fm_arguments r))))) \<and>
         stands data (o2 + 4) (write_strings (strv_items (fm_arguments r))))"
  unfolding fm_raw_def stands_append by (simp add: Let_def stands_def)

lemma fm_decode_iff:
  "fact_mutation_request_decode data = Inr r \<longleftrightarrow> fm_valid r \<and> fm_wf r \<and> fm_fits r \<and> data = fm_raw r"
    (is "?L \<longleftrightarrow> ?R")
proof
  assume ?L
  then obtain p s c as off1 off2 off3 where h: "9 \<le> length data" "take 8 data = FACT_MUTATION_MAGIC"
    and p: "read_string data 9 = Inr (p, off1)" and s: "read_string data off1 = Inr (s, off2)"
    and c: "read_u32 data off2 = Inr (c, off3)"
    and as: "read_n read_string (unat c) data off3 = Inr (as, length data)"
    and r: "r = \<lparr>fm_mutation = unat (data ! 8), fm_predicate_id = Some p, fm_scope_id = Some s, fm_arguments = Some as\<rparr>"
    and v: "fm_valid r"
    by (auto simp: fact_mutation_request_decode_def result_simps Let_def split: if_splits)
  note facts = p [unfolded str_wire.dec_iff] s [unfolded str_wire.dec_iff] c [unfolded u32_wire.dec_iff stands_u32]
    as [unfolded str_wire.read_n_iff, folded write_strings_def]
  have count: "of_nat (length as) = c"
    using facts by simp
  have "stands data 0 (fm_raw r)"
    unfolding fm_raw_stands using h facts r count
    by (auto simp: Let_def stands_u32 stands_single)
  moreover have "length (fm_raw r) = length data"
    using facts r by (simp add: length_fm_raw)
  ultimately have "data = fm_raw r"
    by (rule stands_whole)
  moreover have "string_ok p" "string_ok s" "list_all string_ok as" "length as \<le> G_MAXUINT32"
    using facts unat_u32_le [of c] by simp_all
  then have "fm_wf r" "fm_fits r"
    using r by (simp_all add: fm_wf_def fm_fits_def string_ok_def strv_wf_def list_all_iff)
  ultimately show ?R
    using v by simp
next
  assume ?R
  then have v: "fm_valid r" and wf: "fm_wf r" and fit: "fm_fits r" and raw: "data = fm_raw r" by auto
  obtain p s as where f: "fm_predicate_id r = Some p" "fm_scope_id r = Some s" "fm_arguments r = Some as"
    using v by (auto simp: fm_valid_def predicate_ok_def)
  have len: "length data = length (fm_raw r)" and st: "stands data 0 (fm_raw r)"
    using raw by simp_all
  note parts = st [unfolded fm_raw_stands Let_def]
  have mode: "unat (data ! 8) = fm_mutation r"
    using parts v by (auto simp: stands_single fm_valid_def unat_of_nat take_bit_eq_mod)
  have ok: "string_ok p" "string_ok s" "list_all string_ok as"
    using wf fit f by (auto simp: string_ok_def fm_wf_def fm_fits_def strv_wf_def list_all_iff)
  have count: "unat (of_nat (length as) :: u32) = length as"
    using wf f by (intro unat_of_nat_u32) (auto simp: fm_wf_def)
  let ?o1 = "9 + length (write_string p)"
  let ?o2 = "?o1 + length (write_string s)"
  have reads: "read_string data 9 = Inr (p, ?o1)" "read_string data ?o1 = Inr (s, ?o2)"
    "read_u32 data ?o2 = Inr (of_nat (length as), ?o2 + 4)"
    "read_n read_string (length as) data (?o2 + 4) = Inr (as, length data)"
    using parts f ok len
    by (simp_all only: str_wire.dec_iff str_wire.read_n_iff u32_wire.dec_iff option.sel strv_items.simps
        length_fm_raw length_write_string length_write_u32_le length_write_strings write_strings_def [symmetric] simp_thms)
  have h: "\<not> length data < 9" "take 8 data = FACT_MUTATION_MAGIC"
    using len parts by (auto simp: length_fm_raw)
  have "fact_mutation_request_init (fm_mutation r) (Some p) (Some s) (Some as) = Inr r"
    using v f by (simp add: result_simps)
  moreover have "fm_mutation r \<le> 1"
    using v by (simp add: fm_valid_def)
  ultimately show ?L
    using h reads mode count by (simp add: fact_mutation_request_decode_def Let_def)
qed

interpretation fm_codec: exact_codec fact_mutation_request_encode fact_mutation_request_decode "\<lambda>r. r" fm_wf G_MAXSIZE
proof
  fix r data
  assume "fm_wf r" "fact_mutation_request_encode r = Inr data"
  then show "fact_mutation_request_decode data = Inr r"
    by (simp add: fm_encode_iff fm_decode_iff)
next
  fix data r
  assume "fact_mutation_request_decode data = Inr r" "length data \<le> G_MAXSIZE"
  then show "fact_mutation_request_encode r = Inr data \<and> fm_wf r \<and> r = r"
    by (auto simp: fm_encode_iff fm_decode_iff)
qed

section \<open>Journalling a request\<close>

text \<open>
  \<^verbatim>\<open>wyrebox_daemon_fact_mutation_request_append_journal\<close>; the result is that of
  \<^verbatim>\<open>wyrebox_journal_writer_append\<close>, or an error before the journal is touched.
\<close>

definition fact_mutation_request_append_journal ::
  "(bytes \<Rightarrow> bytes) \<Rightarrow> append_io \<Rightarrow> journal_writer \<Rightarrow> bytes \<Rightarrow> fact_mutation_request \<Rightarrow>
   (nat \<times> u64) result option \<times> journal_writer \<times> bytes" where
  "fact_mutation_request_append_journal sha io w seg request =
     (case fact_mutation_request_get_event request of
        Inl e \<Rightarrow> (Some (Inl e), w, seg)
      | Inr event_type \<Rightarrow>
          (case fact_mutation_request_encode request of
             Inl e \<Rightarrow> (Some (Inl e), w, seg)
           | Inr payload \<Rightarrow> writer_append sha io w seg event_type (Some payload)))"

lemma get_event_Inr:
  "fact_mutation_request_get_event r = Inr t \<longleftrightarrow> request_is_initialized r \<and>
     (fm_mutation r = 0 \<and> t = 3 \<or> fm_mutation r = 1 \<and> t = 4)"
  by (auto simp: fact_mutation_request_get_event_def mutation_to_event_def)

lemma get_event_valid: "fm_valid r \<Longrightarrow> fact_mutation_request_get_event r = Inr (3 + fm_mutation r)"
  using fm_valid_initialized [of r] by (auto simp: get_event_Inr fm_valid_def le_Suc_eq)

end
