(* ===== verification/Fact_Snapshot.thy ===== *)
theory Fact_Snapshot
  imports Fact_Mutation "HOL-Library.AList" "HOL-Library.Product_Lexorder" "HOL-Library.Multiset"
begin

text \<open>
  \<^verbatim>\<open>src/wyrebox/facts/wyrebox-fact-journal-snapshot.c\<close>: the active facts of a journal,
  computed from its insert and retract records.

  \<^item> The hash table from keys to facts is an association list; \<^verbatim>\<open>g_hash_table_get_values\<close>
    returns the values in an order of its own, which is the parameter \<open>get_values\<close>.
  \<^item> \<^verbatim>\<open>g_list_sort\<close> is a stable sort by a comparison function.
  \<^item> The abstract state is the map from (predicate, scope, arguments) to the sequence number
    since which the fact is active.
\<close>

section \<open>Keys and order\<close>

definition append_key_component :: "bytes \<Rightarrow> bytes \<Rightarrow> bytes" where
  "append_key_component key value = key @ component value"

definition snapshot_identity_key :: "bytes \<Rightarrow> bytes \<Rightarrow> bytes list \<Rightarrow> bytes" where
  "snapshot_identity_key predicate src args =
     foldl append_key_component (append_key_component (append_key_component [] predicate) src) args"

fun compare_nullable_string :: "cstring \<Rightarrow> cstring \<Rightarrow> int" where
  "compare_nullable_string None None = 0"
| "compare_nullable_string None (Some r) = -1"
| "compare_nullable_string (Some l) None = 1"
| "compare_nullable_string (Some l) (Some r) = strcmp l r"

fun compare_args :: "bytes list \<Rightarrow> bytes list \<Rightarrow> int" where
  "compare_args [] [] = 0"
| "compare_args [] (r # rs) = -1"
| "compare_args (l # ls) [] = 1"
| "compare_args (l # ls) (r # rs) = (let cmp = strcmp l r in if cmp \<noteq> 0 then cmp else compare_args ls rs)"

definition compare_fact_records :: "fact_record \<Rightarrow> fact_record \<Rightarrow> int" where
  "compare_fact_records left right =
     (let cmp = compare_nullable_string (fr_predicate left) (fr_predicate right)
      in if cmp \<noteq> 0 then cmp
         else let cmp1 = compare_nullable_string (fr_source left) (fr_source right)
         in if cmp1 \<noteq> 0 then cmp1
            else compare_args (strv_items (fr_args left)) (strv_items (fr_args right)))"

fun insert_by :: "('a \<Rightarrow> 'a \<Rightarrow> int) \<Rightarrow> 'a \<Rightarrow> 'a list \<Rightarrow> 'a list" where
  "insert_by cmp x [] = [x]"
| "insert_by cmp x (y # ys) = (if cmp x y \<le> 0 then x # y # ys else y # insert_by cmp x ys)"

definition g_list_sort :: "('a \<Rightarrow> 'a \<Rightarrow> int) \<Rightarrow> 'a list \<Rightarrow> 'a list" where
  "g_list_sort cmp xs = foldr (insert_by cmp) xs []"

section \<open>Applying a mutation\<close>

type_synonym fact_table = "(bytes \<times> fact_record) list"

definition record_event_matches_request :: "nat \<Rightarrow> fact_mutation_request \<Rightarrow> unit result" where
  "record_event_matches_request event_type request =
     bindE (fact_mutation_request_get_event request) (\<lambda>request_event.
       if event_type = request_event then Inr () else Inl (GError IO_INVALID_DATA Event_mismatch))"

definition mutation_source :: "fact_mutation_request \<Rightarrow> bytes" where
  "mutation_source request = lit ''fact-mutation:'' @ the (fm_scope_id request)"

definition mutation_key :: "fact_mutation_request \<Rightarrow> bytes" where
  "mutation_key request =
     snapshot_identity_key (the (fm_predicate_id request)) (mutation_source request)
       (strv_items (fm_arguments request))"

definition apply_fact_insert :: "fact_table \<Rightarrow> fact_mutation_request \<Rightarrow> u64 \<Rightarrow> fact_table result" where
  "apply_fact_insert active request sequence =
     (if map_of active (mutation_key request) \<noteq> None then Inr active
      else bindE (fact_record_init (fm_predicate_id request) (fm_arguments request)
                    (Some (mutation_source request)) confidence_exact sequence) (\<lambda>r.
           Inr (AList.update (mutation_key request) r active)))"

definition apply_fact_retract :: "fact_table \<Rightarrow> fact_mutation_request \<Rightarrow> fact_table" where
  "apply_fact_retract active request = AList.delete (mutation_key request) active"

definition apply_fact_mutation_record :: "fact_table \<Rightarrow> journal_record \<Rightarrow> fact_table result" where
  "apply_fact_mutation_record active r =
     bindE (fact_mutation_request_decode (rec_payload r)) (\<lambda>request.
     bindE (record_event_matches_request (rec_event_type r) request) (\<lambda>_.
       if rec_event_type r = event_code FACT_INSERTED then apply_fact_insert active request (rec_sequence r)
       else if rec_event_type r = event_code FACT_RETRACTED then Inr (apply_fact_retract active request)
       else Inl Abort))"

section \<open>The snapshot\<close>

text \<open>The loop that takes each sorted value out of the table; the removal is asserted.\<close>

fun steal_sorted :: "fact_table \<Rightarrow> fact_record list \<Rightarrow> fact_record list \<Rightarrow> fact_record list result" where
  "steal_sorted active records [] = Inr records"
| "steal_sorted active records (r # rs) =
     (let key = snapshot_identity_key (the (fr_predicate r)) (the (fr_source r)) (strv_items (fr_args r))
      in if map_of active key = None then Inl Abort
         else steal_sorted (AList.delete key active) (records @ [r]) rs)"

definition active_table_to_sorted_array ::
  "(fact_table \<Rightarrow> fact_record list) \<Rightarrow> fact_table \<Rightarrow> fact_record list result" where
  "active_table_to_sorted_array get_values active =
     steal_sorted active [] (g_list_sort compare_fact_records (get_values active))"

definition is_fact_event :: "nat \<Rightarrow> bool" where
  "is_fact_event event_type \<longleftrightarrow> event_type = event_code FACT_INSERTED \<or> event_type = event_code FACT_RETRACTED"

function load_active_loop :: "(bytes \<Rightarrow> bytes) \<Rightarrow> journal_reader \<Rightarrow> fact_table \<Rightarrow> fact_table result" where
  "load_active_loop sha reader active =
     (case read_next sha reader of
        (Failed e, _) \<Rightarrow> Inl e
      | (At_eof, _) \<Rightarrow> Inr active
      | (Got r, reader1) \<Rightarrow>
          if \<not> is_fact_event (rec_event_type r) then load_active_loop sha reader1 active
          else bindE (apply_fact_mutation_record active r) (\<lambda>active1. load_active_loop sha reader1 active1))"
  by auto
termination
  by (relation "measure (\<lambda>(sha, r, active). rd_file_size r - rd_offset r)")
    (auto dest!: sym [of "(_, _)"] read_next_advances)

declare load_active_loop.simps [simp del]

definition load_active ::
  "(bytes \<Rightarrow> bytes) \<Rightarrow> (fact_table \<Rightarrow> fact_record list) \<Rightarrow> bytes \<Rightarrow> bytes option \<Rightarrow> fact_record list result" where
  "load_active sha get_values journal_root_dir segment =
     bindE (reader_new journal_root_dir segment) (\<lambda>reader.
     bindE (load_active_loop sha reader []) (\<lambda>active. active_table_to_sorted_array get_values active))"

section \<open>Sorting\<close>

lemma mset_insert_by [simp]: "mset (insert_by cmp x xs) = add_mset x (mset xs)"
  by (induction xs) auto

lemma mset_g_list_sort [simp]: "mset (g_list_sort cmp xs) = mset xs"
  by (induction xs) (simp_all add: g_list_sort_def)

lemma set_g_list_sort [simp]: "set (g_list_sort cmp xs) = set xs"
  by (metis mset_g_list_sort set_mset_mset)

lemma sorted_insert_by:
  fixes key :: "'a \<Rightarrow> 'k :: linorder"
  assumes "\<And>y. y \<in> set ys \<Longrightarrow> cmp x y = compares (key x) (key y)" "sorted (map key ys)"
  shows "sorted (map key (insert_by cmp x ys))"
  using assms
proof (induction ys)
  case (Cons y ys)
  have "set (insert_by cmp x ys) = insert x (set ys)"
    by (metis mset_insert_by set_mset_mset set_mset_add_mset_insert)
  with Cons show ?case
    by (fastforce simp: not_le)
qed simp

lemma sorted_g_list_sort:
  fixes key :: "'a \<Rightarrow> 'k :: linorder"
  assumes "\<And>x y. x \<in> set xs \<Longrightarrow> y \<in> set xs \<Longrightarrow> cmp x y = compares (key x) (key y)"
  shows "sorted (map key (g_list_sort cmp xs))"
  using assms
proof (induction xs)
  case (Cons x xs)
  have "set (foldr (insert_by cmp) xs []) = set xs"
    using set_g_list_sort [of cmp xs] by (simp add: g_list_sort_def)
  with Cons show ?case
    by (auto simp: g_list_sort_def intro!: sorted_insert_by)
qed (simp add: g_list_sort_def)

section \<open>The order of the facts\<close>

lemma compares_swap: "compares y x = - compares x y"
  by (auto simp: compares_def)

lemma compare_args_compares: "compare_args ls rs = compares ls rs"
  by (induction ls rs rule: compare_args.induct) (auto simp: compares_def Let_def strcmp_compares)

definition fact_order_key :: "fact_record \<Rightarrow> bytes \<times> bytes \<times> bytes list" where
  "fact_order_key r = (the (fr_predicate r), the (fr_source r), strv_items (fr_args r))"

lemma compares_pair: "compares (a, b) (c, d) = (if compares a c \<noteq> 0 then compares a c else compares b d)"
  by (auto simp: compares_def less_prod_def less_le)

lemma compare_fact_compares:
  "fr_predicate a \<noteq> None \<Longrightarrow> fr_source a \<noteq> None \<Longrightarrow> fr_predicate b \<noteq> None \<Longrightarrow> fr_source b \<noteq> None \<Longrightarrow>
   compare_fact_records a b = compares (fact_order_key a) (fact_order_key b)"
  by (auto simp: compare_fact_records_def Let_def compare_args_compares strcmp_compares fact_order_key_def
      compares_pair)

section \<open>The table as a map\<close>

datatype mutation_id = Mutation_id (id_predicate: bytes) (id_scope: bytes) (id_arguments: "bytes list")

definition request_id :: "fact_mutation_request \<Rightarrow> mutation_id" where
  "request_id r = Mutation_id (the (fm_predicate_id r)) (the (fm_scope_id r)) (strv_items (fm_arguments r))"

text \<open>The abstract step: an insert keeps the sequence number of an active fact.\<close>

definition mutate :: "(mutation_id \<Rightarrow> u64 option) \<Rightarrow> u64 \<times> fact_mutation_request \<Rightarrow> mutation_id \<Rightarrow> u64 option" where
  "mutate M op =
     (let i = request_id (snd op)
      in if fm_mutation (snd op) = FACT_MUTATION_INSERT
         then (if M i = None then M(i := Some (fst op)) else M)
         else M(i := None))"

definition active_since :: "(u64 \<times> fact_mutation_request) list \<Rightarrow> mutation_id \<Rightarrow> u64 option" where
  "active_since ops = foldl mutate (\<lambda>_. None) ops"

text \<open>The fact a table holds for an identity.\<close>

fun fact_of :: "mutation_id \<Rightarrow> u64 \<Rightarrow> fact_record" where
  "fact_of (Mutation_id p sc as) s =
     \<lparr>fr_predicate = Some p, fr_args = Some as, fr_source = Some (lit ''fact-mutation:'' @ sc),
      fr_confidence_ppm = confidence_exact, fr_created_at = s, fr_retracted_at = 0\<rparr>"

fun id_key :: "mutation_id \<Rightarrow> bytes" where
  "id_key (Mutation_id p sc as) = snapshot_identity_key p (lit ''fact-mutation:'' @ sc) as"

declare fact_of.simps [simp del] id_key.simps [simp del]

lemma fact_of_fields [simp]:
  "fr_predicate (fact_of i s) = Some (id_predicate i)" "fr_args (fact_of i s) = Some (id_arguments i)"
  "fr_source (fact_of i s) = Some (lit ''fact-mutation:'' @ id_scope i)"
  "fr_confidence_ppm (fact_of i s) = confidence_exact" "fr_created_at (fact_of i s) = s" "fr_retracted_at (fact_of i s) = 0"
  by (cases i; simp add: fact_of.simps)+

lemma snapshot_key_components: "snapshot_identity_key p s as = concat (map component (p # s # as))"
proof -
  have "foldl append_key_component k as = k @ concat (map component as)" for k as
    by (induction as arbitrary: k) (simp_all add: append_key_component_def)
  then show ?thesis
    by (simp add: snapshot_identity_key_def append_key_component_def)
qed

lemma id_key_inj: "id_key i = id_key j \<longleftrightarrow> i = j"
proof
  assume h: "id_key i = id_key j"
  obtain p sc as where i: "i = Mutation_id p sc as" by (cases i)
  obtain q sd bs where j: "j = Mutation_id q sd bs" by (cases j)
  show "i = j"
    using h components_inj [of "p # (lit ''fact-mutation:'' @ sc) # as" "q # (lit ''fact-mutation:'' @ sd) # bs"] i j
    by (simp only: id_key.simps snapshot_key_components) simp
qed simp

lemma mutation_key_id: "mutation_key r = id_key (request_id r)"
  by (simp add: mutation_key_def request_id_def mutation_source_def id_key.simps)

definition table_refines :: "fact_table \<Rightarrow> (mutation_id \<Rightarrow> u64 option) \<Rightarrow> bool" where
  "table_refines t M \<longleftrightarrow> distinct (map fst t) \<and> fst ` set t \<subseteq> range id_key \<and>
     (\<forall>i. map_of t (id_key i) = map_option (fact_of i) (M i))"

lemma table_lookup: "table_refines t M \<Longrightarrow> map_of t (id_key i) = map_option (fact_of i) (M i)"
  unfolding table_refines_def by blast

lemma table_refines_empty: "table_refines [] (\<lambda>_. None)"
  by (simp add: table_refines_def)

lemma refines_update:
  assumes "table_refines t M"
  shows "table_refines (AList.update (id_key i) (fact_of i s) t) (M(i := Some s))"
proof -
  have "map_of (AList.update (id_key i) (fact_of i s) t) (id_key j) = map_option (fact_of j) ((M(i := Some s)) j)" for j
    using table_lookup [OF assms, of j] by (simp add: update_conv' id_key_inj)
  then show ?thesis
    using assms by (simp add: table_refines_def distinct_update dom_update)
qed

lemma refines_delete:
  assumes "table_refines t M"
  shows "table_refines (AList.delete (id_key i) t) (M(i := None))"
proof -
  have "map_of (AList.delete (id_key i) t) (id_key j) = map_option (fact_of j) ((M(i := None)) j)" for j
    using table_lookup [OF assms, of j] by (simp add: delete_conv' id_key_inj)
  moreover have "fst ` set (AList.delete (id_key i) t) \<subseteq> range id_key"
    using subset_trans [OF dom_delete_subset [of "id_key i" t]] assms by (simp add: table_refines_def)
  ultimately show ?thesis
    using assms by (simp add: table_refines_def distinct_delete)
qed

lemma table_entries:
  assumes "table_refines t M"
  shows "(k, v) \<in> set t \<longleftrightarrow> (\<exists>i s. k = id_key i \<and> v = fact_of i s \<and> M i = Some s)"
proof -
  have d: "distinct (map fst t)" and r: "fst ` set t \<subseteq> range id_key"
    using assms by (auto simp: table_refines_def)
  have "(k, v) \<in> set t \<longleftrightarrow> map_of t k = Some v"
    using d by (rule map_of_eq_Some_iff [symmetric])
  also have "\<dots> \<longleftrightarrow> (\<exists>i. k = id_key i \<and> map_of t (id_key i) = Some v)"
    using r map_of_SomeD [of t k v] by force
  also have "\<dots> \<longleftrightarrow> (\<exists>i s. k = id_key i \<and> v = fact_of i s \<and> M i = Some s)"
    unfolding table_lookup [OF assms] by (simp only: map_option_eq_Some) blast
  finally show ?thesis .
qed

section \<open>Each step refines the abstract one\<close>

lemma insert_refines:
  assumes "table_refines t M" "fm_valid r" "fm_mutation r = 0" "s \<noteq> 0"
  shows "\<exists>t'. apply_fact_insert t r s = Inr t' \<and> table_refines t' (mutate M (s, r))"
proof (cases "M (request_id r)")
  case None
  have f: "fact_of (request_id r) s =
      \<lparr>fr_predicate = fm_predicate_id r, fr_args = fm_arguments r, fr_source = Some (mutation_source r),
       fr_confidence_ppm = confidence_exact, fr_created_at = s, fr_retracted_at = 0\<rparr>"
    using assms(2) by (auto simp: request_id_def fact_of.simps fm_valid_def predicate_ok_def mutation_source_def)
  have "fact_record_init (fm_predicate_id r) (fm_arguments r) (Some (mutation_source r)) confidence_exact s =
      Inr (fact_of (request_id r) s)"
    unfolding fact_record_init_Inr f using assms(2,4)
    by (auto simp: fm_valid_def args_ok_def text_ok_def list_all_iff mutation_source_def lit_def)
  then show ?thesis
    using None table_lookup [OF assms(1), of "request_id r"] refines_update [OF assms(1)] assms(3)
    by (simp add: apply_fact_insert_def mutation_key_id mutate_def Let_def)
next
  case (Some u)
  then show ?thesis
    using assms table_lookup [OF assms(1), of "request_id r"]
    by (simp add: apply_fact_insert_def mutation_key_id mutate_def Let_def)
qed

lemma retract_refines:
  "table_refines t M \<Longrightarrow> fm_mutation r = 1 \<Longrightarrow> table_refines (apply_fact_retract t r) (mutate M (s, r))"
  by (simp add: apply_fact_retract_def mutation_key_id mutate_def Let_def refines_delete)

text \<open>The mutation a journal record holds.\<close>

definition fact_operation :: "journal_record \<Rightarrow> (u64 \<times> fact_mutation_request) result" where
  "fact_operation r =
     bindE (fact_mutation_request_decode (rec_payload r)) (\<lambda>request.
     bindE (record_event_matches_request (rec_event_type r) request) (\<lambda>_. Inr (rec_sequence r, request)))"

lemma event_matches_Inr [result_simps]:
  "record_event_matches_request t r = Inr u \<longleftrightarrow> fact_mutation_request_get_event r = Inr t"
  by (auto simp: record_event_matches_request_def result_simps)

lemma apply_record_refines:
  assumes "table_refines t M" "rec_sequence r \<noteq> 0"
  shows "case fact_operation r of
      Inl e \<Rightarrow> apply_fact_mutation_record t r = Inl e
    | Inr op \<Rightarrow> \<exists>t'. apply_fact_mutation_record t r = Inr t' \<and> table_refines t' (mutate M op)"
proof (cases "fact_operation r")
  case (Inl e)
  then show ?thesis
    by (auto simp: fact_operation_def apply_fact_mutation_record_def bindE_Inl_iff)
next
  case (Inr op)
  then obtain q where q: "fact_mutation_request_decode (rec_payload r) = Inr q"
      "record_event_matches_request (rec_event_type r) q = Inr ()" "op = (rec_sequence r, q)"
    by (auto simp: fact_operation_def bindE_Inr_iff)
  then have v: "fm_valid q" and e: "rec_event_type r = 3 + fm_mutation q"
    using get_event_valid [of q] by (auto simp: fm_decode_iff event_matches_Inr)
  then have m: "fm_mutation q = 0 \<or> fm_mutation q = 1"
    by (auto simp: fm_valid_def)
  show ?thesis
    using m
  proof
    assume "fm_mutation q = 0"
    then show ?thesis
      using Inr q v e insert_refines [OF assms(1) v _ assms(2)]
      by (auto simp: apply_fact_mutation_record_def)
  next
    assume "fm_mutation q = 1"
    then show ?thesis
      using Inr q v e retract_refines [OF assms(1), of q]
      by (auto simp: apply_fact_mutation_record_def)
  qed
qed

section \<open>The sorted array\<close>

lemma steal_sorted_Inr:
  assumes "table_refines t M" "distinct (map fact_order_key rs)" "\<forall>r \<in> set rs. \<exists>i s. r = fact_of i s \<and> M i = Some s"
  shows "steal_sorted t acc rs = Inr (acc @ rs)"
  using assms
proof (induction rs arbitrary: t M acc)
  case (Cons r rs)
  then obtain i s where i: "r = fact_of i s" "M i = Some s"
    by auto
  have key: "snapshot_identity_key (the (fr_predicate r)) (the (fr_source r)) (strv_items (fr_args r)) = id_key i"
    using i by (cases i) (simp add: fact_of.simps id_key.simps)
  have "\<exists>j u. q = fact_of j u \<and> (M(i := None)) j = Some u" if q: "q \<in> set rs" for q
  proof -
    obtain j u where j: "q = fact_of j u" "M j = Some u"
      using Cons.prems(3) q by auto
    have "fact_order_key q \<noteq> fact_order_key r"
      using Cons.prems(2) imageI [OF q, of fact_order_key] by auto
    then have "j \<noteq> i"
      using i j by (cases i) (auto simp: fact_of.simps fact_order_key_def)
    with j show ?thesis by auto
  qed
  then have "steal_sorted (AList.delete (id_key i) t) (acc @ [r]) rs = Inr (acc @ r # rs)"
    using Cons.IH [OF refines_delete [OF Cons.prems(1), of i]] Cons.prems(2) by simp
  then show ?case
    using key table_lookup [OF Cons.prems(1), of i] i by (simp add: Let_def)
qed simp

definition enumerates :: "(fact_table \<Rightarrow> fact_record list) \<Rightarrow> bool" where
  "enumerates get_values \<longleftrightarrow> (\<forall>t. mset (get_values t) = mset (map snd t))"

lemma order_key_fact_of: "fact_order_key (fact_of i s) = fact_order_key (fact_of j u) \<longleftrightarrow> i = j"
  by (cases i; cases j) (auto simp: fact_of.simps fact_order_key_def)

lemma sorted_array_refines:
  assumes "table_refines t M" "enumerates get_values"
  obtains rs where "active_table_to_sorted_array get_values t = Inr rs"
    "sorted_wrt (\<lambda>a b. compare_fact_records a b < 0) rs" "set rs = {fact_of i s | i s. M i = Some s}"
proof -
  let ?rs = "g_list_sort compare_fact_records (get_values t)"
  have ms: "mset ?rs = mset (map snd t)"
    using assms(2) by (simp add: enumerates_def)
  have set: "set ?rs = {fact_of i s | i s. M i = Some s}"
  proof -
    have "set ?rs = snd ` set t"
      using ms by (metis set_map set_mset_mset)
    then show ?thesis
      using table_entries [OF assms(1)] by (force simp: image_iff)
  qed
  have shape: "\<exists>i s. r = fact_of i s \<and> M i = Some s" if "r \<in> set ?rs" for r
    using that set by auto
  have cmp: "compare_fact_records a b = compares (fact_order_key a) (fact_order_key b)"
    if "a \<in> set ?rs" "b \<in> set ?rs" for a b
    using shape [OF that(1)] shape [OF that(2)]
    by (intro compare_fact_compares) (auto simp: fact_of.simps)
  have "distinct (map fact_order_key (map snd t))"
  proof -
    have "distinct t" "inj_on fst (set t)"
      using assms(1) by (auto simp: table_refines_def distinct_map)
    moreover have "inj_on (fact_order_key \<circ> snd) (set t)"
    proof (rule inj_onI)
      fix x y
      assume "x \<in> set t" "y \<in> set t" and eq: "(fact_order_key \<circ> snd) x = (fact_order_key \<circ> snd) y"
      then obtain i s j u where x: "x = (id_key i, fact_of i s)" "M i = Some s"
        and y: "y = (id_key j, fact_of j u)" "M j = Some u"
        using table_entries [OF assms(1), of "fst x" "snd x"] table_entries [OF assms(1), of "fst y" "snd y"]
        by (metis prod.collapse)
      then show "x = y"
        using eq by (simp add: order_key_fact_of)
    qed
    ultimately show ?thesis
      by (simp add: distinct_map)
  qed
  then have dist: "distinct (map fact_order_key ?rs)"
    using ms by (metis mset_map mset_eq_imp_distinct_iff)
  have "sorted (map fact_order_key ?rs)"
    using cmp by (intro sorted_g_list_sort) simp
  then have "sorted_wrt (<) (map fact_order_key ?rs)"
    using dist by (simp add: strict_sorted_iff)
  then have "sorted_wrt (\<lambda>a b. compare_fact_records a b < 0) ?rs"
    unfolding sorted_wrt_map by (rule sorted_wrt_mono_rel [rotated]) (simp add: cmp)
  moreover have "active_table_to_sorted_array get_values t = Inr ?rs"
    using steal_sorted_Inr [OF assms(1) dist, of "[]"] shape
    by (simp add: active_table_to_sorted_array_def)
  ultimately show thesis
    using that set by blast
qed

section \<open>Reading the journal\<close>

text \<open>The loop as a fold over the records the reader returns.\<close>

fun apply_fact_records :: "fact_table \<Rightarrow> journal_record list \<Rightarrow> fact_table result" where
  "apply_fact_records active [] = Inr active"
| "apply_fact_records active (r # rs) =
     (if \<not> is_fact_event (rec_event_type r) then apply_fact_records active rs
      else bindE (apply_fact_mutation_record active r) (\<lambda>active1. apply_fact_records active1 rs))"

lemma load_loop_read_all:
  "load_active_loop sha reader active =
     (case read_all sha reader of
        (recs, e, _) \<Rightarrow> bindE (apply_fact_records active recs) (\<lambda>active1.
          case e of None \<Rightarrow> Inr active1 | Some err \<Rightarrow> Inl err))"
proof (induction sha reader active rule: load_active_loop.induct)
  case (1 sha reader active)
  obtain res reader1 where got: "read_next sha reader = (res, reader1)"
    by (cases "read_next sha reader")
  show ?case
  proof (cases res)
    case (Got r)
    with got have n: "read_next sha reader = (Got r, reader1)" by simp
    obtain recs e reader2 where all: "read_all sha reader1 = (recs, e, reader2)"
      by (metis prod.exhaust)
    show ?thesis
    proof (cases "is_fact_event (rec_event_type r)")
      case True
      then show ?thesis
        using 1(2) [OF n [symmetric] refl] True all n
        by (subst load_active_loop.simps; cases "apply_fact_mutation_record active r") (simp_all add: read_all_Got)
    next
      case False
      then show ?thesis
        using 1(1) [OF n [symmetric] refl] False all n
        by (subst load_active_loop.simps) (simp add: read_all_Got)
    qed
  next
    case At_eof
    with got show ?thesis
      by (subst load_active_loop.simps) (simp add: read_all_At_eof)
  next
    case (Failed err)
    with got show ?thesis
      by (subst load_active_loop.simps) (simp add: read_all_Failed)
  qed
qed

text \<open>The mutations of a log, if every record of a fact event holds one.\<close>

fun fact_operations :: "journal_record list \<Rightarrow> (u64 \<times> fact_mutation_request) list result" where
  "fact_operations [] = Inr []"
| "fact_operations (r # rs) =
     (if \<not> is_fact_event (rec_event_type r) then fact_operations rs
      else bindE (fact_operation r) (\<lambda>op. bindE (fact_operations rs) (\<lambda>ops. Inr (op # ops))))"

lemma apply_records_refine:
  assumes "table_refines t M" "\<forall>r \<in> set rs. rec_sequence r \<noteq> 0"
  shows "case fact_operations rs of
      Inl e \<Rightarrow> apply_fact_records t rs = Inl e
    | Inr ops \<Rightarrow> \<exists>t'. apply_fact_records t rs = Inr t' \<and> table_refines t' (foldl mutate M ops)"
  using assms
proof (induction rs arbitrary: t M)
  case (Cons r rs)
  show ?case
  proof (cases "is_fact_event (rec_event_type r)")
    case True
    have step: "case fact_operation r of
        Inl e \<Rightarrow> apply_fact_mutation_record t r = Inl e
      | Inr op \<Rightarrow> \<exists>t'. apply_fact_mutation_record t r = Inr t' \<and> table_refines t' (mutate M op)"
      using Cons.prems by (intro apply_record_refines) auto
    show ?thesis
    proof (cases "fact_operation r")
      case (Inl e)
      with step True show ?thesis by simp
    next
      case (Inr op)
      with step obtain t' where t': "apply_fact_mutation_record t r = Inr t'" "table_refines t' (mutate M op)"
        by auto
      with Cons.IH [OF t'(2)] Cons.prems True Inr show ?thesis
        by (cases "fact_operations rs") auto
    qed
  next
    case False
    with Cons.IH [OF Cons.prems(1)] Cons.prems(2) show ?thesis
      by (cases "fact_operations rs") auto
  qed
qed simp

lemma sequences_nonzero:
  assumes "log_ok sha 1 rs" "length (log_bytes sha 1 rs) \<le> G_MAXSIZE" "r \<in> set (log_records sha 0 1 rs)"
  shows "rec_sequence r \<noteq> 0"
proof -
  have "64 * length rs \<le> length (log_bytes sha 1 rs)"
    using assms(1)
  proof (induction rs arbitrary: rule: rev_induct)
    case (snoc x xs)
    then show ?case
      using record_ok_length [of sha "1 + of_nat (length xs)" x]
      by (simp add: log_ok_append log_bytes_append)
  qed simp
  then have short: "Suc (length rs) < 2 ^ 64"
    using assms(2) by simp
  have "rec_sequence r \<in> set (map rec_sequence (log_records sha 0 1 rs))"
    using assms(3) by simp
  then obtain i where i: "i < length rs" "rec_sequence r = 1 + of_nat i"
    unfolding log_records_sequences by auto
  then have "unat (1 + of_nat i :: u64) = Suc i"
    using unat_of_nat_u64 [of "Suc i"] short by simp
  then show ?thesis
    using i by (metis Zero_not_Suc unsigned_0)
qed

definition facts_since :: "(mutation_id \<Rightarrow> u64 option) \<Rightarrow> fact_record set" where
  "facts_since M = {fact_of i s | i s. M i = Some s}"

lemma load_active_log:
  assumes "root \<noteq> []" "log_ok sha 1 rs" "length (log_bytes sha 1 rs) \<le> G_MAXSIZE" "enumerates get_values"
  shows "case fact_operations (log_records sha 0 1 rs) of
      Inl e \<Rightarrow> load_active sha get_values root (Some (log_bytes sha 1 rs)) = Inl e
    | Inr ops \<Rightarrow> \<exists>facts. load_active sha get_values root (Some (log_bytes sha 1 rs)) = Inr facts \<and>
        set facts = facts_since (active_since ops) \<and>
        sorted_wrt (\<lambda>a b. compare_fact_records a b < 0) facts"
proof -
  let ?seg = "log_bytes sha 1 rs"
  have new: "reader_new root (Some ?seg) = Inr (reader_on ?seg (length ?seg) 0 1)"
    using reader_new_on assms(1,3) by blast
  obtain r' where all: "read_all sha (reader_on ?seg (length ?seg) 0 1) = (log_records sha 0 1 rs, None, r')"
    using read_all_log [OF order_refl assms(2), of ?seg 0] by auto
  have load: "load_active sha get_values root (Some ?seg) =
      bindE (apply_fact_records [] (log_records sha 0 1 rs)) (active_table_to_sorted_array get_values)"
    using new all by (simp add: load_active_def load_loop_read_all; cases "apply_fact_records [] (log_records sha 0 1 rs)"; simp)
  have ref: "case fact_operations (log_records sha 0 1 rs) of
      Inl e \<Rightarrow> apply_fact_records [] (log_records sha 0 1 rs) = Inl e
    | Inr ops \<Rightarrow> \<exists>t'. apply_fact_records [] (log_records sha 0 1 rs) = Inr t' \<and>
        table_refines t' (foldl mutate (\<lambda>_. None) ops)"
    using sequences_nonzero [OF assms(2,3)] by (intro apply_records_refine table_refines_empty) blast
  show ?thesis
  proof (cases "fact_operations (log_records sha 0 1 rs)")
    case (Inl e)
    with ref load show ?thesis by simp
  next
    case (Inr ops)
    with ref obtain t where t: "apply_fact_records [] (log_records sha 0 1 rs) = Inr t"
        "table_refines t (active_since ops)"
      by (auto simp: active_since_def)
    obtain facts where "active_table_to_sorted_array get_values t = Inr facts"
      "sorted_wrt (\<lambda>a b. compare_fact_records a b < 0) facts" "set facts = facts_since (active_since ops)"
      using sorted_array_refines [OF t(2) assms(4)] unfolding facts_since_def by blast
    with Inr load t show ?thesis by simp
  qed
qed

lemma load_active_Inr:
  assumes "length seg \<le> G_MAXSIZE" "load_active sha get_values root (Some seg) = Inr facts"
  obtains rs where "root \<noteq> []" "log_ok sha 1 rs" "seg = log_bytes sha 1 rs"
proof -
  from assms(2) obtain r active where r: "reader_new root (Some seg) = Inr r" "load_active_loop sha r [] = Inr active"
    by (auto simp: load_active_def bindE_Inr_iff)
  then have root: "root \<noteq> []"
    by (auto simp: reader_new_def reader_new_with_limit_def split: if_splits)
  then have on: "r = reader_on seg (length seg) 0 1"
    using reader_new_on [of root seg] assms(1) r(1) by simp
  obtain recs e r' where all: "read_all sha r = (recs, e, r')"
    by (metis prod.exhaust)
  then have "e = None"
    using r(2) by (auto simp: load_loop_read_all bindE_Inr_iff split: option.splits)
  then obtain rs where "log_ok sha 1 rs" "take (length seg) seg = log_bytes sha 1 rs"
    using read_all_iff_log [of "length seg" seg sha 1 recs] all on by auto
  with root that show thesis by simp
qed

text \<open>What an active fact is: inserted, and not retracted since.\<close>

lemma active_since_Nil: "active_since [] i = None"
  by (simp add: active_since_def)

lemma active_since_snoc: "active_since (ops @ [op]) = mutate (active_since ops) op"
  by (simp add: active_since_def)

text \<open>The operation \<open>k\<close> inserts \<open>i\<close> and none after it retracts it.\<close>

definition inserted_at :: "(u64 \<times> fact_mutation_request) list \<Rightarrow> mutation_id \<Rightarrow> nat \<Rightarrow> bool" where
  "inserted_at ops i k \<longleftrightarrow> k < length ops \<and> request_id (snd (ops ! k)) = i \<and>
     (\<forall>j. k \<le> j \<and> j < length ops \<and> request_id (snd (ops ! j)) = i \<longrightarrow>
        fm_mutation (snd (ops ! j)) = FACT_MUTATION_INSERT)"

lemma inserted_at_snoc:
  "k < length ops \<Longrightarrow> inserted_at (ops @ [op]) i k \<longleftrightarrow>
     inserted_at ops i k \<and> (request_id (snd op) = i \<longrightarrow> fm_mutation (snd op) = FACT_MUTATION_INSERT)"
  by (auto simp: inserted_at_def nth_append less_Suc_eq)

lemma inserted_at_last:
  "inserted_at (ops @ [op]) i (length ops) \<longleftrightarrow>
     request_id (snd op) = i \<and> fm_mutation (snd op) = FACT_MUTATION_INSERT"
  by (auto simp: inserted_at_def nth_append less_Suc_eq)

lemma active_since_iff: "(\<exists>s. active_since ops i = Some s) \<longleftrightarrow> (\<exists>k. inserted_at ops i k)"
proof (induction ops rule: rev_induct)
  case (snoc op ops)
  have "(\<exists>k. inserted_at (ops @ [op]) i k) \<longleftrightarrow>
      inserted_at (ops @ [op]) i (length ops) \<or> (\<exists>k < length ops. inserted_at (ops @ [op]) i k)"
    by (auto simp: inserted_at_def less_Suc_eq)
  also have "\<dots> \<longleftrightarrow> (request_id (snd op) = i \<and> fm_mutation (snd op) = FACT_MUTATION_INSERT) \<or>
      (\<exists>k < length ops. inserted_at ops i k) \<and>
        (request_id (snd op) = i \<longrightarrow> fm_mutation (snd op) = FACT_MUTATION_INSERT)"
    unfolding inserted_at_last by (auto simp: inserted_at_snoc)
  also have "(\<exists>k < length ops. inserted_at ops i k) \<longleftrightarrow> (\<exists>s. active_since ops i = Some s)"
    unfolding snoc.IH by (auto simp: inserted_at_def)
  finally show ?case
    by (auto simp: active_since_snoc mutate_def Let_def)
qed (simp add: active_since_Nil inserted_at_def)

end
