(* ===== verification/Facts_Extracted.thy ===== *)
theory Facts_Extracted
  imports Fact_Record
begin

text \<open>
  The payload of FactsExtracted events
  (\<^verbatim>\<open>src/wyrebox/journal/wyrebox-facts-extracted-payload.c\<close>): the facts the extractor found in
  one message. The facts carry no time stamps of their own; a decoded fact takes the
  extraction time of the payload.
\<close>

record facts_extracted_payload =
  fx_account_id :: cstring
  fx_message_id :: cstring
  fx_extracted_at :: u64
  fx_facts :: "fact_record option list option"

definition FACTS_EXTRACTED_MAGIC :: bytes where
  "FACTS_EXTRACTED_MAGIC = lit ''WYREFEX1''"

abbreviation FACTS_EXTRACTED_HEADER_SIZE :: nat where "FACTS_EXTRACTED_HEADER_SIZE \<equiv> 20"

section \<open>Encoding\<close>

definition fx_write_string :: "bytes \<Rightarrow> bytes \<Rightarrow> bytes result" where
  "fx_write_string buffer value =
     (if length value = 0 \<or> length value > G_MAXUINT32 then Inl (GError IO_INVALID_ARGUMENT (Invalid_value ''string''))
      else bindE (append_u32 buffer (of_nat (length value))) (\<lambda>buffer1. append_bytes buffer1 value))"

fun fx_write_strings :: "bytes \<Rightarrow> bytes list \<Rightarrow> bytes result" where
  "fx_write_strings buffer [] = Inr buffer"
| "fx_write_strings buffer (v # vs) = bindE (fx_write_string buffer v) (\<lambda>buffer1. fx_write_strings buffer1 vs)"

text \<open>\<^verbatim>\<open>g_strcmp0 (fact->args[0], message_id)\<close>: an empty vector starts with NULL.\<close>

definition fx_validate_fact :: "fact_record option \<Rightarrow> bytes \<Rightarrow> io_code \<Rightarrow> unit result" where
  "fx_validate_fact fo message_id code =
     (case fo of
        None \<Rightarrow> Inl (GError code (Invalid_value ''fact''))
      | Some f \<Rightarrow>
          failIf (fr_predicate f = None \<or> fr_source f = None \<or> fr_args f = None \<or>
                  take 1 (strv_items (fr_args f)) \<noteq> [message_id])
            (GError code (Invalid_value ''fact'')))"

definition fx_write_fact :: "bytes \<Rightarrow> bytes \<Rightarrow> fact_record option \<Rightarrow> bytes result" where
  "fx_write_fact message_id buffer fo =
     bindE (fx_validate_fact fo message_id IO_INVALID_ARGUMENT) (\<lambda>_.
     let f = the fo in
     bindE (fx_write_string buffer (the (fr_predicate f))) (\<lambda>buffer1.
     bindE (fx_write_string buffer1 (the (fr_source f))) (\<lambda>buffer2.
     bindE (append_u32 buffer2 (fr_confidence_ppm f)) (\<lambda>buffer3.
     bindE (append_u32 buffer3 (of_nat (length (strv_items (fr_args f))))) (\<lambda>buffer4.
       fx_write_strings buffer4 (strv_items (fr_args f)))))))"

fun fx_write_facts :: "bytes \<Rightarrow> bytes \<Rightarrow> fact_record option list \<Rightarrow> bytes result" where
  "fx_write_facts message_id buffer [] = Inr buffer"
| "fx_write_facts message_id buffer (f # fs) =
     bindE (fx_write_fact message_id buffer f) (\<lambda>buffer1. fx_write_facts message_id buffer1 fs)"

definition fx_fact_list :: "facts_extracted_payload \<Rightarrow> fact_record option list" where
  "fx_fact_list p = (case fx_facts p of None \<Rightarrow> [] | Some fs \<Rightarrow> fs)"

definition fx_encode :: "facts_extracted_payload \<Rightarrow> bytes result" where
  "fx_encode p =
     (if fx_account_id p = None \<or> fx_account_id p = Some [] \<or> fx_message_id p = None \<or> fx_message_id p = Some []
      then Inl (GError IO_INVALID_ARGUMENT (Required ''account and message''))
      else
        bindE (append_bytes [] FACTS_EXTRACTED_MAGIC) (\<lambda>buffer1.
        bindE (append_u64 buffer1 (fx_extracted_at p)) (\<lambda>buffer2.
        bindE (append_u32 buffer2 (of_nat (length (fx_fact_list p)))) (\<lambda>buffer3.
        bindE (fx_write_string buffer3 (the (fx_account_id p))) (\<lambda>buffer4.
        bindE (fx_write_string buffer4 (the (fx_message_id p))) (\<lambda>buffer5.
          fx_write_facts (the (fx_message_id p)) buffer5 (fx_fact_list p)))))))"

section \<open>Decoding\<close>

definition fx_read_string :: "bytes \<Rightarrow> nat \<Rightarrow> (bytes \<times> nat) result" where
  "fx_read_string data off =
     bindE (read_u32 data off) (\<lambda>(len, off1).
       if unat len > length data - off1 then Inl (GError IO_INVALID_DATA Truncated)
       else if len = 0 \<or> has_nul data off1 (unat len) then Inl (GError IO_INVALID_DATA (Invalid_value ''string''))
       else Inr (g_strndup data off1 (unat len), off1 + unat len))"

definition fx_read_fact :: "u64 \<Rightarrow> bytes \<Rightarrow> nat \<Rightarrow> (fact_record \<times> nat) result" where
  "fx_read_fact created_at data off =
     bindE (fx_read_string data off) (\<lambda>(predicate, off1).
     bindE (fx_read_string data off1) (\<lambda>(src, off2).
     bindE (read_u32 data off2) (\<lambda>(confidence_ppm, off3).
     bindE (read_u32 data off3) (\<lambda>(n_args, off4).
     bindE (read_n fx_read_string (unat n_args) data off4) (\<lambda>(args, off5).
       case fact_record_init (Some predicate) (Some args) (Some src) confidence_ppm created_at of
         Inl _ \<Rightarrow> Inl (GError IO_INVALID_DATA (Invalid_value ''fact''))
       | Inr f \<Rightarrow> Inr (f, off5))))))"

text \<open>One round of the decoding loop.\<close>

definition fx_next_fact :: "u64 \<Rightarrow> bytes \<Rightarrow> bytes \<Rightarrow> nat \<Rightarrow> (fact_record \<times> nat) result" where
  "fx_next_fact created_at message_id data off =
     bindE (fx_read_fact created_at data off) (\<lambda>(f, off1).
     bindE (fx_validate_fact (Some f) message_id IO_INVALID_DATA) (\<lambda>_. Inr (f, off1)))"

definition fx_decode :: "bytes \<Rightarrow> facts_extracted_payload result" where
  "fx_decode data =
     (if length data < FACTS_EXTRACTED_HEADER_SIZE \<or> take 8 data \<noteq> FACTS_EXTRACTED_MAGIC
      then Inl (GError IO_INVALID_DATA Bad_magic)
      else
        let extracted_at = read_u64_le data 8; n_facts = read_u32_le data 16 in
        bindE (fx_read_string data FACTS_EXTRACTED_HEADER_SIZE) (\<lambda>(account_id, off1).
        bindE (fx_read_string data off1) (\<lambda>(message_id, off2).
        bindE (read_n (fx_next_fact extracted_at message_id) (unat n_facts) data off2) (\<lambda>(facts, off3).
          if off3 \<noteq> length data then Inl (GError IO_INVALID_DATA Length_malformed)
          else Inr \<lparr>fx_account_id = Some account_id, fx_message_id = Some message_id,
                    fx_extracted_at = extracted_at, fx_facts = Some (map Some facts)\<rparr>))))"

section \<open>Facts as a wire format\<close>

definition fact_bytes :: "fact_record \<Rightarrow> bytes" where
  "fact_bytes f =
     write_string (the (fr_predicate f)) @ write_string (the (fr_source f)) @ write_u32_le (fr_confidence_ppm f) @
     write_u32_le (of_nat (length (strv_items (fr_args f)))) @ write_strings (strv_items (fr_args f))"

definition nonempty_ok :: "bytes \<Rightarrow> bool" where
  "nonempty_ok s \<longleftrightarrow> string_ok s \<and> s \<noteq> []"

lemma fx_read_string_iff:
  "fx_read_string data off = Inr (s, off') \<longleftrightarrow>
     nonempty_ok s \<and> stands data off (write_string s) \<and> off' = off + length (write_string s)"
proof -
  have "fx_read_string data off = Inr (s, off') \<longleftrightarrow> read_nonempty_string data off = Inr (s, off')"
    by (auto simp: fx_read_string_def read_nonempty_string_def bindE_Inr_iff)
  then show ?thesis
    by (auto simp: read_nonempty_string_iff nonempty_ok_def)
qed

interpretation fx_str: wire_format write_string fx_read_string nonempty_ok
  by unfold_locales (rule fx_read_string_iff)

text \<open>The facts that a payload of the extraction time \<open>at\<close> can hold.\<close>

definition fx_fact_ok :: "u64 \<Rightarrow> fact_record \<Rightarrow> bool" where
  "fx_fact_ok at f \<longleftrightarrow> fact_wf f \<and> fr_retracted_at f = 0 \<and> fr_created_at f = at \<and>
     nonempty_ok (the (fr_predicate f)) \<and> nonempty_ok (the (fr_source f)) \<and>
     list_all nonempty_ok (strv_items (fr_args f)) \<and> length (strv_items (fr_args f)) \<le> G_MAXUINT32"

lemma fact_bytes_stands:
  "stands data off (fact_bytes f) \<longleftrightarrow>
     (let o1 = off + length (write_string (the (fr_predicate f)));
          o2 = o1 + length (write_string (the (fr_source f)))
      in stands data off (write_string (the (fr_predicate f))) \<and> stands data o1 (write_string (the (fr_source f))) \<and>
         stands data o2 (write_u32_le (fr_confidence_ppm f)) \<and>
         stands data (o2 + 4) (write_u32_le (of_nat (length (strv_items (fr_args f))))) \<and>
         stands data (o2 + 8) (write_strings (strv_items (fr_args f))))"
  unfolding fact_bytes_def stands_append by (simp add: Let_def add.assoc)

lemma length_fact_bytes:
  "length (fact_bytes f) = length (write_string (the (fr_predicate f))) + length (write_string (the (fr_source f))) + 8 +
     length (write_strings (strv_items (fr_args f)))"
  by (simp add: fact_bytes_def)

lemma case_init_Inr:
  "(case m of Inl e \<Rightarrow> Inl err | Inr f \<Rightarrow> Inr (f, off)) = Inr (g, off') \<longleftrightarrow> m = Inr g \<and> off' = off"
  by (cases m) auto

lemma fx_read_fact_iff:
  "fx_read_fact at data off = Inr (f, off') \<longleftrightarrow>
     fx_fact_ok at f \<and> stands data off (fact_bytes f) \<and> off' = off + length (fact_bytes f)"
    (is "?L \<longleftrightarrow> ?R")
proof
  assume ?L
  then obtain p off1 s off2 c off3 n off4 as where
    r: "fx_read_string data off = Inr (p, off1)" "fx_read_string data off1 = Inr (s, off2)"
      "read_u32 data off2 = Inr (c, off3)" "read_u32 data off3 = Inr (n, off4)"
      "read_n fx_read_string (unat n) data off4 = Inr (as, off')"
    and i: "fact_record_init (Some p) (Some as) (Some s) c at = Inr f"
    by (auto simp: fx_read_fact_def bindE_Inr_iff case_init_Inr)
  note w = r(1,2) [unfolded fx_read_string_iff] r(3,4) [unfolded u32_wire.dec_iff]
    r(5) [unfolded fx_str.read_n_iff, folded write_strings_def]
  have f: "f = \<lparr>fr_predicate = Some p, fr_args = Some as, fr_source = Some s, fr_confidence_ppm = c,
      fr_created_at = at, fr_retracted_at = 0\<rparr>" "fact_wf f"
    using i fact_record_init_wf [OF i] by (auto simp: fact_record_init_Inr)
  have n: "of_nat (length as) = n" "length as \<le> G_MAXUINT32"
    using w unat_u32_le [of n] by simp_all
  have "stands data off (fact_bytes f)" "off' = off + length (fact_bytes f)"
    unfolding fact_bytes_stands length_fact_bytes using w n f(1) by (simp_all add: Let_def add.assoc)
  moreover have "fx_fact_ok at f"
    using w n f by (simp add: fx_fact_ok_def)
  ultimately show ?R by simp
next
  assume R: ?R
  then have ok: "fx_fact_ok at f" and st: "stands data off (fact_bytes f)"
    and off': "off' = off + length (fact_bytes f)" by auto
  obtain p s as where fs: "fr_predicate f = Some p" "fr_source f = Some s" "fr_args f = Some as"
    using ok by (auto simp: fx_fact_ok_def fact_wf_def predicate_ok_def args_ok_def)
  note parts = st [unfolded fact_bytes_stands Let_def fs option.sel strv_items.simps]
  have o: "nonempty_ok p" "nonempty_ok s" "list_all nonempty_ok as" "unat (of_nat (length as) :: u32) = length as"
    using ok fs unat_of_nat_u32 [of "length as"] by (auto simp: fx_fact_ok_def)
  let ?o1 = "off + length (write_string p)"
  let ?o2 = "?o1 + length (write_string s)"
  have e: "off' = ?o2 + 8 + length (write_strings as)"
    using off' fs by (simp add: length_fact_bytes)
  have reads: "fx_read_string data off = Inr (p, ?o1)" "fx_read_string data ?o1 = Inr (s, ?o2)"
    "read_u32 data ?o2 = Inr (fr_confidence_ppm f, ?o2 + 4)"
    "read_u32 data (?o2 + 4) = Inr (of_nat (length as), ?o2 + 8)"
    "read_n fx_read_string (length as) data (?o2 + 8) = Inr (as, off')"
    using parts o e
    by (simp_all add: fx_read_string_iff u32_wire.dec_iff fx_str.read_n_iff write_strings_def [symmetric]
        del: length_write_string length_write_strings)
  have "fact_record_init (Some p) (Some as) (Some s) (fr_confidence_ppm f) at = Inr f"
    using ok fs fact_record_init_again [of f] by (cases f) (auto simp: fx_fact_ok_def)
  then show ?L
    using reads o(4) by (simp add: fx_read_fact_def)
qed

lemma fx_validate_Inr [result_simps]:
  "fx_validate_fact fo m code = Inr u \<longleftrightarrow>
     (\<exists>f as. fo = Some f \<and> fr_predicate f \<noteq> None \<and> fr_source f \<noteq> None \<and> fr_args f = Some (m # as))"
proof (cases fo)
  case (Some f)
  have "fr_args f \<noteq> None \<and> take 1 (strv_items (fr_args f)) = [m] \<longleftrightarrow> (\<exists>as. fr_args f = Some (m # as))"
    by (cases "fr_args f"; cases "the (fr_args f)") auto
  with Some show ?thesis
    by (auto simp: fx_validate_fact_def failIf_Inr_iff)
qed (simp add: fx_validate_fact_def)

interpretation fx_fact: wire_format fact_bytes "fx_next_fact at m" "\<lambda>f. fx_fact_ok at f \<and> (\<exists>as. fr_args f = Some (m # as))"
  for at m
proof
  fix data off f off'
  have "fr_predicate f \<noteq> None \<and> fr_source f \<noteq> None" if "fx_fact_ok at f"
    using that by (auto simp: fx_fact_ok_def fact_wf_def predicate_ok_def)
  then show "fx_next_fact at m data off = Inr (f, off') \<longleftrightarrow>
      (fx_fact_ok at f \<and> (\<exists>as. fr_args f = Some (m # as))) \<and> stands data off (fact_bytes f) \<and>
      off' = off + length (fact_bytes f)"
    by (auto simp: fx_next_fact_def bindE_Inr_iff fx_validate_Inr fx_read_fact_iff)
qed

section \<open>What is encoded and what decodes\<close>

definition fx_raw :: "facts_extracted_payload \<Rightarrow> bytes" where
  "fx_raw p =
     FACTS_EXTRACTED_MAGIC @ write_u64_le (fx_extracted_at p) @ write_u32_le (of_nat (length (fx_fact_list p))) @
     write_string (the (fx_account_id p)) @ write_string (the (fx_message_id p)) @
     concat (map (fact_bytes \<circ> the) (fx_fact_list p))"

text \<open>What the encoder checks of a fact.\<close>

definition fx_writable :: "bytes \<Rightarrow> fact_record option \<Rightarrow> bool" where
  "fx_writable m fo \<longleftrightarrow>
     (\<exists>f as. fo = Some f \<and> fr_predicate f \<noteq> None \<and> the (fr_predicate f) \<noteq> [] \<and> fr_source f \<noteq> None \<and>
        the (fr_source f) \<noteq> [] \<and> fr_args f = Some (m # as) \<and> m \<noteq> [] \<and> [] \<notin> set as)"

definition fx_named :: "facts_extracted_payload \<Rightarrow> bool" where
  "fx_named p \<longleftrightarrow> fx_account_id p \<noteq> None \<and> fx_account_id p \<noteq> Some [] \<and> fx_message_id p \<noteq> None \<and>
     fx_message_id p \<noteq> Some []"

lemma fx_write_string_Inr [result_simps]:
  "length buffer \<le> G_MAXUINT32 \<Longrightarrow> fx_write_string buffer v = Inr b \<longleftrightarrow>
     v \<noteq> [] \<and> length (buffer @ write_string v) \<le> G_MAXUINT32 \<and> b = buffer @ write_string v"
  by (auto simp: fx_write_string_def append_u32_def append_bytes_def bindE_Inr_iff write_string_def)

lemma fx_write_strings_Inr [result_simps]:
  "length buffer \<le> G_MAXUINT32 \<Longrightarrow> fx_write_strings buffer vs = Inr b \<longleftrightarrow>
     [] \<notin> set vs \<and> length (buffer @ write_strings vs) \<le> G_MAXUINT32 \<and> b = buffer @ write_strings vs"
proof (induction vs arbitrary: buffer)
  case (Cons v vs)
  show ?case
  proof (cases "length (buffer @ write_string v) \<le> G_MAXUINT32")
    case True
    then show ?thesis
      using Cons.IH [OF True] Cons.prems by (auto simp: bindE_Inr_iff fx_write_string_Inr write_strings_def)
  next
    case False
    then show ?thesis
      using Cons.prems by (auto simp: bindE_Inr_iff fx_write_string_Inr write_strings_def)
  qed
qed (auto simp: write_strings_def)

lemma fx_write_fact_Inr [result_simps]:
  assumes "length buffer \<le> G_MAXUINT32"
  shows "fx_write_fact m buffer fo = Inr b \<longleftrightarrow>
     fx_writable m fo \<and> length (buffer @ fact_bytes (the fo)) \<le> G_MAXUINT32 \<and> b = buffer @ fact_bytes (the fo)"
proof (cases "fx_validate_fact fo m IO_INVALID_ARGUMENT")
  case (Inl e)
  then have "\<not> fx_writable m fo"
    using fx_validate_Inr [of fo m IO_INVALID_ARGUMENT "()"] by (auto simp: fx_writable_def)
  with Inl show ?thesis
    by (simp add: fx_write_fact_def)
next
  case (Inr u)
  then obtain f as where f: "fo = Some f" "fr_predicate f \<noteq> None" "fr_source f \<noteq> None" "fr_args f = Some (m # as)"
    by (auto simp: fx_validate_Inr)
  let ?b1 = "buffer @ write_string (the (fr_predicate f))"
  let ?b2 = "?b1 @ write_string (the (fr_source f))"
  let ?b3 = "?b2 @ write_u32_le (fr_confidence_ppm f)"
  let ?b4 = "?b3 @ write_u32_le (of_nat (length (m # as)))"
  have "fx_write_fact m buffer fo = Inr b \<longleftrightarrow>
      the (fr_predicate f) \<noteq> [] \<and> length ?b1 \<le> G_MAXUINT32 \<and> the (fr_source f) \<noteq> [] \<and> length ?b2 \<le> G_MAXUINT32 \<and>
      length ?b3 \<le> G_MAXUINT32 \<and> length ?b4 \<le> G_MAXUINT32 \<and> fx_write_strings ?b4 (m # as) = Inr b"
    using assms Inr f
    by (simp add: fx_write_fact_def Let_def bindE_Inr_iff fx_write_string_Inr append_u32_Inr
        del: fx_write_strings.simps length_append cong: conj_cong)
  also have "\<dots> \<longleftrightarrow> fx_writable m fo \<and> length (buffer @ fact_bytes f) \<le> G_MAXUINT32 \<and> b = buffer @ fact_bytes f"
    using f by (auto simp: fx_write_strings_Inr fx_writable_def fact_bytes_def simp del: fx_write_strings.simps)
  finally show ?thesis
    using f(1) by simp
qed

lemma fx_write_facts_Inr [result_simps]:
  "length buffer \<le> G_MAXUINT32 \<Longrightarrow> fx_write_facts m buffer fs = Inr b \<longleftrightarrow>
     list_all (fx_writable m) fs \<and> length (buffer @ concat (map (fact_bytes \<circ> the) fs)) \<le> G_MAXUINT32 \<and>
     b = buffer @ concat (map (fact_bytes \<circ> the) fs)"
proof (induction fs arbitrary: buffer)
  case (Cons f fs)
  show ?case
  proof (cases "length (buffer @ fact_bytes (the f)) \<le> G_MAXUINT32")
    case True
    then show ?thesis
      using Cons.IH [OF True] Cons.prems by (auto simp: bindE_Inr_iff fx_write_fact_Inr)
  next
    case False
    then show ?thesis
      using Cons.prems by (auto simp: bindE_Inr_iff fx_write_fact_Inr)
  qed
qed auto

lemma length_FACTS_EXTRACTED_MAGIC [simp]: "length FACTS_EXTRACTED_MAGIC = 8"
  by (simp add: FACTS_EXTRACTED_MAGIC_def)

lemma length_fx_raw:
  "length (fx_raw p) = 20 + length (write_string (the (fx_account_id p))) + length (write_string (the (fx_message_id p))) +
     length (concat (map (fact_bytes \<circ> the) (fx_fact_list p)))"
  by (simp add: fx_raw_def)

lemma fx_encode_iff:
  "fx_encode p = Inr data \<longleftrightarrow>
     fx_named p \<and> list_all (fx_writable (the (fx_message_id p))) (fx_fact_list p) \<and>
     length (fx_raw p) \<le> G_MAXUINT32 \<and> data = fx_raw p"
proof (cases "fx_named p")
  case True
  have c: "(fx_account_id p = None \<or> fx_account_id p = Some [] \<or> fx_message_id p = None \<or> fx_message_id p = Some []) = False"
    using True by (auto simp: fx_named_def)
  have n: "the (fx_account_id p) \<noteq> []" "the (fx_message_id p) \<noteq> []"
    using True by (auto simp: fx_named_def)
  let ?b3 = "FACTS_EXTRACTED_MAGIC @ write_u64_le (fx_extracted_at p) @ write_u32_le (of_nat (length (fx_fact_list p)))"
  let ?b4 = "?b3 @ write_string (the (fx_account_id p))"
  let ?b5 = "?b4 @ write_string (the (fx_message_id p))"
  have h: "bindE (append_bytes [] FACTS_EXTRACTED_MAGIC) (\<lambda>buffer1.
      bindE (append_u64 buffer1 (fx_extracted_at p)) (\<lambda>buffer2.
      append_u32 buffer2 (of_nat (length (fx_fact_list p))))) = Inr ?b3"
    by (simp add: append_bytes_def append_u64_def append_u32_def)
  have "fx_encode p = bindE (Inr ?b3) (\<lambda>buffer3.
      bindE (fx_write_string buffer3 (the (fx_account_id p))) (\<lambda>buffer4.
      bindE (fx_write_string buffer4 (the (fx_message_id p))) (\<lambda>buffer5.
        fx_write_facts (the (fx_message_id p)) buffer5 (fx_fact_list p))))"
    unfolding h [symmetric] by (simp only: fx_encode_def c if_False bindE_assoc)
  also have "\<dots> = Inr data \<longleftrightarrow> length ?b4 \<le> G_MAXUINT32 \<and> length ?b5 \<le> G_MAXUINT32 \<and>
      fx_write_facts (the (fx_message_id p)) ?b5 (fx_fact_list p) = Inr data"
    using n by (simp add: bindE_Inr_iff fx_write_string_Inr cong: conj_cong)
  also have "\<dots> \<longleftrightarrow> list_all (fx_writable (the (fx_message_id p))) (fx_fact_list p) \<and>
      length (fx_raw p) \<le> G_MAXUINT32 \<and> data = fx_raw p"
    by (auto simp: fx_write_facts_Inr fx_raw_def)
  finally show ?thesis
    using True by simp
next
  case False
  then show ?thesis
    by (auto simp: fx_encode_def fx_named_def)
qed

text \<open>The payloads that decoding can produce.\<close>

definition fx_ok :: "facts_extracted_payload \<Rightarrow> bool" where
  "fx_ok p \<longleftrightarrow>
     (\<exists>a m fs. fx_account_id p = Some a \<and> fx_message_id p = Some m \<and> fx_facts p = Some (map Some fs) \<and>
        nonempty_ok a \<and> nonempty_ok m \<and> length fs \<le> G_MAXUINT32 \<and>
        list_all (\<lambda>f. fx_fact_ok (fx_extracted_at p) f \<and> (\<exists>as. fr_args f = Some (m # as))) fs)"

lemma fx_ok_iff:
  assumes "fx_account_id p = Some a" "fx_message_id p = Some m" "fx_facts p = Some (map Some fs)"
  shows "fx_ok p \<longleftrightarrow> nonempty_ok a \<and> nonempty_ok m \<and> length fs \<le> G_MAXUINT32 \<and>
     list_all (\<lambda>f. fx_fact_ok (fx_extracted_at p) f \<and> (\<exists>as. fr_args f = Some (m # as))) fs"
proof -
  have "map Some xs = map Some ys \<Longrightarrow> xs = ys" for xs ys :: "fact_record list"
    by (rule map_injective [OF _ inj_Some])
  with assms show ?thesis
    by (fastforce simp: fx_ok_def)
qed

lemma fx_raw_stands:
  "stands data 0 (fx_raw p) \<longleftrightarrow>
     take 8 data = FACTS_EXTRACTED_MAGIC \<and> stands data 8 (write_u64_le (fx_extracted_at p)) \<and>
     stands data 16 (write_u32_le (of_nat (length (fx_fact_list p)))) \<and>
     (let o1 = 20 + length (write_string (the (fx_account_id p)));
          o2 = o1 + length (write_string (the (fx_message_id p)))
      in stands data 20 (write_string (the (fx_account_id p))) \<and>
         stands data o1 (write_string (the (fx_message_id p))) \<and>
         stands data o2 (concat (map (fact_bytes \<circ> the) (fx_fact_list p))))"
  unfolding fx_raw_def stands_append by (simp add: Let_def stands_def)

lemma fx_decode_iff: "fx_decode data = Inr p \<longleftrightarrow> fx_ok p \<and> data = fx_raw p"
    (is "?L \<longleftrightarrow> ?R")
proof
  assume ?L
  then obtain a off1 m off2 fs where h: "20 \<le> length data" "take 8 data = FACTS_EXTRACTED_MAGIC"
    and r: "fx_read_string data 20 = Inr (a, off1)" "fx_read_string data off1 = Inr (m, off2)"
      "read_n (fx_next_fact (read_u64_le data 8) m) (unat (read_u32_le data 16)) data off2 = Inr (fs, length data)"
    and p: "p = \<lparr>fx_account_id = Some a, fx_message_id = Some m, fx_extracted_at = read_u64_le data 8,
        fx_facts = Some (map Some fs)\<rparr>"
    by (auto simp: fx_decode_def bindE_Inr_iff Let_def split: if_splits)
  note w = r(1,2) [unfolded fx_read_string_iff] r(3) [unfolded fx_fact.read_n_iff]
  have l: "fx_fact_list p = map Some fs"
    using p by (simp add: fx_fact_list_def)
  have n: "of_nat (length fs) = read_u32_le data 16" "length fs \<le> G_MAXUINT32"
    using w(3) unat_u32_le [of "read_u32_le data 16"] by simp_all
  have "stands data 0 (fx_raw p)"
    unfolding fx_raw_stands l using h w n(1) p by (simp add: Let_def stands_u64 stands_u32 o_def)
  moreover have "length (fx_raw p) = length data"
    unfolding length_fx_raw l using w p by (simp add: o_def)
  ultimately have "data = fx_raw p"
    by (rule stands_whole)
  moreover have "fx_ok p"
    using w n p by (simp add: fx_ok_def)
  ultimately show ?R by simp
next
  assume ?R
  then have ok: "fx_ok p" and raw: "data = fx_raw p" by auto
  from ok obtain a m fs where f: "fx_account_id p = Some a" "fx_message_id p = Some m" "fx_facts p = Some (map Some fs)"
    and o: "nonempty_ok a" "nonempty_ok m" "length fs \<le> G_MAXUINT32"
      "list_all (\<lambda>f. fx_fact_ok (fx_extracted_at p) f \<and> (\<exists>as. fr_args f = Some (m # as))) fs"
    by (auto simp: fx_ok_def)
  have l: "fx_fact_list p = map Some fs"
    using f by (simp add: fx_fact_list_def)
  have "stands data 0 (fx_raw p)" and len: "length data = length (fx_raw p)"
    using raw by simp_all
  note parts = this(1) [unfolded fx_raw_stands Let_def l f option.sel length_map]
  let ?o1 = "20 + length (write_string a)"
  let ?o2 = "?o1 + length (write_string m)"
  have e: "read_u64_le data 8 = fx_extracted_at p" "unat (read_u32_le data 16) = length fs"
    using parts unat_of_nat_u32 [OF o(3)] by (auto simp: stands_u64 stands_u32)
  have total_len: "length data = ?o2 + length (concat (map fact_bytes fs))"
    using len f by (simp add: length_fx_raw l o_def)
  have reads: "fx_read_string data 20 = Inr (a, ?o1)" "fx_read_string data ?o1 = Inr (m, ?o2)"
    "read_n (fx_next_fact (fx_extracted_at p) m) (length fs) data ?o2 = Inr (fs, length data)"
    using parts o total_len
    by (simp_all add: fx_read_string_iff fx_fact.read_n_iff o_def del: length_write_string)
  have h: "\<not> length data < 20" "take 8 data = FACTS_EXTRACTED_MAGIC"
    using total_len parts by auto
  show ?L
    using h reads e f by (cases p) (simp add: fx_decode_def Let_def)
qed

section \<open>Round trip\<close>

text \<open>A decoded fact is active and carries the extraction time.\<close>

definition fx_canon :: "facts_extracted_payload \<Rightarrow> facts_extracted_payload" where
  "fx_canon p = p\<lparr>fx_facts := Some (map (map_option (\<lambda>f. f\<lparr>fr_created_at := fx_extracted_at p, fr_retracted_at := 0\<rparr>))
     (fx_fact_list p))\<rparr>"

definition fx_strings_wf :: "facts_extracted_payload \<Rightarrow> bool" where
  "fx_strings_wf p \<longleftrightarrow> cstring_wf (fx_account_id p) \<and> cstring_wf (fx_message_id p) \<and> length (fx_fact_list p) \<le> G_MAXUINT32 \<and>
     (\<forall>f. Some f \<in> set (fx_fact_list p) \<longrightarrow> cstring_wf (fr_predicate f) \<and> cstring_wf (fr_source f) \<and> strv_wf (fr_args f))"

definition fx_facts_wf :: "facts_extracted_payload \<Rightarrow> bool" where
  "fx_facts_wf p \<longleftrightarrow>
     (\<forall>f. Some f \<in> set (fx_fact_list p) \<longrightarrow>
        predicate_ok (fr_predicate f) \<and> fr_confidence_ppm f \<le> confidence_exact \<and> fx_extracted_at p \<noteq> 0)"

lemma fact_bytes_canon [simp]: "fact_bytes (f\<lparr>fr_created_at := c, fr_retracted_at := r\<rparr>) = fact_bytes f"
  by (simp add: fact_bytes_def)

lemma fx_fact_list_canon:
  "fx_fact_list (fx_canon p) =
     map (map_option (\<lambda>f. f\<lparr>fr_created_at := fx_extracted_at p, fr_retracted_at := 0\<rparr>)) (fx_fact_list p)"
  by (simp add: fx_canon_def fx_fact_list_def)

lemma fx_raw_canon:
  assumes "list_all (fx_writable m) (fx_fact_list p)"
  shows "fx_raw (fx_canon p) = fx_raw p"
proof -
  have "map (fact_bytes \<circ> the) (fx_fact_list (fx_canon p)) = map (fact_bytes \<circ> the) (fx_fact_list p)"
    unfolding fx_fact_list_canon using assms by (auto simp: fx_writable_def list_all_iff)
  moreover have "length (fx_fact_list (fx_canon p)) = length (fx_fact_list p)"
    by (simp add: fx_fact_list_canon)
  moreover have "fx_extracted_at (fx_canon p) = fx_extracted_at p" "fx_account_id (fx_canon p) = fx_account_id p"
    "fx_message_id (fx_canon p) = fx_message_id p"
    by (simp_all add: fx_canon_def)
  ultimately show ?thesis
    by (simp only: fx_raw_def)
qed

lemma fx_strings_fit:
  assumes "length (fx_raw p) \<le> G_MAXUINT32"
  shows "length (the (fx_account_id p)) \<le> G_MAXUINT32" "length (the (fx_message_id p)) \<le> G_MAXUINT32"
    "Some f \<in> set (fx_fact_list p) \<Longrightarrow>
       length (the (fr_predicate f)) \<le> G_MAXUINT32 \<and> length (the (fr_source f)) \<le> G_MAXUINT32 \<and>
       list_all (\<lambda>s. length s \<le> G_MAXUINT32) (strv_items (fr_args f)) \<and> length (strv_items (fr_args f)) \<le> G_MAXUINT32"
proof -
  show "length (the (fx_account_id p)) \<le> G_MAXUINT32" "length (the (fx_message_id p)) \<le> G_MAXUINT32"
    using assms by (simp_all add: length_fx_raw)
  assume "Some f \<in> set (fx_fact_list p)"
  from length_concat_member [OF this, of "fact_bytes \<circ> the"] assms
  have "length (fact_bytes f) \<le> G_MAXUINT32"
    by (simp add: length_fx_raw)
  then show "length (the (fr_predicate f)) \<le> G_MAXUINT32 \<and> length (the (fr_source f)) \<le> G_MAXUINT32 \<and>
       list_all (\<lambda>s. length s \<le> G_MAXUINT32) (strv_items (fr_args f)) \<and> length (strv_items (fr_args f)) \<le> G_MAXUINT32"
    using strings_fit [of "strv_items (fr_args f)"] by (simp add: length_fact_bytes)
qed

text \<open>
  Among the payloads that are encoded, those with sound facts decode, to themselves up to the
  time stamps of the facts.
\<close>

lemma fx_encoded_ok:
  assumes named: "fx_named p" and writable: "list_all (fx_writable (the (fx_message_id p))) (fx_fact_list p)"
    and fits: "length (fx_raw p) \<le> G_MAXUINT32" and wf: "fx_strings_wf p"
  shows "fx_ok (fx_canon p) \<longleftrightarrow> fx_facts_wf p"
proof -
  obtain a m where am: "fx_account_id p = Some a" "fx_message_id p = Some m" "a \<noteq> []" "m \<noteq> []"
    using named by (auto simp: fx_named_def)
  let ?c = "\<lambda>f. f\<lparr>fr_created_at := fx_extracted_at p, fr_retracted_at := 0\<rparr>"
  have "\<exists>f. fo = Some f" if "fo \<in> set (fx_fact_list p)" for fo
    using writable that by (auto simp: list_all_iff fx_writable_def)
  then obtain fs where fs: "fx_fact_list p = map Some fs"
    by (metis ex_map_conv)
  have w: "\<exists>as. fr_predicate f \<noteq> None \<and> the (fr_predicate f) \<noteq> [] \<and> fr_source f \<noteq> None \<and> the (fr_source f) \<noteq> [] \<and>
      fr_args f = Some (m # as) \<and> [] \<notin> set as" if "f \<in> set fs" for f
    using writable that am fs by (auto simp: list_all_iff fx_writable_def)
  have ok: "fx_fact_ok (fx_extracted_at p) (?c f) \<longleftrightarrow>
      predicate_ok (fr_predicate f) \<and> fr_confidence_ppm f \<le> confidence_exact \<and> fx_extracted_at p \<noteq> 0"
    if f: "f \<in> set fs" for f
  proof -
    have mem: "Some f \<in> set (fx_fact_list p)"
      using f fs by simp
    from w [OF f] obtain as q s where g: "fr_args f = Some (m # as)" "[] \<notin> set as" "fr_predicate f = Some q" "q \<noteq> []"
      "fr_source f = Some s" "s \<noteq> []"
      by auto
    have "cstring_wf (Some q)" "cstring_wf (Some s)" "strv_wf (Some (m # as))"
      using wf mem g by (auto simp: fx_strings_wf_def)
    then have "nonempty_ok q" "nonempty_ok s" "list_all nonempty_ok (m # as)" "length (m # as) \<le> G_MAXUINT32"
      using fx_strings_fit(3) [OF fits mem] g am(4)
      by (auto simp: nonempty_ok_def string_ok_def strv_wf_def list_all_iff)
    then show ?thesis
      using g am(4) by (auto simp: fx_fact_ok_def fact_wf_def args_ok_def)
  qed
  have "fx_facts (fx_canon p) = Some (map Some (map ?c fs))"
    by (simp add: fx_canon_def fs)
  moreover have "fx_account_id (fx_canon p) = Some a" "fx_message_id (fx_canon p) = Some m"
    "fx_extracted_at (fx_canon p) = fx_extracted_at p"
    using am by (simp_all add: fx_canon_def)
  moreover have "nonempty_ok a" "nonempty_ok m"
    using wf am fx_strings_fit(1,2) [OF fits] by (auto simp: fx_strings_wf_def nonempty_ok_def string_ok_def)
  moreover have "length fs \<le> G_MAXUINT32"
    using wf fs by (simp add: fx_strings_wf_def)
  ultimately have "fx_ok (fx_canon p) \<longleftrightarrow>
      list_all (\<lambda>f. fx_fact_ok (fx_extracted_at p) f \<and> (\<exists>as. fr_args f = Some (m # as))) (map ?c fs)"
    using fx_ok_iff [of "fx_canon p" a m "map ?c fs"] by (simp only: length_map simp_thms)
  also have "\<dots> \<longleftrightarrow> list_all (\<lambda>f. predicate_ok (fr_predicate f) \<and> fr_confidence_ppm f \<le> confidence_exact \<and>
      fx_extracted_at p \<noteq> 0) fs"
    using ok w by (fastforce simp: list_all_iff)
  also have "\<dots> \<longleftrightarrow> fx_facts_wf p"
    using fs by (auto simp: fx_facts_wf_def list_all_iff)
  finally show ?thesis .
qed

interpretation fx_codec: exact_codec fx_encode fx_decode fx_canon "\<lambda>p. fx_strings_wf p \<and> fx_facts_wf p" G_MAXUINT32
proof
  fix p data
  assume wf: "fx_strings_wf p \<and> fx_facts_wf p" and e: "fx_encode p = Inr data"
  then have w: "fx_named p" "list_all (fx_writable (the (fx_message_id p))) (fx_fact_list p)"
    "length (fx_raw p) \<le> G_MAXUINT32" "data = fx_raw p"
    by (simp_all add: fx_encode_iff)
  then show "fx_decode data = Inr (fx_canon p)"
    using fx_encoded_ok [OF w(1-3)] wf fx_raw_canon [OF w(2)] by (simp add: fx_decode_iff)
next
  fix data p
  assume "fx_decode data = Inr p" and small: "length data \<le> G_MAXUINT32"
  then have ok: "fx_ok p" and raw: "data = fx_raw p"
    by (simp_all add: fx_decode_iff)
  obtain a m fs where f: "fx_account_id p = Some a" "fx_message_id p = Some m" "fx_facts p = Some (map Some fs)"
    and o: "nonempty_ok a" "nonempty_ok m" "length fs \<le> G_MAXUINT32"
      "\<forall>f \<in> set fs. fx_fact_ok (fx_extracted_at p) f \<and> (\<exists>as. fr_args f = Some (m # as))"
    using ok by (auto simp: fx_ok_def list_all_iff)
  have l: "fx_fact_list p = map Some fs"
    using f by (simp add: fx_fact_list_def)
  have "fx_named p"
    using f o by (auto simp: fx_named_def nonempty_ok_def)
  moreover have "list_all (fx_writable (the (fx_message_id p))) (fx_fact_list p)"
  proof -
    have "fx_writable m (Some f)" if "f \<in> set fs" for f
    proof -
      from o(4) that obtain as where "fr_args f = Some (m # as)" "fx_fact_ok (fx_extracted_at p) f"
        by auto
      then show ?thesis
        by (auto simp: fx_writable_def fx_fact_ok_def fact_wf_def predicate_ok_def nonempty_ok_def list_all_iff)
    qed
    then show ?thesis
      using f l by (simp add: list_all_iff)
  qed
  moreover have "fx_strings_wf p"
    using o f unfolding fx_strings_wf_def l
    by (auto simp: fx_fact_ok_def fact_wf_def nonempty_ok_def string_ok_def strv_wf_def list_all_iff predicate_ok_def)
  moreover have "fx_facts_wf p"
    using o unfolding fx_facts_wf_def l by (auto simp: fx_fact_ok_def fact_wf_def)
  moreover have "f\<lparr>fr_created_at := fx_extracted_at p, fr_retracted_at := 0\<rparr> = f" if "f \<in> set fs" for f
    using o(4) that by (cases f) (auto simp: fx_fact_ok_def)
  then have "fx_canon p = p"
    using f by (cases p) (simp add: fx_canon_def fx_fact_list_def map_idI)
  ultimately show "fx_encode p = Inr data \<and> (fx_strings_wf p \<and> fx_facts_wf p) \<and> fx_canon p = p"
    using raw small by (simp add: fx_encode_iff)
qed

end
