(* ===== verification/Fact_Properties.thy ===== *)
theory Fact_Properties
  imports Fact_Reconciliation Fact_Snapshot Facts_Extracted
begin

text \<open>
  The properties of the fact components, with the concrete facts and requests that
  instantiate them.
\<close>

section \<open>Concrete facts\<close>

definition sample_fact :: "bytes \<Rightarrow> fact_record" where
  "sample_fact arg = \<lparr>fr_predicate = Some ([115, 112]), fr_args = Some [arg, [34, 10]], fr_source = Some ([114]),
     fr_confidence_ppm = 900000, fr_created_at = 5, fr_retracted_at = 0\<rparr>"

definition sample_request :: "nat \<Rightarrow> fact_mutation_request" where
  "sample_request mutation = \<lparr>fm_mutation = mutation, fm_predicate_id = Some ([115, 112]), fm_scope_id = Some ([117]),
     fm_arguments = Some [[109, 49]]\<rparr>"

definition sample_extracted :: "u64 \<Rightarrow> facts_extracted_payload" where
  "sample_extracted at = \<lparr>fx_account_id = Some ([97]), fx_message_id = Some ([109, 49]), fx_extracted_at = at,
     fx_facts = Some [Some (sample_fact ([109, 49]))]\<rparr>"

lemmas ascii_defs = g_ascii_isalnum_def g_ascii_isdigit_def g_ascii_isupper_def g_ascii_islower_def g_ascii_iscntrl_def

lemma sample_predicate [simp]: "predicate_ok (Some ([115, 112]))"
  by (simp add: predicate_ok_def is_predicate_start_def is_predicate_char_def ascii_defs)

lemma sample_fact_ok: "arg \<noteq> [] \<Longrightarrow> fact_wf (sample_fact arg)"
  by (simp add: fact_wf_def sample_fact_def args_ok_def confidence_exact_def)

lemma sample_mutation [simp]: "fm_mutation (sample_request m) = m"
  by (simp add: sample_request_def)

lemma sample_request_ok:
  "m \<le> 1 \<Longrightarrow> fm_valid (sample_request m)" "fm_fits (sample_request m)" "fm_wf (sample_request m)"
  "length (fm_raw (sample_request m)) \<le> G_MAXSIZE"
  unfolding length_fm_raw
  by (simp_all add: sample_request_def fm_valid_def fm_fits_def fm_wf_def text_ok_def strv_wf_def nul_free_def
      ascii_defs)

text \<open>A journal with one insert; the digest is constant.\<close>

definition sample_log :: "(nat \<times> bytes) list" where
  "sample_log = [(3, fm_raw (sample_request 0))]"

definition sample_journal :: bytes where
  "sample_journal = log_bytes zero_digest 1 sample_log"

lemma fact_event_names:
  "event_type_to_string 3 = Some (lit ''FactInserted'')" "event_type_to_string 4 = Some (lit ''FactRetracted'')"
  by (simp_all add: event_type_to_string_def validate_event_type_def event_type_names_def)

lemma length_sample_raw: "length (fm_raw (sample_request m)) = 30"
  unfolding length_fm_raw by (simp add: sample_request_def)

lemma sample_record_ok: "m \<le> 1 \<Longrightarrow> record_ok zero_digest s (3 + m, fm_raw (sample_request m))"
  using fact_event_names by (auto simp: record_ok_def length_sample_raw le_Suc_eq)

lemma sample_journal_log:
  "log_ok zero_digest 1 sample_log" "length sample_journal = 106"
  using sample_record_ok [of 0] length_record_bytes [OF fact_event_names(1) sample_record_ok [of 0, simplified]]
  by (simp_all add: sample_log_def sample_journal_def length_sample_raw)

section \<open>Snapshots that extend a snapshot\<close>

lemma facts_unique:
  assumes "set fs = facts_since M" "sorted_wrt (\<lambda>a b. compare_fact_records a b < 0) fs"
    and "set gs = facts_since M" "sorted_wrt (\<lambda>a b. compare_fact_records a b < 0) gs"
  shows "fs = gs"
proof -
  have cmp: "compare_fact_records a b < 0 \<longleftrightarrow> fact_order_key a < fact_order_key b"
    if "a \<in> facts_since M" "b \<in> facts_since M" for a b
    using that by (subst compare_fact_compares) (auto simp: facts_since_def)
  have srt: "sorted_wrt (<) (map fact_order_key xs)"
    if "set xs = facts_since M" "sorted_wrt (\<lambda>a b. compare_fact_records a b < 0) xs" for xs
    unfolding sorted_wrt_map using that(2) by (rule sorted_wrt_mono_rel [rotated]) (simp add: cmp that(1))
  have inj: "inj_on fact_order_key (facts_since M)"
    by (rule inj_onI) (auto simp: facts_since_def order_key_fact_of)
  have "map fact_order_key fs = map fact_order_key gs"
    using srt [OF assms(1,2)] srt [OF assms(3,4)] assms(1,3)
    by (intro strict_sorted_equal) auto
  then show ?thesis
    using inj assms(1,3) by (intro map_inj_on [of fact_order_key]) simp_all
qed

lemma fact_operations_append:
  "fact_operations (xs @ ys) =
     bindE (fact_operations xs) (\<lambda>ops. bindE (fact_operations ys) (\<lambda>ops'. Inr (ops @ ops')))"
proof (induction xs)
  case Nil
  then show ?case by (cases "fact_operations ys") simp_all
next
  case (Cons x xs)
  then show ?case by (cases "fact_operation x"; cases "fact_operations xs"; cases "fact_operations ys") simp_all
qed

lemma journalled_operation:
  assumes "fm_wf req" "fact_mutation_request_encode req = Inr data" "fact_mutation_request_get_event req = Inr t"
  shows "fact_operations [\<lparr>rec_offset = off, rec_sequence = s, rec_event_type = t, rec_payload = data\<rparr>] = Inr [(s, req)]"
proof -
  have "is_fact_event t"
    using assms(3) by (auto simp: get_event_Inr is_fact_event_def)
  moreover have "fact_mutation_request_decode data = Inr req"
    using assms(1,2) by (rule fm_codec.round)
  ultimately show ?thesis
    using assms(3) by (simp add: fact_operation_def record_event_matches_request_def)
qed

text \<open>What a journalled request does to the journal.\<close>

lemma append_request_log:
  assumes "log_ok sha 1 rs" "sha256_like sha" "w_next_sequence w = 1 + of_nat (length rs)"
    and "fact_mutation_request_append_journal sha io w (log_bytes sha 1 rs) req = (Some (Inr (off, s)), w', seg')"
  obtains t data where "fact_mutation_request_get_event req = Inr t" "fact_mutation_request_encode req = Inr data"
    "log_ok sha 1 (rs @ [(t, data)])" "seg' = log_bytes sha 1 (rs @ [(t, data)])" "s = 1 + of_nat (length rs)"
proof -
  obtain t data where e: "fact_mutation_request_get_event req = Inr t" "fact_mutation_request_encode req = Inr data"
    and a: "append_unlocked sha io w (log_bytes sha 1 rs) t (Some data) = (Some (Inr (off, s)), w', seg')"
    using assms(4) by (auto simp: fact_mutation_request_append_journal_def writer_append_def split: sum.splits)
  from a obtain name where name: "event_type_to_string t = Some name" and s: "s = w_next_sequence w"
    and seg: "seg' = log_bytes sha 1 rs @ record_bytes sha (w_next_sequence w) (t, payload_bytes (Some data))"
    by (cases rule: append_outcome) auto
  have "length data \<le> G_MAXSIZE"
    using e(2) by (auto simp: fm_encode_iff)
  then have "record_ok sha (w_next_sequence w) (t, data)"
    using name assms(2) by (simp add: record_ok_def sha256_like_def)
  then have "log_ok sha 1 (rs @ [(t, data)])" "seg' = log_bytes sha 1 (rs @ [(t, data)])"
    using assms(1,3) seg by (simp_all add: log_ok_append log_bytes_append)
  with that e s assms(3) show thesis by simp
qed

lemma sample_operations: "fact_operations (log_records zero_digest 0 1 sample_log) = Inr [(1, sample_request 0)]"
  using journalled_operation [of "sample_request 0" "fm_raw (sample_request 0)" 3] sample_request_ok [of 0]
    get_event_valid [of "sample_request 0"]
  by (simp add: sample_log_def fm_encode_iff del: fact_operations.simps)

lemma sample_active: "active_since [(1, sample_request 0)] = (\<lambda>_. None)(request_id (sample_request 0) \<mapsto> 1)"
  by (simp add: active_since_def mutate_def Let_def sample_request_def)

section \<open>Properties\<close>

text \<open>
  C22. A fact cannot be forged through its arguments: the Wirelog text of an array of facts
  determines the predicate and the arguments of every fact in it, whatever bytes the arguments
  hold, and it has exactly one line for each fact.
\<close>

theorem wirelog_text_determines_facts:
  assumes "fact_record_array_to_wirelog_facts rs = Inr t" "fact_record_array_to_wirelog_facts qs = Inr t"
  shows "map (map_option fact_atom) rs = map (map_option fact_atom) qs \<and> count_list t 10 = length rs"
  using fact_lines_inj [of rs t qs] fact_lines_count [of rs t] assms
  unfolding fact_record_array_to_wirelog_facts_def by blast

theorem wirelog_text_determines_facts_run:
  "\<exists>t. fact_record_array_to_wirelog_facts [Some (sample_fact [97]), Some (sample_fact [98])] = Inr t \<and> count_list t 10 = 2"
proof -
  have "\<exists>t. fact_record_array_to_wirelog_facts [Some (sample_fact [97]), Some (sample_fact [98])] = Inr t"
    using sample_fact_ok [of "[97]"] sample_fact_ok [of "[98]"]
    by (simp add: fact_record_array_to_wirelog_facts_def bindE_Inr_iff fact_line_Inr fact_wf_def)
  then obtain t where t: "fact_record_array_to_wirelog_facts [Some (sample_fact [97]), Some (sample_fact [98])] = Inr t"
    by blast
  with wirelog_text_determines_facts [OF t t] show ?thesis by simp
qed

text \<open>
  Dump file names are safe: a name has at most \<^verbatim>\<open>NAME_MAX\<close> bytes, none of them a slash
  or a zero byte, it is not hidden, and the names of two dumps compare like their journal
  sequence numbers, whatever the batch ids are.
\<close>

lemma dump_filename_safe:
  assumes "build_wirelog_dump_filename b s = Inr name"
  shows "length name \<le> NAME_MAX \<and> 47 \<notin> set name \<and> 0 \<notin> set name \<and> hd name \<noteq> 46 \<and>
    (\<forall>b' s' name'. build_wirelog_dump_filename b' s' = Inr name' \<and> s < s' \<longrightarrow> strcmp name name' < 0)"
proof -
  from assms obtain c cs where n: "length cs < 231"
    "name = print_padded 20 (unat s) @ lit ''-'' @ map (\<lambda>c. if is_dump_filename_char c then c else 95) (c # cs) @ lit ''.wl''"
    by (auto simp: dump_filename_Inr)
  have chars: "is_dump_filename_char 95" "\<not> is_dump_filename_char 47" "\<not> is_dump_filename_char 0"
    by (simp_all add: is_dump_filename_char_def ascii_defs)
  have lits: "set (lit ''-'') = {45}" "set (lit ''.wl'') = {46, 119, 108}"
    by (auto simp: lit_def of_char_def)
  have digits: "\<forall>x \<in> set (print_padded 20 (unat s)). 48 \<le> x \<and> x \<le> 57"
    using print_padded_digits [of 20 "unat s"] by (simp add: list_all_iff g_ascii_isdigit_def)
  have dig: "47 \<notin> set (print_padded 20 (unat s))" "0 \<notin> set (print_padded 20 (unat s))" "46 \<notin> set (print_padded 20 (unat s))"
    using digits by auto
  have ne: "print_padded 20 (unat s) \<noteq> []"
    using length_sequence_digits [of s] by (metis length_0_conv zero_neq_numeral)
  have "length name \<le> NAME_MAX"
    using n by simp
  moreover have "47 \<notin> set name \<and> 0 \<notin> set name"
    using n(2) dig(1,2) chars lits by (auto split: if_splits)
  moreover have "hd name \<noteq> 46"
  proof -
    obtain d ds where "print_padded 20 (unat s) = d # ds"
      using ne by (cases "print_padded 20 (unat s)") auto
    with n(2) dig(3) show ?thesis by auto
  qed
  moreover have "strcmp name name' < 0" if "build_wirelog_dump_filename b' s' = Inr name'" "s < s'" for b' s' name'
  proof -
    from that(1) obtain r where n': "name' = print_padded 20 (unat s') @ r"
      by (auto simp: dump_filename_Inr)
    have lt: "strcmp (print_padded 20 (unat s)) (print_padded 20 (unat s')) < 0"
      using that(2) by (simp add: strcmp_digits print_padded_digits word_less_nat_alt)
    then have "print_padded 20 (unat s) \<noteq> print_padded 20 (unat s')"
      by (metis less_irrefl strcmp_zero)
    with lt n(2) n' show ?thesis
      by (simp add: strcmp_append)
  qed
  ultimately show ?thesis by blast
qed

text \<open>
  C23. Reconciliation computes exactly the difference of two snapshots: it succeeds if and only
  if the time stamp is set, both snapshots hold active facts with distinct identities and the
  facts that change can be copied and retracted at that time; the changes are then the
  retractions of the facts that are gone, in the order of the old snapshot, followed by the
  facts that are new, in the order of the new one.
\<close>

theorem reconcile_exact:
  "reconcile (Some ps) (Some ns) at = Inr changes \<longleftrightarrow> at \<noteq> 0 \<and>
     (\<exists>previous new. ps = map Some previous \<and> ns = map Some new \<and>
        active_snapshot previous \<and> active_snapshot new \<and>
        list_all (\<lambda>r. fact_wf r \<and> fr_created_at r \<le> at) (facts_without (identities new) previous) \<and>
        list_all fact_wf (facts_without (identities previous) new) \<and>
        changes = map (\<lambda>r. r\<lparr>fr_retracted_at := at\<rparr>) (facts_without (identities new) previous) @
          facts_without (identities previous) new)"
  by (rule reconcile_Inr)

text \<open>What a list of changes does to a set of identities.\<close>

fun apply_change :: "identity set \<Rightarrow> fact_record \<Rightarrow> identity set" where
  "apply_change ids r = (if fr_retracted_at r \<noteq> 0 then ids - {fact_identity r} else insert (fact_identity r) ids)"

lemma fold_retracted: "list_all (\<lambda>r. fr_retracted_at r \<noteq> 0) rs \<Longrightarrow> foldl apply_change ids rs = ids - identities rs"
  by (induction rs arbitrary: ids) (auto simp: identities_def)

lemma fold_inserted: "list_all (\<lambda>r. fr_retracted_at r = 0) rs \<Longrightarrow> foldl apply_change ids rs = ids \<union> identities rs"
  by (induction rs arbitrary: ids) (auto simp: identities_def)

lemma identity_retracted [simp]: "fact_identity (r\<lparr>fr_retracted_at := t\<rparr>) = fact_identity r"
  by (simp add: fact_identity_def)

lemma identities_without: "identities (facts_without ids rs) = identities rs - ids"
  by (auto simp: identities_def facts_without_def)

text \<open>
  C24. Reconciliation reaches the new snapshot with as few changes as possible: applying the
  changes one after another to the old identities gives the new ones, no identity occurs
  twice among the changes, and each of them is in exactly one of the two snapshots.
\<close>

theorem reconcile_reaches_new:
  assumes "reconcile (Some (map Some previous)) (Some (map Some new)) at = Inr changes"
  shows "foldl apply_change (identities previous) changes = identities new \<and> distinct (map fact_identity changes) \<and>
    identities changes = (identities previous - identities new) \<union> (identities new - identities previous)"
proof -
  have inj: "map Some xs = map Some ys \<Longrightarrow> xs = ys" for xs ys :: "fact_record list"
    by (rule map_injective [OF _ inj_Some])
  let ?gone = "facts_without (identities new) previous"
  let ?retire = "\<lambda>r. r\<lparr>fr_retracted_at := at\<rparr>"
  let ?new = "facts_without (identities previous) new"
  from assms [unfolded reconcile_Inr] obtain ps ns where at: "at \<noteq> 0"
    and q: "map Some previous = map Some ps" "map Some new = map Some ns" "active_snapshot ps" "active_snapshot ns"
      "changes = map (\<lambda>r. r\<lparr>fr_retracted_at := at\<rparr>) (facts_without (identities ns) ps) @ facts_without (identities ps) ns"
    by blast
  have act: "active_snapshot previous" "active_snapshot new" and c: "changes = map ?retire ?gone @ ?new"
    using q inj [OF q(1)] inj [OF q(2)] by simp_all
  have ids: "identities (map ?retire ?gone) = identities previous - identities new"
    unfolding identities_without [symmetric] by (simp add: identities_def image_image)
  have "foldl apply_change (identities previous) changes =
      (identities previous - identities (map ?retire ?gone)) \<union> identities ?new"
  proof -
    have "list_all (\<lambda>r. fr_retracted_at r \<noteq> 0) (map ?retire ?gone)" "list_all (\<lambda>r. fr_retracted_at r = 0) ?new"
      using at act(2) by (auto simp: list_all_iff facts_without_def active_snapshot_def)
    then show ?thesis
      unfolding c foldl_append by (simp only: fold_retracted fold_inserted)
  qed
  also have "\<dots> = identities new"
    unfolding ids identities_without by blast
  finally have "foldl apply_change (identities previous) changes = identities new" .
  moreover have "identities changes = (identities previous - identities new) \<union> (identities new - identities previous)"
    using ids identities_without [of "identities previous" new] by (simp add: c identities_def image_Un)
  moreover have "distinct (map fact_identity changes)"
  proof -
    have "distinct (map fact_identity ?gone)" "distinct (map fact_identity ?new)"
      using act by (auto simp: active_snapshot_def facts_without_def distinct_map inj_on_def)
    moreover have "identities ?gone \<inter> identities ?new = {}"
      unfolding identities_without by blast
    ultimately show ?thesis
      unfolding c by (simp add: o_def identities_def)
  qed
  ultimately show ?thesis by blast
qed

theorem reconcile_reaches_new_run:
  "\<exists>changes. reconcile (Some (map Some [sample_fact [97], sample_fact [98]]))
      (Some (map Some [sample_fact [98], sample_fact [99]])) 7 = Inr changes \<and>
    foldl apply_change (identities [sample_fact [97], sample_fact [98]]) changes =
      identities [sample_fact [98], sample_fact [99]]"
proof -
  let ?f = sample_fact
  have w: "fact_wf (?f [97])" "fact_wf (?f [98])" "fact_wf (?f [99])"
    by (simp_all add: sample_fact_ok)
  have act: "active_snapshot [?f [97], ?f [98]]" "active_snapshot [?f [98], ?f [99]]"
    using w [THEN fact_wf_keyable] by (simp_all add: active_snapshot_def sample_fact_def fact_identity_def)
  have "facts_without (identities [?f [98], ?f [99]]) [?f [97], ?f [98]] = [?f [97]]"
    "facts_without (identities [?f [97], ?f [98]]) [?f [98], ?f [99]] = [?f [99]]"
    by (simp_all add: facts_without_def identities_def fact_identity_def sample_fact_def)
  moreover have "fr_created_at (?f [97]) = 5"
    by (simp add: sample_fact_def)
  ultimately have "\<exists>changes. reconcile (Some (map Some [?f [97], ?f [98]])) (Some (map Some [?f [98], ?f [99]])) 7 = Inr changes"
    unfolding reconcile_Inr using act w
    by (intro exI conjI) (rule refl | simp)+
  then obtain changes where c: "reconcile (Some (map Some [?f [97], ?f [98]])) (Some (map Some [?f [98], ?f [99]])) 7 = Inr changes"
    by blast
  with reconcile_reaches_new [OF c] show ?thesis by blast
qed

text \<open>
  C25. The snapshot of a journal is what its mutations say: loading succeeds if and only if the
  segment is a log in which every record of a fact event holds a valid request of that kind;
  the result is then the strictly sorted list of the facts that were inserted and not
  retracted since, each stamped with the sequence number of its insert, whatever order the
  hash table yields its values in. In particular no assertion fails.
\<close>

theorem snapshot_exact:
  assumes "length seg \<le> G_MAXSIZE" "enumerates get_values"
  shows "load_active sha get_values root (Some seg) = Inr facts \<longleftrightarrow> root \<noteq> [] \<and>
    (\<exists>rs ops. log_ok sha 1 rs \<and> seg = log_bytes sha 1 rs \<and> fact_operations (log_records sha 0 1 rs) = Inr ops \<and>
       set facts = {fact_of i s | i s. active_since ops i = Some s} \<and>
       sorted_wrt (\<lambda>a b. compare_fact_records a b < 0) facts \<and>
       (\<forall>i. (\<exists>s. fact_of i s \<in> set facts) \<longleftrightarrow> (\<exists>k. inserted_at ops i k)))"
    (is "?L \<longleftrightarrow> ?R")
proof -
  have inj: "fact_of i s = fact_of j u \<longleftrightarrow> i = j \<and> s = u" for i j s u
    by (metis order_key_fact_of fact_of_fields(5))
  have act: "(\<exists>s. fact_of i s \<in> set facts) \<longleftrightarrow> (\<exists>k. inserted_at ops i k)"
    if "set facts = {fact_of i s | i s. active_since ops i = Some s}" for i ops
    unfolding active_since_iff [symmetric] that by (auto simp: inj)
  show ?thesis
  proof
    assume L: ?L
    from load_active_Inr [OF assms(1) L] obtain rs where rs: "root \<noteq> []" "log_ok sha 1 rs" "seg = log_bytes sha 1 rs"
      by blast
    have "length (log_bytes sha 1 rs) \<le> G_MAXSIZE"
      using rs assms(1) by simp
    from load_active_log [OF rs(1,2) this assms(2)] L rs(3) obtain ops where
      "fact_operations (log_records sha 0 1 rs) = Inr ops" "set facts = facts_since (active_since ops)"
      "sorted_wrt (\<lambda>a b. compare_fact_records a b < 0) facts"
      by (cases "fact_operations (log_records sha 0 1 rs)") auto
    with rs act [of ops] show ?R
      unfolding facts_since_def by blast
  next
    assume ?R
    then obtain rs ops where r: "root \<noteq> []" "log_ok sha 1 rs" "seg = log_bytes sha 1 rs"
      "fact_operations (log_records sha 0 1 rs) = Inr ops" "set facts = facts_since (active_since ops)"
      "sorted_wrt (\<lambda>a b. compare_fact_records a b < 0) facts"
      unfolding facts_since_def by blast
    have "length (log_bytes sha 1 rs) \<le> G_MAXSIZE"
      using r assms(1) by simp
    from load_active_log [OF r(1,2) this assms(2)] r(4) obtain facts' where
      f: "load_active sha get_values root (Some (log_bytes sha 1 rs)) = Inr facts'"
      "set facts' = facts_since (active_since ops)" "sorted_wrt (\<lambda>a b. compare_fact_records a b < 0) facts'"
      by auto
    then show ?L
      using facts_unique [OF r(5,6) f(2,3)] r(3) by simp
  qed
qed

theorem snapshot_exact_run:
  "load_active zero_digest (map snd) [106] (Some sample_journal) = Inr [fact_of (request_id (sample_request 0)) 1]"
proof -
  let ?q = "sample_request 0"
  have g: "enumerates (map snd)"
    by (simp add: enumerates_def)
  note ops = sample_operations
  note since = sample_active
  have facts: "set [fact_of (request_id ?q) 1] = {fact_of i s | i s. active_since [(1, ?q)] i = Some s}"
    by (auto simp: since split: if_splits)
  have act: "(\<exists>s. fact_of i s \<in> set [fact_of (request_id ?q) 1]) \<longleftrightarrow> (\<exists>k. inserted_at [(1, ?q)] i k)" for i
    unfolding active_since_iff [symmetric] since by (auto dest: arg_cong [of _ _ fact_order_key] simp: order_key_fact_of)
  have small: "length sample_journal \<le> G_MAXSIZE"
    using sample_journal_log by simp
  have sorted: "sorted_wrt (\<lambda>a b. compare_fact_records a b < 0) [fact_of (request_id ?q) 1]"
    by simp
  have root: "[106] \<noteq> ([] :: bytes)"
    by simp
  have "\<forall>i. (\<exists>s. fact_of i s \<in> set [fact_of (request_id ?q) 1]) \<longleftrightarrow> (\<exists>k. inserted_at [(1, ?q)] i k)"
    using act by blast
  with root sorted ops facts sample_journal_log(1) sample_journal_def show ?thesis
    by (intro snapshot_exact [OF small g, THEN iffD2] conjI exI [of _ sample_log] exI [of _ "[(1, ?q)]"])
qed

lemma facts_since_insert:
  assumes "M i = None"
  shows "facts_since (M(i \<mapsto> s)) = insert (fact_of i s) (facts_since M)"
proof -
  have "f \<in> facts_since (M(i \<mapsto> s))" if "f = fact_of j u" "M j = Some u" for f j u
  proof -
    have "(M(i \<mapsto> s)) j = Some u"
      using that(2) assms by auto
    with that(1) show ?thesis
      unfolding facts_since_def by blast
  qed
  moreover have "fact_of i s \<in> facts_since (M(i \<mapsto> s))"
    unfolding facts_since_def using fun_upd_same [of M i] by blast
  ultimately have "insert (fact_of i s) (facts_since M) \<subseteq> facts_since (M(i \<mapsto> s))"
    unfolding facts_since_def [of M] by blast
  moreover have "facts_since (M(i \<mapsto> s)) \<subseteq> insert (fact_of i s) (facts_since M)"
    by (auto simp: facts_since_def split: if_splits)
  ultimately show ?thesis by blast
qed

text \<open>
  C26. An acknowledged fact mutation is visible and changes nothing else: when the snapshot of a
  journal could be loaded and a writer that was opened on it has appended an insert or retract
  request, the snapshot can be loaded again; an insert adds the one fact, stamped with the
  sequence number of the append, unless it was active already, and a retraction removes it.
\<close>

theorem fact_mutation_visible:
  assumes "sha256_like sha" "enumerates get_values" "fm_wf req" "length seg' \<le> G_MAXSIZE"
    and "load_active sha get_values root (Some seg) = Inr facts"
    and "writer_new sha oio root (Some seg) = (Inr w, Some seg)"
    and "fact_mutation_request_append_journal sha io w seg req = (Some (Inr (off, s)), w', seg')"
  shows "\<exists>facts'. load_active sha get_values root (Some seg') = Inr facts' \<and>
    set facts' =
      (if fm_mutation req = FACT_MUTATION_INSERT
       then (if \<exists>u. fact_of (request_id req) u \<in> set facts then set facts
             else insert (fact_of (request_id req) s) (set facts))
       else {f \<in> set facts. \<forall>u. f \<noteq> fact_of (request_id req) u})"
proof -
  obtain k where k: "seg' = seg @ k"
    using assms(7) append_any
    by (auto simp: fact_mutation_request_append_journal_def writer_append_def split: sum.splits)
      (metis append_any)+
  then have small: "length seg \<le> G_MAXSIZE"
    using assms(4) by simp
  from load_active_Inr [OF small assms(5)] obtain rs where rs: "root \<noteq> []" "log_ok sha 1 rs" "seg = log_bytes sha 1 rs"
    by blast
  from writer_new_Inr [OF assms(6) small] obtain qs where
    "log_ok sha 1 qs" "seg = log_bytes sha 1 qs" "w_next_sequence w = 1 + of_nat (length qs)"
    by auto
  then have next_seq: "w_next_sequence w = 1 + of_nat (length rs)"
    using log_bytes_inject [OF rs(2)] rs(3) by metis
  from append_request_log [OF rs(2) assms(1) next_seq assms(7) [unfolded rs(3)]] obtain t data where
    d: "fact_mutation_request_get_event req = Inr t" "fact_mutation_request_encode req = Inr data"
    and log': "log_ok sha 1 (rs @ [(t, data)])" "seg' = log_bytes sha 1 (rs @ [(t, data)])"
    and s: "s = 1 + of_nat (length rs)"
    by blast
  from load_active_log [OF rs(1,2) _ assms(2)] assms(5) small rs(3) obtain ops where
    ops: "fact_operations (log_records sha 0 1 rs) = Inr ops" "set facts = facts_since (active_since ops)"
    by (cases "fact_operations (log_records sha 0 1 rs)") auto
  have "fact_operations (log_records sha 0 1 (rs @ [(t, data)])) = Inr (ops @ [(s, req)])"
    using ops(1) journalled_operation [OF assms(3) d(2,1)] s
    by (simp add: log_records_append fact_operations_append del: fact_operations.simps)
  with load_active_log [OF rs(1) log'(1) _ assms(2)] log'(2) assms(4) obtain facts' where
    f: "load_active sha get_values root (Some seg') = Inr facts'"
      "set facts' = facts_since (mutate (active_since ops) (s, req))"
    by (auto simp: active_since_snoc)
  have inj: "fact_of i s = fact_of j u \<longleftrightarrow> i = j \<and> s = u" for i j s u
    by (metis order_key_fact_of fact_of_fields(5))
  have "facts_since (mutate M (s, req)) =
      (if fm_mutation req = FACT_MUTATION_INSERT
       then (if \<exists>u. fact_of (request_id req) u \<in> facts_since M then facts_since M
             else insert (fact_of (request_id req) s) (facts_since M))
       else {f \<in> facts_since M. \<forall>u. f \<noteq> fact_of (request_id req) u})" for M
    using facts_since_insert [of M "request_id req" s]
    by (cases "M (request_id req)") (auto simp: facts_since_def mutate_def Let_def inj)
  with f ops(2) show ?thesis by auto
qed

lemma sample_snapshot:
  "\<exists>facts. load_active zero_digest (map snd) [106] (Some sample_journal) = Inr facts \<and>
     set facts = {fact_of (request_id (sample_request 0)) 1}"
proof -
  let ?q = "sample_request 0"
  have ops: "fact_operations (log_records zero_digest 0 1 sample_log) = Inr [(1, ?q)]"
    by (rule sample_operations)
  have "facts_since (active_since [(1, ?q)]) = {fact_of (request_id ?q) 1}"
    unfolding sample_active facts_since_def by (auto split: if_splits)
  moreover have "length (log_bytes zero_digest 1 sample_log) \<le> G_MAXSIZE" "enumerates (map snd)"
    using sample_journal_log(2) by (simp_all add: sample_journal_def enumerates_def)
  moreover have "[106] \<noteq> ([] :: bytes)" by simp
  ultimately show ?thesis
    using load_active_log [OF _ sample_journal_log(1), of "[106]" "map snd"] ops by (auto simp: sample_journal_def)
qed

theorem fact_mutation_visible_run:
  "\<exists>w io off s w' seg' facts'.
    writer_new zero_digest open_io_ok [106] (Some sample_journal) = (Inr w, Some sample_journal) \<and>
    fact_mutation_request_append_journal zero_digest io w sample_journal (sample_request 1) = (Some (Inr (off, s)), w', seg') \<and>
    load_active zero_digest (map snd) [106] (Some seg') = Inr facts' \<and> set facts' = {}"
proof -
  let ?q = "sample_request 1"
  let ?io = "\<lparr>io_lseek_ok = True, io_writes = replicate 200 (Wrote 1), io_fsync_ok = True\<rparr>"
  have two: "(1 + of_nat (length sample_log) :: u64) = 2"
    by (simp add: sample_log_def)
  have small: "length (log_bytes zero_digest 1 sample_log) \<le> G_MAXSIZE"
    using sample_journal_log(2) by (simp add: sample_journal_def)
  obtain w where w: "writer_new zero_digest open_io_ok [106] (Some sample_journal) = (Inr w, Some sample_journal)"
    "\<not> w_failed w"
    using writer_new_log [OF _ sample_journal_log(1) small, of "[106]"] two by (simp add: sample_journal_def)
  have len: "length (record_bytes zero_digest u (4, fm_raw ?q)) = 107" for u
    using length_record_bytes [OF fact_event_names(2) sample_record_ok [of 1, simplified]] by (simp add: length_sample_raw)
  have prog: "writes_progress (io_writes ?io) (length (record_bytes zero_digest (w_next_sequence w) (4, fm_raw ?q)))"
    unfolding writes_progress_def len by simp
  have ev: "fact_mutation_request_get_event ?q = Inr 4" "fact_mutation_request_encode ?q = Inr (fm_raw ?q)"
    using sample_request_ok [of 1] get_event_valid [of ?q] by (simp_all add: fm_encode_iff)
  obtain w' seg' where a: "fact_mutation_request_append_journal zero_digest ?io w sample_journal ?q =
      (Some (Inr (length sample_journal, w_next_sequence w)), w', seg')"
      "length seg' = 213"
    using append_progress [OF w(2) fact_event_names(2), of ?io zero_digest "Some (fm_raw ?q)" sample_journal] prog ev
      sample_journal_log(2) len
    by (simp add: fact_mutation_request_append_journal_def writer_append_def)
  have "sha256_like zero_digest" "enumerates (map snd)" "fm_wf ?q" "length seg' \<le> G_MAXSIZE"
    using sample_request_ok a(2) by (simp_all add: sha256_like_def enumerates_def)
  note pre = this
  from sample_snapshot obtain facts where facts: "load_active zero_digest (map snd) [106] (Some sample_journal) = Inr facts"
    "set facts = {fact_of (request_id (sample_request 0)) 1}"
    by blast
  have "fm_mutation ?q \<noteq> FACT_MUTATION_INSERT"
    by (simp add: sample_request_def)
  with fact_mutation_visible [OF pre facts(1) w(1) a(1)] facts(2) obtain facts' where
    f: "load_active zero_digest (map snd) [106] (Some seg') = Inr facts'"
      "set facts' = {f \<in> {fact_of (request_id (sample_request 0)) 1}. \<forall>u. f \<noteq> fact_of (request_id ?q) u}"
    by (simp only: if_False) blast
  have "request_id ?q = request_id (sample_request 0)"
    by (simp add: request_id_def sample_request_def)
  with f(2) have "set facts' = {}"
    by auto
  with w(1) a(1) f(1) show ?thesis by blast
qed

lemma sample_extracted_ok:
  "fx_named (sample_extracted at)" "list_all (fx_writable [109, 49]) (fx_fact_list (sample_extracted at))"
  "fx_strings_wf (sample_extracted at)" "length (fx_raw (sample_extracted at)) \<le> G_MAXUINT32"
  "fx_facts_wf (sample_extracted at) \<longleftrightarrow> at \<noteq> 0" "fx_canon (sample_extracted 5) = sample_extracted 5"
  unfolding length_fx_raw
  by (simp_all add: fx_named_def sample_extracted_def fx_fact_list_def fx_writable_def sample_fact_def fx_strings_wf_def
      nul_free_def strv_wf_def length_fact_bytes fx_facts_wf_def fx_canon_def confidence_exact_def)

text \<open>
  C27. Fact mutations and FactsExtracted payloads have one encoding. A byte string decodes to a
  fact mutation request if and only if it is what the encoder writes for that request and its
  strings have no zero byte; one below 4 GiB decodes to a FactsExtracted payload if and only if
  it is what the encoder writes for that payload, its strings have no zero byte, its facts are
  sound and carry the extraction time.
\<close>

theorem fact_codecs_exact:
  "(length data \<le> G_MAXSIZE \<longrightarrow>
     (fact_mutation_request_decode data = Inr req \<longleftrightarrow> fm_wf req \<and> fact_mutation_request_encode req = Inr data)) \<and>
   (length data \<le> G_MAXUINT32 \<longrightarrow>
     (fx_decode data = Inr p \<longleftrightarrow>
        (fx_strings_wf p \<and> fx_facts_wf p) \<and> fx_canon p = p \<and> fx_encode p = Inr data))"
  using fm_codec.decode_iff_encode [of data req] fx_codec.decode_iff_encode [of data p] by simp

theorem fact_codecs_exact_run:
  "fact_mutation_request_decode (fm_raw (sample_request 1)) = Inr (sample_request 1) \<and>
   fx_decode (fx_raw (sample_extracted 5)) = Inr (sample_extracted 5)"
proof -
  have "fact_mutation_request_decode (fm_raw (sample_request 1)) = Inr (sample_request 1)"
    using fact_codecs_exact [of "fm_raw (sample_request 1)" "sample_request 1"] sample_request_ok [of 1]
    by (simp add: fm_encode_iff)
  moreover have "fx_encode (sample_extracted 5) = Inr (fx_raw (sample_extracted 5))"
    using sample_extracted_ok(1-5) [of 5] by (simp add: fx_encode_iff) (simp add: sample_extracted_def)
  ultimately show ?thesis
    using fact_codecs_exact [of "fx_raw (sample_extracted 5)" _ "sample_extracted 5"] sample_extracted_ok(1-5) [of 5] sample_extracted_ok(6)
    by simp
qed

section \<open>Encodings that do not decode\<close>

text \<open>The bytes of a fact determine it even where its contents are refused.\<close>

definition fact_texts_ok :: "fact_record \<Rightarrow> bool" where
  "fact_texts_ok f \<longleftrightarrow> string_ok (the (fr_predicate f)) \<and> string_ok (the (fr_source f)) \<and>
     list_all string_ok (strv_items (fr_args f)) \<and> length (strv_items (fr_args f)) \<le> G_MAXUINT32"

lemma strings_prefix_free:
  "list_all string_ok xs \<Longrightarrow> list_all string_ok ys \<Longrightarrow> length xs = length ys \<Longrightarrow>
   write_strings xs @ r = write_strings ys @ s \<Longrightarrow> xs = ys \<and> r = s"
proof (induction xs arbitrary: ys)
  case (Cons x xs)
  then obtain y ys' where y: "ys = y # ys'"
    by (cases ys) auto
  have "write_string x @ (write_strings xs @ r) = write_string y @ (write_strings ys' @ s)"
    using Cons.prems(4) y by (simp add: write_strings_def)
  with str_wire.enc_prefix_free [OF _ _ this] Cons.prems(1-3) Cons.IH [of ys'] y show ?case
    by auto
qed (simp add: write_strings_def)

lemma count_prefix_free:
  assumes "n \<le> G_MAXUINT32" "m \<le> G_MAXUINT32"
    and "write_u32_le (of_nat n) @ r = write_u32_le (of_nat m) @ s"
  shows "n = m \<and> r = s"
proof -
  from u32_wire.enc_prefix_free [OF TrueI TrueI assms(3)] have "(of_nat n :: u32) = of_nat m" "r = s"
    by simp_all
  then show ?thesis
    using assms(1,2) unat_of_nat_u32 by metis
qed

lemma fact_bytes_prefix_free:
  assumes "fact_texts_ok a" "fact_texts_ok b" "fact_bytes a @ r = fact_bytes b @ s"
  shows "the (fr_predicate a) = the (fr_predicate b) \<and> fr_confidence_ppm a = fr_confidence_ppm b \<and> r = s"
proof -
  let ?rest = "\<lambda>f r. write_u32_le (of_nat (length (strv_items (fr_args f)))) @ write_strings (strv_items (fr_args f)) @ r"
  have p: "string_ok (the (fr_predicate a))" "string_ok (the (fr_predicate b))" "string_ok (the (fr_source a))"
    "string_ok (the (fr_source b))" "list_all string_ok (strv_items (fr_args a))" "list_all string_ok (strv_items (fr_args b))"
    "length (strv_items (fr_args a)) \<le> G_MAXUINT32" "length (strv_items (fr_args b)) \<le> G_MAXUINT32"
    using assms(1,2) by (simp_all add: fact_texts_ok_def)
  have "write_string (the (fr_predicate a)) @ (write_string (the (fr_source a)) @ write_u32_le (fr_confidence_ppm a) @ ?rest a r) =
      write_string (the (fr_predicate b)) @ (write_string (the (fr_source b)) @ write_u32_le (fr_confidence_ppm b) @ ?rest b s)"
    using assms(3) by (simp add: fact_bytes_def)
  from str_wire.enc_prefix_free [OF p(1,2) this] have e1: "the (fr_predicate a) = the (fr_predicate b)"
    "write_string (the (fr_source a)) @ (write_u32_le (fr_confidence_ppm a) @ ?rest a r) =
      write_string (the (fr_source b)) @ (write_u32_le (fr_confidence_ppm b) @ ?rest b s)"
    by simp_all
  from str_wire.enc_prefix_free [OF p(3,4) e1(2)]
  have "write_u32_le (fr_confidence_ppm a) @ ?rest a r = write_u32_le (fr_confidence_ppm b) @ ?rest b s"
    by simp
  from u32_wire.enc_prefix_free [OF TrueI TrueI this] have e2: "fr_confidence_ppm a = fr_confidence_ppm b" "?rest a r = ?rest b s"
    by simp_all
  from count_prefix_free [OF p(7,8) e2(2)] strings_prefix_free [OF p(5,6), of r s] e1 e2 show ?thesis
    by simp
qed

lemma facts_bytes_agree:
  "list_all fact_texts_ok fs \<Longrightarrow> list_all fact_texts_ok gs \<Longrightarrow> length fs = length gs \<Longrightarrow>
   concat (map fact_bytes fs) = concat (map fact_bytes gs) \<Longrightarrow>
   map (\<lambda>f. (the (fr_predicate f), fr_confidence_ppm f)) fs = map (\<lambda>f. (the (fr_predicate f), fr_confidence_ppm f)) gs"
proof (induction fs arbitrary: gs)
  case (Cons f fs)
  then obtain g gs' where g: "gs = g # gs'"
    by (cases gs) auto
  have "fact_bytes f @ concat (map fact_bytes fs) = fact_bytes g @ concat (map fact_bytes gs')"
    using Cons.prems(4) g by simp
  with fact_bytes_prefix_free [OF _ _ this] Cons.prems(1-3) Cons.IH [of gs'] g show ?case
    by simp
qed simp

lemma writable_facts:
  assumes "fx_strings_wf p" "list_all (fx_writable m) (fx_fact_list p)" "length (fx_raw p) \<le> G_MAXUINT32"
  obtains fs where "fx_fact_list p = map Some fs" "list_all fact_texts_ok fs"
    "\<forall>f \<in> set fs. fr_predicate f \<noteq> None" "length fs \<le> G_MAXUINT32"
proof -
  have "\<exists>f. fo = Some f" if "fo \<in> set (fx_fact_list p)" for fo
    using assms(2) that by (auto simp: list_all_iff fx_writable_def)
  then obtain fs where fs: "fx_fact_list p = map Some fs"
    by (metis ex_map_conv)
  have "fact_texts_ok f \<and> fr_predicate f \<noteq> None" if "f \<in> set fs" for f
  proof -
    have mem: "Some f \<in> set (fx_fact_list p)"
      using that fs by simp
    then have "fx_writable m (Some f)"
      using assms(2) by (simp add: list_all_iff)
    then obtain q s where "fr_predicate f = Some q" "fr_source f = Some s"
      by (auto simp: fx_writable_def)
    with fx_strings_fit(3) [OF assms(3) mem] assms(1) mem show ?thesis
      by (fastforce simp: fact_texts_ok_def fx_strings_wf_def string_ok_def strv_wf_def list_all_iff)
  qed
  with fs that [of fs] assms(1) show thesis
    by (simp add: list_all_iff fx_strings_wf_def)
qed

lemma decodable_facts_wf:
  assumes "fx_strings_wf p" "fx_encode p = Inr data" "fx_decode data = Inr q"
  shows "fx_facts_wf p"
proof -
  have p: "fx_named p" "list_all (fx_writable (the (fx_message_id p))) (fx_fact_list p)" "length (fx_raw p) \<le> G_MAXUINT32"
    "data = fx_raw p"
    using assms(2) by (simp_all add: fx_encode_iff)
  have "length data \<le> G_MAXUINT32"
    using p by simp
  with assms(3) have q: "fx_strings_wf q" "fx_facts_wf q" "fx_encode q = Inr data"
    using fx_codec.unique [of data q] by simp_all
  then have q': "fx_named q" "list_all (fx_writable (the (fx_message_id q))) (fx_fact_list q)" "length (fx_raw q) \<le> G_MAXUINT32"
    "data = fx_raw q"
    by (simp_all add: fx_encode_iff)
  obtain fs where fs: "fx_fact_list p = map Some fs" "list_all fact_texts_ok fs" "\<forall>f \<in> set fs. fr_predicate f \<noteq> None"
    "length fs \<le> G_MAXUINT32"
    using writable_facts [OF assms(1) p(2,3)] by blast
  obtain gs where gs: "fx_fact_list q = map Some gs" "list_all fact_texts_ok gs" "\<forall>f \<in> set gs. fr_predicate f \<noteq> None"
    "length gs \<le> G_MAXUINT32"
    using writable_facts [OF q(1) q'(2,3)] by blast
  have ids: "string_ok (the (fx_account_id r))" "string_ok (the (fx_message_id r))"
    if "fx_strings_wf r" "fx_named r" "length (fx_raw r) \<le> G_MAXUINT32" for r
    using that fx_strings_fit(1,2) [OF that(3)] by (auto simp: fx_strings_wf_def fx_named_def string_ok_def)
  let ?body = "\<lambda>r fs. write_string (the (fx_account_id r)) @ write_string (the (fx_message_id r)) @ concat (map fact_bytes fs)"
  have "write_u64_le (fx_extracted_at p) @ (write_u32_le (of_nat (length fs)) @ ?body p fs) =
      write_u64_le (fx_extracted_at q) @ (write_u32_le (of_nat (length gs)) @ ?body q gs)"
    using p(4) q'(4) fs(1) gs(1) by (simp add: fx_raw_def o_def)
  from u64_wire.enc_prefix_free [OF TrueI TrueI this] have at: "fx_extracted_at p = fx_extracted_at q"
    and "write_u32_le (of_nat (length fs)) @ ?body p fs = write_u32_le (of_nat (length gs)) @ ?body q gs"
    by simp_all
  from count_prefix_free [OF fs(4) gs(4) this(2)] have n: "length fs = length gs" and "?body p fs = ?body q gs"
    by simp_all
  from str_wire.enc_prefix_free [OF _ _ this(2)] ids [OF assms(1) p(1,3)] ids [OF q(1) q'(1,3)]
  have "write_string (the (fx_message_id p)) @ concat (map fact_bytes fs) =
      write_string (the (fx_message_id q)) @ concat (map fact_bytes gs)"
    by simp
  from str_wire.enc_prefix_free [OF _ _ this] ids [OF assms(1) p(1,3)] ids [OF q(1) q'(1,3)]
  have "concat (map fact_bytes fs) = concat (map fact_bytes gs)"
    by simp
  from facts_bytes_agree [OF fs(2) gs(2) n this]
  have same: "map (\<lambda>f. (the (fr_predicate f), fr_confidence_ppm f)) fs = map (\<lambda>f. (the (fr_predicate f), fr_confidence_ppm f)) gs" .
  have "predicate_ok (fr_predicate f) \<and> fr_confidence_ppm f \<le> confidence_exact \<and> fx_extracted_at p \<noteq> 0"
    if f: "f \<in> set fs" for f
  proof -
    have "(the (fr_predicate f), fr_confidence_ppm f) \<in> set (map (\<lambda>f. (the (fr_predicate f), fr_confidence_ppm f)) gs)"
      using f unfolding same [symmetric] by auto
    then obtain g where g: "g \<in> set gs" "the (fr_predicate f) = the (fr_predicate g)" "fr_confidence_ppm f = fr_confidence_ppm g"
      by auto
    then have "fr_predicate f = fr_predicate g"
      using fs(3) gs(3) f by (metis option.expand)
    then show ?thesis
      using q(2) g gs(1) at by (auto simp: fx_facts_wf_def)
  qed
  then show ?thesis
    using fs(1) by (auto simp: fx_facts_wf_def)
qed

text \<open>
  C28. Not everything that is encoded as FactsExtracted decodes: of the payloads the encoder
  accepts, exactly those come back whose predicates are well formed, whose confidences are at
  most one and which have an extraction time unless they hold no fact. The encoder does not
  check these.
\<close>

theorem facts_extracted_undecodable:
  assumes "fx_strings_wf p" "fx_encode p = Inr data"
  shows "(\<exists>q. fx_decode data = Inr q) \<longleftrightarrow> fx_facts_wf p"
  using decodable_facts_wf [OF assms] fx_codec.round [of p data] assms by blast

theorem facts_extracted_undecodable_run:
  "\<exists>data. fx_encode (sample_extracted 0) = Inr data \<and> (\<forall>q. fx_decode data \<noteq> Inr q)"
proof -
  have "fx_encode (sample_extracted 0) = Inr (fx_raw (sample_extracted 0))"
    using sample_extracted_ok(1-4) [of 0] by (simp add: fx_encode_iff) (simp add: sample_extracted_def)
  with facts_extracted_undecodable [OF sample_extracted_ok(3) this] sample_extracted_ok(5) [of 0] show ?thesis
    by auto
qed

end
