(* ===== verification/Lmtp_Line.thy ===== *)
theory Lmtp_Line
  imports Prelude
begin

text \<open>
  What the two LMTP front ends under \<^verbatim>\<open>src/wyrebox/postfix\<close> have in common: reading a line that
  ends in CR LF byte by byte, case-insensitive command names, the address in angle brackets and
  dot stuffing. The session parser (\<^verbatim>\<open>wyrebox-postfix-lmtp-session.c\<close>) and the listener
  (\<^verbatim>\<open>wyrebox-postfix-lmtp-delivery-main.c\<close>) each carry a copy of the static functions.

  An input stream is the list of the bytes it will still deliver and whether it then fails
  instead of ending.
\<close>

section \<open>Command names\<close>

definition line_has_prefix_ci :: "bytes \<Rightarrow> bytes \<Rightarrow> bool" where
  "line_has_prefix_ci line prefix \<longleftrightarrow>
     map g_ascii_tolower (take (length prefix) line) = map g_ascii_tolower prefix"

definition line_equals_ci :: "bytes \<Rightarrow> bytes \<Rightarrow> bool" where
  "line_equals_ci line name \<longleftrightarrow> map g_ascii_tolower line = map g_ascii_tolower name"

lemma line_has_prefix_ci_self [simp]: "line_has_prefix_ci (prefix @ s) prefix"
  by (simp add: line_has_prefix_ci_def)

lemma line_has_prefix_ci_append:
  "length p \<le> length l \<Longrightarrow> line_has_prefix_ci (l @ s) p \<longleftrightarrow> line_has_prefix_ci l p"
  by (simp add: line_has_prefix_ci_def)

lemma line_has_prefix_ci_length: "line_has_prefix_ci l p \<Longrightarrow> length p \<le> length l"
  by (metis length_map length_take line_has_prefix_ci_def min.cobounded1)

text \<open>
  The string of a command line. The array that lines are read into has no data before its first
  byte: an empty line then gives \<^verbatim>\<open>g_strndup (NULL, 0)\<close>, which is NULL, and \<^verbatim>\<open>g_ascii_strncasecmp\<close>
  complains and returns zero for NULL, so that such a line passes the first comparison it meets.
\<close>

definition line_string :: "bool \<Rightarrow> bytes \<Rightarrow> cstring" where
  "line_string has_data raw_line = (if has_data then Some (g_strndup raw_line 0 (length raw_line)) else None)"

section \<open>Addresses\<close>

fun strchr :: "bytes \<Rightarrow> byte \<Rightarrow> nat option" where
  "strchr [] c = None"
| "strchr (x # s) c = (if x = c then Some 0 else map_option Suc (strchr s c))"

definition strrchr :: "bytes \<Rightarrow> byte \<Rightarrow> nat option" where
  "strrchr s c = map_option (\<lambda>i. length s - 1 - i) (strchr (rev s) c)"

text \<open>
  From the first \<^verbatim>\<open><\<close> to the last \<^verbatim>\<open>>\<close>. The guard \<^verbatim>\<open>end < start\<close> lets no equal pair through, since
  the two bytes differ.
\<close>

definition extract_path :: "bytes \<Rightarrow> bytes option" where
  "extract_path line =
     (case (strchr line 60, strrchr line 62) of
        (Some start, Some ending) \<Rightarrow>
          if ending < start then None else Some (g_strndup line (start + 1) (ending - start - 1))
      | _ \<Rightarrow> None)"

lemma strchr_None [simp]: "strchr s c = None \<longleftrightarrow> c \<notin> set s"
  by (induction s) auto

lemma strchr_first: "c \<notin> set pre \<Longrightarrow> strchr (pre @ c # s) c = Some (length pre)"
  by (induction pre) auto

lemma strrchr_last: "c \<notin> set post \<Longrightarrow> strrchr (s @ c # post) c = Some (length s)"
  using strchr_first [of c "rev post" "rev s"] by (simp add: strrchr_def)

lemma extract_path_angle:
  assumes "60 \<notin> set pre" and "62 \<notin> set post" and "nul_free s"
  shows "extract_path (pre @ 60 # s @ 62 # post) = Some s"
proof -
  have "strchr (pre @ 60 # s @ 62 # post) 60 = Some (length pre)"
    using assms(1) by (rule strchr_first)
  moreover have "strrchr ((pre @ 60 # s) @ 62 # post) 62 = Some (length (pre @ 60 # s))"
    using assms(2) by (rule strrchr_last)
  moreover have "takeWhile (\<lambda>b. b \<noteq> 0) s = s"
    using assms(3) by (auto simp: nul_free_def)
  ultimately show ?thesis
    by (simp add: extract_path_def g_strndup_def)
qed

lemma extract_path_nul_free: "extract_path line = Some s \<Longrightarrow> nul_free s"
  by (auto simp: extract_path_def nul_free_g_strndup split: option.splits if_splits)

section \<open>Lines\<close>

abbreviation crlf :: bytes where "crlf \<equiv> [13, 10]"

text \<open>
  The loop of \<^verbatim>\<open>read_crlf_line\<close>: \<open>pending\<close> is \<^verbatim>\<open>pending_cr\<close>, \<open>line\<close> the array filled so far. The
  result is the line, or \<open>None\<close> where the input ends before it begins, and the input left.
  The errors differ between the two copies and are arguments: \<open>broken\<close> what the end of the given
  bytes means (\<open>None\<close> for end of file), \<open>unended\<close> an end inside a line.
\<close>

fun read_crlf_loop ::
  "nat \<Rightarrow> gerror option \<Rightarrow> gerror \<Rightarrow> bool \<Rightarrow> bytes \<Rightarrow> bytes \<Rightarrow> (bytes option \<times> bytes) result" where
  "read_crlf_loop max_line broken unended pending line [] =
     (case broken of
        Some e \<Rightarrow> Inl e
      | None \<Rightarrow> if line = [] \<and> \<not> pending then Inr (None, []) else Inl unended)"
| "read_crlf_loop max_line broken unended pending line (b # input) =
     (if pending \<and> b = 10 then Inr (Some line, input)
      else
        case (if pending
              then if length line \<ge> max_line then Inl (GError IO_INVALID_ARGUMENT Line_too_long)
                   else append_bytes line [13]
              else Inr line) of
          Inl e \<Rightarrow> Inl e
        | Inr line' \<Rightarrow>
            if b = 13 then read_crlf_loop max_line broken unended True line' input
            else if length line' \<ge> max_line then Inl (GError IO_INVALID_ARGUMENT Line_too_long)
            else case append_bytes line' [b] of
                   Inl e \<Rightarrow> Inl e
                 | Inr line'' \<Rightarrow> read_crlf_loop max_line broken unended False line'' input)"

fun no_crlf :: "bytes \<Rightarrow> bool" where
  "no_crlf (a # b # s) \<longleftrightarrow> \<not> (a = 13 \<and> b = 10) \<and> no_crlf (b # s)"
| "no_crlf s \<longleftrightarrow> True"

definition line_fits :: "nat \<Rightarrow> bytes \<Rightarrow> bool" where
  "line_fits max_line line \<longleftrightarrow> length line \<le> max_line \<and> length line \<le> G_MAXUINT32"

lemma line_fits_Nil [simp]: "line_fits m []"
  by (simp add: line_fits_def)

lemma append_byte: "append_bytes line [b] = (if length line < G_MAXUINT32 then Inr (line @ [b]) else Inl Abort)"
  by (auto simp: append_bytes_def)

lemma no_crlf_Cons: "no_crlf (a # s) \<longleftrightarrow> no_crlf s \<and> \<not> (a = 13 \<and> (\<exists>r. s = 10 # r))"
  by (cases s) auto

text \<open>What the loop has in hand: a pending CR stands before the input.\<close>

abbreviation in_hand :: "bool \<Rightarrow> bytes \<Rightarrow> bytes" where
  "in_hand pending input \<equiv> (if pending then 13 # input else input)"

lemma no_crlf_step:
  "w = [] \<or> hd w \<noteq> 10 \<Longrightarrow> no_crlf (13 # w) \<longleftrightarrow> no_crlf w" "b \<noteq> 13 \<Longrightarrow> no_crlf (b # w) \<longleftrightarrow> no_crlf w"
  by (cases w; auto)+

text \<open>One byte further, by whether a CR is pending and whether the byte is a CR.\<close>

lemma read_crlf_loop_step:
  assumes "\<not> (p \<and> b = 10)"
  shows "read_crlf_loop m broken unended p line (b # input) = Inr r \<longleftrightarrow>
    (p \<longrightarrow> length line < m \<and> length line < G_MAXUINT32) \<and>
    (let line' = (if p then line @ [13] else line)
     in if b = 13 then read_crlf_loop m broken unended True line' input = Inr r
        else length line' < m \<and> length line' < G_MAXUINT32 \<and>
             read_crlf_loop m broken unended False (line' @ [b]) input = Inr r)"
  using assms by (auto simp: append_byte Let_def split: sum.splits)

lemma read_crlf_loop_line:
  "read_crlf_loop m broken unended p line input = Inr (Some out, rest) \<longleftrightarrow>
     (\<exists>w. out = line @ w \<and> in_hand p input = w @ crlf @ rest \<and> no_crlf w \<and>
        (w = [] \<or> line_fits m out))"
proof (induction input arbitrary: p line)
  case Nil
  show ?case
    by (auto split: option.splits simp: append_eq_Cons_conv Cons_eq_append_conv)
next
  case (Cons b input)
  have one: "(\<exists>w. out = line @ w \<and> b # input = w @ crlf @ rest \<and> no_crlf w \<and> (w = [] \<or> line_fits m out)) \<longleftrightarrow>
      length line < m \<and> length line < G_MAXUINT32 \<and>
      (\<exists>w. out = (line @ [b]) @ w \<and> input = w @ crlf @ rest \<and> no_crlf w \<and> (w = [] \<or> line_fits m out))"
    if "b \<noteq> 13" for line b input
    using that by (auto simp: Cons_eq_append_conv no_crlf_step line_fits_def)
  have cr: "(\<exists>w. out = line @ w \<and> 13 # b # input = w @ crlf @ rest \<and> no_crlf w \<and> (w = [] \<or> line_fits m out)) \<longleftrightarrow>
      length line < m \<and> length line < G_MAXUINT32 \<and>
      (\<exists>w. out = (line @ [13]) @ w \<and> b # input = w @ crlf @ rest \<and> no_crlf w \<and> (w = [] \<or> line_fits m out))"
    if "b \<noteq> 10"
    using that by (auto simp: Cons_eq_append_conv no_crlf_step line_fits_def)
  consider "p" "b = 10" | "p" "b = 13" | "p" "b \<noteq> 10" "b \<noteq> 13" | "\<not> p" "b = 13" | "\<not> p" "b \<noteq> 13"
    by blast
  then show ?case
  proof cases
    case 1
    then show ?thesis
      by (auto simp: Cons_eq_append_conv no_crlf_Cons)
  next
    case 2
    with cr show ?thesis
      by (simp add: read_crlf_loop_step Cons.IH del: read_crlf_loop.simps)
  next
    case 3
    with cr one [of b "line @ [13]" input] show ?thesis
      by (simp add: read_crlf_loop_step Cons.IH del: read_crlf_loop.simps)
  next
    case 4
    then show ?thesis
      by (simp add: read_crlf_loop_step Cons.IH del: read_crlf_loop.simps)
  next
    case 5
    with one [of b line input] show ?thesis
      by (simp add: read_crlf_loop_step Cons.IH del: read_crlf_loop.simps)
  qed
qed

lemma read_crlf_loop_inside:
  "p \<or> line \<noteq> [] \<Longrightarrow> read_crlf_loop m broken unended p line input \<noteq> Inr (None, rest)"
proof (induction input arbitrary: p line)
  case (Cons b input)
  show ?case
  proof (cases "p \<and> b = 10")
    case False
    with Cons show ?thesis
      by (simp add: read_crlf_loop_step Let_def del: read_crlf_loop.simps)
  qed simp
qed (auto split: option.splits)

lemma read_crlf_loop_end:
  "read_crlf_loop m broken unended False [] input = Inr (None, rest) \<longleftrightarrow> input = [] \<and> broken = None \<and> rest = []"
  by (cases input) (auto simp: read_crlf_loop_step read_crlf_loop_inside Let_def simp del: read_crlf_loop.simps(2)
      split: option.splits)

text \<open>
  The contract of a line reader, as the data loops of both front ends use it: what it returns is
  the input up to the first CR LF, if the limit allows.
\<close>

locale line_reader =
  fixes next_line :: "bytes \<Rightarrow> (bytes option \<times> bytes) result" and max_line :: nat
  assumes next_line_iff:
    "next_line input = Inr (Some line, rest) \<longleftrightarrow>
       input = line @ crlf @ rest \<and> no_crlf line \<and> line_fits max_line line"
begin

lemma next_line_shorter: "next_line input = Inr (Some line, rest) \<Longrightarrow> length rest < length input"
  by (simp add: next_line_iff)

lemma next_line_sent:
  "no_crlf line \<Longrightarrow> line_fits max_line line \<Longrightarrow> next_line (line @ 13 # 10 # rest) = Inr (Some line, rest)"
  by (simp add: next_line_iff)

text \<open>Any other reader with the contract and a limit as large returns the same line.\<close>

lemma next_line_limit:
  "line_reader next_line' max_line' \<Longrightarrow> max_line \<le> max_line' \<Longrightarrow>
   next_line input = Inr (Some line, rest) \<Longrightarrow> next_line' input = Inr (Some line, rest)"
  by (auto simp: next_line_iff line_reader.next_line_iff line_fits_def)

end

lemma no_lf_no_crlf: "10 \<notin> set l \<Longrightarrow> no_crlf l"
  by (induction l) (auto simp: no_crlf_Cons)

section \<open>Dot stuffing\<close>

definition unstuffed :: "bytes \<Rightarrow> bytes" where
  "unstuffed line = (if line \<noteq> [] \<and> line ! 0 = 46 then tl line else line)"

definition dot_stuffed :: "bytes \<Rightarrow> bytes" where
  "dot_stuffed line = (if line \<noteq> [] \<and> line ! 0 = 46 then 46 # line else line)"

definition text_of :: "bytes list \<Rightarrow> bytes" where
  "text_of ls = concat (map (\<lambda>l. l @ crlf) ls)"

lemma unstuffed_dot_stuffed [simp]: "unstuffed (dot_stuffed line) = line"
  by (simp add: unstuffed_def dot_stuffed_def)

lemma dot_stuffed_not_end [simp]: "dot_stuffed line \<noteq> [46]"
  by (cases line) (auto simp: dot_stuffed_def)

lemma no_crlf_dot_stuffed [simp]: "no_crlf (dot_stuffed line) \<longleftrightarrow> no_crlf line"
  by (cases line) (auto simp: dot_stuffed_def)

lemma no_crlf_unstuffed: "no_crlf line \<Longrightarrow> no_crlf (unstuffed line)"
  by (cases line) (auto simp: unstuffed_def no_crlf_Cons)

lemma length_dot_stuffed: "length (dot_stuffed line) \<le> length line + 1"
  by (simp add: dot_stuffed_def)

lemma length_unstuffed: "length (unstuffed line) \<le> length line"
  by (simp add: unstuffed_def)

lemma text_of_simps [simp]:
  "text_of [] = []" "text_of (l # ls) = l @ 13 # 10 # text_of ls"
  "text_of (ls @ ls') = text_of ls @ text_of ls'" "text_of ls = [] \<longleftrightarrow> ls = []"
  by (auto simp: text_of_def)

end
