(* ===== verification/Delivery_Request.thy ===== *)
theory Delivery_Request
  imports Request_Text
begin

text \<open>
  The identity every request to the daemon carries
  (\<^verbatim>\<open>src/wyrebox/daemon/wyrebox-daemon-request-identity.c\<close>) and the request that hands it a message
  (\<^verbatim>\<open>wyrebox-daemon-delivery-ingestion-request.c\<close>). An init function that fails leaves its output
  untouched; here it returns the error.
\<close>

section \<open>Request identity\<close>

record request_identity =
  ri_request_id :: bytes
  ri_caller_identity :: cstring
  ri_account_identity :: cstring
  ri_tool_identity :: cstring
  ri_correlation_id :: cstring

definition copy_optional_identity :: "cstring \<Rightarrow> cstring" where
  "copy_optional_identity value = copy_optional value"

definition request_identity_init ::
  "cstring \<Rightarrow> cstring \<Rightarrow> cstring \<Rightarrow> cstring \<Rightarrow> cstring \<Rightarrow> request_identity result" where
  "request_identity_init request_id caller_identity account_identity tool_identity correlation_id =
     (if null_or_empty request_id then Inl (GError IO_INVALID_ARGUMENT (Required ''request_id''))
      else Inr \<lparr>ri_request_id = the request_id,
                ri_caller_identity = copy_optional_identity caller_identity,
                ri_account_identity = copy_optional_identity account_identity,
                ri_tool_identity = copy_optional_identity tool_identity,
                ri_correlation_id = copy_optional_identity correlation_id\<rparr>)"

lemma request_identity_init_Inr [result_simps]:
  "request_identity_init r c a t k = Inr i \<longleftrightarrow>
     (\<exists>s. r = Some s \<and> s \<noteq> [] \<and>
        i = \<lparr>ri_request_id = s, ri_caller_identity = copy_optional c, ri_account_identity = copy_optional a,
             ri_tool_identity = copy_optional t, ri_correlation_id = copy_optional k\<rparr>)"
  by (cases r) (auto simp: request_identity_init_def copy_optional_identity_def)

section \<open>Delivery request\<close>

record delivery_request =
  dr_delivery_id :: bytes
  dr_queue_id :: cstring
  dr_envelope_sender :: cstring
  dr_recipients :: "bytes list"
  dr_message_bytes :: bytes

definition di_validate_non_empty_text :: "string \<Rightarrow> cstring \<Rightarrow> unit result" where
  "di_validate_non_empty_text field_name value = required_text field_name value"

definition di_validate_optional_text :: "string \<Rightarrow> cstring \<Rightarrow> unit result" where
  "di_validate_optional_text field_name value = optional_text field_name value"

fun validate_recipient_list :: "bytes list \<Rightarrow> unit result" where
  "validate_recipient_list [] = Inr ()"
| "validate_recipient_list (r # rs) =
     bindE (di_validate_non_empty_text ''recipient'' (Some r)) (\<lambda>_. validate_recipient_list rs)"

definition validate_recipients :: "strv \<Rightarrow> unit result" where
  "validate_recipients recipients =
     (if recipients = None \<or> recipients = Some [] then Inl (GError IO_INVALID_ARGUMENT (Required ''recipients''))
      else validate_recipient_list (the recipients))"

definition validate_message_bytes :: "cstring \<Rightarrow> unit result" where
  "validate_message_bytes message_bytes =
     (case message_bytes of
        None \<Rightarrow> Inl (GError IO_INVALID_ARGUMENT (Required ''message bytes''))
      | Some b \<Rightarrow> failIf (b = []) (GError IO_INVALID_ARGUMENT (Required ''non-empty message bytes'')))"

definition copy_recipients :: "strv \<Rightarrow> bytes list result" where
  "copy_recipients recipients = bindE (validate_recipients recipients) (\<lambda>_. Inr (the recipients))"

definition delivery_request_init ::
  "cstring \<Rightarrow> cstring \<Rightarrow> cstring \<Rightarrow> strv \<Rightarrow> cstring \<Rightarrow> delivery_request result" where
  "delivery_request_init delivery_id queue_id envelope_sender recipients message_bytes =
     bindE (di_validate_non_empty_text ''delivery_id'' delivery_id) (\<lambda>_.
     bindE (di_validate_optional_text ''queue_id'' queue_id) (\<lambda>_.
     bindE (di_validate_optional_text ''envelope_sender'' envelope_sender) (\<lambda>_.
     bindE (copy_recipients recipients) (\<lambda>copied.
     bindE (validate_message_bytes message_bytes) (\<lambda>_.
       Inr \<lparr>dr_delivery_id = the delivery_id, dr_queue_id = queue_id,
            dr_envelope_sender = envelope_sender, dr_recipients = copied,
            dr_message_bytes = the message_bytes\<rparr>)))))"

lemma validate_recipients_Inr [result_simps]:
  "validate_recipients r = Inr u \<longleftrightarrow> (\<exists>rs. r = Some rs \<and> rs \<noteq> [] \<and> list_all text_ok rs)"
proof -
  have "validate_recipient_list rs = Inr u \<longleftrightarrow> list_all text_ok rs" for rs u
    by (induction rs) (auto simp: result_simps di_validate_non_empty_text_def)
  then show ?thesis
    by (cases r) (auto simp: validate_recipients_def)
qed

lemma validate_message_bytes_Inr [result_simps]:
  "validate_message_bytes m = Inr u \<longleftrightarrow> (\<exists>b. m = Some b \<and> b \<noteq> [])"
  by (auto simp: validate_message_bytes_def result_simps split: option.splits)

lemma delivery_request_init_Inr [result_simps]:
  "delivery_request_init d q s rs m = Inr r \<longleftrightarrow>
     (\<exists>d' rs' m'. d = Some d' \<and> text_ok d' \<and> (\<forall>x. q = Some x \<longrightarrow> no_controls x) \<and>
        (\<forall>x. s = Some x \<longrightarrow> no_controls x) \<and> rs = Some rs' \<and> rs' \<noteq> [] \<and> list_all text_ok rs' \<and>
        m = Some m' \<and> m' \<noteq> [] \<and>
        r = \<lparr>dr_delivery_id = d', dr_queue_id = q, dr_envelope_sender = s, dr_recipients = rs',
             dr_message_bytes = m'\<rparr>)"
  by (auto simp: delivery_request_init_def copy_recipients_def di_validate_non_empty_text_def
      di_validate_optional_text_def result_simps)

end
