(* ===== verification/Lmtp_Session.thy ===== *)
theory Lmtp_Session
  imports Lmtp_Line Delivery_Request
begin

text \<open>
  \<^verbatim>\<open>src/wyrebox/postfix/wyrebox-postfix-lmtp-session.c\<close>: one LMTP conversation read from standard
  input becomes the request that delivers its message.

  A command line is handled as a C string, so the code sees it up to its first zero byte
  (\<open>g_strndup\<close>); the lines of the message are handled with their length.
\<close>

record lmtp_transaction =
  lt_seen_lhlo :: bool
  lt_seen_mail :: bool
  lt_sender :: cstring
  lt_recipients :: "bytes list"
  lt_message :: bytes

abbreviation LMTP_MAX_COMMAND_LINE_BYTES :: nat where "LMTP_MAX_COMMAND_LINE_BYTES \<equiv> 8192"

definition session_read_line :: "bool \<Rightarrow> nat \<Rightarrow> bytes \<Rightarrow> (bytes option \<times> bytes) result" where
  "session_read_line broken max_line input =
     read_crlf_loop max_line (if broken then Some read_error else None)
       (GError IO_INVALID_ARGUMENT Unterminated_line) False [] input"

definition session_path_argument :: "bytes \<Rightarrow> bytes \<Rightarrow> bytes result" where
  "session_path_argument line command =
     (if \<not> line_has_prefix_ci line command then Inl (GError IO_INVALID_ARGUMENT Command_mismatch)
      else case extract_path line of
             None \<Rightarrow> Inl (GError IO_INVALID_ARGUMENT Bad_path)
           | Some path \<Rightarrow> Inr path)"

definition add_data_line :: "nat \<Rightarrow> bytes \<Rightarrow> lmtp_transaction \<Rightarrow> lmtp_transaction result" where
  "add_data_line max_message line t =
     (let payload = unstuffed line; current_len = length (lt_message t)
      in if current_len > max_message \<or> length payload > max_message - current_len \<or>
            2 > max_message - current_len - length payload
         then Inl (GError IO_INVALID_ARGUMENT Message_too_large)
         else bindE (append_bytes (lt_message t) payload) (\<lambda>m.
              bindE (append_bytes m crlf) (\<lambda>m'. Inr (t\<lparr>lt_message := m'\<rparr>))))"

section \<open>Commands\<close>

datatype session_step = Command lmtp_transaction | Data lmtp_transaction | Quit

definition session_command :: "bytes \<Rightarrow> lmtp_transaction \<Rightarrow> session_step result" where
  "session_command line t =
     (if line_has_prefix_ci line (lit ''LHLO '') then Inr (Command (t\<lparr>lt_seen_lhlo := True\<rparr>))
      else if line_has_prefix_ci line (lit ''MAIL FROM:'') then
        (if \<not> lt_seen_lhlo t \<or> lt_seen_mail t then Inl (GError IO_INVALID_ARGUMENT (Out_of_order ''MAIL''))
         else bindE (session_path_argument line (lit ''MAIL FROM:'')) (\<lambda>sender.
                Inr (Command (t\<lparr>lt_sender := Some sender, lt_seen_mail := True\<rparr>))))
      else if line_has_prefix_ci line (lit ''RCPT TO:'') then
        (if \<not> lt_seen_mail t then Inl (GError IO_INVALID_ARGUMENT (Out_of_order ''RCPT''))
         else if length (lt_recipients t) > 0 then Inl (GError IO_INVALID_ARGUMENT One_recipient)
         else bindE (session_path_argument line (lit ''RCPT TO:'')) (\<lambda>recipient.
                Inr (Command (t\<lparr>lt_recipients := lt_recipients t @ [recipient]\<rparr>))))
      else if line_equals_ci line (lit ''DATA'') then
        (if length (lt_recipients t) \<noteq> 1 then Inl (GError IO_INVALID_ARGUMENT (Required ''recipient''))
         else Inr (Data t))
      else if line_equals_ci line (lit ''RSET'') then
        Inr (Command (t\<lparr>lt_sender := None, lt_recipients := [], lt_message := [], lt_seen_mail := False\<rparr>))
      else if line_equals_ci line (lit ''QUIT'') then Inr Quit
      else Inl (GError IO_INVALID_ARGUMENT Unsupported_command))"

text \<open>The comparison with \<^verbatim>\<open>LHLO\<close> comes first, so it is the one that a NULL line passes.\<close>

definition session_line_command :: "cstring \<Rightarrow> lmtp_transaction \<Rightarrow> session_step result" where
  "session_line_command line t =
     (case line of
        None \<Rightarrow> Inr (Command (t\<lparr>lt_seen_lhlo := True\<rparr>))
      | Some l \<Rightarrow> session_command l t)"

definition session_max_line :: "nat \<Rightarrow> bool \<Rightarrow> lmtp_transaction \<Rightarrow> nat result" where
  "session_max_line max_message in_data t =
     (if \<not> in_data then Inr LMTP_MAX_COMMAND_LINE_BYTES
      else if length (lt_message t) > max_message then Inl (GError IO_INVALID_ARGUMENT Message_too_large)
      else let remaining = max_message - length (lt_message t)
           in Inr (if remaining < 2 then 1 else remaining - 1))"

interpretation session_lines: line_reader "session_read_line broken max_line" max_line for broken max_line
  by unfold_locales (auto simp: session_read_line_def read_crlf_loop_line)

section \<open>The conversation\<close>

text \<open>
  One turn of the loop reads a line and handles it as data or as a command. The loop ends at the
  end of the input or with \<^verbatim>\<open>QUIT\<close> and leaves whether the data of a message is still open. It keeps
  two flags: whether the array of the line has data yet, and \<^verbatim>\<open>in_data\<close>.
\<close>

datatype session_turn = Again bool bool lmtp_transaction bytes | Finished bool lmtp_transaction

definition session_data_line :: "nat \<Rightarrow> bool \<Rightarrow> bytes \<Rightarrow> bytes \<Rightarrow> lmtp_transaction \<Rightarrow> session_turn result" where
  "session_data_line max_message has_data raw_line rest t =
     (if raw_line = [46] then Inr (Again has_data False t rest)
      else bindE (add_data_line max_message raw_line t) (\<lambda>t'. Inr (Again has_data True t' rest)))"

definition session_command_line :: "bool \<Rightarrow> bytes \<Rightarrow> bytes \<Rightarrow> lmtp_transaction \<Rightarrow> session_turn result" where
  "session_command_line has_data raw_line rest t =
     bindE (session_line_command (line_string has_data raw_line) t) (\<lambda>step.
       Inr (case step of
              Command t' \<Rightarrow> Again has_data False t' rest
            | Data t' \<Rightarrow> Again has_data True t' rest
            | Quit \<Rightarrow> Finished False t))"

definition session_turn ::
  "nat \<Rightarrow> bool \<Rightarrow> bool \<Rightarrow> bool \<Rightarrow> lmtp_transaction \<Rightarrow> bytes \<Rightarrow> session_turn result" where
  "session_turn max_message broken has_data in_data t input =
     bindE (session_max_line max_message in_data t) (\<lambda>max_line.
     bindE (session_read_line broken max_line input) (\<lambda>(line, rest).
       case line of
         None \<Rightarrow> Inr (Finished in_data t)
       | Some raw_line \<Rightarrow>
           let has_data' = (has_data \<or> raw_line \<noteq> [])
           in if in_data then session_data_line max_message has_data' raw_line rest t
              else session_command_line has_data' raw_line rest t))"

lemma session_turnE:
  assumes "session_turn mx broken h d t input = Inr r"
  obtains (ended) ml rest where "session_max_line mx d t = Inr ml"
      "session_read_line broken ml input = Inr (None, rest)" "r = Finished d t"
    | (data) ml raw rest where "session_max_line mx d t = Inr ml" "d"
      "session_read_line broken ml input = Inr (Some raw, rest)" "session_data_line mx (h \<or> raw \<noteq> []) raw rest t = Inr r"
    | (command) ml raw rest where "session_max_line mx d t = Inr ml" "\<not> d"
      "session_read_line broken ml input = Inr (Some raw, rest)" "session_command_line (h \<or> raw \<noteq> []) raw rest t = Inr r"
proof -
  obtain ml l rest where "session_max_line mx d t = Inr ml" "session_read_line broken ml input = Inr (l, rest)"
      "(case l of None \<Rightarrow> Inr (Finished d t)
        | Some raw \<Rightarrow> if d then session_data_line mx (h \<or> raw \<noteq> []) raw rest t
                    else session_command_line (h \<or> raw \<noteq> []) raw rest t) = Inr r"
    using assms unfolding session_turn_def bindE_Inr_iff Let_def by auto
  with that show thesis
    by (cases l; cases d) auto
qed

lemma session_data_line_Again:
  "session_data_line mx h raw rest t = Inr r \<longleftrightarrow>
     raw = [46] \<and> r = Again h False t rest \<or>
     raw \<noteq> [46] \<and> (\<exists>t'. add_data_line mx raw t = Inr t' \<and> r = Again h True t' rest)"
  by (auto simp: session_data_line_def result_simps)

lemma session_command_line_Inr:
  "session_command_line h raw rest t = Inr r \<longleftrightarrow>
     (\<exists>t'. session_line_command (line_string h raw) t = Inr (Command t') \<and> r = Again h False t' rest) \<or>
     (\<exists>t'. session_line_command (line_string h raw) t = Inr (Data t') \<and> r = Again h True t' rest) \<or>
     session_line_command (line_string h raw) t = Inr Quit \<and> r = Finished False t"
proof (cases "session_line_command (line_string h raw) t")
  case (Inr step)
  then show ?thesis
    by (cases step) (auto simp: session_command_line_def)
qed (simp add: session_command_line_def)

lemma session_turn_shorter:
  assumes "session_turn mx broken h d t input = Inr (Again h' d' t' rest)"
  shows "length rest < length input"
  using assms
  by (cases rule: session_turnE) (auto simp: session_data_line_Again session_command_line_Inr
      dest!: session_lines.next_line_shorter)

function session_loop ::
  "nat \<Rightarrow> bool \<Rightarrow> bool \<Rightarrow> bool \<Rightarrow> lmtp_transaction \<Rightarrow> bytes \<Rightarrow> (bool \<times> lmtp_transaction) result" where
  "session_loop max_message broken has_data in_data t input =
     (case session_turn max_message broken has_data in_data t input of
        Inl e \<Rightarrow> Inl e
      | Inr (Again has_data' in_data' t' rest) \<Rightarrow> session_loop max_message broken has_data' in_data' t' rest
      | Inr (Finished in_data' t') \<Rightarrow> Inr (in_data', t'))"
  by pat_completeness auto

termination session_loop
  by (relation "measure (\<lambda>(_, _, _, _, _, input). length input)") (auto dest: session_turn_shorter)

declare session_loop.simps [simp del]

definition empty_transaction :: lmtp_transaction where
  "empty_transaction = \<lparr>lt_seen_lhlo = False, lt_seen_mail = False, lt_sender = None, lt_recipients = [],
     lt_message = []\<rparr>"

definition parse_lmtp_conversation :: "in_stream option \<Rightarrow> nat \<Rightarrow> lmtp_transaction result" where
  "parse_lmtp_conversation input max_message =
     (case input of
        None \<Rightarrow> Inl (GError IO_INVALID_ARGUMENT (Required ''input stream''))
      | Some s \<Rightarrow>
          bindE (session_loop max_message (in_broken s) False False empty_transaction (in_bytes s)) (\<lambda>(in_data, t).
            if in_data then Inl (GError IO_INVALID_ARGUMENT Unterminated_data)
            else if \<not> lt_seen_mail t \<or> length (lt_recipients t) \<noteq> 1 \<or> lt_message t = []
            then Inl (GError IO_INVALID_ARGUMENT Incomplete)
            else Inr t))"

section \<open>What the loop does with a whole message\<close>

lemma session_loop_data_line:
  assumes "no_crlf raw" and "line_fits max_line raw" and "raw \<noteq> [46]"
    and "session_max_line mx True t = Inr max_line" and "add_data_line mx raw t = Inr t'"
  shows "session_loop mx broken True True t (raw @ 13 # 10 # rest) = session_loop mx broken True True t' rest"
  using assms
  by (subst session_loop.simps) (simp add: session_turn_def session_data_line_def session_lines.next_line_sent)

lemma session_loop_data_end:
  assumes "length (lt_message t) \<le> mx"
  shows "session_loop mx broken True True t (46 # 13 # 10 # rest) = session_loop mx broken True False t rest"
proof -
  let ?r = "mx - length (lt_message t)"
  let ?ml = "if ?r < 2 then 1 else ?r - 1"
  have m: "session_max_line mx True t = Inr ?ml" "1 \<le> ?ml"
    using assms by (auto simp: session_max_line_def Let_def)
  then have "session_read_line broken ?ml ([46] @ 13 # 10 # rest) = Inr (Some [46], rest)"
    by (intro session_lines.next_line_sent) (auto simp: line_fits_def)
  with m show ?thesis
    by (subst session_loop.simps) (simp add: session_turn_def session_data_line_def)
qed

lemma session_loop_command:
  assumes "no_crlf raw" and "length raw \<le> 8192" and "nul_free raw" and "raw \<noteq> []"
  shows "session_loop mx broken h False t (raw @ 13 # 10 # rest) =
    (case session_command raw t of
       Inl e \<Rightarrow> Inl e
     | Inr (Command t') \<Rightarrow> session_loop mx broken True False t' rest
     | Inr (Data t') \<Rightarrow> session_loop mx broken True True t' rest
     | Inr Quit \<Rightarrow> Inr (False, t))"
proof -
  have "g_strndup raw 0 (length raw) = raw"
    using assms(3) by (subst g_strndup_nul_free) (simp_all add: has_nul_def nul_free_def)
  with assms show ?thesis
    by (subst session_loop.simps)
      (simp add: session_turn_def session_command_line_def session_line_command_def line_string_def
        session_lines.next_line_sent session_max_line_def line_fits_def split: sum.split session_step.split)
qed

text \<open>An empty line at the very start is taken for an \<^verbatim>\<open>LHLO\<close>.\<close>

lemma empty_first_line_greets:
  "session_loop mx broken False False t (13 # 10 # rest) = session_loop mx broken False False (t\<lparr>lt_seen_lhlo := True\<rparr>) rest"
  using session_lines.next_line_sent [of "[]" 8192 broken rest]
  by (subst session_loop.simps)
    (simp add: session_turn_def session_command_line_def session_line_command_def line_string_def session_max_line_def)

text \<open>The lines of a message, dot stuffed, arrive as they were sent.\<close>

lemma session_loop_message:
  assumes "list_all no_crlf ls" and "length (lt_message t) + length (text_of ls) \<le> min mx G_MAXUINT32"
  shows "session_loop mx broken True True t (text_of (map dot_stuffed ls) @ 46 # 13 # 10 # rest) =
    session_loop mx broken True False (t\<lparr>lt_message := lt_message t @ text_of ls\<rparr>) rest"
  using assms
proof (induction ls arbitrary: t)
  case Nil
  then show ?case by (simp add: session_loop_data_end)
next
  case (Cons l ls)
  let ?t = "t\<lparr>lt_message := lt_message t @ l @ crlf\<rparr>"
  have "session_loop mx broken True True t (dot_stuffed l @ 13 # 10 # text_of (map dot_stuffed ls) @ 46 # 13 # 10 # rest) =
      session_loop mx broken True True ?t (text_of (map dot_stuffed ls) @ 46 # 13 # 10 # rest)"
  proof (rule session_loop_data_line)
    show "session_max_line mx True t = Inr (mx - length (lt_message t) - 1)"
      using Cons.prems by (auto simp: session_max_line_def Let_def)
    show "line_fits (mx - length (lt_message t) - 1) (dot_stuffed l)"
      using Cons.prems length_dot_stuffed [of l] by (auto simp: line_fits_def)
    show "add_data_line mx (dot_stuffed l) t = Inr ?t"
      using Cons.prems by (auto simp: add_data_line_def append_bytes_def Let_def)
  qed (use Cons.prems in simp_all)
  with Cons.IH [of ?t] Cons.prems show ?case by simp
qed

section \<open>A whole conversation\<close>

text \<open>What a client sends for one message, up to its \<^verbatim>\<open>QUIT\<close>.\<close>

definition path_line :: "string \<Rightarrow> bytes \<Rightarrow> bytes" where
  "path_line command path = lit command @ 60 # path @ [62]"

definition lhlo_line :: "bytes \<Rightarrow> bytes" where
  "lhlo_line name = lit ''LHLO '' @ name"

definition lmtp_conversation :: "bytes \<Rightarrow> bytes \<Rightarrow> bytes \<Rightarrow> bytes list \<Rightarrow> bytes" where
  "lmtp_conversation name sender recipient ls =
     text_of [lhlo_line name, path_line ''MAIL FROM:'' sender, path_line ''RCPT TO:'' recipient, lit ''DATA''] @
     text_of (map dot_stuffed ls) @ text_of [[46], lit ''QUIT'']"

definition command_text :: "bytes \<Rightarrow> bool" where
  "command_text s \<longleftrightarrow> nul_free s \<and> 10 \<notin> set s \<and> length s \<le> 8000"

lemma lit_Nil_iff [simp]: "lit s = [] \<longleftrightarrow> s = []"
  by (simp add: lit_def)

lemma command_lines_present [simp]: "lhlo_line s \<noteq> []" "path_line c s \<noteq> []"
  by (simp_all add: lhlo_line_def path_line_def)

lemmas command_names = line_has_prefix_ci_def line_equals_ci_def lit_def g_ascii_tolower_def g_ascii_isupper_def

lemma command_line_sent:
  assumes "command_text s"
  shows "no_crlf (lhlo_line s)" "nul_free (lhlo_line s)"
    "no_crlf (path_line ''MAIL FROM:'' s)" "nul_free (path_line ''MAIL FROM:'' s)"
    "no_crlf (path_line ''RCPT TO:'' s)" "nul_free (path_line ''RCPT TO:'' s)"
    "no_crlf (lit ''DATA'')" "nul_free (lit ''DATA'')" "no_crlf (lit ''QUIT'')" "nul_free (lit ''QUIT'')"
  using assms by (auto intro!: no_lf_no_crlf simp: command_text_def nul_free_def path_line_def lhlo_line_def lit_def)

lemma session_lhlo: "session_command (lhlo_line s) t = Inr (Command (t\<lparr>lt_seen_lhlo := True\<rparr>))"
  by (simp add: session_command_def lhlo_line_def)

lemma session_mail:
  assumes "nul_free s" and "lt_seen_lhlo t" and "\<not> lt_seen_mail t"
  shows "session_command (path_line ''MAIL FROM:'' s) t =
    Inr (Command (t\<lparr>lt_sender := Some s, lt_seen_mail := True\<rparr>))"
proof -
  have "extract_path (path_line ''MAIL FROM:'' s) = Some s"
    using extract_path_angle [of "lit ''MAIL FROM:''" "[]" s] assms(1) by (simp add: path_line_def lit_def)
  moreover have "\<not> line_has_prefix_ci (path_line ''MAIL FROM:'' s) (lit ''LHLO '')"
    by (simp add: path_line_def command_names)
  moreover have "line_has_prefix_ci (path_line ''MAIL FROM:'' s) (lit ''MAIL FROM:'')"
    by (simp add: path_line_def)
  ultimately show ?thesis
    using assms by (simp add: session_command_def session_path_argument_def)
qed

lemma session_rcpt:
  assumes "nul_free s" and "lt_seen_mail t" and "lt_recipients t = []"
  shows "session_command (path_line ''RCPT TO:'' s) t = Inr (Command (t\<lparr>lt_recipients := [s]\<rparr>))"
proof -
  have "extract_path (path_line ''RCPT TO:'' s) = Some s"
    using extract_path_angle [of "lit ''RCPT TO:''" "[]" s] assms(1) by (simp add: path_line_def lit_def)
  moreover have "\<not> line_has_prefix_ci (path_line ''RCPT TO:'' s) (lit ''LHLO '')"
      "\<not> line_has_prefix_ci (path_line ''RCPT TO:'' s) (lit ''MAIL FROM:'')"
    by (simp_all add: path_line_def command_names)
  moreover have "line_has_prefix_ci (path_line ''RCPT TO:'' s) (lit ''RCPT TO:'')"
    by (simp add: path_line_def)
  ultimately show ?thesis
    using assms by (simp add: session_command_def session_path_argument_def)
qed

lemma session_data_quit:
  "length (lt_recipients t) = 1 \<Longrightarrow> session_command (lit ''DATA'') t = Inr (Data t)"
  "session_command (lit ''QUIT'') t = Inr Quit"
  by (simp_all add: session_command_def command_names)

text \<open>
  A finished message does not end the transaction: a second \<^verbatim>\<open>DATA\<close> appends its lines to the first.
\<close>

lemma second_data_appends:
  assumes "length (lt_recipients t) = 1" "list_all no_crlf ls"
    and "length (lt_message t) + length (text_of ls) \<le> min mx G_MAXUINT32"
  shows "session_loop mx broken h False t (text_of [lit ''DATA''] @ text_of (map dot_stuffed ls) @ text_of [[46]] @ rest) =
    session_loop mx broken True False (t\<lparr>lt_message := lt_message t @ text_of ls\<rparr>) rest"
  using assms command_line_sent(7,8) [of "[]"]
  by (simp add: session_loop_command session_data_quit session_loop_message command_text_def nul_free_def)

lemma session_loop_conversation:
  assumes "command_text name" "command_text s" "command_text r" "list_all no_crlf ls"
    and "length (text_of ls) \<le> min mx G_MAXUINT32"
  shows "session_loop mx broken False False empty_transaction (lmtp_conversation name s r ls @ beyond) =
    Inr (False, \<lparr>lt_seen_lhlo = True, lt_seen_mail = True, lt_sender = Some s, lt_recipients = [r],
                 lt_message = text_of ls\<rparr>)"
proof -
  have len: "length (lhlo_line name) \<le> 8192" "length (path_line ''MAIL FROM:'' s) \<le> 8192"
      "length (path_line ''RCPT TO:'' r) \<le> 8192" "nul_free s" "nul_free r"
    using assms(1-3) by (simp_all add: command_text_def path_line_def lhlo_line_def)
  note sent = command_line_sent [OF assms(1)] command_line_sent [OF assms(2)] command_line_sent [OF assms(3)]
  show ?thesis
    using assms(4,5)
    by (simp add: lmtp_conversation_def session_loop_command sent len session_lhlo session_mail session_rcpt
        session_data_quit session_loop_message empty_transaction_def)
qed

section \<open>What is accepted\<close>

definition session_inv :: "nat \<Rightarrow> lmtp_transaction \<Rightarrow> bool" where
  "session_inv mx t \<longleftrightarrow>
     (lt_seen_mail t \<longleftrightarrow> lt_sender t \<noteq> None) \<and> (\<forall>s. lt_sender t = Some s \<longrightarrow> nul_free s) \<and>
     length (lt_recipients t) \<le> 1 \<and> list_all nul_free (lt_recipients t) \<and>
     (\<exists>ls. list_all no_crlf ls \<and> lt_message t = text_of ls) \<and>
     length (lt_message t) \<le> mx \<and> length (lt_message t) \<le> G_MAXUINT32"

lemma session_inv_empty: "session_inv mx empty_transaction"
  by (auto simp: session_inv_def empty_transaction_def intro: exI [of _ "[]"])

lemma session_path_argument_Inr [result_simps]:
  "session_path_argument line c = Inr p \<longleftrightarrow> line_has_prefix_ci line c \<and> extract_path line = Some p"
  by (auto simp: session_path_argument_def split: option.splits)

lemma session_command_inv:
  "session_command line t = Inr (Command t') \<Longrightarrow> session_inv mx t \<Longrightarrow> session_inv mx t'"
  by (auto simp: session_command_def result_simps session_inv_def extract_path_nul_free split: if_splits
      intro: exI [of _ "[]"])

lemma session_command_data:
  "session_command line t = Inr (Data t') \<Longrightarrow> t' = t \<and> length (lt_recipients t) = 1"
  by (auto simp: session_command_def result_simps split: if_splits)

lemma session_line_command_inv:
  "session_line_command line t = Inr (Command t') \<Longrightarrow> session_inv mx t \<Longrightarrow> session_inv mx t'"
proof (cases line)
  case None
  then show "session_line_command line t = Inr (Command t') \<Longrightarrow> session_inv mx t \<Longrightarrow> session_inv mx t'"
    by (auto simp: session_line_command_def session_inv_def)
qed (auto simp: session_line_command_def dest: session_command_inv)

lemma session_line_command_data:
  "session_line_command line t = Inr (Data t') \<Longrightarrow> t' = t \<and> length (lt_recipients t) = 1"
  by (cases line) (auto simp: session_line_command_def dest: session_command_data)

lemma add_data_line_Inr:
  "add_data_line mx line t = Inr t' \<longleftrightarrow>
     length (lt_message t) + length (unstuffed line) + 2 \<le> mx \<and>
     length (lt_message t) + length (unstuffed line) + 2 \<le> G_MAXUINT32 \<and>
     t' = t\<lparr>lt_message := lt_message t @ unstuffed line @ crlf\<rparr>"
  by (auto simp: add_data_line_def append_bytes_def Let_def)

lemma add_data_line_inv:
  assumes "add_data_line mx line t = Inr t'" and "no_crlf line" and "session_inv mx t"
  shows "session_inv mx t'"
proof -
  obtain ls where "list_all no_crlf ls" "lt_message t = text_of ls"
    using assms(3) by (auto simp: session_inv_def)
  then have "\<exists>ls'. list_all no_crlf ls' \<and> lt_message t @ unstuffed line @ crlf = text_of ls'"
    using assms(2) by (intro exI [of _ "ls @ [unstuffed line]"]) (simp add: no_crlf_unstuffed)
  with assms show ?thesis
    by (auto simp: session_inv_def add_data_line_Inr)
qed

lemma session_turn_inv:
  assumes "session_turn mx broken h d t input = Inr (Again h' d' t' rest)" and "session_inv mx t"
  shows "session_inv mx t'"
  using assms(1)
  by (cases rule: session_turnE) (use assms(2) in \<open>auto simp: session_data_line_Again session_command_line_Inr
      session_lines.next_line_iff dest: session_line_command_data session_line_command_inv add_data_line_inv\<close>)

lemma session_turn_finished:
  assumes "session_turn mx broken h d t input = Inr (Finished d' t')"
  shows "t' = t"
  using assms by (cases rule: session_turnE) (auto simp: session_data_line_Again session_command_line_Inr)

lemma session_loop_inv:
  "session_loop mx broken h d t input = Inr (d', t') \<Longrightarrow> session_inv mx t \<Longrightarrow> session_inv mx t'"
proof (induction mx broken h d t input rule: session_loop.induct)
  case (1 mx broken h d t input)
  from "1.prems" show ?case
    by (subst (asm) session_loop.simps)
      (auto split: sum.splits session_turn.splits dest: session_turn_inv session_turn_finished intro: "1.IH")
qed

lemma session_max_line_limit:
  "session_max_line mx d t = Inr ml \<Longrightarrow> mx \<le> mx' \<Longrightarrow> \<exists>ml'. session_max_line mx' d t = Inr ml' \<and> ml \<le> ml'"
  by (auto simp: session_max_line_def Let_def split: if_splits)

lemma session_read_line_limit:
  assumes "session_read_line broken ml input = Inr r" and "ml \<le> ml'"
  shows "session_read_line broken ml' input = Inr r"
proof (cases r)
  case (Pair l rest)
  with assms show ?thesis
    by (cases l) (auto simp: session_lines.next_line_iff line_fits_def,
        auto simp: session_read_line_def read_crlf_loop_end)
qed

text \<open>The limit on messages only rejects: what a small limit accepts, a larger one reads the same way.\<close>

lemma session_data_line_limit:
  "session_data_line mx h raw rest t = Inr r \<Longrightarrow> mx \<le> mx' \<Longrightarrow> session_data_line mx' h raw rest t = Inr r"
  by (auto simp: session_data_line_Again add_data_line_Inr)

lemma session_turn_limit:
  assumes "session_turn mx broken h d t input = Inr r" and le: "mx \<le> mx'"
  shows "session_turn mx' broken h d t input = Inr r"
proof -
  note up = session_max_line_limit [OF _ le] and read = session_read_line_limit
  show ?thesis
    using assms(1)
  proof (cases rule: session_turnE)
    case (data ml raw rest)
    with up [OF data(1)] read [OF data(3)] session_data_line_limit [OF data(4) le] show ?thesis
      by (auto simp: session_turn_def)
  qed (auto simp: session_turn_def dest!: up dest: read)
qed

lemma session_loop_limit:
  "session_loop mx broken h d t input = Inr r \<Longrightarrow> mx \<le> mx' \<Longrightarrow> session_loop mx' broken h d t input = Inr r"
proof (induction mx broken h d t input rule: session_loop.induct)
  case (1 mx broken h d t input)
  from "1.prems"(1) obtain turn where turn: "session_turn mx broken h d t input = Inr turn"
    by (subst (asm) session_loop.simps) (auto split: sum.splits)
  with "1.prems" session_turn_limit [OF turn "1.prems"(2)] show ?case
    by (subst (asm) session_loop.simps, subst session_loop.simps)
      (auto intro: "1.IH" [OF turn] split: session_turn.splits)
qed

section \<open>Building the request\<close>

text \<open>
  Option parsing is GLib's \<^verbatim>\<open>g_option_context_parse_strv\<close>: the parameter \<open>parse_strv\<close> maps the
  argument vector to the values of the three options and what it leaves of the vector.
\<close>

record session_arguments =
  sa_account_id :: cstring
  sa_delivery_id :: cstring
  sa_socket_path :: cstring

definition require_non_empty_argument :: "string \<Rightarrow> cstring \<Rightarrow> unit result" where
  "require_non_empty_argument option_name value =
     failIf (null_or_empty value) (GError IO_INVALID_ARGUMENT (Required option_name))"

definition LMTP_DEFAULT_SOCKET_PATH :: bytes where
  "LMTP_DEFAULT_SOCKET_PATH = lit ''/run/wyrebox/wyrebox.sock''"

definition with_default_socket :: "session_arguments \<Rightarrow> session_arguments" where
  "with_default_socket arguments =
     (if sa_socket_path arguments = None then arguments\<lparr>sa_socket_path := Some LMTP_DEFAULT_SOCKET_PATH\<rparr>
      else arguments)"

definition session_parse_arguments ::
  "(bytes list \<Rightarrow> (session_arguments \<times> bytes list) result) \<Rightarrow> bytes list option \<Rightarrow> session_arguments result" where
  "session_parse_arguments parse_strv argv =
     (if argv = None \<or> argv = Some [] then Inl (GError IO_INVALID_ARGUMENT (Required ''argv''))
      else bindE (parse_strv (the argv)) (\<lambda>(arguments, left).
           bindE (require_non_empty_argument ''--account-id'' (sa_account_id arguments)) (\<lambda>_.
           bindE (require_non_empty_argument ''--delivery-id'' (sa_delivery_id arguments)) (\<lambda>_.
             if length left > 1 then Inl (GError IO_INVALID_ARGUMENT Unexpected_argument)
             else Inr (with_default_socket arguments)))))"

definition session_request_id :: "session_arguments \<Rightarrow> bytes" where
  "session_request_id arguments = lit ''postfix-lmtp:'' @ the (sa_delivery_id arguments)"

record built_request =
  br_socket_path :: cstring
  br_identity :: request_identity
  br_request :: delivery_request

definition session_build ::
  "(bytes list \<Rightarrow> (session_arguments \<times> bytes list) result) \<Rightarrow> bytes list option \<Rightarrow> in_stream option \<Rightarrow> nat \<Rightarrow>
   built_request result" where
  "session_build parse_strv argv input max_message =
     bindE (session_parse_arguments parse_strv argv) (\<lambda>arguments.
     bindE (parse_lmtp_conversation input max_message) (\<lambda>t.
       let request_id = session_request_id arguments in
       bindE (request_identity_init (Some request_id) (Some (lit ''postfix'')) (sa_account_id arguments)
                (Some (lit ''wyrebox-postfix-lmtp'')) (Some request_id)) (\<lambda>identity.
       bindE (delivery_request_init (sa_delivery_id arguments) None (lt_sender t) (Some [lt_recipients t ! 0])
                (Some (lt_message t))) (\<lambda>request.
         Inr \<lparr>br_socket_path = sa_socket_path arguments, br_identity = identity, br_request = request\<rparr>))))"

text \<open>The identity the daemon will see: the delivery id decides request id and correlation id.\<close>

definition lmtp_identity :: "bytes \<Rightarrow> bytes \<Rightarrow> bytes \<Rightarrow> request_identity" where
  "lmtp_identity tool account delivery_id =
     \<lparr>ri_request_id = lit ''postfix-lmtp:'' @ delivery_id, ri_caller_identity = Some (lit ''postfix''),
      ri_account_identity = Some account, ri_tool_identity = Some tool,
      ri_correlation_id = Some (lit ''postfix-lmtp:'' @ delivery_id)\<rparr>"

lemma session_parse_arguments_Inr [result_simps]:
  "session_parse_arguments ps argv = Inr a \<longleftrightarrow>
     (\<exists>v a' left. argv = Some v \<and> v \<noteq> [] \<and> ps v = Inr (a', left) \<and>
        \<not> null_or_empty (sa_account_id a') \<and> \<not> null_or_empty (sa_delivery_id a') \<and> length left \<le> 1 \<and>
        a = with_default_socket a')"
  by (cases argv) (auto simp: session_parse_arguments_def require_non_empty_argument_def result_simps)

lemma parse_lmtp_conversation_Inr [result_simps]:
  "parse_lmtp_conversation input mx = Inr t \<longleftrightarrow>
     (\<exists>s. input = Some s \<and> session_loop mx (in_broken s) False False empty_transaction (in_bytes s) = Inr (False, t) \<and>
        lt_seen_mail t \<and> length (lt_recipients t) = 1 \<and> lt_message t \<noteq> [])"
  by (auto simp: parse_lmtp_conversation_def result_simps split: option.splits)

lemma parse_lmtp_conversation_limit:
  assumes "parse_lmtp_conversation input mx = Inr t" and le: "mx \<le> mx'"
  shows "parse_lmtp_conversation input mx' = Inr t"
proof -
  obtain s where s: "input = Some s" "lt_seen_mail t" "length (lt_recipients t) = 1" "lt_message t \<noteq> []"
      and loop: "session_loop mx (in_broken s) False False empty_transaction (in_bytes s) = Inr (False, t)"
    using assms(1) by (auto simp: parse_lmtp_conversation_Inr)
  from s session_loop_limit [OF loop le] show ?thesis
    by (simp add: parse_lmtp_conversation_Inr)
qed

lemma parsed_transaction:
  assumes "parse_lmtp_conversation input mx = Inr t"
  obtains s r ls where "lt_sender t = Some s" "nul_free s" "lt_recipients t = [r]" "nul_free r"
    "lt_message t = text_of ls" "ls \<noteq> []" "list_all no_crlf ls" "length (lt_message t) \<le> mx"
proof -
  have t: "session_inv mx t" "lt_seen_mail t" "length (lt_recipients t) = 1" "lt_message t \<noteq> []"
    using assms session_loop_inv [OF _ session_inv_empty] by (auto simp: result_simps)
  then obtain s r ls where "lt_sender t = Some s" "nul_free s" "lt_recipients t = [r]" "nul_free r"
      "lt_message t = text_of ls" "list_all no_crlf ls" "length (lt_message t) \<le> mx"
    by (auto simp: session_inv_def length_Suc_conv)
  with that t(4) show thesis by (metis text_of_simps(1))
qed

lemma lmtp_identity_init:
  assumes "account \<noteq> []" and "tool \<noteq> []"
  shows "request_identity_init (Some (lit ''postfix-lmtp:'' @ d)) (Some (lit ''postfix'')) (Some account) (Some tool)
     (Some (lit ''postfix-lmtp:'' @ d)) = Inr (lmtp_identity tool account d)"
  using assms by (simp add: request_identity_init_def copy_optional_identity_def lmtp_identity_def)

lemma session_build_Inr:
  "session_build ps argv input mx = Inr b \<longleftrightarrow>
     (\<exists>a t d acc s r. session_parse_arguments ps argv = Inr a \<and> parse_lmtp_conversation input mx = Inr t \<and>
        sa_delivery_id a = Some d \<and> sa_account_id a = Some acc \<and> text_ok d \<and>
        lt_sender t = Some s \<and> no_controls s \<and> lt_recipients t = [r] \<and> text_ok r \<and>
        b = \<lparr>br_socket_path = sa_socket_path a, br_identity = lmtp_identity (lit ''wyrebox-postfix-lmtp'') acc d,
             br_request = \<lparr>dr_delivery_id = d, dr_queue_id = None, dr_envelope_sender = Some s, dr_recipients = [r],
                           dr_message_bytes = lt_message t\<rparr>\<rparr>)"
  (is "?l \<longleftrightarrow> ?r")
proof (cases "\<exists>a t. session_parse_arguments ps argv = Inr a \<and> parse_lmtp_conversation input mx = Inr t")
  case True
  then obtain a t where a: "session_parse_arguments ps argv = Inr a" and t: "parse_lmtp_conversation input mx = Inr t"
    by blast
  obtain acc d where ad: "sa_account_id a = Some acc" "acc \<noteq> []" "sa_delivery_id a = Some d"
    using a by (auto simp: session_parse_arguments_Inr null_or_empty_def with_default_socket_def split: if_splits)
  obtain s r ls where sr: "lt_sender t = Some s" "lt_recipients t = [r]" "lt_message t = text_of ls" "ls \<noteq> []"
    using parsed_transaction [OF t] by metis
  show ?thesis
    by (auto simp: session_build_def a t ad sr lmtp_identity_init session_request_id_def delivery_request_init_Inr
        bindE_Inr_iff)
next
  case False
  then have "\<not> ?l"
    by (auto simp: session_build_def bindE_Inr_iff)
  with False show ?thesis
    by blast
qed

end
