(* ===== verification/Fact_Batch.thy ===== *)
theory Fact_Batch
  imports Fact_Mutation
begin

text \<open>
  \<^verbatim>\<open>src/wyrebox/daemon/wyrebox-daemon-fact-batch-import-request.c\<close>: several fact mutations of one
  scope in one request. The entries are a vector of pointers, any of which may be NULL.
\<close>

record fact_batch_request =
  fb_entries :: "fact_mutation_request list option"
  fb_scope_id :: cstring

abbreviation FACT_BATCH_MAX_ENTRIES :: nat where "FACT_BATCH_MAX_ENTRIES \<equiv> 1024"

definition copy_fact_mutation_request :: "fact_mutation_request option \<Rightarrow> fact_mutation_request result" where
  "copy_fact_mutation_request src =
     (case src of
        None \<Rightarrow> Inl (GError IO_INVALID_ARGUMENT (Required ''entry''))
      | Some r \<Rightarrow> fact_mutation_request_init (fm_mutation r) (fm_predicate_id r) (fm_scope_id r) (fm_arguments r))"

definition validate_entry_scope :: "fact_mutation_request \<Rightarrow> cstring \<Rightarrow> unit result" where
  "validate_entry_scope entry expected_scope_id =
     (if null_or_empty (fm_scope_id entry) then Inl (GError IO_INVALID_ARGUMENT (Required ''scope_id''))
      else failIf (fm_scope_id entry \<noteq> expected_scope_id) (GError IO_INVALID_ARGUMENT (Invalid_value ''scope_id'')))"

text \<open>The loop over the entries from index \<open>i\<close> on: the first copy decides the scope.\<close>

fun copy_entries ::
  "fact_mutation_request list \<Rightarrow> cstring \<Rightarrow> fact_mutation_request option list \<Rightarrow> fact_batch_request result" where
  "copy_entries copied scope_id [] = Inr \<lparr>fb_entries = Some copied, fb_scope_id = scope_id\<rparr>"
| "copy_entries copied scope_id (entry # entries) =
     bindE (copy_fact_mutation_request entry) (\<lambda>copy.
       if copied = [] then copy_entries [copy] (fm_scope_id copy) entries
       else bindE (validate_entry_scope copy scope_id) (\<lambda>_. copy_entries (copied @ [copy]) scope_id entries))"

definition fact_batch_request_init :: "fact_mutation_request option list option \<Rightarrow> fact_batch_request result" where
  "fact_batch_request_init entries =
     (case entries of
        None \<Rightarrow> Inl (GError IO_INVALID_ARGUMENT (Required ''entries''))
      | Some es \<Rightarrow>
          if length es = 0 then Inl (GError IO_INVALID_ARGUMENT (Required ''entry''))
          else if length es > FACT_BATCH_MAX_ENTRIES then Inl (GError IO_INVALID_ARGUMENT (Too_many ''entries''))
          else copy_entries [] None es)"

definition fact_batch_get_n_entries :: "fact_batch_request \<Rightarrow> nat" where
  "fact_batch_get_n_entries request = (case fb_entries request of None \<Rightarrow> 0 | Some es \<Rightarrow> length es)"

fun validate_entries :: "cstring \<Rightarrow> fact_mutation_request list \<Rightarrow> unit result" where
  "validate_entries scope_id [] = Inr ()"
| "validate_entries scope_id (entry # entries) =
     bindE (validate_entry_scope entry scope_id) (\<lambda>_.
     bindE (fact_mutation_request_get_event entry) (\<lambda>_.
     bindE (fact_mutation_request_encode entry) (\<lambda>_.
       validate_entries scope_id entries)))"

definition fact_batch_request_validate :: "fact_batch_request \<Rightarrow> unit result" where
  "fact_batch_request_validate request =
     (case fb_entries request of
        None \<Rightarrow> Inl (GError IO_INVALID_ARGUMENT (Required ''request''))
      | Some es \<Rightarrow>
          if length es = 0 then Inl (GError IO_INVALID_ARGUMENT (Required ''entry''))
          else if length es > FACT_BATCH_MAX_ENTRIES then Inl (GError IO_INVALID_ARGUMENT (Too_many ''entries''))
          else if null_or_empty (fb_scope_id request) then Inl (GError IO_INVALID_ARGUMENT (Required ''scope_id''))
          else validate_entries (fb_scope_id request) es)"

section \<open>What is accepted\<close>

lemma copy_fact_mutation_request_Inr [result_simps]:
  "copy_fact_mutation_request src = Inr r \<longleftrightarrow> src = Some r \<and> fm_valid r"
  by (cases src) (auto simp: copy_fact_mutation_request_def fact_mutation_request_init_Inr fm_valid_def)

lemma validate_entry_scope_Inr [result_simps]:
  "validate_entry_scope e s = Inr u \<longleftrightarrow> fm_scope_id e = s \<and> \<not> null_or_empty s"
  by (auto simp: validate_entry_scope_def failIf_Inr_iff)

lemma fm_valid_scope: "fm_valid r \<Longrightarrow> \<not> null_or_empty (fm_scope_id r)"
  by (auto simp: fm_valid_def text_ok_def)

lemma copy_entries_more:
  "copied \<noteq> [] \<Longrightarrow> copy_entries copied scope es = Inr b \<longleftrightarrow>
     (\<exists>rs. es = map Some rs \<and> list_all (\<lambda>r. fm_valid r \<and> fm_scope_id r = scope) rs \<and>
        b = \<lparr>fb_entries = Some (copied @ rs), fb_scope_id = scope\<rparr>)"
proof (induction es arbitrary: copied)
  case Nil
  then show ?case by auto
next
  case (Cons e es)
  have "copy_entries copied scope (e # es) = Inr b \<longleftrightarrow>
      (\<exists>r. e = Some r \<and> fm_valid r \<and> fm_scope_id r = scope \<and> copy_entries (copied @ [r]) scope es = Inr b)"
    using Cons.prems fm_valid_scope by (auto simp: result_simps)
  with Cons.IH show ?case
    by (auto simp: Cons_eq_map_conv)
qed

lemma fact_batch_request_init_Inr:
  "fact_batch_request_init es = Inr b \<longleftrightarrow>
     (\<exists>r rs. es = Some (map Some (r # rs)) \<and> length (r # rs) \<le> FACT_BATCH_MAX_ENTRIES \<and>
        list_all (\<lambda>x. fm_valid x \<and> fm_scope_id x = fm_scope_id r) (r # rs) \<and>
        b = \<lparr>fb_entries = Some (r # rs), fb_scope_id = fm_scope_id r\<rparr>)"
proof (cases es)
  case (Some xs)
  then show ?thesis
    by (cases xs) (auto simp: fact_batch_request_init_def result_simps copy_entries_more Cons_eq_map_conv)
qed (simp add: fact_batch_request_init_def)

end
