(* ===== verification/Daemon_Frames.thy ===== *)
theory Daemon_Frames
  imports Fact_Batch Text_Format
begin

text \<open>
  What the daemon answers: error classes and error frames (\<^verbatim>\<open>wyrebox-daemon-error.c\<close>,
  \<^verbatim>\<open>-error-frame.c\<close>), success receipts (\<^verbatim>\<open>-success-receipt.c\<close>), stream chunks
  (\<^verbatim>\<open>-stream-chunk-frame.c\<close>), mailbox LIST and SELECT results and the response frame that carries one
  of them (\<^verbatim>\<open>-response-frame.c\<close>), all under \<^verbatim>\<open>src/wyrebox/daemon\<close>.

  An enumeration that a caller may set out of range is a number.
\<close>

section \<open>Errors\<close>

abbreviation ERROR_TEMPORARY_FAILURE :: nat where "ERROR_TEMPORARY_FAILURE \<equiv> 0"
abbreviation ERROR_PERMANENT_FAILURE :: nat where "ERROR_PERMANENT_FAILURE \<equiv> 1"
abbreviation ERROR_PERMISSION_DENIED :: nat where "ERROR_PERMISSION_DENIED \<equiv> 2"
abbreviation ERROR_NOT_FOUND :: nat where "ERROR_NOT_FOUND \<equiv> 3"
abbreviation ERROR_CONFLICT :: nat where "ERROR_CONFLICT \<equiv> 4"
abbreviation ERROR_INTERNAL_ERROR :: nat where "ERROR_INTERNAL_ERROR \<equiv> 5"

definition error_class_mappings :: "(nat \<times> bytes) list" where
  "error_class_mappings =
     [(ERROR_TEMPORARY_FAILURE, lit ''temporaryFailure''),
      (ERROR_PERMANENT_FAILURE, lit ''permanentFailure''),
      (ERROR_PERMISSION_DENIED, lit ''permissionDenied''),
      (ERROR_NOT_FOUND, lit ''notFound''),
      (ERROR_CONFLICT, lit ''conflict''),
      (ERROR_INTERNAL_ERROR, lit ''internalError'')]"

definition error_class_to_string :: "nat \<Rightarrow> cstring" where
  "error_class_to_string error_class = map_of error_class_mappings error_class"

fun class_of_name :: "(nat \<times> bytes) list \<Rightarrow> bytes \<Rightarrow> nat option" where
  "class_of_name [] name = None"
| "class_of_name ((class_code, wire) # rest) name = (if wire = name then Some class_code else class_of_name rest name)"

definition error_class_from_string :: "cstring \<Rightarrow> nat option" where
  "error_class_from_string value =
     (case value of None \<Rightarrow> None | Some name \<Rightarrow> class_of_name error_class_mappings name)"

text \<open>The codes of \<^verbatim>\<open>GIOErrorEnum\<close> the switch names; \<open>CODE_OTHER\<close> is any other.\<close>

datatype gio_code =
    CODE_PERMISSION_DENIED | CODE_NOT_FOUND | CODE_EXISTS | CODE_INVALID_ARGUMENT | CODE_INVALID_DATA
  | CODE_NOT_SUPPORTED | CODE_TIMED_OUT | CODE_BUSY | CODE_WOULD_BLOCK | CODE_OTHER

definition error_class_from_g_error_code :: "gio_code \<Rightarrow> nat" where
  "error_class_from_g_error_code code =
     (case code of
        CODE_PERMISSION_DENIED \<Rightarrow> ERROR_PERMISSION_DENIED
      | CODE_NOT_FOUND \<Rightarrow> ERROR_NOT_FOUND
      | CODE_EXISTS \<Rightarrow> ERROR_CONFLICT
      | CODE_INVALID_ARGUMENT \<Rightarrow> ERROR_PERMANENT_FAILURE
      | CODE_INVALID_DATA \<Rightarrow> ERROR_PERMANENT_FAILURE
      | CODE_NOT_SUPPORTED \<Rightarrow> ERROR_PERMANENT_FAILURE
      | CODE_TIMED_OUT \<Rightarrow> ERROR_TEMPORARY_FAILURE
      | CODE_BUSY \<Rightarrow> ERROR_TEMPORARY_FAILURE
      | CODE_WOULD_BLOCK \<Rightarrow> ERROR_TEMPORARY_FAILURE
      | CODE_OTHER \<Rightarrow> ERROR_INTERNAL_ERROR)"

record error_frame =
  ef_request_id :: cstring
  ef_error_class :: nat
  ef_message :: cstring
  ef_retry_hint :: cstring

definition error_frame_init :: "cstring \<Rightarrow> nat \<Rightarrow> cstring \<Rightarrow> cstring \<Rightarrow> error_frame result" where
  "error_frame_init request_id error_class message retry_hint =
     (if null_or_empty request_id then Inl (GError IO_INVALID_ARGUMENT (Required ''request_id''))
      else if null_or_empty message then Inl (GError IO_INVALID_ARGUMENT (Required ''message''))
      else if error_class_to_string error_class = None then Inl (GError IO_INVALID_ARGUMENT (Required ''error class''))
      else Inr \<lparr>ef_request_id = request_id, ef_error_class = error_class, ef_message = message,
                ef_retry_hint = copy_optional retry_hint\<rparr>)"

text \<open>A \<^verbatim>\<open>GError\<close> as this code looks at it: its domain compared with \<^verbatim>\<open>G_IO_ERROR\<close>, code and message.\<close>

record cause =
  ca_is_io :: bool
  ca_code :: gio_code
  ca_message :: cstring

definition error_frame_init_from_g_error :: "cstring \<Rightarrow> cause \<Rightarrow> cstring \<Rightarrow> error_frame result" where
  "error_frame_init_from_g_error request_id c retry_hint =
     error_frame_init request_id
       (if ca_is_io c then error_class_from_g_error_code (ca_code c) else ERROR_INTERNAL_ERROR)
       (ca_message c) retry_hint"

section \<open>Success receipts\<close>

record success_receipt =
  sr_request_id :: cstring
  sr_durable_marker :: cstring
  sr_journal_offset :: u64
  sr_journal_sequence :: u64
  sr_summary :: cstring

record eml_ingest_result =
  ei_object_key :: cstring
  ei_size_bytes :: u64
  ei_journal_offset :: u64
  ei_journal_sequence :: u64

definition print_u64 :: "u64 \<Rightarrow> bytes" where
  "print_u64 v = print_nat (unat v)"

definition durable_marker :: "u64 \<Rightarrow> u64 \<Rightarrow> bytes" where
  "durable_marker offset sequence = lit ''journal:'' @ print_u64 offset @ lit '':'' @ print_u64 sequence"

definition success_receipt_init_delivery_ingestion ::
  "cstring \<Rightarrow> eml_ingest_result \<Rightarrow> success_receipt result" where
  "success_receipt_init_delivery_ingestion request_id r =
     (if null_or_empty request_id then Inl (GError IO_INVALID_ARGUMENT (Required ''request_id''))
      else if null_or_empty (ei_object_key r) then Inl (GError IO_INVALID_DATA (Required ''object key''))
      else if ei_journal_sequence r = 0 then Inl (GError IO_INVALID_DATA (Required ''journal sequence''))
      else Inr \<lparr>sr_request_id = request_id,
                sr_durable_marker = Some (durable_marker (ei_journal_offset r) (ei_journal_sequence r)),
                sr_journal_offset = ei_journal_offset r, sr_journal_sequence = ei_journal_sequence r,
                sr_summary = Some (lit ''delivery_ingestion object_key='' @ the (ei_object_key r) @
                  lit '' size_bytes='' @ print_u64 (ei_size_bytes r))\<rparr>)"

text \<open>
  What the summary prints is never NULL: \<open>fact_mutation_request_get_event\<close> refuses a request with
  a missing field or an unknown kind, \<open>fact_batch_request_validate\<close> one without a scope.
\<close>

definition success_receipt_init_fact_mutation ::
  "cstring \<Rightarrow> fact_mutation_request \<Rightarrow> u64 \<Rightarrow> u64 \<Rightarrow> success_receipt result" where
  "success_receipt_init_fact_mutation request_id request journal_offset journal_sequence =
     (if null_or_empty request_id then Inl (GError IO_INVALID_ARGUMENT (Required ''request_id''))
      else bindE (fact_mutation_request_get_event request) (\<lambda>_.
        if journal_sequence = 0 then Inl (GError IO_INVALID_DATA (Required ''journal sequence''))
        else Inr \<lparr>sr_request_id = request_id,
                  sr_durable_marker = Some (durable_marker journal_offset journal_sequence),
                  sr_journal_offset = journal_offset, sr_journal_sequence = journal_sequence,
                  sr_summary = Some (lit ''fact_mutation mutation='' @
                    the (mutation_kind_to_wire_name (fm_mutation request)) @
                    lit '' predicate_id='' @ the (fm_predicate_id request) @
                    lit '' scope_id='' @ the (fm_scope_id request) @
                    lit '' argument_count='' @ print_nat (length (strv_items (fm_arguments request))))\<rparr>))"

definition success_receipt_init_fact_batch_import ::
  "cstring \<Rightarrow> fact_batch_request \<Rightarrow> u64 \<Rightarrow> u64 \<Rightarrow> success_receipt result" where
  "success_receipt_init_fact_batch_import request_id request journal_offset journal_sequence =
     (if null_or_empty request_id then Inl (GError IO_INVALID_ARGUMENT (Required ''request_id''))
      else bindE (fact_batch_request_validate request) (\<lambda>_.
        if journal_sequence = 0 then Inl (GError IO_INVALID_DATA (Required ''journal sequence''))
        else Inr \<lparr>sr_request_id = request_id,
                  sr_durable_marker = Some (durable_marker journal_offset journal_sequence),
                  sr_journal_offset = journal_offset, sr_journal_sequence = journal_sequence,
                  sr_summary = Some (lit ''fact_batch_import count='' @
                    print_nat (fact_batch_get_n_entries request) @
                    lit '' scope_id='' @ the (fb_scope_id request))\<rparr>))"

section \<open>Stream chunks\<close>

record stream_chunk_frame =
  sc_request_id :: cstring
  sc_message_id :: cstring
  sc_query_id :: cstring
  sc_correlation_id :: cstring
  sc_chunk_index :: u64
  sc_bytes :: cstring
  sc_end_of_stream :: bool

definition sc_validate_text_field :: "string \<Rightarrow> cstring \<Rightarrow> unit result" where
  "sc_validate_text_field field_name value = optional_text field_name value"

definition stream_chunk_frame_init ::
  "cstring \<Rightarrow> cstring \<Rightarrow> cstring \<Rightarrow> cstring \<Rightarrow> u64 \<Rightarrow> cstring \<Rightarrow> bool \<Rightarrow> stream_chunk_frame result" where
  "stream_chunk_frame_init request_id message_id query_id correlation_id chunk_index data end_of_stream =
     (let has_message_id = \<not> null_or_empty message_id; has_query_id = \<not> null_or_empty query_id
      in if null_or_empty request_id then Inl (GError IO_INVALID_ARGUMENT (Required ''request_id''))
         else if has_message_id = has_query_id then Inl (GError IO_INVALID_ARGUMENT Exactly_one)
         else bindE (sc_validate_text_field ''request_id'' request_id) (\<lambda>_.
              bindE (sc_validate_text_field ''message_id'' message_id) (\<lambda>_.
              bindE (sc_validate_text_field ''query_id'' query_id) (\<lambda>_.
              bindE (sc_validate_text_field ''correlation_id'' correlation_id) (\<lambda>_.
                if \<not> end_of_stream \<and> (data = None \<or> data = Some [])
                then Inl (GError IO_INVALID_ARGUMENT (Required ''bytes''))
                else Inr \<lparr>sc_request_id = request_id, sc_message_id = copy_optional message_id,
                          sc_query_id = copy_optional query_id, sc_correlation_id = copy_optional correlation_id,
                          sc_chunk_index = chunk_index,
                          sc_bytes = Some (case data of None \<Rightarrow> [] | Some b \<Rightarrow> b),
                          sc_end_of_stream = end_of_stream\<rparr>)))))"

section \<open>Mailbox results\<close>

record mailbox_list_entry =
  le_kind :: nat
  le_mailbox_id :: cstring
  le_mailbox_name :: cstring
  le_hierarchy_delimiter :: cstring
  le_special_use :: cstring
  le_is_selectable :: bool
  le_child_state :: nat

text \<open>\<open>None\<close> is a result that was never initialized.\<close>

type_synonym mailbox_list_result = "mailbox_list_entry list option"

abbreviation LIST_ENTRY_ORDINARY :: nat where "LIST_ENTRY_ORDINARY \<equiv> 0"
abbreviation LIST_ENTRY_VIRTUAL :: nat where "LIST_ENTRY_VIRTUAL \<equiv> 1"
abbreviation CHILD_STATE_HAS_NO_CHILDREN :: nat where "CHILD_STATE_HAS_NO_CHILDREN \<equiv> 2"

definition ml_validate_required_text :: "string \<Rightarrow> cstring \<Rightarrow> unit result" where
  "ml_validate_required_text field_name value = required_text field_name value"

definition ml_validate_optional_text :: "string \<Rightarrow> cstring \<Rightarrow> unit result" where
  "ml_validate_optional_text field_name value = optional_text field_name value"

definition validate_hierarchy_delimiter :: "cstring \<Rightarrow> unit result" where
  "validate_hierarchy_delimiter value =
     (if null_or_empty value then Inl (GError IO_INVALID_ARGUMENT (Required ''hierarchy_delimiter''))
      else failIf (length (the value) > 1 \<or> g_ascii_iscntrl (the value ! 0))
             (GError IO_INVALID_ARGUMENT (Invalid_value ''hierarchy_delimiter'')))"

definition validate_entry_kind :: "nat \<Rightarrow> unit result" where
  "validate_entry_kind kind =
     failIf (kind \<noteq> LIST_ENTRY_ORDINARY \<and> kind \<noteq> LIST_ENTRY_VIRTUAL) (GError IO_INVALID_ARGUMENT (Invalid_value ''kind''))"

definition validate_child_state :: "nat \<Rightarrow> unit result" where
  "validate_child_state child_state =
     failIf (child_state > CHILD_STATE_HAS_NO_CHILDREN) (GError IO_INVALID_ARGUMENT (Invalid_value ''child state''))"

definition mailbox_list_entry_init ::
  "nat \<Rightarrow> cstring \<Rightarrow> cstring \<Rightarrow> cstring \<Rightarrow> cstring \<Rightarrow> bool \<Rightarrow> nat \<Rightarrow> mailbox_list_entry result" where
  "mailbox_list_entry_init kind mailbox_id mailbox_name hierarchy_delimiter special_use is_selectable child_state =
     bindE (validate_entry_kind kind) (\<lambda>_.
     bindE (ml_validate_required_text ''mailbox_id'' mailbox_id) (\<lambda>_.
     bindE (ml_validate_required_text ''mailbox_name'' mailbox_name) (\<lambda>_.
     bindE (validate_hierarchy_delimiter hierarchy_delimiter) (\<lambda>_.
     bindE (ml_validate_optional_text ''special_use'' special_use) (\<lambda>_.
     bindE (validate_child_state child_state) (\<lambda>_.
       Inr \<lparr>le_kind = kind, le_mailbox_id = mailbox_id, le_mailbox_name = mailbox_name,
            le_hierarchy_delimiter = hierarchy_delimiter, le_special_use = copy_optional special_use,
            le_is_selectable = is_selectable, le_child_state = child_state\<rparr>))))))"

definition mailbox_list_result_append_entry ::
  "mailbox_list_entry list \<Rightarrow> nat \<Rightarrow> cstring \<Rightarrow> cstring \<Rightarrow> cstring \<Rightarrow> cstring \<Rightarrow> bool \<Rightarrow> nat \<Rightarrow> mailbox_list_entry list result" where
  "mailbox_list_result_append_entry entries kind mailbox_id mailbox_name hierarchy_delimiter special_use
     is_selectable child_state =
     bindE (mailbox_list_entry_init kind mailbox_id mailbox_name hierarchy_delimiter special_use is_selectable
              child_state) (\<lambda>entry. Inr (entries @ [entry]))"

text \<open>The argument is the number of delivery records of the projection, if it has a list.\<close>

definition mailbox_list_init_from_delivery_projection :: "nat option \<Rightarrow> mailbox_list_result result" where
  "mailbox_list_init_from_delivery_projection records =
     (case records of
        None \<Rightarrow> Inl (GError IO_INVALID_ARGUMENT (Not_initialized ''records''))
      | Some n \<Rightarrow>
          if n > 0
          then bindE (mailbox_list_result_append_entry [] LIST_ENTRY_ORDINARY (Some (lit ''mailbox-inbox''))
                        (Some (lit ''INBOX'')) (Some (lit ''/'')) (Some ([92] @ lit ''Inbox'')) True
                        CHILD_STATE_HAS_NO_CHILDREN) (\<lambda>entries. Inr (Some entries))
          else Inr (Some []))"

record mailbox_select_result =
  ms_kind :: nat
  ms_mailbox_id :: cstring
  ms_mailbox_name :: cstring
  ms_uid_validity :: u32
  ms_uid_next :: u32
  ms_message_count :: u32

definition ms_validate_required_text :: "string \<Rightarrow> cstring \<Rightarrow> unit result" where
  "ms_validate_required_text field_name value = required_text field_name value"

definition ms_validate_kind :: "nat \<Rightarrow> unit result" where
  "ms_validate_kind kind =
     failIf (kind \<noteq> LIST_ENTRY_ORDINARY \<and> kind \<noteq> LIST_ENTRY_VIRTUAL) (GError IO_INVALID_ARGUMENT (Invalid_value ''kind''))"

definition mailbox_select_result_init ::
  "nat \<Rightarrow> cstring \<Rightarrow> cstring \<Rightarrow> u32 \<Rightarrow> u32 \<Rightarrow> u32 \<Rightarrow> mailbox_select_result result" where
  "mailbox_select_result_init kind mailbox_id mailbox_name uid_validity uid_next message_count =
     bindE (ms_validate_kind kind) (\<lambda>_.
     bindE (ms_validate_required_text ''mailbox_id'' mailbox_id) (\<lambda>_.
     bindE (ms_validate_required_text ''mailbox_name'' mailbox_name) (\<lambda>_.
       if uid_validity = 0 then Inl (GError IO_INVALID_ARGUMENT (Invalid_value ''uidvalidity''))
       else if uid_next = 0 then Inl (GError IO_INVALID_ARGUMENT (Invalid_value ''uidnext''))
       else Inr \<lparr>ms_kind = kind, ms_mailbox_id = mailbox_id, ms_mailbox_name = mailbox_name,
                 ms_uid_validity = uid_validity, ms_uid_next = uid_next, ms_message_count = message_count\<rparr>)))"

section \<open>Response frames\<close>

abbreviation RESPONSE_NONE :: nat where "RESPONSE_NONE \<equiv> 0"
abbreviation RESPONSE_SUCCESS :: nat where "RESPONSE_SUCCESS \<equiv> 1"
abbreviation RESPONSE_ERROR :: nat where "RESPONSE_ERROR \<equiv> 2"
abbreviation RESPONSE_STREAM_CHUNK :: nat where "RESPONSE_STREAM_CHUNK \<equiv> 3"
abbreviation RESPONSE_MAILBOX_LIST :: nat where "RESPONSE_MAILBOX_LIST \<equiv> 4"
abbreviation RESPONSE_MAILBOX_SELECT :: nat where "RESPONSE_MAILBOX_SELECT \<equiv> 5"

record response_frame =
  rf_request_id :: cstring
  rf_correlation_id :: cstring
  rf_kind :: nat
  rf_success :: success_receipt
  rf_error :: error_frame
  rf_stream_chunk :: stream_chunk_frame
  rf_mailbox_list :: mailbox_list_result
  rf_mailbox_select :: mailbox_select_result

definition empty_response_frame :: response_frame where
  "empty_response_frame =
     \<lparr>rf_request_id = None, rf_correlation_id = None, rf_kind = RESPONSE_NONE,
      rf_success = \<lparr>sr_request_id = None, sr_durable_marker = None, sr_journal_offset = 0,
        sr_journal_sequence = 0, sr_summary = None\<rparr>,
      rf_error = \<lparr>ef_request_id = None, ef_error_class = 0, ef_message = None, ef_retry_hint = None\<rparr>,
      rf_stream_chunk = \<lparr>sc_request_id = None, sc_message_id = None, sc_query_id = None, sc_correlation_id = None,
        sc_chunk_index = 0, sc_bytes = None, sc_end_of_stream = False\<rparr>,
      rf_mailbox_list = None,
      rf_mailbox_select = \<lparr>ms_kind = 0, ms_mailbox_id = None, ms_mailbox_name = None, ms_uid_validity = 0,
        ms_uid_next = 0, ms_message_count = 0\<rparr>\<rparr>"

definition copy_success_receipt :: "success_receipt \<Rightarrow> success_receipt result" where
  "copy_success_receipt src =
     (if null_or_empty (sr_request_id src) then Inl (GError IO_INVALID_ARGUMENT (Required ''request_id''))
      else if null_or_empty (sr_durable_marker src) then Inl (GError IO_INVALID_ARGUMENT (Required ''durable marker''))
      else if sr_journal_sequence src = 0 then Inl (GError IO_INVALID_ARGUMENT (Required ''journal sequence''))
      else if null_or_empty (sr_summary src) then Inl (GError IO_INVALID_ARGUMENT (Required ''summary''))
      else Inr src)"

definition copy_error_frame :: "error_frame \<Rightarrow> error_frame result" where
  "copy_error_frame src =
     error_frame_init (ef_request_id src) (ef_error_class src) (ef_message src) (ef_retry_hint src)"

definition copy_stream_chunk_frame :: "stream_chunk_frame \<Rightarrow> stream_chunk_frame result" where
  "copy_stream_chunk_frame src =
     stream_chunk_frame_init (sc_request_id src) (sc_message_id src) (sc_query_id src) (sc_correlation_id src)
       (sc_chunk_index src) (sc_bytes src) (sc_end_of_stream src)"

fun copy_list_entries :: "mailbox_list_entry list \<Rightarrow> mailbox_list_entry list \<Rightarrow> mailbox_list_entry list result" where
  "copy_list_entries dest [] = Inr dest"
| "copy_list_entries dest (e # es) =
     bindE (mailbox_list_result_append_entry dest (le_kind e) (le_mailbox_id e) (le_mailbox_name e)
              (le_hierarchy_delimiter e) (le_special_use e) (le_is_selectable e) (le_child_state e)) (\<lambda>dest'.
       copy_list_entries dest' es)"

definition copy_mailbox_list_result :: "mailbox_list_result \<Rightarrow> mailbox_list_result result" where
  "copy_mailbox_list_result src =
     (case src of
        None \<Rightarrow> Inl (GError IO_INVALID_ARGUMENT (Not_initialized ''result''))
      | Some es \<Rightarrow> bindE (copy_list_entries [] es) (\<lambda>copied. Inr (Some copied)))"

definition copy_mailbox_select_result :: "mailbox_select_result \<Rightarrow> mailbox_select_result result" where
  "copy_mailbox_select_result src =
     mailbox_select_result_init (ms_kind src) (ms_mailbox_id src) (ms_mailbox_name src) (ms_uid_validity src)
       (ms_uid_next src) (ms_message_count src)"

definition validate_required_request_id :: "cstring \<Rightarrow> unit result" where
  "validate_required_request_id request_id =
     failIf (null_or_empty request_id) (GError IO_INVALID_ARGUMENT (Required ''request_id''))"

definition response_frame_init_success :: "success_receipt \<Rightarrow> cstring \<Rightarrow> response_frame result" where
  "response_frame_init_success success correlation_id =
     bindE (copy_success_receipt success) (\<lambda>s.
       Inr (empty_response_frame\<lparr>rf_success := s, rf_request_id := sr_request_id success,
              rf_correlation_id := copy_optional correlation_id, rf_kind := RESPONSE_SUCCESS\<rparr>))"

definition response_frame_init_error :: "error_frame \<Rightarrow> cstring \<Rightarrow> response_frame result" where
  "response_frame_init_error frame correlation_id =
     bindE (copy_error_frame frame) (\<lambda>e.
       Inr (empty_response_frame\<lparr>rf_error := e, rf_request_id := ef_request_id frame,
              rf_correlation_id := copy_optional correlation_id, rf_kind := RESPONSE_ERROR\<rparr>))"

definition response_frame_init_stream_chunk :: "stream_chunk_frame \<Rightarrow> response_frame result" where
  "response_frame_init_stream_chunk chunk =
     bindE (copy_stream_chunk_frame chunk) (\<lambda>c.
       Inr (empty_response_frame\<lparr>rf_stream_chunk := c, rf_request_id := sc_request_id chunk,
              rf_correlation_id := copy_optional (sc_correlation_id chunk), rf_kind := RESPONSE_STREAM_CHUNK\<rparr>))"

definition response_frame_init_mailbox_list ::
  "cstring \<Rightarrow> cstring \<Rightarrow> mailbox_list_result \<Rightarrow> response_frame result" where
  "response_frame_init_mailbox_list request_id correlation_id mailbox_list =
     bindE (validate_required_request_id request_id) (\<lambda>_.
     bindE (copy_mailbox_list_result mailbox_list) (\<lambda>l.
       Inr (empty_response_frame\<lparr>rf_mailbox_list := l, rf_request_id := request_id,
              rf_correlation_id := copy_optional correlation_id, rf_kind := RESPONSE_MAILBOX_LIST\<rparr>)))"

definition response_frame_init_mailbox_select ::
  "cstring \<Rightarrow> cstring \<Rightarrow> mailbox_select_result \<Rightarrow> response_frame result" where
  "response_frame_init_mailbox_select request_id correlation_id mailbox_select =
     bindE (validate_required_request_id request_id) (\<lambda>_.
     bindE (copy_mailbox_select_result mailbox_select) (\<lambda>s.
       Inr (empty_response_frame\<lparr>rf_mailbox_select := s, rf_request_id := request_id,
              rf_correlation_id := copy_optional correlation_id, rf_kind := RESPONSE_MAILBOX_SELECT\<rparr>)))"

definition response_frame_init_fact_mutation_success ::
  "cstring \<Rightarrow> cstring \<Rightarrow> fact_mutation_request \<Rightarrow> u64 \<Rightarrow> u64 \<Rightarrow> response_frame result" where
  "response_frame_init_fact_mutation_success request_id correlation_id request journal_offset journal_sequence =
     bindE (success_receipt_init_fact_mutation request_id request journal_offset journal_sequence) (\<lambda>receipt.
       response_frame_init_success receipt correlation_id)"

definition response_frame_init_fact_batch_import_success ::
  "cstring \<Rightarrow> cstring \<Rightarrow> fact_batch_request \<Rightarrow> u64 \<Rightarrow> u64 \<Rightarrow> response_frame result" where
  "response_frame_init_fact_batch_import_success request_id correlation_id request journal_offset journal_sequence =
     bindE (success_receipt_init_fact_batch_import request_id request journal_offset journal_sequence) (\<lambda>receipt.
       response_frame_init_success receipt correlation_id)"

section \<open>Well-formed frames\<close>

lemma copy_optional_idem [simp]: "copy_optional (copy_optional v) = copy_optional v"
  by (cases v) (auto simp: copy_optional_def)

lemma null_or_empty_copy_optional [simp]: "null_or_empty (copy_optional v) \<longleftrightarrow> null_or_empty v"
  by (cases v) (auto simp: copy_optional_def)

lemma copy_optional_not_empty [simp]: "copy_optional v \<noteq> Some []"
  by (cases v) (auto simp: copy_optional_def)

lemma copy_optional_stored: "v \<noteq> Some [] \<Longrightarrow> copy_optional v = v"
  by (cases v) (auto simp: copy_optional_def)

text \<open>
  The type of a response, stated without the checks of the code: what each payload has to hold,
  one payload per kind, the ids that have to agree, and nothing in the fields of the other kinds.
  A stored optional string is absent or not empty.
\<close>

definition some_text :: "cstring \<Rightarrow> bool" where
  "some_text v \<longleftrightarrow> (\<exists>s. v = Some s \<and> s \<noteq> [])"

definition printable_text :: "cstring \<Rightarrow> bool" where
  "printable_text v \<longleftrightarrow> (\<exists>s. v = Some s \<and> s \<noteq> [] \<and> (\<forall>c \<in> set s. 32 \<le> c \<and> c \<noteq> 127))"

definition receipt_typed :: "success_receipt \<Rightarrow> bool" where
  "receipt_typed r \<longleftrightarrow> some_text (sr_request_id r) \<and> some_text (sr_durable_marker r) \<and> sr_journal_sequence r \<noteq> 0 \<and>
     some_text (sr_summary r)"

definition error_typed :: "error_frame \<Rightarrow> bool" where
  "error_typed e \<longleftrightarrow> some_text (ef_request_id e) \<and> ef_error_class e \<le> ERROR_INTERNAL_ERROR \<and> some_text (ef_message e) \<and>
     (ef_retry_hint e = None \<or> some_text (ef_retry_hint e))"

definition chunk_typed :: "stream_chunk_frame \<Rightarrow> bool" where
  "chunk_typed c \<longleftrightarrow> printable_text (sc_request_id c) \<and>
     (sc_message_id c = None \<and> printable_text (sc_query_id c) \<or> printable_text (sc_message_id c) \<and> sc_query_id c = None) \<and>
     (sc_correlation_id c = None \<or> printable_text (sc_correlation_id c)) \<and>
     (some_text (sc_bytes c) \<or> sc_bytes c = Some [] \<and> sc_end_of_stream c)"

definition entry_typed :: "mailbox_list_entry \<Rightarrow> bool" where
  "entry_typed e \<longleftrightarrow> (le_kind e = LIST_ENTRY_ORDINARY \<or> le_kind e = LIST_ENTRY_VIRTUAL) \<and>
     printable_text (le_mailbox_id e) \<and> printable_text (le_mailbox_name e) \<and>
     printable_text (le_hierarchy_delimiter e) \<and> (\<exists>c. le_hierarchy_delimiter e = Some [c]) \<and>
     (le_special_use e = None \<or> printable_text (le_special_use e)) \<and> le_child_state e \<le> CHILD_STATE_HAS_NO_CHILDREN"

definition select_typed :: "mailbox_select_result \<Rightarrow> bool" where
  "select_typed s \<longleftrightarrow> (ms_kind s = LIST_ENTRY_ORDINARY \<or> ms_kind s = LIST_ENTRY_VIRTUAL) \<and>
     printable_text (ms_mailbox_id s) \<and> printable_text (ms_mailbox_name s) \<and> ms_uid_validity s \<noteq> 0 \<and> ms_uid_next s \<noteq> 0"

definition frame_head :: "response_frame \<Rightarrow> response_frame" where
  "frame_head f = empty_response_frame\<lparr>rf_request_id := rf_request_id f, rf_correlation_id := rf_correlation_id f,
     rf_kind := rf_kind f\<rparr>"

definition frame_content :: "response_frame \<Rightarrow> bool" where
  "frame_content f \<longleftrightarrow>
     rf_kind f = RESPONSE_SUCCESS \<and> receipt_typed (rf_success f) \<and> sr_request_id (rf_success f) = rf_request_id f \<and>
       f = (frame_head f)\<lparr>rf_success := rf_success f\<rparr> \<or>
     rf_kind f = RESPONSE_ERROR \<and> error_typed (rf_error f) \<and> ef_request_id (rf_error f) = rf_request_id f \<and>
       f = (frame_head f)\<lparr>rf_error := rf_error f\<rparr> \<or>
     rf_kind f = RESPONSE_STREAM_CHUNK \<and> chunk_typed (rf_stream_chunk f) \<and>
       sc_request_id (rf_stream_chunk f) = rf_request_id f \<and> sc_correlation_id (rf_stream_chunk f) = rf_correlation_id f \<and>
       f = (frame_head f)\<lparr>rf_stream_chunk := rf_stream_chunk f\<rparr> \<or>
     rf_kind f = RESPONSE_MAILBOX_LIST \<and> (\<exists>es. rf_mailbox_list f = Some es \<and> list_all entry_typed es) \<and>
       f = (frame_head f)\<lparr>rf_mailbox_list := rf_mailbox_list f\<rparr> \<or>
     rf_kind f = RESPONSE_MAILBOX_SELECT \<and> select_typed (rf_mailbox_select f) \<and>
       f = (frame_head f)\<lparr>rf_mailbox_select := rf_mailbox_select f\<rparr>"

definition frame_wf :: "response_frame \<Rightarrow> bool" where
  "frame_wf f \<longleftrightarrow> some_text (rf_request_id f) \<and> (rf_correlation_id f = None \<or> some_text (rf_correlation_id f)) \<and>
     frame_content f"

lemma some_text_iff: "some_text v \<longleftrightarrow> \<not> null_or_empty v"
  by (cases v) (auto simp: some_text_def)

lemma no_controls_printable: "no_controls s \<longleftrightarrow> (\<forall>c \<in> set s. 32 \<le> c \<and> c \<noteq> 127)"
  by (auto simp: no_controls_def list_all_iff g_ascii_iscntrl_def)

lemma printable_iff: "printable_text v \<longleftrightarrow> (\<exists>s. v = Some s \<and> text_ok s)"
  by (auto simp: printable_text_def text_ok_iff no_controls_printable)

lemma stored_optional: "v = None \<or> some_text v \<Longrightarrow> copy_optional v = v"
  by (auto simp: some_text_def)

text \<open>A payload passes its check exactly if the copy that the frame stores is of its type.\<close>

lemma copy_success_receipt_Inr: "copy_success_receipt r = Inr s \<longleftrightarrow> s = r \<and> receipt_typed r"
  by (auto simp: copy_success_receipt_def receipt_typed_def some_text_iff)

lemma error_class_known: "error_class_to_string c = None \<longleftrightarrow> \<not> c \<le> ERROR_INTERNAL_ERROR"
  by (auto simp: error_class_to_string_def error_class_mappings_def)

lemma copy_error_frame_Inr:
  "copy_error_frame e = Inr s \<longleftrightarrow> s = e\<lparr>ef_retry_hint := copy_optional (ef_retry_hint e)\<rparr> \<and> error_typed s"
  by (cases "null_or_empty (ef_retry_hint e)")
    (auto simp: copy_error_frame_def error_frame_init_def error_typed_def some_text_iff error_class_known copy_optional_def)

lemma copy_stream_chunk_frame_Inr:
  "copy_stream_chunk_frame c = Inr s \<longleftrightarrow>
     s = c\<lparr>sc_message_id := copy_optional (sc_message_id c), sc_query_id := copy_optional (sc_query_id c),
           sc_correlation_id := copy_optional (sc_correlation_id c), sc_bytes := Some (case sc_bytes c of None \<Rightarrow> [] | Some b \<Rightarrow> b)\<rparr> \<and>
     chunk_typed s"
proof -
  have opt: "optional_text f v = Inr () \<longleftrightarrow> copy_optional v = None \<or> printable_text (copy_optional v)" for f v
    by (cases v) (auto simp: optional_text_Inr printable_iff text_ok_iff copy_optional_def no_controls_def)
  have req: "\<not> null_or_empty v \<and> (copy_optional v = None \<or> printable_text (copy_optional v)) \<longleftrightarrow> printable_text v" for v
    by (cases v) (auto simp: printable_iff copy_optional_def text_ok_def)
  have absent: "copy_optional v = None \<longleftrightarrow> null_or_empty v" for v
    by (cases v) (simp_all add: copy_optional_def)
  have present: "printable_text (copy_optional v) \<Longrightarrow> \<not> null_or_empty v" for v
    by (cases v) (auto simp: printable_iff copy_optional_def split: if_splits)
  have data: "\<not> (\<not> eos \<and> (d = None \<or> d = Some [])) \<longleftrightarrow>
      some_text (Some (case d of None \<Rightarrow> [] | Some b \<Rightarrow> b)) \<or> Some (case d of None \<Rightarrow> [] | Some b \<Rightarrow> b) = Some [] \<and> eos" for d :: cstring and eos
    by (cases d) (auto simp: some_text_def)
  have built: "copy_stream_chunk_frame c = Inr s \<longleftrightarrow>
     \<not> null_or_empty (sc_request_id c) \<and> \<not> (\<not> null_or_empty (sc_message_id c)) = (\<not> null_or_empty (sc_query_id c)) \<and>
     optional_text ''request_id'' (sc_request_id c) = Inr () \<and> optional_text ''message_id'' (sc_message_id c) = Inr () \<and>
     optional_text ''query_id'' (sc_query_id c) = Inr () \<and> optional_text ''correlation_id'' (sc_correlation_id c) = Inr () \<and>
     \<not> (\<not> sc_end_of_stream c \<and> (sc_bytes c = None \<or> sc_bytes c = Some [])) \<and>
     s = c\<lparr>sc_message_id := copy_optional (sc_message_id c), sc_query_id := copy_optional (sc_query_id c),
           sc_correlation_id := copy_optional (sc_correlation_id c), sc_bytes := Some (case sc_bytes c of None \<Rightarrow> [] | Some b \<Rightarrow> b)\<rparr>"
    unfolding copy_stream_chunk_frame_def stream_chunk_frame_init_def Let_def if_Inl_Inr_iff bindE_Inr_iff sc_validate_text_field_def
    by auto
  have "\<not> null_or_empty i \<and> \<not> (\<not> null_or_empty m) = (\<not> null_or_empty q) \<and> optional_text a i = Inr () \<and>
      optional_text b m = Inr () \<and> optional_text d q = Inr () \<longleftrightarrow>
      printable_text i \<and> (copy_optional m = None \<and> printable_text (copy_optional q) \<or> printable_text (copy_optional m) \<and> copy_optional q = None)"
    for i m q a b d
    unfolding opt absent using req [of i] present [of m] present [of q] by (auto simp: absent)
  note ids = this
  have "chunk_typed (c\<lparr>sc_message_id := copy_optional (sc_message_id c), sc_query_id := copy_optional (sc_query_id c),
           sc_correlation_id := copy_optional (sc_correlation_id c), sc_bytes := Some (case sc_bytes c of None \<Rightarrow> [] | Some b \<Rightarrow> b)\<rparr>) \<longleftrightarrow>
     (\<not> null_or_empty (sc_request_id c) \<and> \<not> (\<not> null_or_empty (sc_message_id c)) = (\<not> null_or_empty (sc_query_id c)) \<and>
      optional_text ''request_id'' (sc_request_id c) = Inr () \<and> optional_text ''message_id'' (sc_message_id c) = Inr () \<and>
      optional_text ''query_id'' (sc_query_id c) = Inr ()) \<and> optional_text ''correlation_id'' (sc_correlation_id c) = Inr () \<and>
     \<not> (\<not> sc_end_of_stream c \<and> (sc_bytes c = None \<or> sc_bytes c = Some []))"
    unfolding ids data chunk_typed_def opt [of _ "sc_correlation_id c"] by simp
  then show ?thesis
    unfolding built by blast
qed

definition stored_entry :: "mailbox_list_entry \<Rightarrow> mailbox_list_entry" where
  "stored_entry e = e\<lparr>le_special_use := copy_optional (le_special_use e)\<rparr>"

lemma hierarchy_delimiter_Inr:
  "validate_hierarchy_delimiter v = Inr () \<longleftrightarrow> printable_text v \<and> (\<exists>c. v = Some [c])"
proof -
  have "validate_hierarchy_delimiter (Some s) = Inr () \<longleftrightarrow> printable_text (Some s) \<and> (\<exists>c. s = [c])" for s
    by (cases s rule: list.exhaust; cases "tl s")
      (auto simp: validate_hierarchy_delimiter_def failIf_Inr_iff printable_text_def g_ascii_iscntrl_def)
  then show ?thesis
    by (cases v) (auto simp: validate_hierarchy_delimiter_def printable_text_def)
qed

lemma mailbox_list_entry_Inr:
  "mailbox_list_entry_init (le_kind e) (le_mailbox_id e) (le_mailbox_name e) (le_hierarchy_delimiter e) (le_special_use e)
     (le_is_selectable e) (le_child_state e) = Inr s \<longleftrightarrow> s = stored_entry e \<and> entry_typed s"
proof -
  have opt: "optional_text f v = Inr () \<longleftrightarrow> copy_optional v = None \<or> printable_text (copy_optional v)" for f v
    by (cases v) (auto simp: optional_text_Inr printable_iff text_ok_iff copy_optional_def no_controls_def)
  show ?thesis
    by (auto simp: mailbox_list_entry_init_def bindE_Inr_iff validate_entry_kind_def failIf_Inr_iff hierarchy_delimiter_Inr
        ml_validate_required_text_def ml_validate_optional_text_def required_text_Inr opt validate_child_state_def
        entry_typed_def printable_iff [symmetric] stored_entry_def)
qed

lemma copy_list_entries_Inr:
  "copy_list_entries dest es = Inr out \<longleftrightarrow> out = dest @ map stored_entry es \<and> list_all entry_typed (map stored_entry es)"
  by (induction es arbitrary: dest) (auto simp: mailbox_list_result_append_entry_def bindE_Inr_iff mailbox_list_entry_Inr)

lemma copy_mailbox_list_result_Inr:
  "copy_mailbox_list_result l = Inr s \<longleftrightarrow>
     (\<exists>es. l = Some es \<and> s = Some (map stored_entry es) \<and> list_all entry_typed (map stored_entry es))"
  by (cases l) (auto simp: copy_mailbox_list_result_def bindE_Inr_iff copy_list_entries_Inr)

lemma copy_mailbox_select_result_Inr: "copy_mailbox_select_result r = Inr s \<longleftrightarrow> s = r \<and> select_typed r"
  by (auto simp: copy_mailbox_select_result_def mailbox_select_result_init_def bindE_Inr_iff if_Inl_Inr_iff ms_validate_kind_def
      failIf_Inr_iff ms_validate_required_text_def required_text_Inr printable_iff select_typed_def)

text \<open>Where the type holds, the copy changes nothing.\<close>

lemma typed_stored:
  "error_typed e \<Longrightarrow> copy_error_frame e = Inr e"
  "chunk_typed c \<Longrightarrow> copy_stream_chunk_frame c = Inr c"
  "list_all entry_typed es \<Longrightarrow> copy_mailbox_list_result (Some es) = Inr (Some es)"
proof -
  have opt: "v = None \<or> printable_text v \<Longrightarrow> copy_optional v = v" for v
    by (auto simp: printable_text_def)
  show "error_typed e \<Longrightarrow> copy_error_frame e = Inr e"
    using stored_optional [of "ef_retry_hint e"] by (auto simp: copy_error_frame_Inr error_typed_def)
  show "chunk_typed c \<Longrightarrow> copy_stream_chunk_frame c = Inr c"
  proof -
    assume c: "chunk_typed c"
    then have "copy_optional (sc_message_id c) = sc_message_id c" "copy_optional (sc_query_id c) = sc_query_id c"
      "copy_optional (sc_correlation_id c) = sc_correlation_id c" "Some (case sc_bytes c of None \<Rightarrow> [] | Some b \<Rightarrow> b) = sc_bytes c"
      by (auto simp: chunk_typed_def some_text_def intro!: opt)
    with c show ?thesis by (simp add: copy_stream_chunk_frame_Inr)
  qed
  have "map stored_entry es = es" if "list_all entry_typed es"
    using that by (auto simp: stored_entry_def list_all_iff entry_typed_def opt intro!: map_idI)
  then show "list_all entry_typed es \<Longrightarrow> copy_mailbox_list_result (Some es) = Inr (Some es)"
    by (simp add: copy_mailbox_list_result_Inr)
qed

text \<open>The frames that the five constructors build are exactly the well-formed ones.\<close>

definition frame_built :: "response_frame \<Rightarrow> bool" where
  "frame_built f \<longleftrightarrow>
     (\<exists>r c. response_frame_init_success r c = Inr f) \<or> (\<exists>e c. response_frame_init_error e c = Inr f) \<or>
     (\<exists>s. response_frame_init_stream_chunk s = Inr f) \<or> (\<exists>i c l. response_frame_init_mailbox_list i c l = Inr f) \<or>
     (\<exists>i c m. response_frame_init_mailbox_select i c m = Inr f)"

lemma stored_correlation: "copy_optional c = None \<or> some_text (copy_optional c)"
  by (cases c) (auto simp: some_text_def copy_optional_def)

lemma built_frames_wf:
  "receipt_typed r \<Longrightarrow> frame_wf (empty_response_frame\<lparr>rf_success := r, rf_request_id := sr_request_id r,
     rf_correlation_id := copy_optional c, rf_kind := RESPONSE_SUCCESS\<rparr>)"
  "error_typed e \<Longrightarrow> frame_wf (empty_response_frame\<lparr>rf_error := e, rf_request_id := ef_request_id e,
     rf_correlation_id := copy_optional c, rf_kind := RESPONSE_ERROR\<rparr>)"
  "chunk_typed s \<Longrightarrow> frame_wf (empty_response_frame\<lparr>rf_stream_chunk := s, rf_request_id := sc_request_id s,
     rf_correlation_id := sc_correlation_id s, rf_kind := RESPONSE_STREAM_CHUNK\<rparr>)"
  "list_all entry_typed es \<Longrightarrow> some_text i \<Longrightarrow> frame_wf (empty_response_frame\<lparr>rf_mailbox_list := Some es, rf_request_id := i,
     rf_correlation_id := copy_optional c, rf_kind := RESPONSE_MAILBOX_LIST\<rparr>)"
  "select_typed m \<Longrightarrow> some_text i \<Longrightarrow> frame_wf (empty_response_frame\<lparr>rf_mailbox_select := m, rf_request_id := i,
     rf_correlation_id := copy_optional c, rf_kind := RESPONSE_MAILBOX_SELECT\<rparr>)"
  using stored_correlation [of c]
  by (simp_all add: frame_wf_def frame_content_def frame_head_def empty_response_frame_def receipt_typed_def error_typed_def)
    (auto simp: chunk_typed_def printable_text_def some_text_def)

lemma frame_built_wf: "frame_built f \<Longrightarrow> frame_wf f"
  unfolding frame_built_def
proof (elim disjE exE)
  fix r c assume "response_frame_init_success r c = Inr f"
  then show "frame_wf f"
    using built_frames_wf(1) by (auto simp: response_frame_init_success_def bindE_Inr_iff copy_success_receipt_Inr)
next
  fix e c assume "response_frame_init_error e c = Inr f"
  then show "frame_wf f"
    using built_frames_wf(2) by (fastforce simp: response_frame_init_error_def bindE_Inr_iff copy_error_frame_Inr)
next
  fix s assume "response_frame_init_stream_chunk s = Inr f"
  then show "frame_wf f"
    using built_frames_wf(3) by (fastforce simp: response_frame_init_stream_chunk_def bindE_Inr_iff copy_stream_chunk_frame_Inr)
next
  fix i c l assume "response_frame_init_mailbox_list i c l = Inr f"
  then show "frame_wf f"
    using built_frames_wf(4) by (auto simp: response_frame_init_mailbox_list_def bindE_Inr_iff copy_mailbox_list_result_Inr
        validate_required_request_id_def failIf_Inr_iff some_text_iff)
next
  fix i c m assume "response_frame_init_mailbox_select i c m = Inr f"
  then show "frame_wf f"
    using built_frames_wf(5) by (auto simp: response_frame_init_mailbox_select_def bindE_Inr_iff copy_mailbox_select_result_Inr
        validate_required_request_id_def failIf_Inr_iff some_text_iff)
qed

lemma frame_wf_built:
  assumes "frame_wf f"
  shows "frame_built f"
proof -
  have head: "some_text (rf_request_id f)" "copy_optional (rf_correlation_id f) = rf_correlation_id f"
    using assms stored_optional by (auto simp: frame_wf_def)
  from assms have "frame_content f" by (simp add: frame_wf_def)
  then show ?thesis
    unfolding frame_content_def
  proof (elim conjE disjE exE)
    assume "receipt_typed (rf_success f)" "sr_request_id (rf_success f) = rf_request_id f" "rf_kind f = RESPONSE_SUCCESS"
      and f: "f = (frame_head f)\<lparr>rf_success := rf_success f\<rparr>"
    then have "response_frame_init_success (rf_success f) (rf_correlation_id f) = Inr ((frame_head f)\<lparr>rf_success := rf_success f\<rparr>)"
      using head by (auto simp: response_frame_init_success_def bindE_Inr_iff copy_success_receipt_Inr frame_head_def empty_response_frame_def)
    with f show ?thesis unfolding frame_built_def by metis
  next
    assume "error_typed (rf_error f)" "ef_request_id (rf_error f) = rf_request_id f" "rf_kind f = RESPONSE_ERROR"
      and f: "f = (frame_head f)\<lparr>rf_error := rf_error f\<rparr>"
    then have "response_frame_init_error (rf_error f) (rf_correlation_id f) = Inr ((frame_head f)\<lparr>rf_error := rf_error f\<rparr>)"
      using head typed_stored(1) by (auto simp: response_frame_init_error_def bindE_Inr_iff frame_head_def empty_response_frame_def)
    with f show ?thesis unfolding frame_built_def by metis
  next
    assume "chunk_typed (rf_stream_chunk f)" "sc_request_id (rf_stream_chunk f) = rf_request_id f" "rf_kind f = RESPONSE_STREAM_CHUNK"
      "sc_correlation_id (rf_stream_chunk f) = rf_correlation_id f" and f: "f = (frame_head f)\<lparr>rf_stream_chunk := rf_stream_chunk f\<rparr>"
    then have "response_frame_init_stream_chunk (rf_stream_chunk f) = Inr ((frame_head f)\<lparr>rf_stream_chunk := rf_stream_chunk f\<rparr>)"
      using head typed_stored(2) by (auto simp: response_frame_init_stream_chunk_def bindE_Inr_iff frame_head_def empty_response_frame_def)
    with f show ?thesis unfolding frame_built_def by metis
  next
    fix es assume "rf_mailbox_list f = Some es" "list_all entry_typed es" "rf_kind f = RESPONSE_MAILBOX_LIST"
      and f: "f = (frame_head f)\<lparr>rf_mailbox_list := rf_mailbox_list f\<rparr>"
    then have "response_frame_init_mailbox_list (rf_request_id f) (rf_correlation_id f) (rf_mailbox_list f) =
        Inr ((frame_head f)\<lparr>rf_mailbox_list := rf_mailbox_list f\<rparr>)"
      using head typed_stored(3) by (auto simp: response_frame_init_mailbox_list_def validate_required_request_id_def bindE_Inr_iff
          failIf_Inr_iff some_text_iff frame_head_def empty_response_frame_def)
    with f show ?thesis unfolding frame_built_def by metis
  next
    assume "select_typed (rf_mailbox_select f)" "rf_kind f = RESPONSE_MAILBOX_SELECT"
      and f: "f = (frame_head f)\<lparr>rf_mailbox_select := rf_mailbox_select f\<rparr>"
    then have "response_frame_init_mailbox_select (rf_request_id f) (rf_correlation_id f) (rf_mailbox_select f) =
        Inr ((frame_head f)\<lparr>rf_mailbox_select := rf_mailbox_select f\<rparr>)"
      using head by (auto simp: response_frame_init_mailbox_select_def validate_required_request_id_def bindE_Inr_iff
          failIf_Inr_iff some_text_iff frame_head_def empty_response_frame_def copy_mailbox_select_result_Inr)
    with f show ?thesis unfolding frame_built_def by metis
  qed
qed

lemma frame_wf_iff: "frame_wf f \<longleftrightarrow> frame_built f"
  using frame_built_wf frame_wf_built by blast

lemma frame_built_fact:
  "response_frame_init_fact_mutation_success rid c r off sequence = Inr f \<Longrightarrow> frame_built f"
  "response_frame_init_fact_batch_import_success rid c b off sequence = Inr f \<Longrightarrow> frame_built f"
  unfolding frame_built_def
  by (auto simp: response_frame_init_fact_mutation_success_def response_frame_init_fact_batch_import_success_def bindE_Inr_iff)

text \<open>A receipt that could be made is never refused as a response.\<close>

lemma receipt_is_a_response:
  "success_receipt_init_delivery_ingestion rid r = Inr s \<Longrightarrow> \<exists>f. response_frame_init_success s c = Inr f"
  "success_receipt_init_fact_mutation rid q off sequence = Inr s \<Longrightarrow> \<exists>f. response_frame_init_success s c = Inr f"
  "success_receipt_init_fact_batch_import rid b off sequence = Inr s \<Longrightarrow> \<exists>f. response_frame_init_success s c = Inr f"
  by (auto simp: success_receipt_init_delivery_ingestion_def success_receipt_init_fact_mutation_def
      success_receipt_init_fact_batch_import_def response_frame_init_success_def copy_success_receipt_def
      durable_marker_def lit_def bindE_Inr_iff split: if_splits)

end
