(* ===== verification/Frame_Io.thy ===== *)
theory Frame_Io
  imports Wire
begin

text \<open>
  \<^verbatim>\<open>src/wyrebox/daemon/wyrebox-daemon-frame-io.c\<close>: frames on the daemon's socket, a big-endian
  length before the payload. A write that succeeds returns the bytes put on the stream.
\<close>

abbreviation DAEMON_MAX_FRAME_SIZE_BYTES :: nat where "DAEMON_MAX_FRAME_SIZE_BYTES \<equiv> 4194304"

definition write_u32_be :: "u32 \<Rightarrow> bytes" where
  "write_u32_be v = [ucast (drop_bit 24 v), ucast (drop_bit 16 v), ucast (drop_bit 8 v), ucast v]"

definition read_u32_be :: "bytes \<Rightarrow> u32" where
  "read_u32_be data =
     push_bit 24 (ucast (data ! 0)) OR push_bit 16 (ucast (data ! 1)) OR push_bit 8 (ucast (data ! 2)) OR
     ucast (data ! 3)"

definition frame_bytes :: "bytes \<Rightarrow> bytes" where
  "frame_bytes payload = write_u32_be (of_nat (length payload)) @ payload"

text \<open>\<open>write_ok\<close> is the answer of \<^verbatim>\<open>g_output_stream_write_all\<close>, which writes everything or fails.\<close>

definition frame_io_write_payload :: "bool \<Rightarrow> cstring \<Rightarrow> bytes result" where
  "frame_io_write_payload write_ok payload =
     (case payload of
        None \<Rightarrow> Inl (GError IO_INVALID_ARGUMENT (Required ''payload''))
      | Some p \<Rightarrow>
          if length p = 0 then Inl (GError IO_INVALID_ARGUMENT (Required ''non-empty payload''))
          else if length p > DAEMON_MAX_FRAME_SIZE_BYTES then Inl (GError IO_INVALID_ARGUMENT (Too_long ''payload''))
          else if write_ok then Inr (frame_bytes p) else Inl (GError IO_ERRNO (Syscall ''write'')))"

definition frame_io_read_payload_or_eof :: "in_stream \<Rightarrow> (bytes option \<times> in_stream) result" where
  "frame_io_read_payload_or_eof s =
     bindE (stream_read_all 4 s) (\<lambda>(prefix, s1).
       if length prefix = 0 then Inr (None, s1)
       else if length prefix \<noteq> 4 then Inl (GError IO_INVALID_DATA Truncated)
       else let frame_size = unat (read_u32_be prefix) in
            if frame_size = 0 then Inl (GError IO_INVALID_ARGUMENT (Required ''non-empty payload''))
            else if frame_size > DAEMON_MAX_FRAME_SIZE_BYTES then Inl (GError IO_INVALID_ARGUMENT (Too_long ''payload''))
            else bindE (stream_read_all frame_size s1) (\<lambda>(payload, s2).
                 if length payload \<noteq> frame_size then Inl (GError IO_INVALID_DATA Truncated)
                 else Inr (Some payload, s2)))"

definition frame_io_read_payload :: "in_stream \<Rightarrow> (bytes \<times> in_stream) result" where
  "frame_io_read_payload s =
     bindE (frame_io_read_payload_or_eof s) (\<lambda>(payload, s').
       case payload of None \<Rightarrow> Inl (GError IO_INVALID_DATA Frame_ended) | Some p \<Rightarrow> Inr (p, s'))"

section \<open>What a reader accepts\<close>

lemma ucast_low_byte: "(ucast (x AND 0xFF) :: byte) = ucast (x :: u32)"
  by (rule bit_word_eqI) (simp only: bit_take_byte0, simp add: bit_unsigned_iff)

lemma write_u32_be_rev: "write_u32_be v = rev (write_u32_le v)"
  by (simp add: write_u32_be_def write_u32_le_def ucast_low_byte)

lemma read_u32_be_rev: "length data = 4 \<Longrightarrow> read_u32_be data = read_u32_le (rev data) 0"
  by (simp add: read_u32_be_def read_u32_le_def rev_nth or.commute or.left_commute)

lemma length_write_u32_be [simp]: "length (write_u32_be v) = 4"
  by (simp add: write_u32_be_def)

lemma read_u32_be_iff: "length data = 4 \<Longrightarrow> read_u32_be data = v \<longleftrightarrow> data = write_u32_be v"
proof -
  assume d: "length data = 4"
  then obtain a b c e where data: "data = [a, b, c, e]"
    by (auto simp: eval_nat_numeral length_Suc_conv)
  show ?thesis
  proof
    assume "read_u32_be data = v"
    then have "write_u32_le v = [e, c, b, a]"
      using write_u32_le_join [of e c b a] by (simp add: read_u32_be_rev d) (simp add: data read_u32_le_def)
    then show "data = write_u32_be v"
      by (simp add: write_u32_be_rev data)
  next
    assume "data = write_u32_be v"
    then show "read_u32_be data = v"
      using u32_join [of v] by (simp add: read_u32_be_rev write_u32_be_rev) (simp add: write_u32_le_def read_u32_le_def)
  qed
qed

lemma read_write_u32_be [simp]: "read_u32_be (write_u32_be v) = v" "write_u32_be v \<noteq> []"
  by (simp_all add: read_u32_be_iff) (simp add: write_u32_be_def)

definition frame_ok :: "bytes \<Rightarrow> bool" where
  "frame_ok p \<longleftrightarrow> p \<noteq> [] \<and> length p \<le> DAEMON_MAX_FRAME_SIZE_BYTES"

lemma frame_io_write_payload_Inr [result_simps]:
  "frame_io_write_payload ok payload = Inr b \<longleftrightarrow>
     ok \<and> (\<exists>p. payload = Some p \<and> frame_ok p \<and> b = frame_bytes p)"
  by (auto simp: frame_io_write_payload_def frame_ok_def split: option.splits)

lemma stream_read_all_Inr:
  "stream_read_all n s = Inr (p, s') \<longleftrightarrow>
     (n \<le> length (in_bytes s) \<or> \<not> in_broken s) \<and> p = take n (in_bytes s) \<and> s' = s\<lparr>in_bytes := drop n (in_bytes s)\<rparr>"
  by (auto simp: stream_read_all_def)

lemma stream_read_all_split:
  "stream_read_all n s = Inr (p, s') \<Longrightarrow> \<exists>r. in_bytes s = p @ r \<and> s' = s\<lparr>in_bytes := r\<rparr>"
  by (rule exI [of _ "drop n (in_bytes s)"]) (auto simp: stream_read_all_Inr)

lemma unat_of_frame: "frame_ok p \<Longrightarrow> unat (of_nat (length p) :: u32) = length p"
  by (simp add: frame_ok_def unat_of_nat take_bit_eq_mod)

lemma frame_io_read_payload_or_eof_frame:
  assumes "frame_ok p" and "in_bytes s = frame_bytes p @ rest"
  shows "frame_io_read_payload_or_eof s = Inr (Some p, s\<lparr>in_bytes := rest\<rparr>)"
  using assms
  by (simp add: frame_io_read_payload_or_eof_def stream_read_all_def frame_bytes_def Let_def unat_of_frame)
    (simp add: frame_ok_def)

lemma frame_io_read_payload_or_eof_Inr:
  "frame_io_read_payload_or_eof s = Inr (Some p, s') \<longleftrightarrow>
     (\<exists>rest. in_bytes s = frame_bytes p @ rest \<and> frame_ok p \<and> s' = s\<lparr>in_bytes := rest\<rparr>)"
  (is "?l \<longleftrightarrow> ?r")
proof
  assume ?l
  then obtain pre s1 where pre: "stream_read_all 4 s = Inr (pre, s1)" "length pre = 4"
      and size: "0 < unat (read_u32_be pre)" "unat (read_u32_be pre) \<le> DAEMON_MAX_FRAME_SIZE_BYTES"
      and p: "stream_read_all (unat (read_u32_be pre)) s1 = Inr (p, s')" "length p = unat (read_u32_be pre)"
    by (auto simp: frame_io_read_payload_or_eof_def Let_def bindE_Inr_iff split: if_splits)
  have "pre = write_u32_be (of_nat (length p))"
    using read_u32_be_iff [OF pre(2), of "read_u32_be pre"] p(2) by simp
  moreover obtain r1 r2 where "in_bytes s = pre @ r1" "s1 = s\<lparr>in_bytes := r1\<rparr>" "r1 = p @ r2" "s' = s\<lparr>in_bytes := r2\<rparr>"
    using stream_read_all_split [OF pre(1)] stream_read_all_split [OF p(1)] by auto
  moreover have "frame_ok p"
    using size p(2) by (auto simp: frame_ok_def)
  ultimately show ?r
    by (auto simp: frame_bytes_def)
next
  assume ?r
  then show ?l
    by (auto simp: frame_io_read_payload_or_eof_frame)
qed

lemma frame_io_read_payload_or_eof_end:
  "frame_io_read_payload_or_eof s = Inr (None, s') \<longleftrightarrow> in_bytes s = [] \<and> \<not> in_broken s \<and> s' = s"
  by (auto simp: frame_io_read_payload_or_eof_def bindE_Inr_iff stream_read_all_Inr Let_def split: if_splits)

lemma frame_io_read_payload_Inr [result_simps]:
  "frame_io_read_payload s = Inr (p, s') \<longleftrightarrow>
     (\<exists>rest. in_bytes s = frame_bytes p @ rest \<and> frame_ok p \<and> s' = s\<lparr>in_bytes := rest\<rparr>)"
  by (auto simp: frame_io_read_payload_def bindE_Inr_iff frame_io_read_payload_or_eof_Inr split: option.splits)

lemma frame_bytes_inject: "frame_bytes p @ r = frame_bytes q @ r' \<Longrightarrow> frame_ok p \<Longrightarrow> frame_ok q \<Longrightarrow> p = q \<and> r = r'"
  using frame_io_read_payload_or_eof_frame [of p "\<lparr>in_bytes = frame_bytes p @ r, in_broken = False\<rparr>" r]
    frame_io_read_payload_or_eof_frame [of q "\<lparr>in_bytes = frame_bytes p @ r, in_broken = False\<rparr>" r']
  by simp

end
