(* ===== verification/Postfix_Outcome.thy ===== *)
theory Postfix_Outcome
  imports Daemon_Frames Frame_Io Delivery_Request
begin

text \<open>
  From the daemon's response to what Postfix is told: the LMTP reply
  (\<^verbatim>\<open>wyrebox-postfix-lmtp-reply.c\<close>), the exit status of the pipe transport
  (\<^verbatim>\<open>wyrebox-postfix-pipe-outcome.c\<close>), and the bridge that sends a request over the daemon's socket
  and always has a reply (\<^verbatim>\<open>wyrebox-postfix-lmtp-delivery-bridge.c\<close>,
  \<^verbatim>\<open>src/wyrebox/daemon/wyrebox-daemon-uds-client.c\<close>).

  The two outcome enumerations of the code have the same three values. \<open>describe\<close> stands for the
  domain name and code of a \<^verbatim>\<open>GError\<close>, which go to the log only.
\<close>

datatype delivery_outcome = DELIVERED | TEMPORARY_FAILURE | PERMANENT_FAILURE

definition nullable_context :: "cstring \<Rightarrow> bytes" where
  "nullable_context value = (if null_or_empty value then lit ''<none>'' else the value)"

definition outcome_to_string :: "delivery_outcome \<Rightarrow> bytes" where
  "outcome_to_string outcome =
     (case outcome of
        DELIVERED \<Rightarrow> lit ''delivered''
      | TEMPORARY_FAILURE \<Rightarrow> lit ''temporary_failure''
      | PERMANENT_FAILURE \<Rightarrow> lit ''permanent_failure'')"

section \<open>LMTP replies\<close>

record lmtp_reply =
  lr_outcome :: delivery_outcome
  lr_reply_code :: nat
  lr_enhanced_status :: bytes
  lr_reply_text :: bytes
  lr_log_message :: bytes

definition request_context :: "cstring \<Rightarrow> cstring \<Rightarrow> bytes" where
  "request_context request_id correlation_id =
     lit ''request_id='' @ nullable_context request_id @ lit '' correlation_id='' @ nullable_context correlation_id"

definition temporary_reply :: "bytes \<Rightarrow> lmtp_reply" where
  "temporary_reply log_message =
     \<lparr>lr_outcome = TEMPORARY_FAILURE, lr_reply_code = 451, lr_enhanced_status = lit ''4.3.0'',
      lr_reply_text = lit ''Temporary local delivery failure'',
      lr_log_message = lit ''postfix_lmtp outcome=temporary_failure reply_code=451 enhanced_status=4.3.0 '' @ log_message\<rparr>"

definition reply_init_temporary_failure :: "cstring \<Rightarrow> cstring \<Rightarrow> cstring \<Rightarrow> cstring \<Rightarrow> lmtp_reply" where
  "reply_init_temporary_failure request_id correlation_id failure_source failure_class =
     temporary_reply (request_context request_id correlation_id @ lit '' failure_source='' @
       nullable_context failure_source @ lit '' failure_class='' @ nullable_context failure_class)"

definition reply_init_from_success :: "response_frame \<Rightarrow> lmtp_reply" where
  "reply_init_from_success response =
     (let success = rf_success response in
      if null_or_empty (sr_request_id success) \<or> null_or_empty (sr_durable_marker success) \<or>
         sr_journal_sequence success = 0
      then reply_init_temporary_failure (rf_request_id response) (rf_correlation_id response)
             (Some (lit ''daemon'')) (Some (lit ''malformedSuccess''))
      else \<lparr>lr_outcome = DELIVERED, lr_reply_code = 250, lr_enhanced_status = lit ''2.0.0'',
            lr_reply_text = lit ''Delivery accepted'',
            lr_log_message = lit ''postfix_lmtp outcome=delivered reply_code=250 enhanced_status=2.0.0 '' @
              request_context (rf_request_id response) (rf_correlation_id response) @
              lit '' durable_marker='' @ nullable_context (sr_durable_marker success) @
              lit '' journal_offset='' @ print_u64 (sr_journal_offset success) @
              lit '' journal_sequence='' @ print_u64 (sr_journal_sequence success)\<rparr>)"

definition reply_codes_for_daemon_error_class :: "nat \<Rightarrow> delivery_outcome \<times> nat \<times> bytes \<times> bytes" where
  "reply_codes_for_daemon_error_class error_class =
     (if error_class = ERROR_TEMPORARY_FAILURE \<or> error_class = ERROR_CONFLICT \<or> error_class = ERROR_INTERNAL_ERROR
      then (TEMPORARY_FAILURE, 451, lit ''4.3.0'', lit ''Temporary local delivery failure'')
      else if error_class = ERROR_PERMANENT_FAILURE
      then (PERMANENT_FAILURE, 554, lit ''5.6.0'', lit ''Message rejected'')
      else if error_class = ERROR_PERMISSION_DENIED
      then (PERMANENT_FAILURE, 550, lit ''5.7.1'', lit ''Delivery not authorized'')
      else if error_class = ERROR_NOT_FOUND
      then (PERMANENT_FAILURE, 550, lit ''5.1.1'', lit ''Recipient unavailable'')
      else (TEMPORARY_FAILURE, 451, lit ''4.3.0'', lit ''Temporary local delivery failure''))"

definition reply_init_from_daemon_error :: "response_frame \<Rightarrow> lmtp_reply" where
  "reply_init_from_daemon_error response =
     (let frame = rf_error response; error_class = error_class_to_string (ef_error_class frame) in
      if null_or_empty (ef_request_id frame) \<or> error_class = None
      then reply_init_temporary_failure (rf_request_id response) (rf_correlation_id response)
             (Some (lit ''daemon'')) (Some (lit ''malformedError''))
      else case reply_codes_for_daemon_error_class (ef_error_class frame) of
             (outcome, reply_code, enhanced_status, reply_text) \<Rightarrow>
               \<lparr>lr_outcome = outcome, lr_reply_code = reply_code, lr_enhanced_status = enhanced_status,
                lr_reply_text = reply_text,
                lr_log_message = lit ''postfix_lmtp outcome='' @ outcome_to_string outcome @
                  lit '' reply_code='' @ print_nat reply_code @ lit '' enhanced_status='' @ enhanced_status @
                  lit '' '' @ request_context (rf_request_id response) (rf_correlation_id response) @
                  lit '' daemon_error_class='' @ the error_class\<rparr>)"

definition reply_init_from_response :: "response_frame \<Rightarrow> lmtp_reply" where
  "reply_init_from_response response =
     (if rf_kind response = RESPONSE_SUCCESS then reply_init_from_success response
      else if rf_kind response = RESPONSE_ERROR then reply_init_from_daemon_error response
      else if rf_kind response = RESPONSE_NONE
      then reply_init_temporary_failure (rf_request_id response) (rf_correlation_id response)
             (Some (lit ''daemon'')) (Some (lit ''missingResponseKind''))
      else reply_init_temporary_failure (rf_request_id response) (rf_correlation_id response)
             (Some (lit ''daemon'')) (Some (lit ''unsupportedResponseKind'')))"

definition reply_init_from_delivery_error ::
  "(gerror \<Rightarrow> bytes \<times> bytes) \<Rightarrow> cstring \<Rightarrow> cstring \<Rightarrow> gerror \<Rightarrow> lmtp_reply" where
  "reply_init_from_delivery_error describe request_id correlation_id e =
     temporary_reply (request_context request_id correlation_id @ lit '' local_error_domain='' @
       nullable_context (Some (fst (describe e))) @ lit '' local_error_code='' @ snd (describe e))"

section \<open>The daemon's socket\<close>

text \<open>
  What the peer at the socket does with one request: whether the connection is made, the frame
  written, the sending side shut down and the stream closed without error, and the bytes it answers.
\<close>

record daemon_peer =
  dp_connects :: bool
  dp_write_ok :: bool
  dp_shutdown_ok :: bool
  dp_response :: in_stream
  dp_close_ok :: bool

definition uds_client_send_request :: "daemon_peer \<Rightarrow> cstring \<Rightarrow> cstring \<Rightarrow> bytes result" where
  "uds_client_send_request peer socket_path request_payload =
     (if null_or_empty socket_path then Inl (GError IO_INVALID_ARGUMENT (Required ''socket path''))
      else if request_payload = None then Inl (GError IO_INVALID_ARGUMENT (Required ''payload''))
      else if request_payload = Some [] then Inl (GError IO_INVALID_ARGUMENT (Required ''non-empty payload''))
      else if \<not> dp_connects peer then Inl (GError IO_ERRNO (Syscall ''connect''))
      else bindE (frame_io_write_payload (dp_write_ok peer) request_payload) (\<lambda>_.
        if \<not> dp_shutdown_ok peer then Inl (GError IO_ERRNO (Syscall ''shutdown''))
        else bindE (frame_io_read_payload (dp_response peer)) (\<lambda>(response, _).
          if \<not> dp_close_ok peer then Inl (GError IO_ERRNO (Syscall ''close''))
          else Inr response)))"

section \<open>The bridge\<close>

text \<open>
  The Cap'n Proto codec is two parameters: \<open>encode\<close> and \<open>decode\<close>. A pointer argument that the code
  checks for NULL is an option.
\<close>

type_synonym request_encoder = "request_identity \<Rightarrow> delivery_request \<Rightarrow> bytes result"
type_synonym response_decoder = "bytes \<Rightarrow> response_frame result"

definition set_local_delivery_reply ::
  "(gerror \<Rightarrow> bytes \<times> bytes) \<Rightarrow> request_identity option \<Rightarrow> gerror \<Rightarrow> lmtp_reply" where
  "set_local_delivery_reply describe identity e =
     reply_init_from_delivery_error describe (map_option ri_request_id identity)
       (case identity of None \<Rightarrow> None | Some i \<Rightarrow> ri_correlation_id i) e"

definition validate_input :: "cstring \<Rightarrow> request_identity option \<Rightarrow> delivery_request option \<Rightarrow> unit result" where
  "validate_input socket_path identity request =
     (if null_or_empty socket_path then Inl (GError IO_INVALID_ARGUMENT (Required ''socket path''))
      else if identity = None \<or> ri_request_id (the identity) = [] \<or> null_or_empty (ri_correlation_id (the identity))
      then Inl (GError IO_INVALID_ARGUMENT (Required ''identity''))
      else failIf (request = None) (GError IO_INVALID_ARGUMENT (Required ''request'')))"

definition response_matches_identity :: "response_frame \<Rightarrow> request_identity \<Rightarrow> bool" where
  "response_matches_identity response identity \<longleftrightarrow>
     rf_request_id response = Some (ri_request_id identity) \<and>
     rf_correlation_id response = ri_correlation_id identity"

definition bridge_exchange ::
  "request_encoder \<Rightarrow> response_decoder \<Rightarrow> daemon_peer \<Rightarrow> cstring \<Rightarrow> request_identity option \<Rightarrow> delivery_request option \<Rightarrow>
   response_frame result" where
  "bridge_exchange encode decode peer socket_path identity request =
     bindE (validate_input socket_path identity request) (\<lambda>_.
     bindE (encode (the identity) (the request)) (\<lambda>request_payload.
     bindE (uds_client_send_request peer socket_path (Some request_payload)) (\<lambda>response_payload.
     bindE (decode response_payload) (\<lambda>response.
       if \<not> response_matches_identity response (the identity) then Inl (GError IO_INVALID_DATA Identity_mismatch)
       else Inr response))))"

definition bridge_deliver ::
  "(gerror \<Rightarrow> bytes \<times> bytes) \<Rightarrow> request_encoder \<Rightarrow> response_decoder \<Rightarrow> daemon_peer \<Rightarrow> cstring \<Rightarrow>
   request_identity option \<Rightarrow> delivery_request option \<Rightarrow> lmtp_reply" where
  "bridge_deliver describe encode decode peer socket_path identity request =
     (case bridge_exchange encode decode peer socket_path identity request of
        Inl e \<Rightarrow> set_local_delivery_reply describe identity e
      | Inr response \<Rightarrow> reply_init_from_response response)"

definition exit_status_for_reply :: "lmtp_reply \<Rightarrow> nat" where
  "exit_status_for_reply reply =
     (case lr_outcome reply of DELIVERED \<Rightarrow> 0 | PERMANENT_FAILURE \<Rightarrow> 65 | TEMPORARY_FAILURE \<Rightarrow> 75)"

definition reply_line :: "lmtp_reply \<Rightarrow> bytes" where
  "reply_line reply =
     print_nat (lr_reply_code reply) @ lit '' '' @ lr_enhanced_status reply @ lit '' '' @ lr_reply_text reply"

section \<open>Exit status of the pipe transport\<close>

abbreviation EX_OK :: nat where "EX_OK \<equiv> 0"
abbreviation EX_DATAERR :: nat where "EX_DATAERR \<equiv> 65"
abbreviation EX_UNAVAILABLE :: nat where "EX_UNAVAILABLE \<equiv> 69"
abbreviation EX_TEMPFAIL :: nat where "EX_TEMPFAIL \<equiv> 75"
abbreviation EX_NOPERM :: nat where "EX_NOPERM \<equiv> 77"

record pipe_decision =
  pd_outcome :: delivery_outcome
  pd_exit_status :: nat
  pd_log_message :: bytes

definition exit_status_for_daemon_error_class :: "nat \<Rightarrow> nat" where
  "exit_status_for_daemon_error_class error_class =
     (if error_class = ERROR_TEMPORARY_FAILURE \<or> error_class = ERROR_CONFLICT \<or> error_class = ERROR_INTERNAL_ERROR
      then EX_TEMPFAIL
      else if error_class = ERROR_PERMANENT_FAILURE then EX_DATAERR
      else if error_class = ERROR_PERMISSION_DENIED then EX_NOPERM
      else if error_class = ERROR_NOT_FOUND then EX_UNAVAILABLE
      else EX_TEMPFAIL)"

definition outcome_for_exit_status :: "nat \<Rightarrow> delivery_outcome" where
  "outcome_for_exit_status exit_status =
     (if exit_status = EX_OK then DELIVERED else if exit_status = EX_TEMPFAIL then TEMPORARY_FAILURE
      else PERMANENT_FAILURE)"

definition decision_init_from_success :: "response_frame \<Rightarrow> pipe_decision result" where
  "decision_init_from_success response =
     (let success = rf_success response in
      if null_or_empty (sr_request_id success) then Inl (GError IO_INVALID_DATA (Required ''request_id''))
      else Inr \<lparr>pd_outcome = DELIVERED, pd_exit_status = EX_OK,
                pd_log_message = lit ''postfix_pipe outcome=delivered exit_status='' @ print_nat EX_OK @ lit '' '' @
                  request_context (rf_request_id response) (rf_correlation_id response) @
                  lit '' durable_marker='' @ nullable_context (sr_durable_marker success) @
                  lit '' journal_offset='' @ print_u64 (sr_journal_offset success) @
                  lit '' journal_sequence='' @ print_u64 (sr_journal_sequence success)\<rparr>)"

definition decision_init_from_daemon_error :: "response_frame \<Rightarrow> pipe_decision result" where
  "decision_init_from_daemon_error response =
     (let frame = rf_error response; error_class = error_class_to_string (ef_error_class frame) in
      if null_or_empty (ef_request_id frame) then Inl (GError IO_INVALID_DATA (Required ''request_id''))
      else if error_class = None then Inl (GError IO_INVALID_DATA (Unsupported ''error class''))
      else let exit_status = exit_status_for_daemon_error_class (ef_error_class frame);
               outcome = outcome_for_exit_status exit_status
           in Inr \<lparr>pd_outcome = outcome, pd_exit_status = exit_status,
                   pd_log_message = lit ''postfix_pipe outcome='' @ outcome_to_string outcome @
                     lit '' exit_status='' @ print_nat exit_status @ lit '' '' @
                     request_context (rf_request_id response) (rf_correlation_id response) @
                     lit '' daemon_error_class='' @ the error_class\<rparr>)"

definition pipe_decision_init_from_response :: "response_frame \<Rightarrow> pipe_decision result" where
  "pipe_decision_init_from_response response =
     (if rf_kind response = RESPONSE_SUCCESS then decision_init_from_success response
      else if rf_kind response = RESPONSE_ERROR then decision_init_from_daemon_error response
      else if rf_kind response = RESPONSE_NONE then Inl (GError IO_INVALID_DATA (Missing ''response kind''))
      else Inl (GError IO_INVALID_DATA (Unsupported ''response kind'')))"

definition pipe_decision_init_from_local_error ::
  "(gerror \<Rightarrow> bytes \<times> bytes) \<Rightarrow> cstring \<Rightarrow> cstring \<Rightarrow> gerror \<Rightarrow> pipe_decision" where
  "pipe_decision_init_from_local_error describe request_id correlation_id e =
     \<lparr>pd_outcome = TEMPORARY_FAILURE, pd_exit_status = EX_TEMPFAIL,
      pd_log_message = lit ''postfix_pipe outcome=temporary_failure exit_status='' @ print_nat EX_TEMPFAIL @ lit '' '' @
        request_context request_id correlation_id @ lit '' local_error_domain='' @
        nullable_context (Some (fst (describe e))) @ lit '' local_error_code='' @ snd (describe e)\<rparr>"

section \<open>What a reply means\<close>

definition receipt_durable :: "success_receipt \<Rightarrow> bool" where
  "receipt_durable r \<longleftrightarrow> \<not> null_or_empty (sr_request_id r) \<and> \<not> null_or_empty (sr_durable_marker r) \<and>
     sr_journal_sequence r \<noteq> 0"

definition reply_consistent :: "lmtp_reply \<Rightarrow> bool" where
  "reply_consistent r \<longleftrightarrow>
     (case lr_outcome r of
        DELIVERED \<Rightarrow> lr_reply_code r = 250
      | TEMPORARY_FAILURE \<Rightarrow> lr_reply_code r = 451
      | PERMANENT_FAILURE \<Rightarrow> lr_reply_code r = 550 \<or> lr_reply_code r = 554)"

lemma temporary_reply_simps [simp]:
  "lr_outcome (temporary_reply l) = TEMPORARY_FAILURE" "lr_reply_code (temporary_reply l) = 451"
  "lr_enhanced_status (temporary_reply l) = lit ''4.3.0''"
  "lr_reply_text (temporary_reply l) = lit ''Temporary local delivery failure''"
  by (simp_all add: temporary_reply_def)

lemma reply_init_temporary_failure_simps [simp]:
  "lr_outcome (reply_init_temporary_failure r c s f) = TEMPORARY_FAILURE"
  "lr_reply_code (reply_init_temporary_failure r c s f) = 451"
  by (simp_all add: reply_init_temporary_failure_def)

lemma reply_init_from_success_simps:
  "lr_outcome (reply_init_from_success f) = (if receipt_durable (rf_success f) then DELIVERED else TEMPORARY_FAILURE)"
  "lr_reply_code (reply_init_from_success f) = (if receipt_durable (rf_success f) then 250 else 451)"
  by (simp_all add: reply_init_from_success_def receipt_durable_def Let_def)

lemma reply_codes_consistent:
  "reply_codes_for_daemon_error_class c = (outcome, code, status, txt) \<Longrightarrow>
     outcome = TEMPORARY_FAILURE \<and> code = 451 \<or> outcome = PERMANENT_FAILURE \<and> (code = 550 \<or> code = 554)"
  by (simp add: reply_codes_for_daemon_error_class_def split: if_splits)

lemma reply_init_from_daemon_error_simps:
  "lr_outcome (reply_init_from_daemon_error f) = TEMPORARY_FAILURE \<and> lr_reply_code (reply_init_from_daemon_error f) = 451 \<or>
   lr_outcome (reply_init_from_daemon_error f) = PERMANENT_FAILURE \<and>
     (lr_reply_code (reply_init_from_daemon_error f) = 550 \<or> lr_reply_code (reply_init_from_daemon_error f) = 554)"
  using reply_codes_consistent [of "ef_error_class (rf_error f)"]
  by (cases "reply_codes_for_daemon_error_class (ef_error_class (rf_error f))")
    (simp add: reply_init_from_daemon_error_def Let_def)

lemma reply_init_from_response_delivered:
  "lr_outcome (reply_init_from_response f) = DELIVERED \<longleftrightarrow>
     rf_kind f = RESPONSE_SUCCESS \<and> receipt_durable (rf_success f)"
  using reply_init_from_daemon_error_simps [of f]
  by (auto simp: reply_init_from_response_def reply_init_from_success_simps)

lemma reply_init_from_response_consistent: "reply_consistent (reply_init_from_response f)"
  using reply_init_from_daemon_error_simps [of f]
  by (auto simp: reply_consistent_def reply_init_from_response_def reply_init_from_success_simps)

lemma set_local_delivery_reply_temporary:
  "lr_outcome (set_local_delivery_reply describe i e) = TEMPORARY_FAILURE"
  "lr_reply_code (set_local_delivery_reply describe i e) = 451"
  by (simp_all add: set_local_delivery_reply_def reply_init_from_delivery_error_def)

lemma bridge_deliver_consistent: "reply_consistent (bridge_deliver describe encode decode peer path identity request)"
  using reply_init_from_response_consistent set_local_delivery_reply_temporary
  by (auto simp: bridge_deliver_def reply_consistent_def split: sum.split)

lemma bridge_deliver_temporary:
  "lr_outcome (bridge_deliver describe encode decode peer path identity request) = TEMPORARY_FAILURE \<Longrightarrow>
   lr_reply_code (bridge_deliver describe encode decode peer path identity request) = 451"
  using bridge_deliver_consistent [of describe encode decode peer path identity request]
  by (simp add: reply_consistent_def)

lemma bridge_deliver_delivered:
  "lr_outcome (bridge_deliver describe encode decode peer path identity request) = DELIVERED \<longleftrightarrow>
     (\<exists>f. bridge_exchange encode decode peer path identity request = Inr f \<and>
        rf_kind f = RESPONSE_SUCCESS \<and> receipt_durable (rf_success f))"
  by (auto simp: bridge_deliver_def reply_init_from_response_delivered set_local_delivery_reply_temporary
      split: sum.split)

lemma reply_code_250: "reply_consistent r \<Longrightarrow> lr_reply_code r = 250 \<longleftrightarrow> lr_outcome r = DELIVERED"
  by (cases "lr_outcome r") (auto simp: reply_consistent_def)

lemma uds_client_send_request_Inr:
  "uds_client_send_request peer path payload = Inr response \<longleftrightarrow>
     \<not> null_or_empty path \<and> dp_connects peer \<and> dp_write_ok peer \<and> dp_shutdown_ok peer \<and> dp_close_ok peer \<and>
     (\<exists>p. payload = Some p \<and> frame_ok p) \<and>
     frame_ok response \<and> (\<exists>rest. in_bytes (dp_response peer) = frame_bytes response @ rest)"
  by (auto simp: uds_client_send_request_def bindE_Inr_iff frame_io_write_payload_Inr frame_io_read_payload_Inr frame_ok_def)

lemma bridge_exchange_Inr:
  "bridge_exchange encode decode peer path (Some i) (Some r) = Inr f \<longleftrightarrow>
     ri_request_id i \<noteq> [] \<and> \<not> null_or_empty (ri_correlation_id i) \<and>
     (\<exists>payload response. encode i r = Inr payload \<and>
        uds_client_send_request peer path (Some payload) = Inr response \<and> decode response = Inr f) \<and>
     response_matches_identity f i"
  by (auto simp: bridge_exchange_def validate_input_def result_simps uds_client_send_request_def)

text \<open>A payload above the frame limit is never sent, so its message is never delivered.\<close>

lemma bridge_deliver_oversized:
  assumes "encode i r = Inr payload" and "DAEMON_MAX_FRAME_SIZE_BYTES < length payload"
  shows "lr_outcome (bridge_deliver describe encode decode peer path (Some i) (Some r)) = TEMPORARY_FAILURE"
proof -
  have "\<forall>f. bridge_exchange encode decode peer path (Some i) (Some r) \<noteq> Inr f"
    using assms by (auto simp: bridge_exchange_Inr uds_client_send_request_Inr frame_ok_def)
  then show ?thesis
    by (cases "bridge_exchange encode decode peer path (Some i) (Some r)")
      (auto simp: bridge_deliver_def set_local_delivery_reply_temporary)
qed

text \<open>Both transports agree on what a daemon error means.\<close>

lemma pipe_decision_error_class:
  "fst (reply_codes_for_daemon_error_class c) = outcome_for_exit_status (exit_status_for_daemon_error_class c)"
  by (simp add: reply_codes_for_daemon_error_class_def exit_status_for_daemon_error_class_def
      outcome_for_exit_status_def)

end
