(* ===== verification/Lmtp_Listener.thy ===== *)
theory Lmtp_Listener
  imports Lmtp_Session Postfix_Outcome
begin

text \<open>
  \<^verbatim>\<open>src/wyrebox/postfix/wyrebox-postfix-lmtp-delivery-main.c\<close>: the LMTP server that takes one
  connection, delivers its transaction once per recipient and answers each of them.

  The lines written to the client are a list, the line ends left out. \<open>le_writes i\<close> tells whether
  the write of the i-th line succeeds; \<open>le_peer i\<close> is the daemon as the i-th recipient meets it.
\<close>

record listener_options =
  lo_account_id :: cstring
  lo_delivery_id :: cstring
  lo_listen_socket_path :: cstring
  lo_daemon_socket_path :: cstring
  lo_max_message_bytes :: int

record listener_transaction =
  ln_seen_lhlo :: bool
  ln_seen_mail :: bool
  ln_sender :: cstring
  ln_recipients :: "bytes list"
  ln_message :: cstring

record listener_env =
  le_describe :: "gerror \<Rightarrow> bytes \<times> bytes"
  le_encode :: request_encoder
  le_decode :: response_decoder
  le_peer :: "nat \<Rightarrow> daemon_peer"
  le_writes :: "nat \<Rightarrow> bool"

abbreviation LMTP_DELIVERY_MAX_LINE_BYTES :: nat where "LMTP_DELIVERY_MAX_LINE_BYTES \<equiv> 8192"
abbreviation LMTP_DELIVERY_DEFAULT_MAX_MESSAGE_BYTES :: int where
  "LMTP_DELIVERY_DEFAULT_MAX_MESSAGE_BYTES \<equiv> 67108864"

section \<open>Options\<close>

definition with_listener_defaults :: "listener_options \<Rightarrow> listener_options" where
  "with_listener_defaults o1 =
     (let o2 = (if lo_listen_socket_path o1 = None
                then o1\<lparr>lo_listen_socket_path := Some (lit ''/run/wyrebox/wyrebox-lmtp.sock'')\<rparr> else o1);
          o3 = (if lo_daemon_socket_path o2 = None
                then o2\<lparr>lo_daemon_socket_path := Some (lit ''/run/wyrebox/wyrebox.sock'')\<rparr> else o2)
      in if lo_max_message_bytes o3 = 0
         then o3\<lparr>lo_max_message_bytes := LMTP_DELIVERY_DEFAULT_MAX_MESSAGE_BYTES\<rparr> else o3)"

definition listener_require_non_empty_argument :: "string \<Rightarrow> cstring \<Rightarrow> unit result" where
  "listener_require_non_empty_argument option_name value =
     failIf (null_or_empty value) (GError IO_INVALID_ARGUMENT (Required option_name))"

definition parse_options ::
  "(bytes list \<Rightarrow> (listener_options \<times> bytes list) result) \<Rightarrow> bytes list \<Rightarrow> listener_options result" where
  "parse_options parse_strv argv =
     bindE (parse_strv argv) (\<lambda>(options, left).
     bindE (listener_require_non_empty_argument ''--account-id'' (lo_account_id options)) (\<lambda>_.
     bindE (listener_require_non_empty_argument ''--delivery-id'' (lo_delivery_id options)) (\<lambda>_.
       if length left > 1 then Inl (GError IO_INVALID_ARGUMENT Unexpected_argument)
       else let options' = with_listener_defaults options in
            if lo_max_message_bytes options' < 0
            then Inl (GError IO_INVALID_ARGUMENT (Invalid_value ''--max-message-bytes''))
            else Inr options')))"

section \<open>Reading and writing\<close>

fun write_lines :: "(nat \<Rightarrow> bool) \<Rightarrow> bytes list \<Rightarrow> bytes list \<Rightarrow> bool \<times> bytes list" where
  "write_lines writes [] out = (True, out)"
| "write_lines writes (line # lines) out =
     (if writes (length out) then write_lines writes lines (out @ [line]) else (False, out))"

definition listener_read_line :: "bool \<Rightarrow> bytes \<Rightarrow> (bytes option \<times> bytes) result" where
  "listener_read_line broken input =
     read_crlf_loop LMTP_DELIVERY_MAX_LINE_BYTES
       (Some (if broken then read_error else GError IO_CONNECTION_CLOSED Connection_ended))
       (GError IO_CONNECTION_CLOSED Connection_ended) False [] input"

interpretation listener_lines: line_reader "listener_read_line broken" LMTP_DELIVERY_MAX_LINE_BYTES for broken
  by unfold_locales (auto simp: listener_read_line_def read_crlf_loop_line)

definition listener_path_argument :: "bytes \<Rightarrow> bytes \<Rightarrow> cstring" where
  "listener_path_argument line command = (if \<not> line_has_prefix_ci line command then None else extract_path line)"

definition is_valid_delivery_recipient :: "cstring \<Rightarrow> bool" where
  "is_valid_delivery_recipient recipient \<longleftrightarrow>
     \<not> null_or_empty recipient \<and> list_all (\<lambda>c. \<not> g_ascii_iscntrl c) (the recipient)"

definition append_data_line :: "nat \<Rightarrow> bytes \<Rightarrow> listener_transaction \<Rightarrow> listener_transaction option" where
  "append_data_line max_message line t =
     (let message = (case ln_message t of None \<Rightarrow> [] | Some m \<Rightarrow> m);
          payload = unstuffed line;
          next_len = length message + length payload + 2
      in if length payload > G_MAXUINT32 \<or> next_len > G_MAXUINT32 \<or> next_len > max_message then None
         else Some (t\<lparr>ln_message := Some (message @ payload @ crlf)\<rparr>))"

section \<open>Delivery\<close>

definition build_recipient_delivery_id :: "listener_options \<Rightarrow> nat \<Rightarrow> bytes" where
  "build_recipient_delivery_id options recipient_index =
     the (lo_delivery_id options) @ lit ''/rcpt/'' @ print_nat ((recipient_index + 1) mod 2 ^ 32)"

definition build_request_id :: "bytes \<Rightarrow> bytes" where
  "build_request_id delivery_id = lit ''postfix-lmtp:'' @ delivery_id"

definition validate_delivery_transaction :: "listener_transaction \<Rightarrow> bool" where
  "validate_delivery_transaction t \<longleftrightarrow>
     ln_sender t \<noteq> None \<and> length (ln_recipients t) \<noteq> 0 \<and> \<not> null_or_empty (ln_message t)"

definition build_delivery_request ::
  "listener_options \<Rightarrow> listener_transaction \<Rightarrow> nat \<Rightarrow> bytes \<Rightarrow> (request_identity \<times> delivery_request) result" where
  "build_delivery_request options t recipient_index message_bytes =
     (let delivery_id = build_recipient_delivery_id options recipient_index;
          request_id = build_request_id delivery_id
      in bindE (request_identity_init (Some request_id) (Some (lit ''postfix'')) (lo_account_id options)
                  (Some (lit ''wyrebox-postfix-lmtp-delivery'')) (Some request_id)) (\<lambda>identity.
         bindE (delivery_request_init (Some delivery_id) None (ln_sender t)
                  (Some [ln_recipients t ! recipient_index]) (Some message_bytes)) (\<lambda>request.
           Inr (identity, request))))"

definition temporary_failure_line :: bytes where
  "temporary_failure_line = lit ''451 4.3.0 Temporary local delivery failure''"

definition write_line_for_each_recipient ::
  "(nat \<Rightarrow> bool) \<Rightarrow> listener_transaction \<Rightarrow> bytes \<Rightarrow> bytes list \<Rightarrow> bool \<times> bytes list" where
  "write_line_for_each_recipient writes t line out = write_lines writes (replicate (length (ln_recipients t)) line) out"

definition write_local_temporary_failure ::
  "(nat \<Rightarrow> bool) \<Rightarrow> listener_transaction \<Rightarrow> bytes list \<Rightarrow> bool \<times> bytes list" where
  "write_local_temporary_failure writes t out =
     (if length (ln_recipients t) > 0 then write_line_for_each_recipient writes t temporary_failure_line out
      else write_lines writes [temporary_failure_line] out)"

text \<open>The loop over the recipients from index \<open>i\<close>: \<open>left\<close> of them remain.\<close>

fun deliver_recipients ::
  "listener_env \<Rightarrow> listener_options \<Rightarrow> listener_transaction \<Rightarrow> bytes \<Rightarrow> nat \<Rightarrow> nat \<Rightarrow> bytes list \<Rightarrow> bool \<times> bytes list" where
  "deliver_recipients env options t message_bytes i 0 out = (True, out)"
| "deliver_recipients env options t message_bytes i (Suc left) out =
     (case build_delivery_request options t i message_bytes of
        Inl e \<Rightarrow> write_local_temporary_failure (le_writes env) t out
      | Inr (identity, request) \<Rightarrow>
          (let reply = bridge_deliver (le_describe env) (le_encode env) (le_decode env) (le_peer env i)
                         (lo_daemon_socket_path options) (Some identity) (Some request)
           in if le_writes env (length out)
              then deliver_recipients env options t message_bytes (i + 1) left (out @ [reply_line reply])
              else (False, out)))"

definition deliver_transaction ::
  "listener_env \<Rightarrow> listener_options \<Rightarrow> listener_transaction \<Rightarrow> bytes list \<Rightarrow> bool \<times> bytes list" where
  "deliver_transaction env options t out =
     (if \<not> validate_delivery_transaction t then write_local_temporary_failure (le_writes env) t out
      else deliver_recipients env options t (the (ln_message t)) 0 (length (ln_recipients t)) out)"

section \<open>Commands\<close>

datatype listener_step = Reply "bytes list" listener_transaction | Start_data listener_transaction | Bye

definition bye_line :: bytes where "bye_line = lit ''221 2.0.0 Bye''"
definition bad_sequence_line :: bytes where "bad_sequence_line = lit ''503 5.5.1 Bad command sequence''"
definition recipient_line :: bytes where "recipient_line = lit ''250 2.1.5 Recipient accepted''"
definition reset_line :: bytes where "reset_line = lit ''250 2.0.0 Reset state''"
definition data_line :: bytes where "data_line = lit ''354 End data with <CR><LF>.<CR><LF>''"
definition too_large_line :: bytes where "too_large_line = lit ''552 5.3.4 Message size exceeds limit''"

definition reset_transaction :: "listener_transaction \<Rightarrow> listener_transaction" where
  "reset_transaction t = t\<lparr>ln_sender := None, ln_recipients := [], ln_message := None, ln_seen_mail := False\<rparr>"

definition listener_command :: "bytes \<Rightarrow> listener_transaction \<Rightarrow> listener_step" where
  "listener_command line t =
     (if line_has_prefix_ci line (lit ''LHLO '') then
        Reply [lit ''250-wyrebox'', lit ''250 PIPELINING''] (t\<lparr>ln_seen_lhlo := True\<rparr>)
      else if line_has_prefix_ci line (lit ''MAIL FROM:'') then
        (if \<not> ln_seen_lhlo t \<or> ln_seen_mail t then Reply [bad_sequence_line] t
         else case listener_path_argument line (lit ''MAIL FROM:'') of
                None \<Rightarrow> Reply [lit ''501 5.5.4 Bad sender address''] t
              | Some sender \<Rightarrow>
                  Reply [lit ''250 2.1.0 Sender accepted''] (t\<lparr>ln_sender := Some sender, ln_seen_mail := True\<rparr>))
      else if line_has_prefix_ci line (lit ''RCPT TO:'') then
        (if \<not> ln_seen_mail t then Reply [bad_sequence_line] t
         else let recipient = listener_path_argument line (lit ''RCPT TO:'') in
              if \<not> is_valid_delivery_recipient recipient then Reply [lit ''501 5.5.4 Bad recipient address''] t
              else Reply [recipient_line] (t\<lparr>ln_recipients := ln_recipients t @ [the recipient]\<rparr>))
      else if line_equals_ci line (lit ''DATA'') then
        (if length (ln_recipients t) = 0 then Reply [bad_sequence_line] t
         else Start_data (t\<lparr>ln_message := Some []\<rparr>))
      else if line_equals_ci line (lit ''RSET'') then Reply [reset_line] (reset_transaction t)
      else if line_equals_ci line (lit ''QUIT'') then Bye
      else Reply [lit ''500 5.5.2 Command not recognized''] t)"

section \<open>The connection\<close>

datatype data_end = Data_read listener_transaction | Data_refused listener_transaction | Data_failed gerror

text \<open>The inner loop, from the \<^verbatim>\<open>354\<close> to the line with a single dot.\<close>

function listener_data :: "nat \<Rightarrow> bool \<Rightarrow> listener_transaction \<Rightarrow> bytes \<Rightarrow> data_end" where
  "listener_data max_message broken t input =
     (case listener_read_line broken input of
        Inl e \<Rightarrow> Data_failed e
      | Inr (None, rest) \<Rightarrow> Data_failed (GError IO_CONNECTION_CLOSED Connection_ended)
      | Inr (Some raw_line, rest) \<Rightarrow>
          if raw_line = [46] then Data_read t
          else (case append_data_line max_message raw_line t of
                  None \<Rightarrow> Data_refused t
                | Some t' \<Rightarrow> listener_data max_message broken t' rest))"
  by pat_completeness auto

termination listener_data
  by (relation "measure (\<lambda>(_, _, _, input). length input)") (auto dest: listener_lines.next_line_shorter)

declare listener_data.simps [simp del]

definition write_error :: gerror where
  "write_error = GError IO_ERRNO (Syscall ''write'')"

definition finished :: "bool \<times> bytes list \<Rightarrow> unit result \<times> bytes list" where
  "finished w = (if fst w then Inr () else Inl write_error, snd w)"

text \<open>What follows \<^verbatim>\<open>DATA\<close>; the connection ends with it.\<close>

definition listener_transfer ::
  "listener_env \<Rightarrow> listener_options \<Rightarrow> bool \<Rightarrow> listener_transaction \<Rightarrow> bytes \<Rightarrow> bytes list \<Rightarrow> unit result \<times> bytes list" where
  "listener_transfer env options broken t input out =
     (case write_lines (le_writes env) [data_line] out of
        (False, out1) \<Rightarrow> (Inl write_error, out1)
      | (True, out1) \<Rightarrow>
          (case listener_data (nat (lo_max_message_bytes options)) broken t input of
             Data_failed e \<Rightarrow> (Inl e, out1)
           | Data_refused t' \<Rightarrow>
               (case write_line_for_each_recipient (le_writes env) t' too_large_line out1 of
                  (False, out2) \<Rightarrow> (Inl write_error, out2)
                | (True, out2) \<Rightarrow> finished (write_lines (le_writes env) [bye_line] out2))
           | Data_read t' \<Rightarrow>
               (case deliver_transaction env options t' out1 of
                  (False, out2) \<Rightarrow> (Inl write_error, out2)
                | (True, out2) \<Rightarrow> finished (write_lines (le_writes env) [bye_line] out2))))"

text \<open>
  A NULL line passes the comparison with \<^verbatim>\<open>LHLO\<close>, which comes first; the loop knows whether the
  array of the line has data yet.
\<close>

definition listener_line_command :: "cstring \<Rightarrow> listener_transaction \<Rightarrow> listener_step" where
  "listener_line_command line t =
     (case line of
        None \<Rightarrow> Reply [lit ''250-wyrebox'', lit ''250 PIPELINING''] (t\<lparr>ln_seen_lhlo := True\<rparr>)
      | Some l \<Rightarrow> listener_command l t)"

function listener_loop ::
  "listener_env \<Rightarrow> listener_options \<Rightarrow> bool \<Rightarrow> bool \<Rightarrow> listener_transaction \<Rightarrow> bytes \<Rightarrow> bytes list \<Rightarrow> unit result \<times> bytes list" where
  "listener_loop env options broken has_data t input out =
     (case listener_read_line broken input of
        Inl e \<Rightarrow> (Inl e, out)
      | Inr (None, rest) \<Rightarrow> (Inl (GError IO_CONNECTION_CLOSED Connection_ended), out)
      | Inr (Some raw_line, rest) \<Rightarrow>
          (case listener_line_command (line_string (has_data \<or> raw_line \<noteq> []) raw_line) t of
             Reply lines t' \<Rightarrow>
               (case write_lines (le_writes env) lines out of
                  (False, out') \<Rightarrow> (Inl write_error, out')
                | (True, out') \<Rightarrow> listener_loop env options broken (has_data \<or> raw_line \<noteq> []) t' rest out')
           | Start_data t' \<Rightarrow> listener_transfer env options broken t' rest out
           | Bye \<Rightarrow> finished (write_lines (le_writes env) [bye_line] out)))"
  by pat_completeness auto

termination listener_loop
  by (relation "measure (\<lambda>(_, _, _, _, _, input, _). length input)") (auto dest: listener_lines.next_line_shorter)

declare listener_loop.simps [simp del]

definition empty_listener_transaction :: listener_transaction where
  "empty_listener_transaction =
     \<lparr>ln_seen_lhlo = False, ln_seen_mail = False, ln_sender = None, ln_recipients = [], ln_message = None\<rparr>"

definition greeting_line :: bytes where "greeting_line = lit ''220 wyrebox LMTP ready''"

definition handle_connection ::
  "listener_env \<Rightarrow> listener_options \<Rightarrow> in_stream \<Rightarrow> unit result \<times> bytes list" where
  "handle_connection env options input =
     (case write_lines (le_writes env) [greeting_line] [] of
        (False, out) \<Rightarrow> (Inl write_error, out)
      | (True, out) \<Rightarrow>
          listener_loop env options (in_broken input) False empty_listener_transaction (in_bytes input) out)"

section \<open>One reply per recipient\<close>

lemma write_lines_True: "write_lines writes ls out = (True, out') \<Longrightarrow> out' = out @ ls"
  by (induction writes ls out rule: write_lines.induct) (auto split: if_splits)

lemma write_lines_all: "\<forall>i. writes i \<Longrightarrow> write_lines writes ls out = (True, out @ ls)"
  by (induction ls arbitrary: out) auto

lemma finished_Inr: "finished w = (Inr u, out) \<longleftrightarrow> w = (True, out)"
  by (cases w) (auto simp: finished_def)

lemma finished_line: "finished (write_lines writes [line] out) = (Inr u, out') \<Longrightarrow> out' = out @ [line]"
  by (auto simp: finished_Inr split: if_splits)

lemma text_ok_recipient: "is_valid_delivery_recipient r \<longleftrightarrow> (\<exists>s. r = Some s \<and> text_ok s)"
  by (cases r) (auto simp: is_valid_delivery_recipient_def text_ok_def)

lemma no_controls_print_nat [simp]: "no_controls (print_nat n)"
  using print_nat_digits [of n]
  by (auto simp: no_controls_def list_all_iff g_ascii_iscntrl_def g_ascii_isdigit_def word_le_nat_alt word_less_nat_alt)

lemma no_controls_lits [simp]:
  "no_controls (lit ''/rcpt/'')" "no_controls (lit ''postfix-lmtp:'')"
  by (simp_all add: no_controls_def lit_def g_ascii_iscntrl_def)

text \<open>Whether a request can be built does not depend on which recipient it is for.\<close>

definition requests_buildable :: "listener_options \<Rightarrow> listener_transaction \<Rightarrow> bool" where
  "requests_buildable o1 t \<longleftrightarrow> no_controls (the (lo_delivery_id o1)) \<and> (\<forall>s. ln_sender t = Some s \<longrightarrow> no_controls s)"

lemma build_delivery_request_Inr:
  assumes "list_all text_ok (ln_recipients t)" and "i < length (ln_recipients t)" and "m \<noteq> []"
  shows "(\<exists>identity request. build_delivery_request o1 t i m = Inr (identity, request)) \<longleftrightarrow> requests_buildable o1 t"
proof -
  have "text_ok (ln_recipients t ! i)"
    using assms by (simp add: list_all_length)
  then show ?thesis
    using assms(3)
    by (auto simp: build_delivery_request_def Let_def bindE_Inr_iff request_identity_init_Inr build_request_id_def
        build_recipient_delivery_id_def delivery_request_init_Inr requests_buildable_def text_ok_iff)
qed

lemma deliver_recipients_replies:
  assumes "list_all text_ok (ln_recipients t)" and "requests_buildable o1 t" and "m \<noteq> []"
  shows "i + left = length (ln_recipients t) \<Longrightarrow> deliver_recipients env o1 t m i left out = (True, out') \<Longrightarrow>
    \<exists>rs. out' = out @ rs \<and> length rs = left"
proof (induction left arbitrary: i out)
  case (Suc left)
  obtain identity request where b: "build_delivery_request o1 t i m = Inr (identity, request)"
    using build_delivery_request_Inr [OF assms(1) _ assms(3)] assms(2) Suc.prems(1) by fastforce
  define line where "line = reply_line (bridge_deliver (le_describe env) (le_encode env) (le_decode env) (le_peer env i)
      (lo_daemon_socket_path o1) (Some identity) (Some request))"
  have "deliver_recipients env o1 t m (i + 1) left (out @ [line]) = (True, out')"
    using Suc.prems(2) by (auto simp: b Let_def line_def split: if_splits)
  then obtain rs where "out' = (out @ [line]) @ rs" "length rs = left"
    using Suc.IH [of "i + 1" "out @ [line]"] Suc.prems(1) by auto
  then show ?case
    by (intro exI [of _ "line # rs"]) simp
qed simp

lemma write_local_temporary_failure_True:
  assumes "write_local_temporary_failure writes t out = (True, out')" and "ln_recipients t \<noteq> []"
  shows "out' = out @ replicate (length (ln_recipients t)) temporary_failure_line"
  using assms by (auto simp: write_local_temporary_failure_def write_line_for_each_recipient_def dest: write_lines_True)

lemma deliver_transaction_replies:
  assumes "list_all text_ok (ln_recipients t)" and "ln_recipients t \<noteq> []"
    and "deliver_transaction env o1 t out = (True, out')"
  shows "\<exists>rs. out' = out @ rs \<and> length rs = length (ln_recipients t)"
proof -
  have failed: "\<exists>rs. out' = out @ rs \<and> length rs = length (ln_recipients t)"
    if "write_local_temporary_failure (le_writes env) t out = (True, out')"
    using write_local_temporary_failure_True [OF that assms(2)] by simp
  show ?thesis
  proof (cases "validate_delivery_transaction t")
    case False
    with assms(3) failed show ?thesis by (simp add: deliver_transaction_def)
  next
    case True
    then obtain m where m: "ln_message t = Some m" "m \<noteq> []"
      by (auto simp: validate_delivery_transaction_def null_or_empty_def)
    have d: "deliver_recipients env o1 t m 0 (length (ln_recipients t)) out = (True, out')"
      using assms(3) True by (simp add: deliver_transaction_def m)
    show ?thesis
    proof (cases "requests_buildable o1 t")
      case True
      with deliver_recipients_replies [OF assms(1) _ m(2), of o1 0] d show ?thesis by simp
    next
      case False
      obtain e where "build_delivery_request o1 t 0 m = Inl e"
        using build_delivery_request_Inr [OF assms(1) _ m(2), of 0 o1] assms(2) False
        by (cases "build_delivery_request o1 t 0 m") auto
      moreover obtain k where "length (ln_recipients t) = Suc k"
        using assms(2) by (cases "ln_recipients t") auto
      ultimately show ?thesis
        using d failed by simp
    qed
  qed
qed

text \<open>
  The recipients a client knows to be accepted, counted from the lines it has seen.
\<close>

definition count_line :: "nat \<Rightarrow> bytes \<Rightarrow> nat" where
  "count_line n line = (if line = recipient_line then n + 1 else if line = reset_line then 0 else n)"

definition open_recipients :: "bytes list \<Rightarrow> nat" where
  "open_recipients lines = foldl count_line 0 lines"

definition listener_inv :: "listener_transaction \<Rightarrow> bytes list \<Rightarrow> bool" where
  "listener_inv t out \<longleftrightarrow> list_all text_ok (ln_recipients t) \<and> open_recipients out = length (ln_recipients t) \<and>
     data_line \<notin> set out"

lemmas line_defs = bye_line_def bad_sequence_line_def recipient_line_def reset_line_def data_line_def
  too_large_line_def greeting_line_def temporary_failure_line_def

lemma count_lines [simp]:
  "count_line n (lit ''250-wyrebox'') = n" "count_line n (lit ''250 PIPELINING'') = n"
  "count_line n (lit ''501 5.5.4 Bad sender address'') = n" "count_line n (lit ''250 2.1.0 Sender accepted'') = n"
  "count_line n (lit ''501 5.5.4 Bad recipient address'') = n"
  "count_line n (lit ''500 5.5.2 Command not recognized'') = n"
  "count_line n bad_sequence_line = n" "count_line n recipient_line = n + 1" "count_line n reset_line = 0"
  "count_line n greeting_line = n"
  by (simp_all add: count_line_def line_defs)

lemma not_data_line [simp]:
  "data_line \<noteq> lit ''250-wyrebox''" "data_line \<noteq> lit ''250 PIPELINING''"
  "data_line \<noteq> lit ''501 5.5.4 Bad sender address''" "data_line \<noteq> lit ''250 2.1.0 Sender accepted''"
  "data_line \<noteq> lit ''501 5.5.4 Bad recipient address''"
  "data_line \<noteq> lit ''500 5.5.2 Command not recognized''"
  "data_line \<noteq> bad_sequence_line" "data_line \<noteq> recipient_line" "data_line \<noteq> reset_line"
  "data_line \<noteq> greeting_line"
  by (simp_all add: line_defs)

lemma listener_command_inv:
  "listener_command line t = Reply lines t' \<Longrightarrow> listener_inv t out \<Longrightarrow> listener_inv t' (out @ lines)"
  by (auto simp: listener_command_def listener_inv_def open_recipients_def Let_def reset_transaction_def
      text_ok_recipient split: if_splits option.splits)

lemma listener_line_command_inv:
  assumes "listener_line_command line t = Reply lines t'" "listener_inv t out"
  shows "listener_inv t' (out @ lines)"
proof (cases line)
  case None
  with assms show ?thesis by (auto simp: listener_line_command_def listener_inv_def open_recipients_def)
next
  case (Some l)
  with assms listener_command_inv [of l t lines t' out] show ?thesis by (simp add: listener_line_command_def)
qed

lemma listener_command_data:
  "listener_command line t = Start_data t' \<Longrightarrow> ln_recipients t' = ln_recipients t \<and> ln_recipients t \<noteq> []"
  by (auto simp: listener_command_def Let_def split: if_splits option.splits)

lemma listener_line_command_data:
  "listener_line_command line t = Start_data t' \<Longrightarrow> ln_recipients t' = ln_recipients t \<and> ln_recipients t \<noteq> []"
  by (cases line) (simp_all add: listener_line_command_def listener_command_data)

lemma append_data_line_Some:
  "append_data_line mx line t = Some t' \<longleftrightarrow>
     (let message = (case ln_message t of None \<Rightarrow> [] | Some m \<Rightarrow> m)
      in length message + length (unstuffed line) + 2 \<le> G_MAXUINT32 \<and>
         length message + length (unstuffed line) + 2 \<le> mx \<and>
         t' = t\<lparr>ln_message := Some (message @ unstuffed line @ crlf)\<rparr>)"
  by (auto simp: append_data_line_def Let_def)

lemma listener_data_recipients:
  "case listener_data mx broken t input of
     Data_read t' \<Rightarrow> ln_recipients t' = ln_recipients t
   | Data_refused t' \<Rightarrow> ln_recipients t' = ln_recipients t
   | Data_failed e \<Rightarrow> True"
proof (induction mx broken t input rule: listener_data.induct)
  case (1 mx broken t input)
  show ?case
  proof (cases "\<exists>raw rest. listener_read_line broken input = Inr (Some raw, rest)")
    case True
    then obtain raw rest where l: "listener_read_line broken input = Inr (Some raw, rest)"
      by blast
    show ?thesis
    proof (cases "raw = [46] \<or> append_data_line mx raw t = None")
      case True
      then show ?thesis
        by (subst listener_data.simps) (auto simp: l)
    next
      case False
      then obtain u where u: "append_data_line mx raw t = Some u" "raw \<noteq> [46]"
        by auto
      then have "ln_recipients u = ln_recipients t"
        by (auto simp: append_data_line_Some Let_def)
      moreover have "listener_data mx broken t input = listener_data mx broken u rest"
        by (subst listener_data.simps) (simp add: l u)
      ultimately show ?thesis
        using "1.IH" [OF l refl refl u(2) u(1)] by (simp split: data_end.splits)
    qed
  next
    case False
    then show ?thesis
      by (subst listener_data.simps) (auto split: sum.split prod.split option.split)
  qed
qed

lemma listener_transfer_replies:
  assumes "listener_transfer env o1 broken t input out = (Inr u, out')"
    and "list_all text_ok (ln_recipients t)" and "ln_recipients t \<noteq> []"
  shows "\<exists>rs. out' = out @ data_line # rs @ [bye_line] \<and> length rs = length (ln_recipients t)"
proof -
  let ?out1 = "out @ [data_line]"
  have finish: "\<exists>rs. out' = out @ data_line # rs @ [bye_line] \<and> length rs = length (ln_recipients t)"
    if "out2 = ?out1 @ rs" "length rs = length (ln_recipients t)"
      "finished (write_lines (le_writes env) [bye_line] out2) = (Inr u, out')" for out2 rs
    using that(1,2) finished_line [OF that(3)] by simp
  have w: "write_lines (le_writes env) [data_line] out = (True, ?out1)"
    using assms(1) by (auto simp: listener_transfer_def split: if_splits)
  note kept = listener_data_recipients [where mx = "nat (lo_max_message_bytes o1)" and broken = broken and t = t and input = input]
  show ?thesis
  proof (cases "listener_data (nat (lo_max_message_bytes o1)) broken t input")
    case (Data_read t')
    then obtain out2 where d: "deliver_transaction env o1 t' ?out1 = (True, out2)"
        and f: "finished (write_lines (le_writes env) [bye_line] out2) = (Inr u, out')"
      using assms(1) w by (auto simp: listener_transfer_def simp del: write_lines.simps split: prod.splits bool.splits)
    have "ln_recipients t' = ln_recipients t"
      using kept Data_read by simp
    then obtain rs where "out2 = ?out1 @ rs" "length rs = length (ln_recipients t)"
      using deliver_transaction_replies [OF _ _ d] assms(2,3) by auto
    with f finish show ?thesis by blast
  next
    case (Data_refused t')
    then obtain out2 where d: "write_line_for_each_recipient (le_writes env) t' too_large_line ?out1 = (True, out2)"
        and f: "finished (write_lines (le_writes env) [bye_line] out2) = (Inr u, out')"
      using assms(1) w by (auto simp: listener_transfer_def simp del: write_lines.simps split: prod.splits bool.splits)
    have "ln_recipients t' = ln_recipients t"
      using kept Data_refused by simp
    then have "out2 = ?out1 @ replicate (length (ln_recipients t)) too_large_line"
      using d by (auto simp: write_line_for_each_recipient_def dest: write_lines_True)
    with f finish show ?thesis by fastforce
  next
    case (Data_failed e)
    with assms(1) w show ?thesis
      by (auto simp: listener_transfer_def simp del: write_lines.simps)
  qed
qed

lemma listener_loop_replies:
  "listener_loop env o1 broken h t input out = (Inr u, out') \<Longrightarrow> listener_inv t out \<Longrightarrow>
   (\<exists>pre. out' = pre @ [bye_line] \<and> data_line \<notin> set pre) \<or>
   (\<exists>pre rs. out' = pre @ data_line # rs @ [bye_line] \<and> data_line \<notin> set pre \<and> length rs = open_recipients pre \<and> rs \<noteq> [])"
proof (induction env o1 broken h t input out rule: listener_loop.induct)
  case (1 env o1 broken h t input out)
  from "1.prems"(1) obtain raw rest where l: "listener_read_line broken input = Inr (Some raw, rest)"
    by (subst (asm) listener_loop.simps) (auto split: sum.splits prod.splits option.splits)
  let ?h = "h \<or> raw \<noteq> []"
  let ?line = "line_string ?h raw"
  show ?case
  proof (cases "listener_line_command ?line t")
    case (Reply lines t')
    then obtain out1 where w: "write_lines (le_writes env) lines out = (True, out1)"
        and next_turn: "listener_loop env o1 broken ?h t' rest out1 = (Inr u, out')"
      using "1.prems"(1) by (subst (asm) listener_loop.simps) (auto simp: l split: prod.splits bool.splits)
    have "listener_inv t' out1"
      using listener_line_command_inv [OF Reply "1.prems"(2)] write_lines_True [OF w] by simp
    with "1.IH" [OF l refl refl Reply w [symmetric] refl] next_turn show ?thesis
      by blast
  next
    case (Start_data t')
    then have f: "listener_transfer env o1 broken t' rest out = (Inr u, out')"
      using "1.prems"(1) by (subst (asm) listener_loop.simps) (simp add: l)
    show ?thesis
      using listener_transfer_replies [OF f] listener_line_command_data [OF Start_data] "1.prems"(2)
      by (fastforce simp: listener_inv_def)
  next
    case Bye
    then have "finished (write_lines (le_writes env) [bye_line] out) = (Inr u, out')"
      using "1.prems"(1) by (subst (asm) listener_loop.simps) (simp add: l)
    then have "out' = out @ [bye_line]"
      by (rule finished_line)
    then show ?thesis
      using "1.prems"(2) by (simp add: listener_inv_def)
  qed
qed

section \<open>A whole connection\<close>

text \<open>What the daemon is asked for the i-th recipient of a transaction, and what comes back.\<close>

definition recipient_request :: "listener_options \<Rightarrow> bytes \<Rightarrow> bytes list \<Rightarrow> bytes \<Rightarrow> nat \<Rightarrow> delivery_request" where
  "recipient_request o1 sender recipients message i =
     \<lparr>dr_delivery_id = build_recipient_delivery_id o1 i, dr_queue_id = None, dr_envelope_sender = Some sender,
      dr_recipients = [recipients ! i], dr_message_bytes = message\<rparr>"

definition recipient_reply ::
  "listener_env \<Rightarrow> listener_options \<Rightarrow> bytes \<Rightarrow> bytes list \<Rightarrow> bytes \<Rightarrow> nat \<Rightarrow> lmtp_reply" where
  "recipient_reply env o1 sender recipients message i =
     bridge_deliver (le_describe env) (le_encode env) (le_decode env) (le_peer env i) (lo_daemon_socket_path o1)
       (Some (lmtp_identity (lit ''wyrebox-postfix-lmtp-delivery'') (the (lo_account_id o1))
                (build_recipient_delivery_id o1 i)))
       (Some (recipient_request o1 sender recipients message i))"

definition options_ok :: "listener_options \<Rightarrow> bool" where
  "options_ok o1 \<longleftrightarrow> \<not> null_or_empty (lo_account_id o1) \<and> \<not> null_or_empty (lo_delivery_id o1)"

lemma build_delivery_request_exact:
  assumes "options_ok o1" and "no_controls (the (lo_delivery_id o1))" and "ln_sender t = Some s" and "no_controls s"
    and "list_all text_ok (ln_recipients t)" and "i < length (ln_recipients t)" and "m \<noteq> []"
  shows "build_delivery_request o1 t i m =
    Inr (lmtp_identity (lit ''wyrebox-postfix-lmtp-delivery'') (the (lo_account_id o1)) (build_recipient_delivery_id o1 i),
         recipient_request o1 s (ln_recipients t) m i)"
proof -
  obtain acc where acc: "lo_account_id o1 = Some acc" "acc \<noteq> []"
    using assms(1) by (auto simp: options_ok_def null_or_empty_def)
  have "delivery_request_init (Some (build_recipient_delivery_id o1 i)) None (Some s) (Some [ln_recipients t ! i]) (Some m)
      = Inr (recipient_request o1 s (ln_recipients t) m i)"
    using assms by (simp add: delivery_request_init_Inr recipient_request_def text_ok_iff build_recipient_delivery_id_def
        list_all_length)
  then show ?thesis
    using assms(3) acc by (simp add: build_delivery_request_def Let_def build_request_id_def lmtp_identity_init)
qed

lemma deliver_recipients_exact:
  assumes "\<forall>i. le_writes env i" and "\<forall>i < length (ln_recipients t). build_delivery_request o1 t i m =
    Inr (lmtp_identity (lit ''wyrebox-postfix-lmtp-delivery'') (the (lo_account_id o1)) (build_recipient_delivery_id o1 i),
         recipient_request o1 s (ln_recipients t) m i)"
  shows "i + left = length (ln_recipients t) \<Longrightarrow>
    deliver_recipients env o1 t m i left out =
      (True, out @ map (\<lambda>i. reply_line (recipient_reply env o1 s (ln_recipients t) m i)) [i..<length (ln_recipients t)])"
proof (induction left arbitrary: i out)
  case (Suc left)
  have "[i..<length (ln_recipients t)] = i # [Suc i..<length (ln_recipients t)]"
    using Suc.prems by (intro upt_conv_Cons) simp
  with Suc.IH [of "i + 1"] Suc.prems assms show ?case
    by (simp add: recipient_reply_def)
qed simp

lemma listener_data_message:
  assumes "list_all no_crlf ls" and "list_all (\<lambda>l. length l < LMTP_DELIVERY_MAX_LINE_BYTES) ls"
    and "ln_message t = Some m" and "length m + length (text_of ls) \<le> min mx G_MAXUINT32"
  shows "listener_data mx broken t (text_of (map dot_stuffed ls) @ 46 # 13 # 10 # rest) =
    Data_read (t\<lparr>ln_message := Some (m @ text_of ls)\<rparr>)"
  using assms
proof (induction ls arbitrary: t m)
  case Nil
  have "listener_read_line broken ([46] @ 13 # 10 # rest) = Inr (Some [46], rest)"
    by (intro listener_lines.next_line_sent) (auto simp: line_fits_def)
  with Nil show ?case
    by (subst listener_data.simps) simp
next
  case (Cons l ls)
  let ?t = "t\<lparr>ln_message := Some (m @ l @ crlf)\<rparr>"
  have "listener_read_line broken (dot_stuffed l @ 13 # 10 # text_of (map dot_stuffed ls) @ 46 # 13 # 10 # rest) =
      Inr (Some (dot_stuffed l), text_of (map dot_stuffed ls) @ 46 # 13 # 10 # rest)"
    using Cons.prems length_dot_stuffed [of l]
    by (intro listener_lines.next_line_sent) (auto simp: line_fits_def)
  moreover have "append_data_line mx (dot_stuffed l) t = Some ?t"
    using Cons.prems by (auto simp: append_data_line_def Let_def)
  ultimately have "listener_data mx broken t (text_of (map dot_stuffed (l # ls)) @ 46 # 13 # 10 # rest) =
      listener_data mx broken ?t (text_of (map dot_stuffed ls) @ 46 # 13 # 10 # rest)"
    by (subst listener_data.simps) simp
  with Cons.IH [of ?t "m @ l @ crlf"] Cons.prems show ?case by simp
qed

lemma listener_loop_command:
  assumes "no_crlf raw" and "length raw \<le> 8192" and "nul_free raw" and "\<forall>i. le_writes env i" and "raw \<noteq> []"
  shows "listener_loop env o1 broken h t (raw @ 13 # 10 # rest) out =
    (case listener_command raw t of
       Reply lines t' \<Rightarrow> listener_loop env o1 broken True t' rest (out @ lines)
     | Start_data t' \<Rightarrow> listener_transfer env o1 broken t' rest out
     | Bye \<Rightarrow> (Inr (), out @ [bye_line]))"
proof -
  have "g_strndup raw 0 (length raw) = raw"
    using assms(3) by (subst g_strndup_nul_free) (simp_all add: has_nul_def nul_free_def)
  with assms show ?thesis
    by (subst listener_loop.simps)
      (simp add: listener_line_command_def line_string_def listener_lines.next_line_sent line_fits_def write_lines_all finished_def split: listener_step.split)
qed

lemma path_of_line:
  "nul_free s \<Longrightarrow> extract_path (path_line ''MAIL FROM:'' s) = Some s"
  "nul_free s \<Longrightarrow> extract_path (path_line ''RCPT TO:'' s) = Some s"
  using extract_path_angle [of "lit ''MAIL FROM:''" "[]" s] extract_path_angle [of "lit ''RCPT TO:''" "[]" s]
  by (simp_all add: path_line_def lit_def)

lemma prefix_of_line:
  "line_has_prefix_ci (path_line ''MAIL FROM:'' s) (lit ''MAIL FROM:'')"
  "line_has_prefix_ci (path_line ''RCPT TO:'' s) (lit ''RCPT TO:'')"
  "\<not> line_has_prefix_ci (path_line ''MAIL FROM:'' s) (lit ''LHLO '')"
  "\<not> line_has_prefix_ci (path_line ''RCPT TO:'' s) (lit ''LHLO '')"
  "\<not> line_has_prefix_ci (path_line ''RCPT TO:'' s) (lit ''MAIL FROM:'')"
  by (simp_all add: path_line_def command_names)

lemma listener_command_mail:
  "nul_free s \<Longrightarrow> ln_seen_lhlo t \<Longrightarrow> \<not> ln_seen_mail t \<Longrightarrow>
   listener_command (path_line ''MAIL FROM:'' s) t =
     Reply [lit ''250 2.1.0 Sender accepted''] (t\<lparr>ln_sender := Some s, ln_seen_mail := True\<rparr>)"
  by (simp add: listener_command_def prefix_of_line path_of_line listener_path_argument_def)

lemma listener_command_rcpt:
  "nul_free s \<Longrightarrow> ln_seen_mail t \<Longrightarrow> text_ok s \<Longrightarrow>
   listener_command (path_line ''RCPT TO:'' s) t = Reply [recipient_line] (t\<lparr>ln_recipients := ln_recipients t @ [s]\<rparr>)"
  by (simp add: listener_command_def prefix_of_line path_of_line listener_path_argument_def text_ok_recipient)

lemma listener_command_lhlo:
  "listener_command (lhlo_line s) t = Reply [lit ''250-wyrebox'', lit ''250 PIPELINING''] (t\<lparr>ln_seen_lhlo := True\<rparr>)"
  by (simp add: listener_command_def lhlo_line_def)

lemma listener_command_start_data:
  "ln_recipients t \<noteq> [] \<Longrightarrow> listener_command (lit ''DATA'') t = Start_data (t\<lparr>ln_message := Some []\<rparr>)"
  by (simp add: listener_command_def command_names)

lemma listener_loop_recipients:
  assumes "\<forall>i. le_writes env i"
  shows "list_all (\<lambda>r. command_text r \<and> text_ok r) rs \<Longrightarrow> ln_seen_mail t \<Longrightarrow>
    listener_loop env o1 broken True t (text_of (map (path_line ''RCPT TO:'') rs) @ rest) out =
    listener_loop env o1 broken True (t\<lparr>ln_recipients := ln_recipients t @ rs\<rparr>) rest (out @ replicate (length rs) recipient_line)"
proof (induction rs arbitrary: t out)
  case (Cons r rs)
  have "nul_free r" "length (path_line ''RCPT TO:'' r) \<le> 8192"
    using Cons.prems by (simp_all add: command_text_def path_line_def)
  with Cons assms show ?case
    by (simp add: listener_loop_command command_line_sent listener_command_rcpt replicate_append_same [symmetric])
qed simp

text \<open>One message to several recipients, as a client with pipelining sends it.\<close>

definition listener_conversation :: "bytes \<Rightarrow> bytes \<Rightarrow> bytes list \<Rightarrow> bytes list \<Rightarrow> bytes" where
  "listener_conversation name sender recipients ls =
     text_of [lhlo_line name, path_line ''MAIL FROM:'' sender] @ text_of (map (path_line ''RCPT TO:'') recipients) @
     text_of [lit ''DATA''] @ text_of (map dot_stuffed ls) @ text_of [[46]]"

lemma handle_connection_conversation:
  assumes w: "\<forall>i. le_writes env i" and o: "options_ok o1" "no_controls (the (lo_delivery_id o1))"
    and name: "command_text name" and s: "command_text s" "no_controls s"
    and rs: "rs \<noteq> []" "list_all (\<lambda>r. command_text r \<and> text_ok r) rs"
    and ls: "ls \<noteq> []" "list_all no_crlf ls" "list_all (\<lambda>l. length l < LMTP_DELIVERY_MAX_LINE_BYTES) ls"
      "length (text_of ls) \<le> min (nat (lo_max_message_bytes o1)) G_MAXUINT32"
  shows "handle_connection env o1 \<lparr>in_bytes = listener_conversation name s rs ls @ beyond, in_broken = broken\<rparr> =
    (Inr (), [greeting_line, lit ''250-wyrebox'', lit ''250 PIPELINING'', lit ''250 2.1.0 Sender accepted''] @
       replicate (length rs) recipient_line @ [data_line] @
       map (\<lambda>i. reply_line (recipient_reply env o1 s rs (text_of ls) i)) [0..<length rs] @ [bye_line])"
proof -
  define t where "t = empty_listener_transaction\<lparr>ln_seen_lhlo := True, ln_sender := Some s, ln_seen_mail := True,
      ln_recipients := rs\<rparr>"
  have len: "length (lhlo_line name) \<le> 8192" "length (path_line ''MAIL FROM:'' s) \<le> 8192" "nul_free s"
    using name s by (simp_all add: command_text_def path_line_def lhlo_line_def)
  note sent = command_line_sent [OF name] command_line_sent [OF s(1)]
  have ok: "list_all text_ok rs"
    using rs(2) by (simp add: list_all_iff)
  let ?body = "text_of (map dot_stuffed ls) @ 46 # 13 # 10 # beyond"
  let ?pre = "[greeting_line, lit ''250-wyrebox'', lit ''250 PIPELINING'', lit ''250 2.1.0 Sender accepted''] @
      replicate (length rs) recipient_line"
  have start: "handle_connection env o1 \<lparr>in_bytes = listener_conversation name s rs ls @ beyond, in_broken = broken\<rparr> =
      listener_transfer env o1 broken (t\<lparr>ln_message := Some []\<rparr>) ?body ?pre"
    using w rs by (simp add: handle_connection_def listener_conversation_def listener_loop_command sent len
        listener_command_lhlo listener_command_mail listener_loop_recipients listener_command_start_data
        empty_listener_transaction_def t_def)
  have data: "listener_data (nat (lo_max_message_bytes o1)) broken (t\<lparr>ln_message := Some []\<rparr>) ?body =
      Data_read (t\<lparr>ln_message := Some (text_of ls)\<rparr>)"
    using listener_data_message [OF ls(2,3), of "t\<lparr>ln_message := Some []\<rparr>" "[]"] ls(4) by simp
  let ?t = "t\<lparr>ln_message := Some (text_of ls)\<rparr>"
  have "\<forall>i < length (ln_recipients ?t). build_delivery_request o1 ?t i (text_of ls) =
    Inr (lmtp_identity (lit ''wyrebox-postfix-lmtp-delivery'') (the (lo_account_id o1)) (build_recipient_delivery_id o1 i),
         recipient_request o1 s (ln_recipients ?t) (text_of ls) i)"
    using build_delivery_request_exact [OF o, of ?t s] s(2) ok ls(1) by (simp add: t_def)
  from deliver_recipients_exact [OF w this]
  have "deliver_transaction env o1 ?t (?pre @ [data_line]) = (True, (?pre @ [data_line]) @
      map (\<lambda>i. reply_line (recipient_reply env o1 s rs (text_of ls) i)) [0..<length rs])"
    using rs(1) ls(1) by (simp add: deliver_transaction_def validate_delivery_transaction_def t_def)
  with start data w show ?thesis
    by (simp add: listener_transfer_def finished_def)
qed

end
