(* ===== verification/Postfix_Pipe.thy ===== *)
theory Postfix_Pipe
  imports Postfix_Outcome
begin

text \<open>
  The pipe transport: \<^verbatim>\<open>src/wyrebox/postfix/wyrebox-postfix-pipe-input.c\<close> reads the whole message
  from standard input and builds the request; \<^verbatim>\<open>wyrebox-postfix-pipe-main.c\<close> sends it and turns the
  response into an exit status.

  A read delivers at most 8192 bytes, however the input is cut: \<open>chunks\<close> are the non-empty reads,
  in order; what follows the last of them is the end of the input, or a failure.
\<close>

record pipe_arguments =
  pa_account_id :: cstring
  pa_delivery_id :: cstring
  pa_queue_id :: cstring
  pa_sender :: cstring
  pa_socket_path :: cstring
  pa_recipients :: strv

definition pipe_require_non_empty_argument :: "string \<Rightarrow> cstring \<Rightarrow> unit result" where
  "pipe_require_non_empty_argument option_name value =
     failIf (null_or_empty value) (GError IO_INVALID_ARGUMENT (Required option_name))"

definition require_recipients :: "strv \<Rightarrow> unit result" where
  "require_recipients recipients =
     failIf (strv_items recipients = []) (GError IO_INVALID_ARGUMENT (Required ''--recipient''))"

definition PIPE_DEFAULT_SOCKET_PATH :: bytes where
  "PIPE_DEFAULT_SOCKET_PATH = lit ''/run/wyrebox/wyrebox.sock''"

definition with_pipe_defaults :: "pipe_arguments \<Rightarrow> pipe_arguments" where
  "with_pipe_defaults a =
     a\<lparr>pa_sender := (if pa_sender a = None then Some [] else pa_sender a),
       pa_socket_path := (if pa_socket_path a = None then Some PIPE_DEFAULT_SOCKET_PATH else pa_socket_path a)\<rparr>"

definition pipe_parse_arguments ::
  "(bytes list \<Rightarrow> (pipe_arguments \<times> bytes list) result) \<Rightarrow> bytes list option \<Rightarrow> pipe_arguments result" where
  "pipe_parse_arguments parse_strv argv =
     (if argv = None \<or> argv = Some [] then Inl (GError IO_INVALID_ARGUMENT (Required ''argv''))
      else bindE (parse_strv (the argv)) (\<lambda>(arguments, left).
           bindE (pipe_require_non_empty_argument ''--account-id'' (pa_account_id arguments)) (\<lambda>_.
           bindE (pipe_require_non_empty_argument ''--delivery-id'' (pa_delivery_id arguments)) (\<lambda>_.
           bindE (require_recipients (pa_recipients arguments)) (\<lambda>_.
             if length left > 1 then Inl (GError IO_INVALID_ARGUMENT Unexpected_argument)
             else Inr (with_pipe_defaults arguments))))))"

text \<open>The subtraction \<^verbatim>\<open>max_message_bytes - bytes->len\<close> cannot wrap: the check keeps the length below.\<close>

fun read_message_loop :: "nat \<Rightarrow> bool \<Rightarrow> bytes \<Rightarrow> bytes list \<Rightarrow> bytes result" where
  "read_message_loop max_message broken received [] = (if broken then Inl read_error else Inr received)"
| "read_message_loop max_message broken received (buffer # chunks) =
     (if length buffer > max_message - length received then Inl (GError IO_INVALID_ARGUMENT Message_too_large)
      else bindE (append_bytes received buffer) (\<lambda>received'.
             read_message_loop max_message broken received' chunks))"

definition read_message_bytes :: "(bytes list \<times> bool) option \<Rightarrow> nat \<Rightarrow> bytes result" where
  "read_message_bytes input max_message =
     (case input of
        None \<Rightarrow> Inl (GError IO_INVALID_ARGUMENT (Required ''input stream''))
      | Some (chunks, broken) \<Rightarrow>
          bindE (read_message_loop max_message broken [] chunks) (\<lambda>b.
            if b = [] then Inl (GError IO_INVALID_ARGUMENT (Required ''message input'')) else Inr b))"

definition pipe_request_id :: "pipe_arguments \<Rightarrow> bytes" where
  "pipe_request_id arguments =
     (if null_or_empty (pa_queue_id arguments) then lit ''postfix:'' @ the (pa_delivery_id arguments)
      else lit ''postfix:'' @ the (pa_queue_id arguments) @ lit '':'' @ the (pa_delivery_id arguments))"

record pipe_input =
  pi_socket_path :: cstring
  pi_identity :: request_identity
  pi_request :: delivery_request

definition pipe_input_build ::
  "(bytes list \<Rightarrow> (pipe_arguments \<times> bytes list) result) \<Rightarrow> bytes list option \<Rightarrow> (bytes list \<times> bool) option \<Rightarrow> nat \<Rightarrow>
   pipe_input result" where
  "pipe_input_build parse_strv argv input max_message =
     bindE (pipe_parse_arguments parse_strv argv) (\<lambda>arguments.
     bindE (read_message_bytes input max_message) (\<lambda>message_bytes.
       let request_id = pipe_request_id arguments in
       bindE (request_identity_init (Some request_id) (Some (lit ''postfix'')) (pa_account_id arguments)
                (Some (lit ''wyrebox-postfix-pipe'')) (Some request_id)) (\<lambda>identity.
       bindE (delivery_request_init (pa_delivery_id arguments) (pa_queue_id arguments) (pa_sender arguments)
                (pa_recipients arguments) (Some message_bytes)) (\<lambda>request.
         Inr \<lparr>pi_socket_path = pa_socket_path arguments, pi_identity = identity, pi_request = request\<rparr>))))"

text \<open>
  \<^verbatim>\<open>main\<close>: the exit status. A failure after the request is built is a temporary one as well; only
  the log line tells them apart.
\<close>

definition pipe_main ::
  "(gerror \<Rightarrow> bytes \<times> bytes) \<Rightarrow> request_encoder \<Rightarrow> response_decoder \<Rightarrow> daemon_peer \<Rightarrow>
   (bytes list \<Rightarrow> (pipe_arguments \<times> bytes list) result) \<Rightarrow> bytes list option \<Rightarrow> (bytes list \<times> bool) option \<Rightarrow>
   pipe_decision" where
  "pipe_main describe encode decode peer parse_strv argv input =
     (case pipe_input_build parse_strv argv input G_MAXSIZE of
        Inl e \<Rightarrow> pipe_decision_init_from_local_error describe None None e
      | Inr p \<Rightarrow>
          (case bindE (encode (pi_identity p) (pi_request p)) (\<lambda>payload.
                bindE (uds_client_send_request peer (pi_socket_path p) (Some payload)) (\<lambda>response.
                bindE (decode response) pipe_decision_init_from_response)) of
             Inl e \<Rightarrow> pipe_decision_init_from_local_error describe (Some (ri_request_id (pi_identity p)))
                        (ri_correlation_id (pi_identity p)) e
           | Inr decision \<Rightarrow> decision))"

section \<open>What is read\<close>

lemma read_message_loop_Inr:
  "length received \<le> max_message \<Longrightarrow> length received \<le> G_MAXUINT32 \<Longrightarrow>
   read_message_loop max_message broken received chunks = Inr b \<longleftrightarrow>
     \<not> broken \<and> b = received @ concat chunks \<and> length b \<le> max_message \<and> length b \<le> G_MAXUINT32"
proof (induction chunks arbitrary: received)
  case (Cons c chunks)
  show ?case
  proof (cases "length c \<le> max_message - length received \<and> length c \<le> G_MAXUINT32 - length received")
    case True
    then have "read_message_loop max_message broken received (c # chunks) =
        read_message_loop max_message broken (received @ c) chunks"
      by (simp add: append_bytes_def)
    also have "\<dots> = Inr b \<longleftrightarrow> \<not> broken \<and> b = (received @ c) @ concat chunks \<and>
        length b \<le> max_message \<and> length b \<le> G_MAXUINT32"
      using True Cons.prems by (intro Cons.IH) auto
    finally show ?thesis by simp
  next
    case False
    with Cons.prems show ?thesis
      by (auto simp: append_bytes_def)
  qed
qed auto

lemma read_message_bytes_Inr:
  "read_message_bytes input max_message = Inr b \<longleftrightarrow>
     (\<exists>chunks. input = Some (chunks, False) \<and> b = concat chunks \<and> b \<noteq> [] \<and> length b \<le> max_message \<and>
        length b \<le> G_MAXUINT32)"
  by (auto simp: read_message_bytes_def bindE_Inr_iff read_message_loop_Inr split: option.splits)

end
