(* ===== verification/Delivery_Properties.thy ===== *)
theory Delivery_Properties
  imports Lmtp_Listener Postfix_Pipe
begin

text \<open>
  The properties of the mail intake: what the LMTP session and the pipe make of their input, what
  the LMTP listener answers and when Postfix is told that a message was delivered.
\<close>

section \<open>A concrete delivery\<close>

definition sample_options :: listener_options where
  "sample_options = \<lparr>lo_account_id = Some [97], lo_delivery_id = Some [100], lo_listen_socket_path = Some [108],
     lo_daemon_socket_path = Some [115], lo_max_message_bytes = 100\<rparr>"

definition sample_frame :: "bytes \<Rightarrow> response_frame" where
  "sample_frame request_id = empty_response_frame\<lparr>rf_request_id := Some request_id, rf_correlation_id := Some request_id,
     rf_kind := RESPONSE_SUCCESS,
     rf_success := \<lparr>sr_request_id = Some request_id, sr_durable_marker = Some (durable_marker 0 1),
       sr_journal_offset = 0, sr_journal_sequence = 1, sr_summary = Some [111]\<rparr>\<rparr>"

definition sample_peer :: daemon_peer where
  "sample_peer = \<lparr>dp_connects = True, dp_write_ok = True, dp_shutdown_ok = True,
     dp_response = \<lparr>in_bytes = frame_bytes [7], in_broken = False\<rparr>, dp_close_ok = True\<rparr>"

definition sample_env :: "bytes \<Rightarrow> listener_env" where
  "sample_env request_id = \<lparr>le_describe = (\<lambda>_. ([], [])), le_encode = (\<lambda>_ _. Inr [5]),
     le_decode = (\<lambda>_. Inr (sample_frame request_id)), le_peer = (\<lambda>_. sample_peer), le_writes = (\<lambda>_. True)\<rparr>"

definition sample_id :: bytes where
  "sample_id = lit ''postfix-lmtp:'' @ build_recipient_delivery_id sample_options 0"

definition sample_args :: session_arguments where
  "sample_args = \<lparr>sa_account_id = Some [97], sa_delivery_id = Some [100], sa_socket_path = None\<rparr>"

lemma sample_env_writes [simp]: "le_writes (sample_env request_id) i"
  by (simp add: sample_env_def)

lemma sample_options_simps [simp]:
  "lo_account_id sample_options = Some [97]" "lo_delivery_id sample_options = Some [100]"
  "lo_daemon_socket_path sample_options = Some [115]" "lo_max_message_bytes sample_options = 100"
  by (simp_all add: sample_options_def)

lemma sample_texts [simp]:
  "command_text [120]" "text_ok [120]" "no_controls [120]" "text_ok [100]" "no_controls [100]"
  "options_ok sample_options"
  by (simp_all add: command_text_def text_ok_def no_controls_def nul_free_def g_ascii_iscntrl_def options_ok_def)

lemma sample_sends: "uds_client_send_request sample_peer (Some [115]) (Some [5]) = Inr [7]"
  by (subst uds_client_send_request_Inr) (simp add: sample_peer_def frame_ok_def)

lemma sample_exchange:
  "rid = lit ''postfix-lmtp:'' @ d \<Longrightarrow>
   bridge_exchange (\<lambda>_ _. Inr [5]) (\<lambda>_. Inr (sample_frame rid)) sample_peer (Some [115])
     (Some (lmtp_identity tool acc d)) (Some r) = Inr (sample_frame rid)"
  by (subst bridge_exchange_Inr)
    (simp add: sample_sends lmtp_identity_def response_matches_identity_def sample_frame_def)

lemma sample_durable:
  "rf_kind (sample_frame sample_id) = RESPONSE_SUCCESS" "receipt_durable (rf_success (sample_frame sample_id))"
  by (simp_all add: sample_frame_def receipt_durable_def durable_marker_def sample_id_def)

lemma print_250: "print_nat 250 = lit ''250''"
  by (simp add: print_nat.simps lit_def)

lemma sample_reply:
  "reply_line (recipient_reply (sample_env sample_id) sample_options [120] [[120]] m 0) = lit ''250 2.0.0 Delivery accepted''"
proof -
  have "recipient_reply (sample_env sample_id) sample_options [120] [[120]] m 0 = reply_init_from_success (sample_frame sample_id)"
    using sample_exchange [of sample_id "build_recipient_delivery_id sample_options 0"] sample_durable(1)
    by (simp add: recipient_reply_def bridge_deliver_def sample_env_def sample_id_def reply_init_from_response_def)
  moreover have "reply_line (reply_init_from_success (sample_frame sample_id)) = lit ''250 2.0.0 Delivery accepted''"
    using sample_durable(2)
    by (simp add: reply_init_from_success_def reply_line_def receipt_durable_def Let_def print_250 lit_def)
  ultimately show ?thesis by simp
qed

section \<open>The LMTP listener\<close>

text \<open>
  C29. The listener's side of a whole connection: for one message sent with its dots stuffed to any
  number of valid recipients, followed by anything, it accepts every command, asks the daemon
  once per recipient for the delivery of exactly the lines sent, and answers each recipient in
  order with the reply to its own request before it says goodbye.
\<close>

theorem listener_delivers:
  assumes "\<forall>i. le_writes env i" "options_ok o1" "no_controls (the (lo_delivery_id o1))"
    and "command_text name" "command_text s" "no_controls s"
    and "rs \<noteq> []" "list_all (\<lambda>r. command_text r \<and> text_ok r) rs"
    and "ls \<noteq> []" "list_all no_crlf ls" "list_all (\<lambda>l. length l < LMTP_DELIVERY_MAX_LINE_BYTES) ls"
    and "length (text_of ls) \<le> min (nat (lo_max_message_bytes o1)) G_MAXUINT32"
  shows "handle_connection env o1 \<lparr>in_bytes = listener_conversation name s rs ls @ beyond, in_broken = broken\<rparr> =
    (Inr (), [greeting_line, lit ''250-wyrebox'', lit ''250 PIPELINING'', lit ''250 2.1.0 Sender accepted''] @
       replicate (length rs) recipient_line @ [data_line] @
       map (\<lambda>i. reply_line (recipient_reply env o1 s rs (text_of ls) i)) [0..<length rs] @ [bye_line])"
  using assms by (rule handle_connection_conversation)

theorem listener_delivers_run:
  "\<exists>pre. handle_connection (sample_env sample_id) sample_options
     \<lparr>in_bytes = listener_conversation [120] [120] [[120]] [[46], [104, 105]], in_broken = False\<rparr> =
   (Inr (), pre @ [data_line, lit ''250 2.0.0 Delivery accepted'', bye_line])"
  using listener_delivers [of "sample_env sample_id" sample_options "[120]" "[120]" "[[120]]" "[[46], [104, 105]]" "[]" False]
  by (simp add: sample_reply)

text \<open>
  C30. Whatever a client sends, a connection that ends properly ends in one of two ways: with the
  goodbye to \<^verbatim>\<open>QUIT\<close> and no message taken, or with exactly one reply for each recipient the client has
  seen accepted since the last reset, between the go-ahead for the data and the goodbye. No
  accepted recipient is left without an answer and none is answered twice.
\<close>

theorem listener_one_reply_per_recipient:
  assumes "handle_connection env o1 input = (Inr u, out)"
  shows "(\<exists>pre. out = pre @ [bye_line] \<and> data_line \<notin> set pre) \<or>
    (\<exists>pre rs. out = pre @ data_line # rs @ [bye_line] \<and> data_line \<notin> set pre \<and>
       length rs = open_recipients pre \<and> rs \<noteq> [])"
proof -
  have "listener_loop env o1 (in_broken input) False empty_listener_transaction (in_bytes input) [greeting_line] = (Inr u, out)"
    using assms by (auto simp: handle_connection_def split: if_splits)
  moreover have "listener_inv empty_listener_transaction [greeting_line]"
    by (simp add: listener_inv_def empty_listener_transaction_def open_recipients_def)
  ultimately show ?thesis
    by (rule listener_loop_replies)
qed

definition sample_quit :: in_stream where
  "sample_quit = \<lparr>in_bytes = lit ''QUIT'' @ crlf, in_broken = False\<rparr>"

theorem listener_one_reply_per_recipient_run:
  "\<exists>out pre. handle_connection (sample_env []) sample_options sample_quit = (Inr (), out) \<and> out = pre @ [bye_line]"
proof -
  have w: "\<forall>i. le_writes (sample_env []) i"
    by simp
  have "listener_command (lit ''QUIT'') empty_listener_transaction = Bye"
    by (simp add: listener_command_def command_names)
  moreover have "no_crlf (lit ''QUIT'')" "nul_free (lit ''QUIT'')"
    by (auto intro!: no_lf_no_crlf simp: nul_free_def lit_def)
  ultimately have run: "handle_connection (sample_env []) sample_options sample_quit = (Inr (), [greeting_line, bye_line])"
    using w listener_loop_command [OF _ _ _ w _, of "lit ''QUIT''" sample_options False False empty_listener_transaction "[]" "[greeting_line]"]
    by (simp add: handle_connection_def sample_quit_def)
  from listener_one_reply_per_recipient [OF this] run show ?thesis
    by auto
qed

section \<open>The LMTP session and the pipe\<close>

text \<open>
  C31. A message handed to the LMTP session front end arrives unchanged: the conversation that sends
  any lines with their dots stuffed yields the request with exactly these lines, the sender, the
  one recipient and the identity made of the delivery id, whatever follows the \<^verbatim>\<open>QUIT\<close>.
\<close>

theorem lmtp_session_round_trip:
  assumes "parse_strv argv = Inr (a, left)" "argv \<noteq> []" "length left \<le> 1"
    and "sa_account_id a = Some acc" "acc \<noteq> []" "sa_delivery_id a = Some d" "text_ok d"
    and "command_text name" "command_text s" "no_controls s" "command_text r" "text_ok r"
    and "ls \<noteq> []" "list_all no_crlf ls" "length (text_of ls) \<le> min mx G_MAXUINT32"
  shows "session_build parse_strv (Some argv)
      (Some \<lparr>in_bytes = lmtp_conversation name s r ls @ beyond, in_broken = broken\<rparr>) mx =
    Inr \<lparr>br_socket_path = sa_socket_path (with_default_socket a),
         br_identity = lmtp_identity (lit ''wyrebox-postfix-lmtp'') acc d,
         br_request = \<lparr>dr_delivery_id = d, dr_queue_id = None, dr_envelope_sender = Some s, dr_recipients = [r],
                       dr_message_bytes = text_of ls\<rparr>\<rparr>"
proof -
  have "session_parse_arguments parse_strv (Some argv) = Inr (with_default_socket a)"
    using assms(1-7) by (auto simp: session_parse_arguments_Inr text_ok_iff)
  moreover have "parse_lmtp_conversation (Some \<lparr>in_bytes = lmtp_conversation name s r ls @ beyond, in_broken = broken\<rparr>) mx =
      Inr \<lparr>lt_seen_lhlo = True, lt_seen_mail = True, lt_sender = Some s, lt_recipients = [r], lt_message = text_of ls\<rparr>"
    using session_loop_conversation [OF assms(8,9,11,14,15)] assms(13) by (simp add: parse_lmtp_conversation_Inr)
  ultimately show ?thesis
    using assms by (subst session_build_Inr) (simp add: with_default_socket_def)
qed

theorem lmtp_session_round_trip_run:
  "\<exists>b. session_build (\<lambda>_. Inr (sample_args, [[119]])) (Some [[119]])
     (Some \<lparr>in_bytes = lmtp_conversation [120] [120] [120] [[46], [104, 105]], in_broken = True\<rparr>) 100 = Inr b \<and>
   dr_message_bytes (br_request b) = [46, 13, 10, 104, 105, 13, 10]"
  using lmtp_session_round_trip [of "\<lambda>_. Inr (sample_args, [[119]])" "[[119]]" sample_args "[[119]]" "[97]" "[100]"
      "[120]" "[120]" "[120]" "[[46], [104, 105]]" 100 "[]" True]
  by (simp add: sample_args_def)

text \<open>
  C32. Whatever bytes the session front end reads, a request it builds has a sender and exactly one
  recipient, both free of control characters, and a message that is one or more lines, each
  ended by CR LF and with none inside, within the size limit. The limit only rejects: any larger
  one gives the same request.
\<close>

theorem lmtp_session_sound:
  assumes "session_build parse_strv argv input mx = Inr b"
  shows "(\<exists>s r ls. dr_envelope_sender (br_request b) = Some s \<and> no_controls s \<and> dr_recipients (br_request b) = [r] \<and>
      text_ok r \<and> dr_message_bytes (br_request b) = text_of ls \<and> ls \<noteq> [] \<and> list_all no_crlf ls \<and>
      length (text_of ls) \<le> mx) \<and>
    (\<forall>mx' \<ge> mx. session_build parse_strv argv input mx' = Inr b)"
proof
  obtain a t d acc s r where built: "session_parse_arguments parse_strv argv = Inr a" "parse_lmtp_conversation input mx = Inr t"
      "lt_sender t = Some s" "no_controls s" "lt_recipients t = [r]" "text_ok r"
      "b = \<lparr>br_socket_path = sa_socket_path a, br_identity = lmtp_identity (lit ''wyrebox-postfix-lmtp'') acc d,
             br_request = \<lparr>dr_delivery_id = d, dr_queue_id = None, dr_envelope_sender = Some s, dr_recipients = [r],
                           dr_message_bytes = lt_message t\<rparr>\<rparr>"
    using assms by (auto simp: session_build_Inr)
  obtain ls where "lt_message t = text_of ls" "ls \<noteq> []" "list_all no_crlf ls" "length (lt_message t) \<le> mx"
    by (rule parsed_transaction [OF built(2)]) (rule that)
  with built show "\<exists>s r ls. dr_envelope_sender (br_request b) = Some s \<and> no_controls s \<and>
      dr_recipients (br_request b) = [r] \<and> text_ok r \<and> dr_message_bytes (br_request b) = text_of ls \<and> ls \<noteq> [] \<and>
      list_all no_crlf ls \<and> length (text_of ls) \<le> mx"
    by auto
  show "\<forall>mx' \<ge> mx. session_build parse_strv argv input mx' = Inr b"
  proof (intro allI impI)
    fix mx' assume "mx \<le> mx'"
    then have "parse_lmtp_conversation input mx' = Inr t"
      by (rule parse_lmtp_conversation_limit [OF built(2)])
    with assms built(2) show "session_build parse_strv argv input mx' = Inr b"
      by (simp add: session_build_def)
  qed
qed

lemma sample_session_built:
  "session_build (\<lambda>_. Inr (sample_args, [[119]])) (Some [[119]])
     (Some \<lparr>in_bytes = lmtp_conversation [120] [120] [120] [[46], [104, 105]], in_broken = False\<rparr>) 100 =
   Inr \<lparr>br_socket_path = Some LMTP_DEFAULT_SOCKET_PATH, br_identity = lmtp_identity (lit ''wyrebox-postfix-lmtp'') [97] [100],
        br_request = \<lparr>dr_delivery_id = [100], dr_queue_id = None, dr_envelope_sender = Some [120], dr_recipients = [[120]],
                      dr_message_bytes = [46, 13, 10, 104, 105, 13, 10]\<rparr>\<rparr>"
proof -
  have "session_parse_arguments (\<lambda>_. Inr (sample_args, [[119]])) (Some [[119]]) = Inr (with_default_socket sample_args)"
    by (simp add: session_parse_arguments_Inr sample_args_def)
  moreover have "parse_lmtp_conversation (Some \<lparr>in_bytes = lmtp_conversation [120] [120] [120] [[46], [104, 105]], in_broken = False\<rparr>) 100 =
      Inr \<lparr>lt_seen_lhlo = True, lt_seen_mail = True, lt_sender = Some [120], lt_recipients = [[120]],
           lt_message = [46, 13, 10, 104, 105, 13, 10]\<rparr>"
    using session_loop_conversation [of "[120]" "[120]" "[120]" "[[46], [104, 105]]" 100 False "[]"]
    by (simp add: parse_lmtp_conversation_Inr)
  ultimately show ?thesis
    by (subst session_build_Inr) (simp add: with_default_socket_def sample_args_def)
qed

theorem lmtp_session_sound_run:
  "session_build (\<lambda>_. Inr (sample_args, [[119]])) (Some [[119]])
     (Some \<lparr>in_bytes = lmtp_conversation [120] [120] [120] [[46], [104, 105]], in_broken = False\<rparr>) 200 =
   session_build (\<lambda>_. Inr (sample_args, [[119]])) (Some [[119]])
     (Some \<lparr>in_bytes = lmtp_conversation [120] [120] [120] [[46], [104, 105]], in_broken = False\<rparr>) 100"
  using lmtp_session_sound [OF sample_session_built] sample_session_built by simp

text \<open>
  C33. The pipe transport reports success, exit status zero, exactly when the whole standard input
  was read as one non-empty message, however the reads cut it, the request for that message was
  valid, the daemon answered it and the answer is a success frame that names a request. The code
  checks neither the identity of that answer nor that it is durable; the LMTP bridge does.
\<close>

theorem pipe_exit_zero:
  "pd_exit_status (pipe_main describe encode decode peer parse_strv argv (Some (chunks, broken))) = EX_OK \<longleftrightarrow>
     (\<exists>p payload response f. pipe_input_build parse_strv argv (Some ([concat chunks], broken)) G_MAXSIZE = Inr p \<and>
        dr_message_bytes (pi_request p) = concat chunks \<and>
        encode (pi_identity p) (pi_request p) = Inr payload \<and>
        uds_client_send_request peer (pi_socket_path p) (Some payload) = Inr response \<and> decode response = Inr f \<and>
        rf_kind f = RESPONSE_SUCCESS \<and> \<not> null_or_empty (sr_request_id (rf_success f)))"
proof -
  have build: "pipe_input_build parse_strv argv (Some (chunks, broken)) G_MAXSIZE = Inr p \<longleftrightarrow>
      pipe_input_build parse_strv argv (Some ([concat chunks], broken)) G_MAXSIZE = Inr p \<and>
      dr_message_bytes (pi_request p) = concat chunks" for p
    by (auto simp: pipe_input_build_def bindE_Inr_iff read_message_bytes_Inr Let_def delivery_request_init_Inr)
  have ok: "(\<exists>d. pipe_decision_init_from_response f = Inr d \<and> pd_exit_status d = EX_OK) \<longleftrightarrow>
      rf_kind f = RESPONSE_SUCCESS \<and> \<not> null_or_empty (sr_request_id (rf_success f))" for f
    by (auto simp: pipe_decision_init_from_response_def decision_init_from_success_def decision_init_from_daemon_error_def
        exit_status_for_daemon_error_class_def Let_def)
  show ?thesis
  proof (cases "pipe_input_build parse_strv argv (Some (chunks, broken)) G_MAXSIZE")
    case (Inl e)
    then have "\<forall>p. pipe_input_build parse_strv argv (Some (chunks, broken)) G_MAXSIZE \<noteq> Inr p"
      by simp
    with Inl build show ?thesis
      by (auto simp: pipe_main_def pipe_decision_init_from_local_error_def)
  next
    case (Inr p)
    then have p: "pipe_input_build parse_strv argv (Some ([concat chunks], broken)) G_MAXSIZE = Inr p"
        "dr_message_bytes (pi_request p) = concat chunks"
      using build by auto
    let ?x = "bindE (encode (pi_identity p) (pi_request p)) (\<lambda>payload.
        bindE (uds_client_send_request peer (pi_socket_path p) (Some payload)) (\<lambda>response.
        bindE (decode response) pipe_decision_init_from_response))"
    have "pd_exit_status (pipe_main describe encode decode peer parse_strv argv (Some (chunks, broken))) = EX_OK \<longleftrightarrow>
        (\<exists>d. ?x = Inr d \<and> pd_exit_status d = EX_OK)"
      by (cases ?x) (auto simp: pipe_main_def Inr pipe_decision_init_from_local_error_def)
    also have "\<dots> \<longleftrightarrow> (\<exists>payload response f. encode (pi_identity p) (pi_request p) = Inr payload \<and>
        uds_client_send_request peer (pi_socket_path p) (Some payload) = Inr response \<and> decode response = Inr f \<and>
        (\<exists>d. pipe_decision_init_from_response f = Inr d \<and> pd_exit_status d = EX_OK))"
      by (auto simp: bindE_Inr_iff)
    finally show ?thesis
      using p by (auto simp: ok)
  qed
qed

section \<open>Acknowledgement\<close>

text \<open>
  C34. The LMTP reply 250 means what it says: the bridge gives it exactly when the request was
  encoded within the frame limit and sent, one whole frame came back, and it decodes to a
  success response to this very request that carries a durable marker and a journal sequence
  other than zero. Every other path, local failures included, ends with the temporary reply 451
  or a permanent 550 or 554, so no reply is ever missing.
\<close>

theorem delivery_acknowledged:
  "(lr_reply_code (bridge_deliver describe encode decode peer path (Some i) (Some r)) = 250 \<longleftrightarrow>
     \<not> null_or_empty path \<and> ri_request_id i \<noteq> [] \<and> \<not> null_or_empty (ri_correlation_id i) \<and>
     dp_connects peer \<and> dp_write_ok peer \<and> dp_shutdown_ok peer \<and> dp_close_ok peer \<and>
     (\<exists>payload response rest f. encode i r = Inr payload \<and> frame_ok payload \<and>
        in_bytes (dp_response peer) = frame_bytes response @ rest \<and> frame_ok response \<and> decode response = Inr f \<and>
        response_matches_identity f i \<and> rf_kind f = RESPONSE_SUCCESS \<and> receipt_durable (rf_success f))) \<and>
   lr_reply_code (bridge_deliver describe encode decode peer path (Some i) (Some r)) \<in> {250, 451, 550, 554}"
proof
  show "lr_reply_code (bridge_deliver describe encode decode peer path (Some i) (Some r)) = 250 \<longleftrightarrow>
     \<not> null_or_empty path \<and> ri_request_id i \<noteq> [] \<and> \<not> null_or_empty (ri_correlation_id i) \<and>
     dp_connects peer \<and> dp_write_ok peer \<and> dp_shutdown_ok peer \<and> dp_close_ok peer \<and>
     (\<exists>payload response rest f. encode i r = Inr payload \<and> frame_ok payload \<and>
        in_bytes (dp_response peer) = frame_bytes response @ rest \<and> frame_ok response \<and> decode response = Inr f \<and>
        response_matches_identity f i \<and> rf_kind f = RESPONSE_SUCCESS \<and> receipt_durable (rf_success f))"
    unfolding reply_code_250 [OF bridge_deliver_consistent] bridge_deliver_delivered bridge_exchange_Inr
      uds_client_send_request_Inr
    by blast
  show "lr_reply_code (bridge_deliver describe encode decode peer path (Some i) (Some r)) \<in> {250, 451, 550, 554}"
    using bridge_deliver_consistent [of describe encode decode peer path "Some i" "Some r"]
    by (auto simp: reply_consistent_def split: delivery_outcome.splits)
qed

text \<open>
  C35. Frames on the daemon's socket are read back as they were written, and a reader accepts
  nothing else: what it returns is a payload the writer takes, standing framed at the start of
  its input, and the rest of the input is untouched.
\<close>

theorem frames_read_back:
  "frame_io_read_payload_or_eof s = Inr (Some p, s') \<longleftrightarrow>
     (\<exists>b rest. frame_io_write_payload True (Some p) = Inr b \<and> in_bytes s = b @ rest \<and> s' = s\<lparr>in_bytes := rest\<rparr>)"
  by (auto simp: frame_io_read_payload_or_eof_Inr frame_io_write_payload_Inr)

text \<open>
  C36. The responses the daemon builds are exactly the well-typed ones. Each has a request id and
  exactly the payload its kind names, the fields of the other kinds empty; a success names its
  request, a durable marker, a journal sequence number other than zero and a summary; an error
  names one of the six classes and a message; a chunk has one of the two stream ids, printable
  ids and bytes unless it ends the stream; list entries and selected mailboxes have printable
  names and valid kinds, and a mailbox has UID validity and next UID other than zero. Conversely
  every frame of this type is built by a constructor, so no check refuses more.
\<close>

theorem response_frames_typed:
  "(frame_wf f \<longleftrightarrow>
     (\<exists>r c. response_frame_init_success r c = Inr f) \<or> (\<exists>e c. response_frame_init_error e c = Inr f) \<or>
     (\<exists>s. response_frame_init_stream_chunk s = Inr f) \<or> (\<exists>i c l. response_frame_init_mailbox_list i c l = Inr f) \<or>
     (\<exists>i c m. response_frame_init_mailbox_select i c m = Inr f)) \<and>
   (response_frame_init_fact_mutation_success rid correlation mutation off sequence = Inr f \<or>
    response_frame_init_fact_batch_import_success rid correlation batch off sequence = Inr f \<longrightarrow> frame_wf f)"
  unfolding frame_built_def [symmetric] frame_wf_iff using frame_built_fact by blast

theorem response_frames_typed_run:
  "frame_wf (sample_frame [114]) \<and> (\<nexists>r c. response_frame_init_success (r\<lparr>sr_durable_marker := None\<rparr>) c = Inr (sample_frame [114]))"
proof -
  have "response_frame_init_success (rf_success (sample_frame [114])) (Some [114]) = Inr (sample_frame [114])"
    by (simp add: response_frame_init_success_def copy_success_receipt_def sample_frame_def durable_marker_def
        empty_response_frame_def)
  with response_frames_typed [of "sample_frame [114]"] have "frame_wf (sample_frame [114])" by blast
  then show ?thesis
    by (simp add: response_frame_init_success_def copy_success_receipt_def)
qed

section \<open>Messages above the frame limit\<close>

text \<open>
  The listener takes messages up to 64 MiB by default, a frame holds at most 4 MiB. If an
  encoded request is at least as long as its message, a message in between is answered with a
  temporary failure for every recipient, each time it is sent again.
\<close>

lemma oversized_deferred:
  assumes "\<forall>i r p. le_encode env i r = Inr p \<longrightarrow> length (dr_message_bytes r) \<le> length p"
    and "DAEMON_MAX_FRAME_SIZE_BYTES < length message"
  shows "lr_reply_code (recipient_reply env o1 s rs message i) = 451"
proof -
  let ?i = "lmtp_identity (lit ''wyrebox-postfix-lmtp-delivery'') (the (lo_account_id o1)) (build_recipient_delivery_id o1 i)"
  let ?r = "recipient_request o1 s rs message i"
  have "lr_outcome (recipient_reply env o1 s rs message i) = TEMPORARY_FAILURE"
  proof (cases "le_encode env ?i ?r")
    case (Inl e)
    then have "\<forall>f. bridge_exchange (le_encode env) (le_decode env) (le_peer env i) (lo_daemon_socket_path o1) (Some ?i) (Some ?r) \<noteq> Inr f"
      by (simp add: bridge_exchange_Inr)
    then show ?thesis
      by (cases "bridge_exchange (le_encode env) (le_decode env) (le_peer env i) (lo_daemon_socket_path o1) (Some ?i) (Some ?r)")
        (auto simp: recipient_reply_def bridge_deliver_def set_local_delivery_reply_temporary)
  next
    case (Inr p)
    then have "length (dr_message_bytes ?r) \<le> length p"
      using assms(1) by blast
    with Inr assms(2) show ?thesis
      by (simp add: recipient_reply_def bridge_deliver_oversized recipient_request_def)
  qed
  then show ?thesis
    by (simp add: recipient_reply_def bridge_deliver_temporary)
qed

end
