(* ===== verification/Object_Store.thy ===== *)
theory Object_Store
  imports Journal_Writer Message_Delivered
begin

text \<open>
  The content-addressed store of raw messages (\<^verbatim>\<open>wyrebox-local-object-store.c\<close>) and the check of a
  journaled reference against it (\<^verbatim>\<open>wyrebox-delivery-object-check.c\<close>).

  A path is the list of the components that \<^verbatim>\<open>g_build_filename\<close> joins. A file system holds the
  files under their paths, each with whether its contents are on disk, the directories, and the
  paths whose directory entry is on disk. What the kernel answers is an input of the definitions,
  as in \<open>Journal_Writer\<close>. The contents of a file are never written once it is linked, so a
  link copies them. A crash between two calls of \<open>put_bytes\<close> leaves what a failure of the
  second call leaves, but for the temporary name.
\<close>

section \<open>File system\<close>

type_synonym path = "bytes list"

record stored_file =
  sf_data :: bytes
  sf_synced :: bool

record object_fs =
  fs_files :: "path \<Rightarrow> stored_file option"
  fs_dirs :: "path set"
  fs_durable :: "path set"

definition fs_install :: "path \<Rightarrow> stored_file \<Rightarrow> object_fs \<Rightarrow> object_fs" where
  "fs_install path f fs = fs\<lparr>fs_files := (fs_files fs)(path \<mapsto> f), fs_durable := fs_durable fs - {path}\<rparr>"

definition fs_unlink :: "bool \<Rightarrow> path \<Rightarrow> object_fs \<Rightarrow> object_fs" where
  "fs_unlink ok path fs =
     (if ok then fs\<lparr>fs_files := (fs_files fs)(path := None), fs_durable := fs_durable fs - {path}\<rparr> else fs)"

definition fs_mkdir :: "path \<Rightarrow> object_fs \<Rightarrow> object_fs" where
  "fs_mkdir dir fs = fs\<lparr>fs_dirs := insert dir (fs_dirs fs)\<rparr>"

text \<open>A successful \<^verbatim>\<open>fsync\<close> of a directory makes the entries it has durable.\<close>

definition fs_sync_dir :: "path \<Rightarrow> object_fs \<Rightarrow> object_fs" where
  "fs_sync_dir dir fs = fs\<lparr>fs_durable := fs_durable fs \<union> {p. p \<noteq> [] \<and> butlast p = dir \<and> (fs_files fs p \<noteq> None \<or> p \<in> fs_dirs fs)}\<rparr>"

section \<open>The store\<close>

record object_store =
  os_root_dir :: bytes
  os_writable :: bool

definition os_validate_object_key :: "cstring \<Rightarrow> bytes result" where
  "os_validate_object_key object_key =
     (case object_key of
        None \<Rightarrow> Inl (GError IO_INVALID_ARGUMENT Bad_object_key)
      | Some key \<Rightarrow>
          if take 7 key \<noteq> lit ''sha256:'' then Inl (GError IO_INVALID_ARGUMENT Bad_object_key)
          else let hex = drop 7 key
               in if length hex \<noteq> 64 then Inl (GError IO_INVALID_ARGUMENT (Invalid_value ''sha256 object key length''))
                  else if list_all (\<lambda>c. g_ascii_isxdigit c \<and> \<not> g_ascii_isupper c) hex then Inr hex
                  else Inl (GError IO_INVALID_ARGUMENT (Invalid_value ''sha256 object key hex'')))"

definition objects_dir :: "bytes \<Rightarrow> path" where
  "objects_dir root_dir = [root_dir, lit ''objects'', lit ''sha256'']"

definition build_object_path :: "object_store \<Rightarrow> bytes \<Rightarrow> path" where
  "build_object_path self hex = objects_dir (os_root_dir self) @ [take 2 hex, hex @ lit ''.eml'']"

text \<open>\<^verbatim>\<open>g_checksum_get_string\<close>: two lower-case hexadecimal digits per byte.\<close>

definition hex_digit :: "nat \<Rightarrow> byte" where
  "hex_digit d = (if d < 10 then of_nat (48 + d) else of_nat (87 + d))"

definition checksum_string :: "bytes \<Rightarrow> bytes" where
  "checksum_string digest = concat (map (\<lambda>b. [hex_digit (unat b div 16), hex_digit (unat b mod 16)]) digest)"

definition checksum_data :: "(bytes \<Rightarrow> bytes) \<Rightarrow> bytes \<Rightarrow> bytes" where
  "checksum_data sha data = checksum_string (sha data)"

definition object_key_of :: "bytes \<Rightarrow> bytes" where
  "object_key_of hex = lit ''sha256:'' @ hex"

definition verify_object_contents :: "(bytes \<Rightarrow> bytes) \<Rightarrow> bytes \<Rightarrow> bytes \<Rightarrow> unit result" where
  "verify_object_contents sha expected_hex data =
     (if checksum_data sha data = expected_hex then Inr () else Inl (GError STORE_HASH_MISMATCH Hash_mismatch))"

text \<open>\<^verbatim>\<open>g_file_get_contents\<close>: \<open>readable\<close> is whether reading an existing file succeeds.\<close>

definition file_get_contents :: "bool \<Rightarrow> object_fs \<Rightarrow> path \<Rightarrow> bytes result" where
  "file_get_contents readable fs path =
     (case fs_files fs path of
        None \<Rightarrow> Inl (GError FILE_NOENT (Syscall ''open''))
      | Some f \<Rightarrow> if readable then Inr (sf_data f) else Inl (GError FILE_OTHER (Syscall ''read'')))"

definition verify_object_file :: "(bytes \<Rightarrow> bytes) \<Rightarrow> bool \<Rightarrow> object_fs \<Rightarrow> path \<Rightarrow> bytes \<Rightarrow> unit result" where
  "verify_object_file sha readable fs path expected_hex =
     bindE (file_get_contents readable fs path) (\<lambda>contents. verify_object_contents sha expected_hex contents)"

text \<open>The write loop of this file; the journal's is the same but for its messages.\<close>

fun object_write_all :: "write_result list \<Rightarrow> bytes \<Rightarrow> bytes \<Rightarrow> write_state" where
  "object_write_all ws file [] = (Some (Inr ()), file, ws)"
| "object_write_all [] file (d # ds) = (None, file, [])"
| "object_write_all (Wrote written # ws) file (d # ds) =
     object_write_all ws (file @ take written (d # ds)) (drop written (d # ds))"
| "object_write_all (Write_eintr # ws) file (d # ds) = object_write_all ws file (d # ds)"
| "object_write_all (Write_error # ws) file (d # ds) =
     (Some (Inl (GError IO_ERRNO (Syscall ''write''))), file, ws)"

text \<open>\<^verbatim>\<open>fsync_directory_path\<close> of this file has the body of the journal's.\<close>

definition object_fsync_dir :: "dir_io \<Rightarrow> path \<Rightarrow> object_fs \<Rightarrow> unit result \<times> object_fs" where
  "object_fsync_dir io dir fs =
     (if \<not> dir_open_ok io then (Inl (GError IO_ERRNO (Syscall ''open'')), fs)
      else if \<not> dir_fsync_ok io then (Inl (GError IO_ERRNO (Syscall ''fsync'')), fs)
      else (Inr (), fs_sync_dir dir fs))"

definition fsync_best_effort :: "dir_io \<Rightarrow> path \<Rightarrow> object_fs \<Rightarrow> object_fs" where
  "fsync_best_effort io dir fs = snd (object_fsync_dir io dir fs)"

definition fsync_object_root_setup :: "dir_io list \<Rightarrow> bytes \<Rightarrow> object_fs \<Rightarrow> unit result \<times> object_fs" where
  "fsync_object_root_setup ios root_dir fs =
     (case object_fsync_dir (ios ! 0) [] fs of
        (Inl e, fs1) \<Rightarrow> (Inl e, fs1)
      | (Inr _, fs1) \<Rightarrow>
          (case object_fsync_dir (ios ! 1) [root_dir] fs1 of
             (Inl e, fs2) \<Rightarrow> (Inl e, fs2)
           | (Inr _, fs2) \<Rightarrow>
               (case object_fsync_dir (ios ! 2) (butlast (objects_dir root_dir)) fs2 of
                  (Inl e, fs3) \<Rightarrow> (Inl e, fs3)
                | (Inr _, fs3) \<Rightarrow> object_fsync_dir (ios ! 3) (objects_dir root_dir) fs3)))"

definition store_new ::
  "bool \<Rightarrow> dir_io list \<Rightarrow> cstring \<Rightarrow> object_fs \<Rightarrow> object_store result \<times> object_fs" where
  "store_new mkdir_ok ios root_dir fs =
     (case root_dir of
        None \<Rightarrow> (Inl (GError IO_INVALID_ARGUMENT (Required ''root directory'')), fs)
      | Some root \<Rightarrow>
          if root = [] then (Inl (GError IO_INVALID_ARGUMENT (Required ''root directory'')), fs)
          else if \<not> mkdir_ok then (Inl (GError IO_ERRNO (Syscall ''mkdir'')), fs)
          else
            let fs1 = fs_mkdir (objects_dir root) (fs_mkdir (butlast (objects_dir root)) (fs_mkdir [root] fs))
            in case fsync_object_root_setup ios root fs1 of
                 (Inl e, fs2) \<Rightarrow> (Inl e, fs2)
               | (Inr _, fs2) \<Rightarrow> (Inr \<lparr>os_root_dir = root, os_writable = True\<rparr>, fs2))"

definition store_open_existing :: "cstring \<Rightarrow> object_fs \<Rightarrow> object_store result" where
  "store_open_existing root_dir fs =
     (case root_dir of
        None \<Rightarrow> Inl (GError IO_INVALID_ARGUMENT (Required ''root directory''))
      | Some root \<Rightarrow>
          if root = [] then Inl (GError IO_INVALID_ARGUMENT (Required ''root directory''))
          else if objects_dir root \<notin> fs_dirs fs then Inl (GError IO_NOT_FOUND (Missing ''object store root''))
          else Inr \<lparr>os_root_dir = root, os_writable = False\<rparr>)"

text \<open>\<open>accessible\<close>: \<^verbatim>\<open>access (objects_dir, R_OK | X_OK) == 0\<close>.\<close>

definition check_root :: "bool \<Rightarrow> object_store \<Rightarrow> object_fs \<Rightarrow> unit result" where
  "check_root accessible self fs =
     (if objects_dir (os_root_dir self) \<notin> fs_dirs fs then Inl (GError IO_NOT_FOUND (Missing ''object store root''))
      else if \<not> accessible then Inl (GError IO_ERRNO (Syscall ''access''))
      else Inr ())"

section \<open>Putting and getting\<close>

datatype mkdir_reply = Mkdir_done | Mkdir_noent | Mkdir_error

text \<open>
  The replies to one \<^verbatim>\<open>put_bytes\<close>. \<open>pi_temp\<close> is the suffix that \<^verbatim>\<open>mkstemp\<close> picks, \<open>None\<close> if it
  fails; a name that is taken is never picked. \<open>pi_race\<close> is a file that another process links at
  the object's path while this one writes.
\<close>

record put_io =
  pi_accessible :: bool
  pi_mkdir :: mkdir_reply
  pi_hash_root_sync :: dir_io
  pi_readable :: bool
  pi_parent_sync :: dir_io
  pi_temp :: "bytes option"
  pi_writes :: "write_result list"
  pi_fsync_ok :: bool
  pi_close_ok :: bool
  pi_race :: "stored_file option"
  pi_link_ok :: bool
  pi_unlink_ok :: bool
  pi_cleanup_sync :: dir_io

definition temp_name :: "bytes \<Rightarrow> bytes" where
  "temp_name suffix = lit ''.tmp-object-'' @ suffix"

text \<open>The last calls of every successful path.\<close>

definition finish_put :: "put_io \<Rightarrow> path \<Rightarrow> bytes \<Rightarrow> object_fs \<Rightarrow> bytes result option \<times> object_fs" where
  "finish_put io parent_dir hex fs =
     (case object_fsync_dir (pi_parent_sync io) parent_dir fs of
        (Inl e, fs1) \<Rightarrow> (Some (Inl e), fs1)
      | (Inr _, fs1) \<Rightarrow> (Some (Inr (object_key_of hex)), fs1))"

text \<open>An object that is there already is verified and its entry made durable again.\<close>

definition accept_existing ::
  "(bytes \<Rightarrow> bytes) \<Rightarrow> put_io \<Rightarrow> path \<Rightarrow> path \<Rightarrow> bytes \<Rightarrow> object_fs \<Rightarrow> bytes result option \<times> object_fs" where
  "accept_existing sha io path parent_dir hex fs =
     (case verify_object_file sha (pi_readable io) fs path hex of
        Inl e \<Rightarrow> (Some (Inl e), fs)
      | Inr _ \<Rightarrow> finish_put io parent_dir hex fs)"

definition discard_temp :: "put_io \<Rightarrow> path \<Rightarrow> path \<Rightarrow> object_fs \<Rightarrow> object_fs" where
  "discard_temp io temp_path parent_dir fs =
     fsync_best_effort (pi_cleanup_sync io) parent_dir (fs_unlink (pi_unlink_ok io) temp_path fs)"

text \<open>The temporary file: created, written, synced and closed.\<close>

definition write_temp :: "put_io \<Rightarrow> path \<Rightarrow> path \<Rightarrow> bytes \<Rightarrow> object_fs \<Rightarrow> unit result option \<times> object_fs" where
  "write_temp io temp_path parent_dir data fs =
     (let fs1 = fs_install temp_path \<lparr>sf_data = [], sf_synced = False\<rparr> fs
      in case object_write_all (pi_writes io) [] data of
           (None, written, _) \<Rightarrow> (None, fs_install temp_path \<lparr>sf_data = written, sf_synced = False\<rparr> fs1)
         | (Some (Inl e), written, _) \<Rightarrow>
             (Some (Inl e), discard_temp io temp_path parent_dir (fs_install temp_path \<lparr>sf_data = written, sf_synced = False\<rparr> fs1))
         | (Some (Inr _), written, _) \<Rightarrow>
             let fs2 = fs_install temp_path \<lparr>sf_data = written, sf_synced = False\<rparr> fs1
             in if \<not> pi_fsync_ok io
                then (Some (Inl (GError IO_ERRNO (Syscall ''fsync''))), discard_temp io temp_path parent_dir fs2)
                else
                  let fs3 = fs_install temp_path \<lparr>sf_data = written, sf_synced = True\<rparr> fs2
                  in if \<not> pi_close_ok io
                     then (Some (Inl (GError IO_ERRNO (Syscall ''close''))), discard_temp io temp_path parent_dir fs3)
                     else (Some (Inr ()), fs3))"

text \<open>The link to the final name, which fails if the name is taken by now.\<close>

definition link_object ::
  "(bytes \<Rightarrow> bytes) \<Rightarrow> put_io \<Rightarrow> path \<Rightarrow> path \<Rightarrow> path \<Rightarrow> bytes \<Rightarrow> object_fs \<Rightarrow> bytes result option \<times> object_fs" where
  "link_object sha io temp_path path parent_dir hex fs =
     (let fs1 = (case pi_race io of None \<Rightarrow> fs | Some f \<Rightarrow> fs_install path f fs)
      in if fs_files fs1 path \<noteq> None
         then accept_existing sha io path parent_dir hex (discard_temp io temp_path parent_dir fs1)
         else if \<not> pi_link_ok io
         then (Some (Inl (GError IO_ERRNO (Syscall ''link''))), discard_temp io temp_path parent_dir fs1)
         else finish_put io parent_dir hex
                (fs_unlink (pi_unlink_ok io) temp_path (fs_install path (the (fs_files fs1 temp_path)) fs1)))"

definition put_bytes ::
  "(bytes \<Rightarrow> bytes) \<Rightarrow> put_io \<Rightarrow> object_store \<Rightarrow> bytes \<Rightarrow> object_fs \<Rightarrow> bytes result option \<times> object_fs" where
  "put_bytes sha io self data fs =
     (if \<not> os_writable self then (Some (Inl (GError IO_PERMISSION_DENIED Read_only)), fs)
      else
        let hex = checksum_data sha data;
            path = build_object_path self hex;
            parent_dir = butlast path;
            hash_root_dir = butlast parent_dir
        in case check_root (pi_accessible io) self fs of
             Inl e \<Rightarrow> (Some (Inl (GError IO_BUSY Store_unavailable)), fs)
           | Inr _ \<Rightarrow>
               if pi_mkdir io = Mkdir_noent then (Some (Inl (GError IO_BUSY (Syscall ''mkdir''))), fs)
               else if pi_mkdir io = Mkdir_error then (Some (Inl (GError IO_ERRNO (Syscall ''mkdir''))), fs)
               else
                 case object_fsync_dir (pi_hash_root_sync io) hash_root_dir (fs_mkdir parent_dir fs) of
                   (Inl e, fs1) \<Rightarrow> (Some (Inl e), fs1)
                 | (Inr _, fs1) \<Rightarrow>
                     if fs_files fs1 path \<noteq> None then accept_existing sha io path parent_dir hex fs1
                     else
                       case pi_temp io of
                         None \<Rightarrow> (Some (Inl (GError IO_ERRNO (Syscall ''mkstemp''))), fs1)
                       | Some suffix \<Rightarrow>
                           let temp_path = parent_dir @ [temp_name suffix]
                           in if fs_files fs1 temp_path \<noteq> None
                              then (Some (Inl (GError IO_ERRNO (Syscall ''mkstemp''))), fs1)
                              else
                                case write_temp io temp_path parent_dir data fs1 of
                                  (None, fs2) \<Rightarrow> (None, fs2)
                                | (Some (Inl e), fs2) \<Rightarrow> (Some (Inl e), fs2)
                                | (Some (Inr _), fs2) \<Rightarrow> link_object sha io temp_path path parent_dir hex fs2)"

definition get_bytes :: "(bytes \<Rightarrow> bytes) \<Rightarrow> bool \<Rightarrow> object_store \<Rightarrow> cstring \<Rightarrow> object_fs \<Rightarrow> bytes result" where
  "get_bytes sha readable self object_key fs =
     bindE (os_validate_object_key object_key) (\<lambda>hex.
     bindE (file_get_contents readable fs (build_object_path self hex)) (\<lambda>contents.
     bindE (verify_object_contents sha hex contents) (\<lambda>_. Inr contents)))"

section \<open>Checking a reference\<close>

datatype object_check = CHECK_OK | CHECK_MISSING | CHECK_SIZE_MISMATCH | CHECK_HASH_MISMATCH | CHECK_INVALID_KEY | CHECK_UNREADABLE

definition delivery_object_check ::
  "(bytes \<Rightarrow> bytes) \<Rightarrow> bool \<Rightarrow> object_store \<Rightarrow> cstring \<Rightarrow> u64 \<Rightarrow> object_fs \<Rightarrow> object_check" where
  "delivery_object_check sha readable self object_key expected_size fs =
     (case get_bytes sha readable self object_key fs of
        Inl (GError code _) \<Rightarrow>
          if code = FILE_NOENT \<or> code = IO_NOT_FOUND then CHECK_MISSING
          else if code = STORE_HASH_MISMATCH then CHECK_HASH_MISMATCH
          else if code = IO_INVALID_ARGUMENT then CHECK_INVALID_KEY
          else CHECK_UNREADABLE
      | Inl Abort \<Rightarrow> CHECK_UNREADABLE
      | Inr data \<Rightarrow> if of_nat (length data) \<noteq> expected_size then CHECK_SIZE_MISMATCH else CHECK_OK)"

section \<open>Keys and paths\<close>

definition hex_ok :: "bytes \<Rightarrow> bool" where
  "hex_ok hex \<longleftrightarrow> length hex = 64 \<and> list_all is_lowercase_hex hex"

lemma hex_digit_lowercase: "d < 16 \<Longrightarrow> is_lowercase_hex (hex_digit d)"
proof -
  assume d: "d < 16"
  then have "unat (of_nat (48 + d) :: byte) = 48 + d" "unat (of_nat (87 + d) :: byte) = 87 + d"
    by (simp_all only: unat_of_nat) simp_all
  with d show ?thesis
    unfolding is_lowercase_hex_def hex_digit_def word_le_nat_alt by simp
qed

lemma checksum_string_hex: "list_all is_lowercase_hex (checksum_string digest)" "length (checksum_string digest) = 2 * length digest"
proof (induction digest)
  case (Cons b digest)
  have "unat b < 256" using unsigned_less [of b] by simp
  then have "unat b div 16 < 16" "unat b mod 16 < 16" by auto
  then show "list_all is_lowercase_hex (checksum_string (b # digest))"
    "length (checksum_string (b # digest)) = 2 * length (b # digest)"
    using Cons by (simp_all add: checksum_string_def hex_digit_lowercase)
qed (simp_all add: checksum_string_def)

lemma checksum_hex_ok: "sha256_like sha \<Longrightarrow> hex_ok (checksum_data sha data)"
  by (simp add: hex_ok_def checksum_data_def checksum_string_hex sha256_like_def)

lemma is_lowercase_hex_digit: "g_ascii_isxdigit c \<and> \<not> g_ascii_isupper c \<longleftrightarrow> is_lowercase_hex c"
  unfolding g_ascii_isxdigit_def g_ascii_isupper_def g_ascii_isdigit_def is_lowercase_hex_def word_le_nat_alt by auto

lemma os_validate_object_key_Inr:
  "os_validate_object_key k = Inr hex \<longleftrightarrow> hex_ok hex \<and> k = Some (object_key_of hex)"
proof
  assume "os_validate_object_key k = Inr hex"
  then obtain key where k: "k = Some key" "take 7 key = lit ''sha256:''" "hex = drop 7 key" "hex_ok hex"
    by (auto simp: os_validate_object_key_def is_lowercase_hex_digit hex_ok_def Let_def split: option.splits if_splits)
  have "take 7 key @ drop 7 key = key"
    by (rule append_take_drop_id)
  then have "key = object_key_of hex"
    unfolding k(2) object_key_of_def k(3) by (rule sym)
  with k(1,4) show "hex_ok hex \<and> k = Some (object_key_of hex)" by blast
next
  assume h: "hex_ok hex \<and> k = Some (object_key_of hex)"
  have "take 7 (object_key_of hex) = lit ''sha256:''" "drop 7 (object_key_of hex) = hex"
    by (simp_all add: object_key_of_def)
  with h show "os_validate_object_key k = Inr hex"
    by (simp add: os_validate_object_key_def is_lowercase_hex_digit hex_ok_def)
qed

lemma object_key_ok: "hex_ok hex \<Longrightarrow> md_key_ok (object_key_of hex)"
  by (simp add: md_key_ok_def hex_ok_def object_key_of_def)

lemma object_key_of_eq [simp]: "object_key_of a = object_key_of b \<longleftrightarrow> a = b"
  by (simp add: object_key_of_def)

lemma object_path_eq [simp]: "build_object_path self a = build_object_path self b \<longleftrightarrow> a = b"
  by (auto simp: build_object_path_def)

lemma temp_not_object:
  assumes "hex_ok hex"
  shows "d @ [temp_name suffix] \<noteq> build_object_path self hex"
proof -
  obtain c cs where hex: "hex = c # cs" "is_lowercase_hex c"
    using assms by (cases hex) (auto simp: hex_ok_def)
  moreover have "\<not> is_lowercase_hex 46"
    by (simp add: is_lowercase_hex_def)
  ultimately show ?thesis
    by (auto simp: build_object_path_def temp_name_def lit_def)
qed

section \<open>The store's invariant\<close>

text \<open>Every file under the name of an object is complete, on disk, and hashes to its name.\<close>

definition store_ok :: "(bytes \<Rightarrow> bytes) \<Rightarrow> object_store \<Rightarrow> object_fs \<Rightarrow> bool" where
  "store_ok sha self fs \<longleftrightarrow>
     (\<forall>hex f. hex_ok hex \<and> fs_files fs (build_object_path self hex) = Some f \<longrightarrow>
        sf_synced f \<and> checksum_data sha (sf_data f) = hex)"

text \<open>A file at \<open>path\<close> that a crash leaves alone.\<close>

definition stored_at :: "object_fs \<Rightarrow> path \<Rightarrow> bytes \<Rightarrow> bool" where
  "stored_at fs path d \<longleftrightarrow>
     fs_files fs path = Some \<lparr>sf_data = d, sf_synced = True\<rparr> \<and> path \<in> fs_durable fs \<and> butlast path \<in> fs_durable fs"

text \<open>A process that races runs this code too.\<close>

definition race_ok :: "(bytes \<Rightarrow> bytes) \<Rightarrow> bytes \<Rightarrow> put_io \<Rightarrow> bool" where
  "race_ok sha data io \<longleftrightarrow>
     (\<forall>f. pi_race io = Some f \<longrightarrow> sf_synced f \<and> checksum_data sha (sf_data f) = checksum_data sha data)"

definition object_paths :: "object_store \<Rightarrow> path set" where
  "object_paths self = {build_object_path self hex | hex. hex_ok hex}"

lemma object_paths_iff [simp]: "build_object_path self hex \<in> object_paths self \<longleftrightarrow> hex_ok hex"
  by (auto simp: object_paths_def)

text \<open>What a call may do to the file system: objects are only added, good ones, and stay.\<close>

definition extends :: "(bytes \<Rightarrow> bytes) \<Rightarrow> object_store \<Rightarrow> object_fs \<Rightarrow> object_fs \<Rightarrow> bool" where
  "extends sha self fs fs' \<longleftrightarrow>
     (store_ok sha self fs \<longrightarrow> store_ok sha self fs') \<and>
     (\<forall>p \<in> object_paths self. \<forall>f. fs_files fs p = Some f \<longrightarrow>
        fs_files fs' p = Some f \<and> (p \<in> fs_durable fs \<longrightarrow> p \<in> fs_durable fs')) \<and>
     (\<forall>p. p \<in> object_paths self \<longrightarrow> butlast p \<in> fs_durable fs \<longrightarrow> butlast p \<in> fs_durable fs')"

lemma extends_refl [simp]: "extends sha self fs fs"
  by (simp add: extends_def)

lemma extends_trans: "extends sha self fs fs1 \<Longrightarrow> extends sha self fs1 fs2 \<Longrightarrow> extends sha self fs fs2"
  unfolding extends_def by blast

lemma extends_stored: "extends sha self fs fs' \<Longrightarrow> p \<in> object_paths self \<Longrightarrow> stored_at fs p d \<Longrightarrow> stored_at fs' p d"
  by (auto simp: extends_def stored_at_def)

lemma length_object_path: "p \<in> object_paths self \<Longrightarrow> length p = 5"
  by (auto simp: object_paths_def build_object_path_def objects_dir_def)

lemma temp_not_object_paths: "d @ [temp_name suffix] \<notin> object_paths self"
  using temp_not_object by (fastforce simp: object_paths_def)

lemma extends_other:
  assumes "\<forall>p \<in> object_paths self. fs_files fs' p = fs_files fs p"
    and "\<forall>p. p \<in> object_paths self \<or> length p = 4 \<longrightarrow> p \<in> fs_durable fs \<longrightarrow> p \<in> fs_durable fs'"
  shows "extends sha self fs fs'"
proof -
  have "store_ok sha self fs \<longrightarrow> store_ok sha self fs'"
    unfolding store_ok_def
  proof (intro impI allI)
    fix hex f
    assume ok: "\<forall>hex f. hex_ok hex \<and> fs_files fs (build_object_path self hex) = Some f \<longrightarrow>
        sf_synced f \<and> checksum_data sha (sf_data f) = hex"
      and f: "hex_ok hex \<and> fs_files fs' (build_object_path self hex) = Some f"
    then have "fs_files fs (build_object_path self hex) = Some f"
      using assms(1) by (metis object_paths_iff)
    with ok f show "sf_synced f \<and> checksum_data sha (sf_data f) = hex" by blast
  qed
  moreover have "butlast p \<in> fs_durable fs'" if "p \<in> object_paths self" "butlast p \<in> fs_durable fs" for p
    using assms(2) that length_object_path [OF that(1)] by simp
  ultimately show ?thesis
    using assms by (simp add: extends_def)
qed

lemma extends_mkdir: "extends sha self fs (fs_mkdir dir fs)"
  by (intro extends_other) (auto simp: fs_mkdir_def)

lemma extends_sync: "object_fsync_dir io dir fs = (r, fs') \<Longrightarrow> extends sha self fs fs'"
  by (intro extends_other) (auto simp: object_fsync_dir_def fs_sync_dir_def split: if_splits)

definition temp_path_of :: "path \<Rightarrow> bool" where
  "temp_path_of p \<longleftrightarrow> (\<exists>d suffix. length d = 4 \<and> p = d @ [temp_name suffix])"

lemma temp_path_of_not: "temp_path_of p \<Longrightarrow> p \<notin> object_paths self" "temp_path_of p \<Longrightarrow> length p = 5"
  using temp_not_object_paths by (auto simp: temp_path_of_def)

lemma extends_temp:
  assumes "temp_path_of p"
  shows "extends sha self fs (fs_install p f fs)" "extends sha self fs (fs_unlink ok p fs)"
  using temp_path_of_not [OF assms] by (auto intro!: extends_other simp: fs_install_def fs_unlink_def)

lemma extends_discard: "temp_path_of p \<Longrightarrow> extends sha self fs (discard_temp io p d fs)"
  unfolding discard_temp_def fsync_best_effort_def
  by (rule extends_trans [OF extends_temp(2) extends_sync [OF surjective_pairing]])

lemma extends_install:
  assumes "hex_ok hex" "fs_files fs (build_object_path self hex) = None" "sf_synced f" "checksum_data sha (sf_data f) = hex"
  shows "extends sha self fs (fs_install (build_object_path self hex) f fs)"
proof -
  have "butlast p \<noteq> build_object_path self hex" if "p \<in> object_paths self" for p
    using length_object_path [OF that] by (auto simp: build_object_path_def objects_dir_def dest: arg_cong [of _ _ length])
  with assms show ?thesis
    by (auto simp: extends_def fs_install_def store_ok_def)
qed

section \<open>What put does\<close>

lemma object_write_all_eq: "object_write_all ws f data = write_all ws f data"
  by (induction ws f data rule: object_write_all.induct) auto

text \<open>The object of \<open>hex\<close> is there, verified, and its entry and that of its directory are on disk.\<close>

definition object_in :: "(bytes \<Rightarrow> bytes) \<Rightarrow> object_store \<Rightarrow> bytes \<Rightarrow> object_fs \<Rightarrow> bool" where
  "object_in sha self hex fs \<longleftrightarrow>
     (\<exists>f. fs_files fs (build_object_path self hex) = Some f \<and> checksum_data sha (sf_data f) = hex)"

definition entry_durable :: "object_store \<Rightarrow> bytes \<Rightarrow> object_fs \<Rightarrow> bool" where
  "entry_durable self hex fs \<longleftrightarrow>
     build_object_path self hex \<in> fs_durable fs \<and> butlast (build_object_path self hex) \<in> fs_durable fs"

lemma object_path_parts [simp]:
  "build_object_path self hex \<noteq> []" "length (build_object_path self hex) = 5"
  "length (butlast (build_object_path self hex)) = 4"
  by (simp_all add: build_object_path_def objects_dir_def)

lemma finish_put_done:
  assumes "finish_put io (butlast (build_object_path self hex)) hex fs = (r, fs')"
  shows "extends sha self fs fs'"
    and "r = Some (Inr key) \<Longrightarrow> object_in sha self hex fs \<Longrightarrow> butlast (build_object_path self hex) \<in> fs_durable fs \<Longrightarrow>
      key = object_key_of hex \<and> fs_files fs' = fs_files fs \<and> entry_durable self hex fs'"
proof -
  obtain q fs1 where q: "object_fsync_dir (pi_parent_sync io) (butlast (build_object_path self hex)) fs = (q, fs1)"
    by (cases "object_fsync_dir (pi_parent_sync io) (butlast (build_object_path self hex)) fs")
  then have "fs' = fs1"
    using assms by (auto simp: finish_put_def split: sum.splits)
  with extends_sync [OF q] show "extends sha self fs fs'" by simp
  assume "r = Some (Inr key)" "object_in sha self hex fs" "butlast (build_object_path self hex) \<in> fs_durable fs"
  with assms q show "key = object_key_of hex \<and> fs_files fs' = fs_files fs \<and> entry_durable self hex fs'"
    by (auto simp: finish_put_def object_fsync_dir_def fs_sync_dir_def object_in_def entry_durable_def split: if_splits)
qed

lemma verify_object_file_Inr:
  "verify_object_file sha readable fs (build_object_path self hex) hex = Inr u \<Longrightarrow> object_in sha self hex fs"
  by (auto simp: verify_object_file_def bindE_Inr_iff file_get_contents_def verify_object_contents_def object_in_def
      split: option.splits if_splits)

lemma accept_existing_done:
  assumes "accept_existing sha io (build_object_path self hex) (butlast (build_object_path self hex)) hex fs = (r, fs')"
  shows "extends sha self fs fs'"
    and "r = Some (Inr key) \<Longrightarrow> butlast (build_object_path self hex) \<in> fs_durable fs \<Longrightarrow>
      key = object_key_of hex \<and> object_in sha self hex fs' \<and> fs_files fs' = fs_files fs \<and> entry_durable self hex fs'"
proof -
  consider e where "verify_object_file sha (pi_readable io) fs (build_object_path self hex) hex = Inl e" "(r, fs') = (Some (Inl e), fs)"
    | u where "verify_object_file sha (pi_readable io) fs (build_object_path self hex) hex = Inr u"
        "finish_put io (butlast (build_object_path self hex)) hex fs = (r, fs')"
    using assms by (cases "verify_object_file sha (pi_readable io) fs (build_object_path self hex) hex")
      (auto simp: accept_existing_def)
  then have "extends sha self fs fs' \<and> (r = Some (Inr key) \<longrightarrow> butlast (build_object_path self hex) \<in> fs_durable fs \<longrightarrow>
      key = object_key_of hex \<and> object_in sha self hex fs' \<and> fs_files fs' = fs_files fs \<and> entry_durable self hex fs')"
  proof cases
    case 2
    note fin = finish_put_done [OF 2(2)]
    from verify_object_file_Inr [OF 2(1)] fin(1) fin(2) [of key sha] show ?thesis
      by (auto simp: object_in_def)
  qed simp
  then show "extends sha self fs fs'"
    "r = Some (Inr key) \<Longrightarrow> butlast (build_object_path self hex) \<in> fs_durable fs \<Longrightarrow>
      key = object_key_of hex \<and> object_in sha self hex fs' \<and> fs_files fs' = fs_files fs \<and> entry_durable self hex fs'"
    by blast+
qed

lemma write_temp_done:
  assumes "write_temp io tp d data fs = (r, fs')" "temp_path_of tp"
  shows "extends sha self fs fs'"
    and "r = Some (Inr u) \<Longrightarrow> fs_files fs' = (fs_files fs)(tp \<mapsto> \<lparr>sf_data = data, sf_synced = True\<rparr>)"
proof -
  obtain q written ws where w: "object_write_all (pi_writes io) [] data = (q, written, ws)"
    by (metis prod.exhaust)
  note steps = extends_temp(1) [OF assms(2)] extends_discard [OF assms(2)]
  let ?f = "\<lambda>b. \<lparr>sf_data = written, sf_synced = b\<rparr>"
  have s1: "extends sha self fs (fs_install tp (?f b) (fs_install tp f0 fs))" for b f0
    by (rule extends_trans [OF steps(1) steps(1)])
  have s2: "extends sha self fs (fs_install tp (?f True) (fs_install tp (?f False) (fs_install tp f0 fs)))" for f0
    by (rule extends_trans [OF s1 steps(1)])
  note all = s1 s2 extends_trans [OF s1 steps(2)] extends_trans [OF s2 steps(2)]
  show "extends sha self fs fs'"
    using assms(1) all by (auto simp: write_temp_def w Let_def split: option.splits sum.splits if_splits)
  assume "r = Some (Inr u)"
  moreover have "q = Some (Inr ()) \<Longrightarrow> written = data"
    using write_all_cases [of "pi_writes io" "[]" data q written ws] w by (simp add: object_write_all_eq)
  ultimately show "fs_files fs' = (fs_files fs)(tp \<mapsto> \<lparr>sf_data = data, sf_synced = True\<rparr>)"
    using assms(1) by (auto simp: write_temp_def w Let_def fs_install_def split: option.splits sum.splits if_splits)
qed

lemma link_object_done:
  assumes run: "link_object sha io tp (build_object_path self hex) (butlast (build_object_path self hex)) hex fs = (r, fs')"
    and tp: "temp_path_of tp" and hex: "hex = checksum_data sha data" "hex_ok hex" and race: "race_ok sha data io"
    and absent: "fs_files fs (build_object_path self hex) = None"
    and temp: "fs_files fs tp = Some \<lparr>sf_data = data, sf_synced = True\<rparr>"
  shows "extends sha self fs fs'"
    and "r = Some (Inr key) \<Longrightarrow> butlast (build_object_path self hex) \<in> fs_durable fs \<Longrightarrow>
      key = object_key_of hex \<and> object_in sha self hex fs' \<and> entry_durable self hex fs' \<and>
      (pi_race io = None \<longrightarrow> (\<exists>f. fs_files fs' (build_object_path self hex) = Some f \<and> sf_data f = data))"
proof -
  let ?path = "build_object_path self hex"
  let ?goal = "extends sha self fs fs' \<and> (r = Some (Inr key) \<longrightarrow> butlast ?path \<in> fs_durable fs \<longrightarrow>
      key = object_key_of hex \<and> object_in sha self hex fs' \<and> entry_durable self hex fs' \<and>
      (pi_race io = None \<longrightarrow> (\<exists>f. fs_files fs' ?path = Some f \<and> sf_data f = data)))"
  have tpn: "tp \<noteq> ?path"
    using temp_path_of_not [OF tp] hex(2) object_paths_iff by metis
  have ?goal
  proof (cases "pi_race io")
    case (Some f)
    then have f: "sf_synced f" "checksum_data sha (sf_data f) = hex"
      using race hex by (auto simp: race_ok_def)
    note ext = extends_trans [OF extends_install [OF hex(2) absent f] extends_discard [OF tp, of sha self _ io "butlast ?path"]]
    from run Some have acc: "accept_existing sha io ?path (butlast ?path) hex
        (discard_temp io tp (butlast ?path) (fs_install ?path f fs)) = (r, fs')"
      by (simp add: link_object_def fs_install_def)
    have dur: "butlast ?path \<in> fs_durable fs \<Longrightarrow> butlast ?path \<in> fs_durable (discard_temp io tp (butlast ?path) (fs_install ?path f fs))"
      using ext hex(2) by (simp add: extends_def)
    have "extends sha self fs fs'"
      by (rule extends_trans [OF ext accept_existing_done(1) [OF acc]])
    with accept_existing_done(2) [OF acc _ dur] Some show ?thesis
      by simp
  next
    case None
    let ?fs2 = "fs_unlink (pi_unlink_ok io) tp (fs_install ?path \<lparr>sf_data = data, sf_synced = True\<rparr> fs)"
    have ext: "extends sha self fs ?fs2"
      by (rule extends_trans [OF extends_install [OF hex(2) absent] extends_temp(2) [OF tp]]) (simp_all add: hex)
    have in2: "object_in sha self hex ?fs2" "fs_files ?fs2 ?path = Some \<lparr>sf_data = data, sf_synced = True\<rparr>"
      using tpn by (simp_all add: object_in_def fs_unlink_def fs_install_def hex(1))
    show ?thesis
    proof (cases "pi_link_ok io")
      case False
      with run None absent extends_discard [OF tp, of sha self fs] show ?thesis
        by (auto simp: link_object_def)
    next
      case True
      with run None absent temp have fin: "finish_put io (butlast ?path) hex ?fs2 = (r, fs')"
        by (simp add: link_object_def)
      have "butlast ?path \<in> fs_durable fs \<Longrightarrow> butlast ?path \<in> fs_durable ?fs2"
        using ext hex(2) by (simp add: extends_def)
      with finish_put_done(1) [OF fin, of sha] finish_put_done(2) [OF fin, of key sha] extends_trans [OF ext] in2 show ?thesis
        by (auto simp: object_in_def)
    qed
  qed
  then show "extends sha self fs fs'"
    "r = Some (Inr key) \<Longrightarrow> butlast (build_object_path self hex) \<in> fs_durable fs \<Longrightarrow>
      key = object_key_of hex \<and> object_in sha self hex fs' \<and> entry_durable self hex fs' \<and>
      (pi_race io = None \<longrightarrow> (\<exists>f. fs_files fs' (build_object_path self hex) = Some f \<and> sf_data f = data))"
    by blast+
qed

text \<open>Whatever the outcome, objects are only added; a key that is returned names an object that is on disk.\<close>

lemma put_bytes_done:
  assumes run: "put_bytes sha io self data fs = (r, fs')" and race: "race_ok sha data io" and sha: "sha256_like sha"
  defines "hex \<equiv> checksum_data sha data"
  shows "extends sha self fs fs'"
    and "r = Some (Inr key) \<Longrightarrow> key = object_key_of hex \<and> object_in sha self hex fs' \<and> entry_durable self hex fs' \<and>
      (fs_files fs (build_object_path self hex) = None \<longrightarrow> pi_race io = None \<longrightarrow>
        (\<exists>f. fs_files fs' (build_object_path self hex) = Some f \<and> sf_data f = data))"
proof -
  let ?path = "build_object_path self hex"
  let ?fs0 = "fs_mkdir (butlast ?path) fs"
  let ?goal = "extends sha self fs fs' \<and> (r = Some (Inr key) \<longrightarrow> key = object_key_of hex \<and> object_in sha self hex fs' \<and>
      entry_durable self hex fs' \<and> (fs_files fs ?path = None \<longrightarrow> pi_race io = None \<longrightarrow>
        (\<exists>f. fs_files fs' ?path = Some f \<and> sf_data f = data)))"
  have hex: "hex_ok hex" by (simp add: hex_def checksum_hex_ok sha)
  have ?goal
  proof (cases "os_writable self \<and> check_root (pi_accessible io) self fs = Inr () \<and> pi_mkdir io = Mkdir_done")
    case False
    with run show ?thesis
      by (auto simp: put_bytes_def Let_def split: sum.splits if_splits) (metis (full_types) mkdir_reply.exhaust)+
  next
    case True
    obtain q fs1 where q: "object_fsync_dir (pi_hash_root_sync io) (butlast (butlast ?path)) ?fs0 = (q, fs1)"
      by (cases "object_fsync_dir (pi_hash_root_sync io) (butlast (butlast ?path)) ?fs0")
    note ext1 = extends_trans [OF extends_mkdir extends_sync [OF q]]
    have same: "fs_files fs1 = fs_files fs"
      using q by (auto simp: object_fsync_dir_def fs_sync_dir_def fs_mkdir_def split: if_splits)
    show ?thesis
    proof (cases q)
      case (Inl e)
      with run True q ext1 show ?thesis
        by (auto simp: put_bytes_def Let_def hex_def [symmetric])
    next
      case (Inr u)
      have dur: "butlast ?path \<in> fs_durable fs1"
        using q Inr by (auto simp: object_fsync_dir_def fs_sync_dir_def fs_mkdir_def build_object_path_def objects_dir_def split: if_splits)
      show ?thesis
      proof (cases "fs_files fs ?path = None")
        case False
        with run True q Inr same have "accept_existing sha io ?path (butlast ?path) hex fs1 = (r, fs')"
          by (auto simp: put_bytes_def Let_def hex_def [symmetric])
        note acc = this
        have "extends sha self fs fs'"
          by (rule extends_trans [OF ext1 accept_existing_done(1) [OF acc]])
        with accept_existing_done(2) [OF acc _ dur] False show ?thesis by auto
      next
        case absent: True
        show ?thesis
        proof (cases "\<exists>suffix. pi_temp io = Some suffix \<and> fs_files fs1 (butlast ?path @ [temp_name suffix]) = None")
          case False
          with run True q Inr same absent ext1 show ?thesis
            by (auto simp: put_bytes_def Let_def hex_def [symmetric] split: option.splits if_splits)
        next
          case True
          then obtain suffix where suffix: "pi_temp io = Some suffix" "fs_files fs1 (butlast ?path @ [temp_name suffix]) = None"
            by blast
          let ?tp = "butlast ?path @ [temp_name suffix]"
          have tp: "temp_path_of ?tp"
            unfolding temp_path_of_def using object_path_parts(3) by blast
          obtain w fs2 where w: "write_temp io ?tp (butlast ?path) data fs1 = (w, fs2)"
            by (cases "write_temp io ?tp (butlast ?path) data fs1")
          note ext2 = extends_trans [OF ext1 write_temp_done(1) [OF w tp]]
          consider "w = None" "r = None" "fs' = fs2" | e where "w = Some (Inl e)" "r = Some (Inl e)" "fs' = fs2"
            | "w = Some (Inr ())" "link_object sha io ?tp ?path (butlast ?path) hex fs2 = (r, fs')"
            using run \<open>os_writable self \<and> _\<close> q Inr same absent suffix w
            by (cases w; cases "the w") (auto simp: put_bytes_def Let_def hex_def [symmetric])
          then show ?thesis
          proof cases
            case 3
            note files = write_temp_done(2) [OF w tp 3(1)]
            have tpn: "?tp \<noteq> ?path"
              using temp_path_of_not [OF tp] hex object_paths_iff by metis
            have "fs_files fs2 ?path = None" "fs_files fs2 ?tp = Some \<lparr>sf_data = data, sf_synced = True\<rparr>"
              using files absent same tpn by auto
            note lnk = link_object_done [OF 3(2) tp hex_def [THEN meta_eq_to_obj_eq] hex race this]
            have dur2: "butlast ?path \<in> fs_durable fs2"
              using write_temp_done(1) [OF w tp, of sha self] dur hex by (simp add: extends_def)
            have "extends sha self fs fs'"
              by (rule extends_trans [OF ext2 lnk(1)])
            with lnk(2) [OF _ dur2] show ?thesis by simp
          qed (use ext2 in auto)
        qed
      qed
    qed
  qed
  then show "extends sha self fs fs'"
    "r = Some (Inr key) \<Longrightarrow> key = object_key_of hex \<and> object_in sha self hex fs' \<and> entry_durable self hex fs' \<and>
      (fs_files fs (build_object_path self hex) = None \<longrightarrow> pi_race io = None \<longrightarrow>
        (\<exists>f. fs_files fs' (build_object_path self hex) = Some f \<and> sf_data f = data))"
    by blast+
qed

section \<open>Over time\<close>

text \<open>
  A crash keeps every file whose entry and whose directory's entry are on disk, takes or keeps
  any other, and may change the contents of those that were not synced. The directories above the
  shard directories are on disk since \<^verbatim>\<open>store_new\<close>.
\<close>

definition fs_crash :: "object_fs \<Rightarrow> object_fs \<Rightarrow> bool" where
  "fs_crash fs fs' \<longleftrightarrow>
     (\<forall>p. fs_files fs p = None \<longrightarrow> fs_files fs' p = None) \<and>
     (\<forall>p f. fs_files fs p = Some f \<longrightarrow>
        (sf_synced f \<longrightarrow> fs_files fs' p = None \<or> fs_files fs' p = Some f) \<and>
        (p \<in> fs_durable fs \<and> butlast p \<in> fs_durable fs \<longrightarrow> fs_files fs' p \<noteq> None)) \<and>
     fs_durable fs \<subseteq> fs_durable fs'"

inductive store_step :: "(bytes \<Rightarrow> bytes) \<Rightarrow> object_store \<Rightarrow> object_fs \<Rightarrow> object_fs \<Rightarrow> bool" for sha self where
  store_put: "put_bytes sha io self data fs = (r, fs') \<Longrightarrow> race_ok sha data io \<Longrightarrow> store_step sha self fs fs'"
| store_crash: "fs_crash fs fs' \<Longrightarrow> store_step sha self fs fs'"

inductive_cases store_stepE: "store_step sha self fs fs'"

lemma crash_keeps:
  assumes "fs_crash fs fs'" "store_ok sha self fs"
  shows "store_ok sha self fs'" "stored_at fs p d \<Longrightarrow> stored_at fs' p d"
proof -
  show "store_ok sha self fs'"
    unfolding store_ok_def
  proof (intro allI impI)
    fix hex f
    assume f: "hex_ok hex \<and> fs_files fs' (build_object_path self hex) = Some f"
    then obtain g where g: "fs_files fs (build_object_path self hex) = Some g"
      using assms(1) unfolding fs_crash_def by (metis not_Some_eq)
    then have "sf_synced g" "checksum_data sha (sf_data g) = hex"
      using assms(2) f by (auto simp: store_ok_def)
    moreover from this(1) g f have "g = f"
      using assms(1) unfolding fs_crash_def by (metis option.distinct(1) option.inject)
    ultimately show "sf_synced f \<and> checksum_data sha (sf_data f) = hex" by simp
  qed
  assume "stored_at fs p d"
  then show "stored_at fs' p d"
    using assms(1) unfolding fs_crash_def stored_at_def
    by (metis (no_types, lifting) stored_file.select_convs(2) subsetD)
qed

lemma store_step_keeps:
  assumes "store_step sha self fs fs'" "sha256_like sha" "store_ok sha self fs"
  shows "store_ok sha self fs' \<and> (hex_ok hex \<longrightarrow> stored_at fs (build_object_path self hex) d \<longrightarrow>
    stored_at fs' (build_object_path self hex) d)"
  using assms(1)
proof (rule store_stepE)
  fix io data r
  assume "put_bytes sha io self data fs = (r, fs')" "race_ok sha data io"
  note ext = put_bytes_done(1) [OF this assms(2)]
  with assms(3) show ?thesis
    using extends_stored [OF ext, of "build_object_path self hex" d] by (auto simp: extends_def)
next
  assume "fs_crash fs fs'"
  from crash_keeps [OF this assms(3)] show ?thesis by blast
qed

lemma store_steps_keep:
  assumes "(store_step sha self)\<^sup>*\<^sup>* fs fs'" "sha256_like sha" "store_ok sha self fs"
    "hex_ok hex" "stored_at fs (build_object_path self hex) d"
  shows "store_ok sha self fs' \<and> stored_at fs' (build_object_path self hex) d"
  using assms(1)
proof (induction rule: rtranclp_induct)
  case (step y z)
  with store_step_keeps [OF step(2) assms(2)] assms(4) show ?case by blast
qed (use assms in simp)

lemma put_bytes_stored:
  assumes "put_bytes sha io self data fs = (Some (Inr key), fs')" "race_ok sha data io" "sha256_like sha" "store_ok sha self fs"
  defines "hex \<equiv> checksum_data sha data"
  shows "hex_ok hex" "key = object_key_of hex" "store_ok sha self fs'"
    "\<exists>d. stored_at fs' (build_object_path self hex) d \<and> checksum_data sha d = hex"
proof -
  show hex: "hex_ok hex" by (simp add: hex_def checksum_hex_ok assms(3))
  note fin = put_bytes_done(1) [OF assms(1-3)] put_bytes_done(2) [OF assms(1-3) refl, folded hex_def]
  then show "key = object_key_of hex" and ok: "store_ok sha self fs'"
    using assms(4) by (auto simp: extends_def)
  obtain f where f: "fs_files fs' (build_object_path self hex) = Some f" "checksum_data sha (sf_data f) = hex"
    using fin(2) by (auto simp: object_in_def)
  moreover have "sf_synced f"
    using ok f hex by (auto simp: store_ok_def)
  ultimately have "stored_at fs' (build_object_path self hex) (sf_data f)"
    using fin(2) by (simp add: stored_at_def entry_durable_def)
  with f(2) show "\<exists>d. stored_at fs' (build_object_path self hex) d \<and> checksum_data sha d = hex" by blast
qed

lemma get_bytes_Inr:
  "get_bytes sha readable self k fs = Inr d \<longleftrightarrow>
     (\<exists>hex f. k = Some (object_key_of hex) \<and> hex_ok hex \<and> readable \<and> fs_files fs (build_object_path self hex) = Some f \<and>
        checksum_data sha (sf_data f) = hex \<and> d = sf_data f)"
  by (auto simp: get_bytes_def bindE_Inr_iff os_validate_object_key_Inr file_get_contents_def verify_object_contents_def
      split: option.splits)

lemma get_bytes_stored:
  "stored_at fs (build_object_path self hex) d \<Longrightarrow> checksum_data sha d = hex \<Longrightarrow> hex_ok hex \<Longrightarrow>
   get_bytes sha True self (Some (object_key_of hex)) fs = Inr d"
  by (simp add: get_bytes_Inr stored_at_def)

lemma object_check_OK:
  "delivery_object_check sha readable self k n fs = CHECK_OK \<longleftrightarrow>
     (\<exists>d. get_bytes sha readable self k fs = Inr d \<and> of_nat (length d) = n)"
  by (auto simp: delivery_object_check_def split: sum.splits gerror.splits)

end
