(* ===== verification/Eml_Metadata.thy ===== *)
theory Eml_Metadata
  imports Message_Delivered
begin

text \<open>
  The header parser (\<^verbatim>\<open>wyrebox-eml-metadata.c\<close>): it walks the lines of the header block, unfolds
  continuations and keeps the first value of the headers it knows. \<open>metadata_parse_fields\<close> says what
  that comes to for any input, in terms of the list of header fields of the block.
\<close>

section \<open>The code\<close>

text \<open>Metadata \<^verbatim>\<open>{ 0 }\<close>.\<close>

definition em_empty :: eml_metadata where
  "em_empty = \<lparr>em_message_id = None, em_message_id_span_valid = False, em_message_id_span_start = 0,
     em_message_id_span_end = 0, em_subject = None, em_from = None, em_to = None, em_cc = None, em_bcc = None,
     em_date = None, em_in_reply_to = None, em_references = None, em_list_id = None, em_delivered_to = None,
     em_x_original_to = None, em_subject_span_valid = False, em_subject_span_start = 0, em_subject_span_end = 0,
     em_size_bytes = 0, em_duplicate_message_id_count = 0\<rparr>"

definition find_header_separator :: "bytes \<Rightarrow> nat option" where
  "find_header_separator data =
     (if length data < 4 then None
      else find (\<lambda>index. data ! index = 13 \<and> data ! (index + 1) = 10 \<and> data ! (index + 2) = 13 \<and> data ! (index + 3) = 10)
             [0..<length data - 4 + 1])"

text \<open>A \<^verbatim>\<open>GString\<close> read as a C string ends at its first zero byte.\<close>

definition set_first_value :: "cstring \<Rightarrow> bytes \<Rightarrow> cstring" where
  "set_first_value slot value = (if slot = None then Some (takeWhile (\<lambda>b. b \<noteq> 0) value) else slot)"

definition commit_header :: "eml_metadata \<Rightarrow> cstring \<Rightarrow> bytes option \<Rightarrow> bool \<Rightarrow> u64 \<Rightarrow> u64 \<Rightarrow> eml_metadata" where
  "commit_header metadata name value span_valid span_start span_end =
     (case (name, value) of
        (Some n, Some v) \<Rightarrow>
          if ascii_case_equal n (lit ''Message-ID'')
          then let m = (if em_message_id metadata = None
                        then metadata\<lparr>em_message_id := set_first_value None v\<rparr>
                        else metadata\<lparr>em_duplicate_message_id_count := em_duplicate_message_id_count metadata + 1\<rparr>)
               in if \<not> em_message_id_span_valid m \<and> span_valid
                  then m\<lparr>em_message_id_span_valid := True, em_message_id_span_start := span_start,
                         em_message_id_span_end := span_end\<rparr>
                  else m
          else if ascii_case_equal n (lit ''Subject'')
          then let m = metadata\<lparr>em_subject := set_first_value (em_subject metadata) v\<rparr>
               in if \<not> em_subject_span_valid m \<and> span_valid
                  then m\<lparr>em_subject_span_valid := True, em_subject_span_start := span_start, em_subject_span_end := span_end\<rparr>
                  else m
          else if ascii_case_equal n (lit ''From'') then metadata\<lparr>em_from := set_first_value (em_from metadata) v\<rparr>
          else if ascii_case_equal n (lit ''To'') then metadata\<lparr>em_to := set_first_value (em_to metadata) v\<rparr>
          else if ascii_case_equal n (lit ''Cc'') then metadata\<lparr>em_cc := set_first_value (em_cc metadata) v\<rparr>
          else if ascii_case_equal n (lit ''Bcc'') then metadata\<lparr>em_bcc := set_first_value (em_bcc metadata) v\<rparr>
          else if ascii_case_equal n (lit ''Date'') then metadata\<lparr>em_date := set_first_value (em_date metadata) v\<rparr>
          else if ascii_case_equal n (lit ''In-Reply-To'')
          then metadata\<lparr>em_in_reply_to := set_first_value (em_in_reply_to metadata) v\<rparr>
          else if ascii_case_equal n (lit ''References'')
          then metadata\<lparr>em_references := set_first_value (em_references metadata) v\<rparr>
          else if ascii_case_equal n (lit ''List-Id'') then metadata\<lparr>em_list_id := set_first_value (em_list_id metadata) v\<rparr>
          else if ascii_case_equal n (lit ''Delivered-To'')
          then metadata\<lparr>em_delivered_to := set_first_value (em_delivered_to metadata) v\<rparr>
          else if ascii_case_equal n (lit ''X-Original-To'')
          then metadata\<lparr>em_x_original_to := set_first_value (em_x_original_to metadata) v\<rparr>
          else metadata
      | _ \<Rightarrow> metadata)"

text \<open>The loop's variables: metadata, current header and its span.\<close>

record header_state =
  hs_metadata :: eml_metadata
  hs_name :: cstring
  hs_value :: "bytes option"
  hs_span_valid :: bool
  hs_span_start :: u64
  hs_span_end :: u64

definition is_blank :: "byte \<Rightarrow> bool" where
  "is_blank b \<longleftrightarrow> b = 32 \<or> b = 9"

definition strip_blanks :: "bytes \<Rightarrow> bytes" where
  "strip_blanks value = dropWhile is_blank value"

definition replace_current_header :: "header_state \<Rightarrow> bytes \<Rightarrow> nat \<Rightarrow> header_state" where
  "replace_current_header st line colon =
     st\<lparr>hs_name := Some (g_strndup line 0 colon), hs_value := Some (strip_blanks (drop (colon + 1) line))\<rparr>"

definition append_continuation :: "bytes \<Rightarrow> bytes \<Rightarrow> bytes" where
  "append_continuation current_value line = current_value @ [32] @ strip_blanks line"

definition memchr :: "bytes \<Rightarrow> byte \<Rightarrow> nat option" where
  "memchr line c = find (\<lambda>i. line ! i = c) [0..<length line]"

text \<open>The inner loop: where the line ends and whether a CR LF ends it.\<close>

function scan_line_end :: "bytes \<Rightarrow> nat \<Rightarrow> nat \<Rightarrow> nat \<times> bool" where
  "scan_line_end data header_len line_end =
     (if line_end + 1 < header_len
      then if data ! line_end = 13 \<and> data ! (line_end + 1) = 10 then (line_end, True)
           else scan_line_end data header_len (line_end + 1)
      else (line_end, False))"
  by auto
termination by (relation "measure (\<lambda>(data, header_len, line_end). header_len - line_end)") auto

declare scan_line_end.simps [simp del]

lemma scan_line_end_ge: "scan_line_end data n i = (j, b) \<Longrightarrow> i \<le> j"
proof (induction data n i rule: scan_line_end.induct)
  case (1 data n i)
  then show ?case
    by (subst (asm) scan_line_end.simps) (auto split: if_splits)
qed

text \<open>One line: a continuation of the current header, or the end of it and perhaps a new one.\<close>

definition header_line :: "bytes \<Rightarrow> nat \<Rightarrow> nat \<Rightarrow> header_state \<Rightarrow> header_state" where
  "header_line line line_start line_end st =
     (if length line > 0 \<and> is_blank (line ! 0) \<and> hs_value st \<noteq> None
      then st\<lparr>hs_value := Some (append_continuation (the (hs_value st)) line), hs_span_end := of_nat line_end\<rparr>
      else
        let st1 = \<lparr>hs_metadata = commit_header (hs_metadata st) (hs_name st) (hs_value st) (hs_span_valid st)
                     (hs_span_start st) (hs_span_end st),
                   hs_name = None, hs_value = None, hs_span_valid = False, hs_span_start = 0, hs_span_end = 0\<rparr>
        in case memchr line 58 of
             None \<Rightarrow> st1
           | Some colon \<Rightarrow> (replace_current_header st1 line colon)
               \<lparr>hs_span_valid := True, hs_span_start := of_nat line_start, hs_span_end := of_nat line_end\<rparr>)"

function header_loop :: "bytes \<Rightarrow> nat \<Rightarrow> nat \<Rightarrow> header_state \<Rightarrow> header_state" where
  "header_loop data header_len offset st =
     (if offset < header_len
      then case scan_line_end data header_len offset of
             (line_end, has_line_terminator) \<Rightarrow>
               let line_len = (if has_line_terminator then line_end - offset else header_len - offset)
               in header_loop data header_len (if has_line_terminator then line_end + 2 else header_len)
                    (header_line (take line_len (drop offset data)) offset line_end st)
      else st)"
  by auto
termination
  by (relation "measure (\<lambda>(data, header_len, offset, st). header_len - offset)")
    (auto dest!: sym [of "(_, _)"] scan_line_end_ge)

declare header_loop.simps [simp del]

definition metadata_parse_bytes :: "bytes \<Rightarrow> eml_metadata result" where
  "metadata_parse_bytes data =
     (case find_header_separator data of
        None \<Rightarrow> Inl (GError IO_INVALID_DATA Missing_separator)
      | Some header_len \<Rightarrow>
          let st = header_loop data header_len 0
                     \<lparr>hs_metadata = em_empty\<lparr>em_size_bytes := of_nat (length data)\<rparr>, hs_name = None, hs_value = None,
                      hs_span_valid = False, hs_span_start = 0, hs_span_end = 0\<rparr>
          in Inr (commit_header (hs_metadata st) (hs_name st) (hs_value st) (hs_span_valid st)
                    (hs_span_start st) (hs_span_end st)))"

section \<open>The lines of the header block\<close>

text \<open>The first line of \<open>s\<close>, and what follows its CR LF if it has one.\<close>

fun next_line :: "bytes \<Rightarrow> bytes \<times> bytes option" where
  "next_line [] = ([], None)"
| "next_line (b # s) =
     (if b = 13 \<and> s \<noteq> [] \<and> hd s = 10 then ([], Some (tl s))
      else case next_line s of (l, r) \<Rightarrow> (b # l, r))"

lemma next_line_Some: "next_line s = (l, Some r) \<Longrightarrow> s = l @ 13 # 10 # r"
  by (induction s arbitrary: l) (auto split: if_splits prod.splits simp: neq_Nil_conv)

lemma next_line_None: "next_line s = (l, None) \<Longrightarrow> l = s"
  by (induction s arbitrary: l) (auto split: if_splits prod.splits)

function line_table :: "nat \<Rightarrow> bytes \<Rightarrow> (nat \<times> bytes) list" where
  "line_table off s =
     (if s = [] then []
      else case next_line s of
             (l, Some r) \<Rightarrow> (off, l) # line_table (off + length l + 2) r
           | (l, None) \<Rightarrow> [(off, l)])"
  by auto
termination
  by (relation "measure (\<lambda>(off, s). length s)") (auto dest!: sym [of "(_, _)"] next_line_Some)

declare line_table.simps [simp del]

text \<open>Where the code says that a line ends: one byte too early for a line that ends the block.\<close>

definition reported_end :: "nat \<Rightarrow> nat \<Rightarrow> nat" where
  "reported_end header_len stop = (if stop = header_len then stop - 1 else stop)"

definition table_line :: "nat \<Rightarrow> nat \<times> bytes \<Rightarrow> header_state \<Rightarrow> header_state" where
  "table_line header_len ol st =
     header_line (snd ol) (fst ol) (reported_end header_len (fst ol + length (snd ol))) st"

lemma scan_line_end_next:
  assumes "i < n" "n \<le> length data" "next_line (drop i (take n data)) = (l, r)"
  shows "scan_line_end data n i = (case r of Some _ \<Rightarrow> (i + length l, True) | None \<Rightarrow> (n - 1, False))"
  using assms
proof (induction data n i arbitrary: l rule: scan_line_end.induct)
  case (1 data n i)
  have here: "drop i (take n data) = data ! i # drop (i + 1) (take n data)"
    using 1(2,3) Cons_nth_drop_Suc [of i "take n data"] by simp
  show ?case
  proof (cases "i + 1 < n")
    case False
    then have last: "drop (i + 1) (take n data) = []" and n: "n = i + 1"
      using 1(2) by auto
    show ?thesis
      using 1(4) unfolding here last by (subst scan_line_end.simps) (auto simp: n)
  next
    case True
    then have nxt: "drop (i + 1) (take n data) \<noteq> []" "hd (drop (i + 1) (take n data)) = data ! (i + 1)"
      using 1(3) by (auto simp: hd_drop_conv_nth)
    show ?thesis
    proof (cases "data ! i = 13 \<and> data ! (i + 1) = 10")
      case cr: True
      then show ?thesis
        using 1(4) nxt True unfolding here by (subst scan_line_end.simps) auto
    next
      case False
      obtain l' where l': "next_line (drop (i + 1) (take n data)) = (l', r)" "l = data ! i # l'"
        using 1(4) nxt False unfolding here by (auto split: prod.splits)
      from 1(1) [OF True False True 1(3) l'(1)] show ?thesis
        using True False l'(2) by (subst scan_line_end.simps) (auto split: option.splits)
    qed
  qed
qed

lemma header_loop_lines:
  assumes "n \<le> length data"
  shows "header_loop data n off st = fold (table_line n) (line_table off (drop off (take n data))) st"
  using assms
proof (induction data n off st rule: header_loop.induct)
  case (1 data n off st)
  show ?case
  proof (cases "off < n")
    case False
    then show ?thesis
      by (subst header_loop.simps, subst line_table.simps) simp
  next
    case True
    let ?s = "drop off (take n data)"
    have ne: "?s \<noteq> []" using True 1(2) by simp
    obtain l r where nl: "next_line ?s = (l, r)" by (cases "next_line ?s")
    note sc = scan_line_end_next [OF True 1(2) nl]
    show ?thesis
    proof (cases r)
      case None
      have l: "l = ?s" using nl None by (auto dest: next_line_None)
      then have len: "off + length l = n" using True 1(2) by simp
      have tk: "take (n - off) (drop off data) = l"
        by (simp add: l drop_take)
      have step: "header_loop data n off st = header_loop data n n (header_line l off (n - 1) st)"
        using True sc None tk by (subst header_loop.simps) simp
      have "header_loop data n n x = x" for x
        by (subst header_loop.simps) simp
      then show ?thesis
        using step ne nl None len by (subst line_table.simps) (simp add: table_line_def reported_end_def)
    next
      case (Some q)
      have s: "?s = l @ 13 # 10 # q" using nl Some by (auto dest: next_line_Some)
      then have "length ?s = length l + 2 + length q" by simp
      then have len: "off + length l + 2 + length q = n" using True 1(2) by auto
      have "take (length l) ?s = l" by (simp add: s)
      then have tk: "take (length l) (drop off data) = l"
        using len by (simp add: drop_take min_def split: if_splits)
      have q: "drop (off + length l + 2) (take n data) = q"
      proof -
        have "drop (length l + 2) ?s = q" by (simp add: s)
        then show ?thesis by (simp add: add.commute add.left_commute)
      qed
      have scan: "scan_line_end data n off = (off + length l, True)" using sc Some by simp
      have step: "header_loop data n off st = header_loop data n (off + length l + 2) (header_line l off (off + length l) st)"
        using True scan tk by (subst header_loop.simps) simp
      have "header_loop data n (off + length l + 2) (header_line l off (off + length l) st) =
          fold (table_line n) (line_table (off + length l + 2) q) (header_line l off (off + length l) st)"
        using 1(1) [OF True scan [symmetric] refl 1(2)] tk q by simp
      then show ?thesis
        using step ne nl Some len by (subst line_table.simps) (simp add: table_line_def reported_end_def)
    qed
  qed
qed

section \<open>The fields of the header block\<close>

text \<open>
  A field: a line with a colon and the lines that continue it, with its name, its unfolded
  value and the offsets where it starts and stops.
\<close>

record header_field =
  hf_name :: bytes
  hf_value :: bytes
  hf_start :: nat
  hf_stop :: nat

definition folded :: "nat \<times> bytes \<Rightarrow> bool" where
  "folded ol \<longleftrightarrow> snd ol \<noteq> [] \<and> is_blank (hd (snd ol))"

definition line_stop :: "nat \<times> bytes \<Rightarrow> nat" where
  "line_stop ol = fst ol + length (snd ol)"

definition field_of :: "nat \<times> bytes \<Rightarrow> nat \<Rightarrow> (nat \<times> bytes) list \<Rightarrow> header_field" where
  "field_of ol colon conts =
     \<lparr>hf_name = g_strndup (snd ol) 0 colon,
      hf_value = strip_blanks (drop (colon + 1) (snd ol)) @ concat (map (\<lambda>c. 32 # strip_blanks (snd c)) conts),
      hf_start = fst ol, hf_stop = line_stop (last (ol # conts))\<rparr>"

function header_fields :: "(nat \<times> bytes) list \<Rightarrow> header_field list" where
  "header_fields [] = []"
| "header_fields (ol # ls) =
     (case memchr (snd ol) 58 of
        None \<Rightarrow> header_fields ls
      | Some colon \<Rightarrow> field_of ol colon (takeWhile folded ls) # header_fields (dropWhile folded ls))"
  by pat_completeness auto
termination
  by (relation "measure length") (auto simp: le_imp_less_Suc length_dropWhile_le)

definition commit_field :: "nat \<Rightarrow> header_field \<Rightarrow> eml_metadata \<Rightarrow> eml_metadata" where
  "commit_field header_len f metadata =
     commit_header metadata (Some (hf_name f)) (Some (hf_value f)) True (of_nat (hf_start f))
       (of_nat (reported_end header_len (hf_stop f)))"

text \<open>What the end of the current header makes of the state.\<close>

definition committed :: "header_state \<Rightarrow> eml_metadata" where
  "committed st = commit_header (hs_metadata st) (hs_name st) (hs_value st) (hs_span_valid st) (hs_span_start st) (hs_span_end st)"

definition in_field :: "nat \<Rightarrow> header_field \<Rightarrow> eml_metadata \<Rightarrow> header_state" where
  "in_field n f metadata =
     \<lparr>hs_metadata = metadata, hs_name = Some (hf_name f), hs_value = Some (hf_value f), hs_span_valid = True,
      hs_span_start = of_nat (hf_start f), hs_span_end = of_nat (reported_end n (hf_stop f))\<rparr>"

definition between_fields :: "eml_metadata \<Rightarrow> header_state" where
  "between_fields metadata =
     \<lparr>hs_metadata = metadata, hs_name = None, hs_value = None, hs_span_valid = False, hs_span_start = 0, hs_span_end = 0\<rparr>"

lemma folded_iff: "length l > 0 \<and> is_blank (l ! 0) \<longleftrightarrow> folded (off, l)"
  by (auto simp: folded_def hd_conv_nth)

lemma committed_simps [simp]:
  "committed (in_field n f m) = commit_field n f m" "committed (between_fields m) = m"
  by (simp_all add: committed_def in_field_def between_fields_def commit_field_def commit_header_def)

lemma table_line_folded:
  "folded ol \<Longrightarrow> table_line n ol (in_field n (field_of h colon conts) m) = in_field n (field_of h colon (conts @ [ol])) m"
  using folded_iff [of "snd ol" "fst ol"]
  by (auto simp: table_line_def header_line_def in_field_def field_of_def append_continuation_def line_stop_def)

lemma table_line_head:
  assumes "\<not> folded ol \<or> hs_value st = None"
  shows "table_line n ol st =
    (case memchr (snd ol) 58 of None \<Rightarrow> between_fields (committed st)
     | Some colon \<Rightarrow> in_field n (field_of ol colon []) (committed st))"
  using assms folded_iff [of "snd ol" "fst ol"]
  by (auto simp: table_line_def header_line_def committed_def between_fields_def in_field_def field_of_def line_stop_def
      replace_current_header_def Let_def split: option.splits)

lemma fold_folded:
  "list_all folded ls \<Longrightarrow>
   fold (table_line n) ls (in_field n (field_of h colon conts) m) = in_field n (field_of h colon (conts @ ls)) m"
  by (induction ls arbitrary: conts) (simp_all add: table_line_folded)

lemma list_all_takeWhile: "list_all P (takeWhile P xs)"
  by (induction xs) auto

lemma fold_lines_restart:
  assumes "ls = [] \<or> \<not> folded (hd ls)"
  shows "committed (fold (table_line n) ls st) = committed (fold (table_line n) ls (between_fields (committed st)))"
proof (cases ls)
  case (Cons l ls')
  then have "\<not> folded l" using assms by simp
  then show ?thesis
    unfolding Cons by (simp add: table_line_head split: option.splits)
qed simp

lemma fold_lines_fields:
  "committed (fold (table_line n) ls (between_fields m)) = fold (commit_field n) (header_fields ls) m"
proof (induction ls arbitrary: m rule: header_fields.induct)
  case (2 ol ls)
  have v: "hs_value (between_fields m) = None"
    by (simp add: between_fields_def)
  show ?case
  proof (cases "memchr (snd ol) 58")
    case None
    then show ?thesis
      using 2(1) [OF None] by (simp add: table_line_head v)
  next
    case (Some colon)
    let ?conts = "takeWhile folded ls" and ?rest = "dropWhile folded ls"
    have "fold (table_line n) ls (in_field n (field_of ol colon []) m) =
        fold (table_line n) (?conts @ ?rest) (in_field n (field_of ol colon []) m)"
      by (simp only: takeWhile_dropWhile_id)
    also have "\<dots> = fold (table_line n) ?rest (in_field n (field_of ol colon ?conts) m)"
      unfolding fold_append comp_def fold_folded [OF list_all_takeWhile] by simp
    finally have "committed (fold (table_line n) (ol # ls) (between_fields m)) =
        committed (fold (table_line n) ?rest (in_field n (field_of ol colon ?conts) m))"
      by (simp add: table_line_head v Some)
    also have "\<dots> = committed (fold (table_line n) ?rest (between_fields (commit_field n (field_of ol colon ?conts) m)))"
      using fold_lines_restart [of ?rest n "in_field n (field_of ol colon ?conts) m"] hd_dropWhile [of folded ls]
      by (simp only: committed_simps) blast
    also have "\<dots> = fold (commit_field n) (header_fields (ol # ls)) m"
      using 2(2) [OF Some] Some by simp
    finally show ?thesis .
  qed
qed simp

section \<open>What the parser returns\<close>

definition first_field :: "header_field list \<Rightarrow> string \<Rightarrow> header_field option" where
  "first_field fs name = find (\<lambda>f. ascii_case_equal (hf_name f) (lit name)) fs"

definition first_value :: "header_field list \<Rightarrow> string \<Rightarrow> cstring" where
  "first_value fs name = map_option (\<lambda>f. takeWhile (\<lambda>b. b \<noteq> 0) (hf_value f)) (first_field fs name)"

definition first_start :: "header_field list \<Rightarrow> string \<Rightarrow> u64" where
  "first_start fs name = (case first_field fs name of None \<Rightarrow> 0 | Some f \<Rightarrow> of_nat (hf_start f))"

definition first_stop :: "nat \<Rightarrow> header_field list \<Rightarrow> string \<Rightarrow> u64" where
  "first_stop n fs name = (case first_field fs name of None \<Rightarrow> 0 | Some f \<Rightarrow> of_nat (reported_end n (hf_stop f)))"

definition count_fields :: "header_field list \<Rightarrow> string \<Rightarrow> nat" where
  "count_fields fs name = length (filter (\<lambda>f. ascii_case_equal (hf_name f) (lit name)) fs)"

definition metadata_of :: "nat \<Rightarrow> nat \<Rightarrow> header_field list \<Rightarrow> eml_metadata" where
  "metadata_of data_len n fs =
     \<lparr>em_message_id = first_value fs ''Message-ID'', em_message_id_span_valid = (first_field fs ''Message-ID'' \<noteq> None),
      em_message_id_span_start = first_start fs ''Message-ID'', em_message_id_span_end = first_stop n fs ''Message-ID'',
      em_subject = first_value fs ''Subject'', em_from = first_value fs ''From'', em_to = first_value fs ''To'',
      em_cc = first_value fs ''Cc'', em_bcc = first_value fs ''Bcc'', em_date = first_value fs ''Date'',
      em_in_reply_to = first_value fs ''In-Reply-To'', em_references = first_value fs ''References'',
      em_list_id = first_value fs ''List-Id'', em_delivered_to = first_value fs ''Delivered-To'',
      em_x_original_to = first_value fs ''X-Original-To'', em_subject_span_valid = (first_field fs ''Subject'' \<noteq> None),
      em_subject_span_start = first_start fs ''Subject'', em_subject_span_end = first_stop n fs ''Subject'',
      em_size_bytes = of_nat data_len, em_duplicate_message_id_count = of_nat (count_fields fs ''Message-ID'' - 1)\<rparr>"

lemma header_names:
  "map g_ascii_tolower (lit ''Message-ID'') = lit ''message-id''" "map g_ascii_tolower (lit ''Subject'') = lit ''subject''"
  "map g_ascii_tolower (lit ''From'') = lit ''from''" "map g_ascii_tolower (lit ''To'') = lit ''to''"
  "map g_ascii_tolower (lit ''Cc'') = lit ''cc''" "map g_ascii_tolower (lit ''Bcc'') = lit ''bcc''"
  "map g_ascii_tolower (lit ''Date'') = lit ''date''" "map g_ascii_tolower (lit ''In-Reply-To'') = lit ''in-reply-to''"
  "map g_ascii_tolower (lit ''References'') = lit ''references''" "map g_ascii_tolower (lit ''List-Id'') = lit ''list-id''"
  "map g_ascii_tolower (lit ''Delivered-To'') = lit ''delivered-to''"
  "map g_ascii_tolower (lit ''X-Original-To'') = lit ''x-original-to''"
  by (simp_all add: lit_def g_ascii_tolower_def g_ascii_isupper_def)

lemma first_field_snoc:
  "first_field (fs @ [f]) name =
     (case first_field fs name of
        None \<Rightarrow> if ascii_case_equal (hf_name f) (lit name) then Some f else None
      | Some g \<Rightarrow> Some g)"
  by (induction fs) (auto simp: first_field_def)

lemma count_fields_snoc:
  "count_fields (fs @ [f]) name = count_fields fs name + (if ascii_case_equal (hf_name f) (lit name) then 1 else 0)"
  by (simp add: count_fields_def)

lemma count_fields_0: "count_fields fs name = 0 \<longleftrightarrow> first_field fs name = None"
  by (induction fs) (auto simp: count_fields_def first_field_def)

lemma metadata_of_Nil: "metadata_of data_len n [] = em_empty\<lparr>em_size_bytes := of_nat data_len\<rparr>"
  by (simp add: metadata_of_def em_empty_def first_value_def first_field_def first_start_def first_stop_def count_fields_def)

lemma first_snoc:
  "first_value (fs @ [f]) name = (if ascii_case_equal (hf_name f) (lit name)
     then set_first_value (first_value fs name) (hf_value f) else first_value fs name)"
  "first_start (fs @ [f]) name = (if ascii_case_equal (hf_name f) (lit name) \<and> first_field fs name = None
     then of_nat (hf_start f) else first_start fs name)"
  "first_stop n (fs @ [f]) name = (if ascii_case_equal (hf_name f) (lit name) \<and> first_field fs name = None
     then of_nat (reported_end n (hf_stop f)) else first_stop n fs name)"
  by (simp_all add: first_value_def first_start_def first_stop_def first_field_snoc set_first_value_def split: option.splits)

lemma first_value_None: "first_value fs name = None \<longleftrightarrow> first_field fs name = None"
  by (simp add: first_value_def)

lemma commit_field_snoc: "commit_field n f (metadata_of data_len n fs) = metadata_of data_len n (fs @ [f])"
proof -
  let ?k = "map g_ascii_tolower (hf_name f)"
  have named: "ascii_case_equal (hf_name f) x \<longleftrightarrow> ?k = map g_ascii_tolower x" for x
    by (simp add: ascii_case_equal_def)
  consider "?k = lit ''message-id''" | "?k = lit ''subject''" | "?k = lit ''from''" | "?k = lit ''to''" | "?k = lit ''cc''"
    | "?k = lit ''bcc''" | "?k = lit ''date''" | "?k = lit ''in-reply-to''" | "?k = lit ''references''" | "?k = lit ''list-id''"
    | "?k = lit ''delivered-to''" | "?k = lit ''x-original-to''"
    | "?k \<notin> {lit ''message-id'', lit ''subject'', lit ''from'', lit ''to'', lit ''cc'', lit ''bcc'', lit ''date'',
        lit ''in-reply-to'', lit ''references'', lit ''list-id'', lit ''delivered-to'', lit ''x-original-to''}"
    by blast
  then show ?thesis
  proof cases
    case 1
    then show ?thesis
      using count_fields_0 [of fs "''Message-ID''"]
      by (cases "count_fields fs ''Message-ID''")
        (auto simp: commit_field_def commit_header_def metadata_of_def named header_names first_snoc first_field_snoc
          count_fields_snoc first_value_None set_first_value_def split: option.splits)
  qed (simp_all add: commit_field_def commit_header_def metadata_of_def named header_names first_snoc first_field_snoc
         count_fields_snoc first_value_None split: option.splits)
qed

lemma fold_commit_fields: "fold (commit_field n) fs (em_empty\<lparr>em_size_bytes := of_nat data_len\<rparr>) = metadata_of data_len n fs"
  by (induction fs rule: rev_induct) (simp_all add: metadata_of_Nil commit_field_snoc)

definition block_fields :: "bytes \<Rightarrow> nat \<Rightarrow> header_field list" where
  "block_fields data n = header_fields (line_table 0 (take n data))"

abbreviation separator :: bytes where "separator \<equiv> [13, 10, 13, 10]"

lemma find_upt_Some: "find P [0..<m] = Some n \<longleftrightarrow> n < m \<and> P n \<and> (\<forall>k<n. \<not> P k)"
proof (induction m arbitrary: n)
  case (Suc m)
  have snoc: "find P (xs @ [x]) = (case find P xs of None \<Rightarrow> if P x then Some x else None | Some y \<Rightarrow> Some y)" for xs and x :: nat
    by (induction xs) auto
  show ?case
    using Suc.IH by (auto simp: snoc find_None_iff less_Suc_eq split: option.splits) (metis linorder_neqE_nat)+
qed simp

lemma separator_at:
  "stands data i separator \<longleftrightarrow>
   i + 4 \<le> length data \<and> data ! i = 13 \<and> data ! (i + 1) = 10 \<and> data ! (i + 2) = 13 \<and> data ! (i + 3) = 10"
  unfolding stands_Cons [of _ _ _ "_ # _"] stands_single by (auto simp: eval_nat_numeral)

lemma find_header_separator_Some:
  "find_header_separator data = Some n \<longleftrightarrow> stands data n separator \<and> (\<forall>k<n. \<not> stands data k separator)"
  unfolding find_header_separator_def separator_at
  by (simp only: if_distrib [of "\<lambda>x. x = Some n"] find_upt_Some) auto

lemma find_header_separator_None: "find_header_separator data = None \<longleftrightarrow> (\<forall>k. \<not> stands data k separator)"
proof -
  have "(\<exists>n. stands data n separator) \<longleftrightarrow> (\<exists>n. stands data n separator \<and> (\<forall>k<n. \<not> stands data k separator))"
    using exists_least_iff [of "\<lambda>n. stands data n separator"] by blast
  then show ?thesis
    using find_header_separator_Some [of data] by (metis not_None_eq)
qed

lemma separator_within: "find_header_separator data = Some n \<Longrightarrow> n + 4 \<le> length data"
  using separator_at [of data n] by (simp add: find_header_separator_Some)

lemma metadata_parse_fields:
  "metadata_parse_bytes data =
     (case find_header_separator data of
        None \<Rightarrow> Inl (GError IO_INVALID_DATA Missing_separator)
      | Some n \<Rightarrow> Inr (metadata_of (length data) n (block_fields data n)))"
proof (cases "find_header_separator data")
  case (Some n)
  then have "n \<le> length data"
    using separator_within by fastforce
  from header_loop_lines [OF this, of 0] fold_lines_fields [of n] fold_commit_fields [of n _ "length data"]
  show ?thesis
    using Some by (simp add: metadata_parse_bytes_def Let_def committed_def [symmetric] between_fields_def [symmetric] block_fields_def)
qed (simp add: metadata_parse_bytes_def)

end
