(* ===== verification/Eml_Ingestor.thy ===== *)
theory Eml_Ingestor
  imports Object_Store Eml_Metadata Daemon_Frames
begin

text \<open>
  The ingestor (\<^verbatim>\<open>wyrebox-eml-ingestor.c\<close>): it stores a raw message and journals its delivery,
  and answers the retry of a delivery from the journal.

  An ingestor is the object store and, if it has one, the journal writer. The journal's segment
  and the file system are passed and returned beside it. No result (\<open>None\<close>) means that the
  process died in the middle of a write.
\<close>

record eml_ingestor =
  ig_store :: object_store
  ig_writer :: "journal_writer option"

text \<open>The replies of the kernel and the clock to one ingestion.\<close>

record ingest_io =
  in_put :: put_io
  in_append :: append_io
  in_now :: u64

text \<open>The arguments of \<^verbatim>\<open>ingest_delivery_bytes\<close>.\<close>

record delivery_args =
  da_delivery_id :: cstring
  da_queue_id :: cstring
  da_account_identity :: cstring
  da_envelope_sender :: cstring
  da_recipients :: strv

definition compute_object_key :: "(bytes \<Rightarrow> bytes) \<Rightarrow> bytes \<Rightarrow> bytes" where
  "compute_object_key sha data = lit ''sha256:'' @ checksum_string (sha data)"

definition normalize_queue_id :: "cstring \<Rightarrow> bytes" where
  "normalize_queue_id queue_id = (case queue_id of Some (b # q) \<Rightarrow> b # q | _ \<Rightarrow> [])"

fun strv_items_equal :: "bytes list \<Rightarrow> bytes list \<Rightarrow> bool" where
  "strv_items_equal (l # left) (r # right) = (l = r \<and> strv_items_equal left right)"
| "strv_items_equal left right = (left = [] \<and> right = [])"

definition strv_equal :: "strv \<Rightarrow> strv \<Rightarrow> bool" where
  "strv_equal left right =
     (case left of
        None \<Rightarrow> right = None \<or> right = Some []
      | Some ls \<Rightarrow> (case right of None \<Rightarrow> ls = [] | Some rs \<Rightarrow> strv_items_equal ls rs))"

definition delivery_identity_matches :: "message_delivered_payload \<Rightarrow> cstring \<Rightarrow> cstring \<Rightarrow> bool" where
  "delivery_identity_matches payload delivery_id queue_id \<longleftrightarrow>
     md_delivery_id payload \<noteq> None \<and> md_delivery_id payload = delivery_id \<and>
     normalize_queue_id (md_queue_id payload) = normalize_queue_id queue_id"

definition delivery_retry_matches ::
  "message_delivered_payload \<Rightarrow> bytes \<Rightarrow> u64 \<Rightarrow> cstring \<Rightarrow> cstring \<Rightarrow> strv \<Rightarrow> bool" where
  "delivery_retry_matches payload object_key size_bytes account_identity envelope_sender recipients \<longleftrightarrow>
     md_object_key payload = Some object_key \<and> md_size_bytes payload = size_bytes \<and>
     md_account_identity payload = account_identity \<and> md_envelope_sender payload = envelope_sender \<and>
     strv_equal (md_recipients payload) recipients"

text \<open>The loop over the journal; the answer is the result of the delivery found, if any.\<close>

function find_delivery_loop ::
  "(bytes \<Rightarrow> bytes) \<Rightarrow> bytes \<Rightarrow> u64 \<Rightarrow> delivery_args \<Rightarrow> journal_reader \<Rightarrow> eml_ingest_result option result" where
  "find_delivery_loop sha object_key size_bytes d reader =
     (case read_next sha reader of
        (Failed e, _) \<Rightarrow> Inl e
      | (At_eof, _) \<Rightarrow> Inr None
      | (Got r, reader1) \<Rightarrow>
          if rec_event_type r \<noteq> event_code MESSAGE_DELIVERED then find_delivery_loop sha object_key size_bytes d reader1
          else
            case md_decode (rec_payload r) of
              Inl e \<Rightarrow> Inl e
            | Inr payload \<Rightarrow>
                if \<not> delivery_identity_matches payload (da_delivery_id d) (da_queue_id d)
                then find_delivery_loop sha object_key size_bytes d reader1
                else if \<not> delivery_retry_matches payload object_key size_bytes (da_account_identity d)
                            (da_envelope_sender d) (da_recipients d)
                then Inl (GError IO_EXISTS Identity_taken)
                else Inr (Some \<lparr>ei_object_key = md_object_key payload, ei_size_bytes = md_size_bytes payload,
                                ei_journal_offset = of_nat (rec_offset r), ei_journal_sequence = rec_sequence r\<rparr>))"
  by auto
termination
  by (relation "measure (\<lambda>(sha, k, n, d, r). rd_file_size r - rd_offset r)")
    (auto dest!: sym [of "(_, _)"] read_next_advances)

declare find_delivery_loop.simps [simp del]

definition find_delivery_retry_result ::
  "(bytes \<Rightarrow> bytes) \<Rightarrow> bytes \<Rightarrow> bytes \<Rightarrow> bytes \<Rightarrow> u64 \<Rightarrow> delivery_args \<Rightarrow> eml_ingest_result option result" where
  "find_delivery_retry_result sha journal_root_dir segment object_key size_bytes d =
     (if da_delivery_id d = None then Inr None
      else bindE (reader_new journal_root_dir (Some segment)) (\<lambda>reader.
           find_delivery_loop sha object_key size_bytes d reader))"

text \<open>
  The callback under the append lock: the payload to append or the position of the delivery
  found, with what it has put into \<^verbatim>\<open>context->result\<close>, and the file system it leaves.
\<close>

definition append_delivery_if_absent_locked ::
  "(bytes \<Rightarrow> bytes) \<Rightarrow> ingest_io \<Rightarrow> object_store \<Rightarrow> bytes \<Rightarrow> eml_metadata \<Rightarrow> delivery_args \<Rightarrow> object_fs \<Rightarrow> bytes \<Rightarrow> bytes \<Rightarrow>
   ((bytes option \<times> nat \<times> u64) \<times> eml_ingest_result) result option \<times> object_fs" where
  "append_delivery_if_absent_locked sha io store data metadata d fs journal_root_dir segment =
     (let size_bytes = of_nat (length data)
      in case find_delivery_retry_result sha journal_root_dir segment (compute_object_key sha data) size_bytes d of
           Inl e \<Rightarrow> (Some (Inl e), fs)
         | Inr (Some found) \<Rightarrow>
             (Some (Inr ((None, unat (ei_journal_offset found), ei_journal_sequence found), found)), fs)
         | Inr None \<Rightarrow>
             (case put_bytes sha (in_put io) store data fs of
                (None, fs1) \<Rightarrow> (None, fs1)
              | (Some (Inl e), fs1) \<Rightarrow> (Some (Inl e), fs1)
              | (Some (Inr stored_object_key), fs1) \<Rightarrow>
                  (case md_encode_with_identity (Some stored_object_key) size_bytes (Some metadata) (in_now io)
                          (da_delivery_id d) (da_queue_id d) (da_account_identity d) (da_envelope_sender d) (da_recipients d) of
                     Inl e \<Rightarrow> (Some (Inl e), fs1)
                   | Inr payload \<Rightarrow>
                       (Some (Inr ((Some payload, 0, 0),
                          \<lparr>ei_object_key = Some stored_object_key, ei_size_bytes = size_bytes, ei_journal_offset = 0,
                           ei_journal_sequence = 0\<rparr>)), fs1))))"

text \<open>The outcome of an ingestion: result, ingestor, segment and file system.\<close>

type_synonym ingest_outcome = "eml_ingest_result result option \<times> eml_ingestor \<times> bytes \<times> object_fs"

definition ingest_bytes_internal ::
  "(bytes \<Rightarrow> bytes) \<Rightarrow> ingest_io \<Rightarrow> eml_ingestor \<Rightarrow> bytes \<Rightarrow> delivery_args \<Rightarrow> bytes \<Rightarrow> object_fs \<Rightarrow> ingest_outcome" where
  "ingest_bytes_internal sha io self data d segment fs =
     (let size_bytes = of_nat (length data)
      in case ig_writer self of
           None \<Rightarrow>
             (case put_bytes sha (in_put io) (ig_store self) data fs of
                (None, fs1) \<Rightarrow> (None, self, segment, fs1)
              | (Some (Inl e), fs1) \<Rightarrow> (Some (Inl e), self, segment, fs1)
              | (Some (Inr object_key), fs1) \<Rightarrow>
                  (Some (Inr \<lparr>ei_object_key = Some object_key, ei_size_bytes = size_bytes, ei_journal_offset = 0,
                              ei_journal_sequence = 0\<rparr>), self, segment, fs1))
         | Some w \<Rightarrow>
             (case metadata_parse_bytes data of
                Inl e \<Rightarrow> (Some (Inl e), self, segment, fs)
              | Inr metadata \<Rightarrow>
                  (case put_bytes sha (in_put io) (ig_store self) data fs of
                     (None, fs1) \<Rightarrow> (None, self, segment, fs1)
                   | (Some (Inl e), fs1) \<Rightarrow> (Some (Inl e), self, segment, fs1)
                   | (Some (Inr object_key), fs1) \<Rightarrow>
                       (case md_encode_with_identity (Some object_key) size_bytes (Some metadata) (in_now io)
                               (da_delivery_id d) (da_queue_id d) (da_account_identity d) (da_envelope_sender d) (da_recipients d) of
                          Inl e \<Rightarrow> (Some (Inl e), self, segment, fs1)
                        | Inr payload \<Rightarrow>
                            (case writer_append sha (in_append io) w segment (event_code MESSAGE_DELIVERED) (Some payload) of
                               (None, w1, segment1) \<Rightarrow> (None, self\<lparr>ig_writer := Some w1\<rparr>, segment1, fs1)
                             | (Some (Inl e), w1, segment1) \<Rightarrow> (Some (Inl e), self\<lparr>ig_writer := Some w1\<rparr>, segment1, fs1)
                             | (Some (Inr (offset, sequence)), w1, segment1) \<Rightarrow>
                                 (Some (Inr \<lparr>ei_object_key = Some object_key, ei_size_bytes = size_bytes,
                                             ei_journal_offset = of_nat offset, ei_journal_sequence = sequence\<rparr>),
                                  self\<lparr>ig_writer := Some w1\<rparr>, segment1, fs1))))))"

definition no_delivery :: delivery_args where
  "no_delivery = \<lparr>da_delivery_id = None, da_queue_id = None, da_account_identity = None, da_envelope_sender = None,
     da_recipients = None\<rparr>"

definition ingest_bytes ::
  "(bytes \<Rightarrow> bytes) \<Rightarrow> ingest_io \<Rightarrow> eml_ingestor \<Rightarrow> bytes \<Rightarrow> bytes \<Rightarrow> object_fs \<Rightarrow> ingest_outcome" where
  "ingest_bytes sha io self data segment fs = ingest_bytes_internal sha io self data no_delivery segment fs"

definition ingest_delivery_bytes ::
  "(bytes \<Rightarrow> bytes) \<Rightarrow> ingest_io \<Rightarrow> eml_ingestor \<Rightarrow> bytes \<Rightarrow> delivery_args \<Rightarrow> bytes \<Rightarrow> object_fs \<Rightarrow> ingest_outcome" where
  "ingest_delivery_bytes sha io self data d segment fs =
     (case ig_writer self of
        None \<Rightarrow> ingest_bytes_internal sha io self data d segment fs
      | Some w \<Rightarrow>
          (case metadata_parse_bytes data of
             Inl e \<Rightarrow> (Some (Inl e), self, segment, fs)
           | Inr metadata \<Rightarrow>
               let callback = append_delivery_if_absent_locked sha io (ig_store self) data metadata d fs
               in case callback (w_root w) segment of
                    (None, fs1) \<Rightarrow> (None, self, segment, fs1)
                  | (Some answer, fs1) \<Rightarrow>
                      (case append_guarded sha (in_append io)
                              (\<lambda>root file. bindE (the (fst (callback root file))) (\<lambda>x. Inr (fst x)))
                              None w segment (event_code MESSAGE_DELIVERED) of
                         (None, w1, segment1) \<Rightarrow> (None, self\<lparr>ig_writer := Some w1\<rparr>, segment1, fs1)
                       | (Some (Inl e), w1, segment1) \<Rightarrow> (Some (Inl e), self\<lparr>ig_writer := Some w1\<rparr>, segment1, fs1)
                       | (Some (Inr (offset, sequence)), w1, segment1) \<Rightarrow>
                           (case answer of
                              Inl e \<Rightarrow> (Some (Inl e), self\<lparr>ig_writer := Some w1\<rparr>, segment1, fs1)
                            | Inr (_, result) \<Rightarrow>
                                (Some (Inr (result\<lparr>ei_journal_offset := of_nat offset, ei_journal_sequence := sequence\<rparr>)),
                                 self\<lparr>ig_writer := Some w1\<rparr>, segment1, fs1)))))"

definition has_journal_writer :: "eml_ingestor \<Rightarrow> bool" where
  "has_journal_writer self \<longleftrightarrow> ig_writer self \<noteq> None"

section \<open>The search as a function of the records\<close>

lemma strv_items_equal_iff [simp]: "strv_items_equal ls rs \<longleftrightarrow> ls = rs"
  by (induction ls rs rule: strv_items_equal.induct) auto

lemma strv_equal_iff: "strv_equal l r \<longleftrightarrow> strv_items l = strv_items r"
  by (cases l; cases r) (auto simp: strv_equal_def)

text \<open>The delivery that a record journals: nothing for other events and for payloads without an identity.\<close>

definition record_identity :: "journal_record \<Rightarrow> (bytes \<times> bytes) option" where
  "record_identity r =
     (if rec_event_type r \<noteq> event_code MESSAGE_DELIVERED then None
      else case md_decode (rec_payload r) of
             Inl _ \<Rightarrow> None
           | Inr p \<Rightarrow> map_option (\<lambda>d. (d, normalize_queue_id (md_queue_id p))) (md_delivery_id p))"

definition undecodable :: "journal_record \<Rightarrow> bool" where
  "undecodable r \<longleftrightarrow> rec_event_type r = event_code MESSAGE_DELIVERED \<and> \<not> (\<exists>p. md_decode (rec_payload r) = Inr p)"

definition retry_answer :: "bytes \<Rightarrow> u64 \<Rightarrow> delivery_args \<Rightarrow> journal_record \<Rightarrow> eml_ingest_result option result" where
  "retry_answer object_key size_bytes d r =
     bindE (md_decode (rec_payload r)) (\<lambda>p.
       if delivery_retry_matches p object_key size_bytes (da_account_identity d) (da_envelope_sender d) (da_recipients d)
       then Inr (Some \<lparr>ei_object_key = md_object_key p, ei_size_bytes = md_size_bytes p,
                       ei_journal_offset = of_nat (rec_offset r), ei_journal_sequence = rec_sequence r\<rparr>)
       else Inl (GError IO_EXISTS Identity_taken))"

definition args_identity :: "delivery_args \<Rightarrow> (bytes \<times> bytes) option" where
  "args_identity d = map_option (\<lambda>i. (i, normalize_queue_id (da_queue_id d))) (da_delivery_id d)"

text \<open>The first record with the identity answers, unless a record before it cannot be decoded.\<close>

fun find_in :: "bytes \<Rightarrow> u64 \<Rightarrow> delivery_args \<Rightarrow> journal_record list \<Rightarrow> eml_ingest_result option result" where
  "find_in object_key size_bytes d [] = Inr None"
| "find_in object_key size_bytes d (r # rs) =
     (if undecodable r then bindE (md_decode (rec_payload r)) (\<lambda>_. Inr None)
      else if record_identity r = args_identity d \<and> record_identity r \<noteq> None then retry_answer object_key size_bytes d r
      else find_in object_key size_bytes d rs)"

lemma find_in_skip:
  "\<not> undecodable r \<Longrightarrow> \<not> (record_identity r = args_identity d \<and> record_identity r \<noteq> None) \<Longrightarrow>
   find_in k n d (r # recs) = find_in k n d recs"
  unfolding find_in.simps by (simp only: if_False simp_thms)

lemma identity_matches_iff:
  "md_decode (rec_payload r) = Inr p \<Longrightarrow> rec_event_type r = event_code MESSAGE_DELIVERED \<Longrightarrow>
   delivery_identity_matches p (da_delivery_id d) (da_queue_id d) \<longleftrightarrow>
     record_identity r = args_identity d \<and> record_identity r \<noteq> None"
  by (cases "da_delivery_id d") (auto simp: delivery_identity_matches_def record_identity_def args_identity_def)

lemma find_delivery_loop_records:
  "find_delivery_loop sha k n d reader =
     (case read_all sha reader of
        (recs, e, _) \<Rightarrow>
          (case find_in k n d recs of
             Inr None \<Rightarrow> (case e of None \<Rightarrow> Inr None | Some err \<Rightarrow> Inl err)
           | answer \<Rightarrow> answer))"
proof (induction sha k n d reader rule: find_delivery_loop.induct)
  case (1 sha k n d reader)
  obtain q reader1 where q: "read_next sha reader = (q, reader1)"
    by (cases "read_next sha reader")
  show ?case
  proof (cases q)
    case (Got r)
    note rd = q [unfolded Got]
    obtain recs e z where all: "read_all sha reader1 = (recs, e, z)"
      by (metis prod.exhaust)
    show ?thesis
    proof (cases "rec_event_type r = event_code MESSAGE_DELIVERED")
      case False
      then have "record_identity r = None" "\<not> undecodable r"
        by (simp_all add: record_identity_def undecodable_def)
      with 1(1) [OF rd [symmetric] refl False] False rd all show ?thesis
        by (subst find_delivery_loop.simps) (simp add: read_all_Got)
    next
      case ev: True
      show ?thesis
      proof (cases "md_decode (rec_payload r)")
        case (Inl err)
        with ev rd all show ?thesis
          by (subst find_delivery_loop.simps) (simp add: read_all_Got undecodable_def)
      next
        case (Inr p)
        then have ok: "\<not> undecodable r" by (simp add: undecodable_def)
        note iff = identity_matches_iff [OF Inr ev, of d]
        show ?thesis
        proof (cases "delivery_identity_matches p (da_delivery_id d) (da_queue_id d)")
          case True
          then obtain i where "record_identity r = Some i" "args_identity d = Some i"
            using iff by (cases "record_identity r") auto
          with True Inr ev rd all ok show ?thesis
            by (subst find_delivery_loop.simps) (simp add: read_all_Got retry_answer_def)
        next
          case False
          have "\<not> rec_event_type r \<noteq> event_code MESSAGE_DELIVERED" using ev by simp
          note IH = 1(2) [OF rd [symmetric] refl this Inr False]
          have "find_in k n d (r # recs) = find_in k n d recs"
            by (rule find_in_skip) (use iff False ok in blast)+
          with IH Inr ev rd all False show ?thesis
            by (subst find_delivery_loop.simps) (simp add: read_all_Got del: find_in.simps)
        qed
      qed
    qed
  qed (use q in \<open>(subst find_delivery_loop.simps, simp add: read_all_At_eof read_all_Failed)+\<close>)
qed

section \<open>The outcomes of an ingestion\<close>

text \<open>The position that a successful append reports, as a result.\<close>

definition appended_result :: "bytes \<Rightarrow> u64 \<Rightarrow> nat \<times> u64 \<Rightarrow> eml_ingest_result" where
  "appended_result key n x =
     \<lparr>ei_object_key = Some key, ei_size_bytes = n, ei_journal_offset = of_nat (fst x), ei_journal_sequence = snd x\<rparr>"

lemma same_writer [simp]: "ig_writer self = Some w \<Longrightarrow> self\<lparr>ig_writer := Some w\<rparr> = self"
  by (cases self) simp

lemma ingest_delivery_found:
  assumes "ig_writer self = Some w" "metadata_parse_bytes data = Inr metadata"
    and "find_delivery_retry_result sha (w_root w) segment (compute_object_key sha data) (of_nat (length data)) d = Inr (Some res)"
  shows "ingest_delivery_bytes sha io self data d segment fs = (Some (Inr res), self, segment, fs)"
  using assms by (simp add: ingest_delivery_bytes_def append_delivery_if_absent_locked_def append_guarded_def Let_def)

lemma ingest_cases:
  assumes run: "ingest_delivery_bytes sha io self data d segment fs = (r, self', segment', fs')" and w: "ig_writer self = Some w"
  obtains (stopped) "segment' = segment" "self' = self" "\<forall>x. r \<noteq> Some (Inr x)"
      "fs' = fs \<or> (\<exists>q. put_bytes sha (in_put io) (ig_store self) data fs = (q, fs'))"
  | (found) res metadata where "r = Some (Inr res)" "segment' = segment" "self' = self" "fs' = fs" "metadata_parse_bytes data = Inr metadata"
      "find_delivery_retry_result sha (w_root w) segment (compute_object_key sha data) (of_nat (length data)) d = Inr (Some res)"
  | (appended) metadata key payload q w' where "metadata_parse_bytes data = Inr metadata"
      "find_delivery_retry_result sha (w_root w) segment (compute_object_key sha data) (of_nat (length data)) d = Inr None"
      "put_bytes sha (in_put io) (ig_store self) data fs = (Some (Inr key), fs')"
      "md_encode_with_identity (Some key) (of_nat (length data)) (Some metadata) (in_now io) (da_delivery_id d) (da_queue_id d)
         (da_account_identity d) (da_envelope_sender d) (da_recipients d) = Inr payload"
      "append_unlocked sha (in_append io) w segment (event_code MESSAGE_DELIVERED) (Some payload) = (q, w', segment')"
      "self' = self\<lparr>ig_writer := Some w'\<rparr>"
      "r = map_option (map_sum id (appended_result key (of_nat (length data)))) q"
proof -
  let ?find = "find_delivery_retry_result sha (w_root w) segment (compute_object_key sha data) (of_nat (length data)) d"
  let ?cb = "append_delivery_if_absent_locked sha io (ig_store self) data"
  show thesis
  proof (cases "metadata_parse_bytes data")
    case (Inl e)
    with run w show thesis
      by (intro stopped) (auto simp: ingest_delivery_bytes_def)
  next
    case meta: (Inr metadata)
    show thesis
    proof (cases ?find)
      case (Inl e)
      with run w meta show thesis
        by (intro stopped) (auto simp: ingest_delivery_bytes_def append_delivery_if_absent_locked_def append_guarded_def Let_def)
    next
      case (Inr answer)
      show thesis
      proof (cases answer)
        case (Some res)
        with run ingest_delivery_found [OF w meta Inr [unfolded Some], of io fs] show thesis
          by (intro found [of res metadata]) (use Inr meta Some in auto)
      next
        case None
        obtain p fs1 where p: "put_bytes sha (in_put io) (ig_store self) data fs = (p, fs1)"
          by (cases "put_bytes sha (in_put io) (ig_store self) data fs")
        consider "\<forall>key. p \<noteq> Some (Inr key)" | key where "p = Some (Inr key)" by blast
        then show thesis
        proof cases
          case 1
          with run w meta Inr None p show thesis
            by (intro stopped; cases p; cases "the p")
              (auto simp: ingest_delivery_bytes_def append_delivery_if_absent_locked_def append_guarded_def Let_def)
        next
          case key: 2
          let ?enc = "md_encode_with_identity (Some key) (of_nat (length data)) (Some metadata) (in_now io) (da_delivery_id d)
            (da_queue_id d) (da_account_identity d) (da_envelope_sender d) (da_recipients d)"
          show thesis
          proof (cases ?enc)
            case (Inl e)
            with run w meta \<open>?find = Inr answer\<close> None p key show thesis
              by (intro stopped) (auto simp: ingest_delivery_bytes_def append_delivery_if_absent_locked_def append_guarded_def Let_def)
          next
            case enc: (Inr payload)
            obtain q w' seg' where q: "append_unlocked sha (in_append io) w segment (event_code MESSAGE_DELIVERED) (Some payload) = (q, w', seg')"
              by (metis prod.exhaust)
            have "fst (?cb metadata d fs (w_root w) segment) = Some (Inr ((Some payload, 0, 0),
                \<lparr>ei_object_key = Some key, ei_size_bytes = of_nat (length data), ei_journal_offset = 0, ei_journal_sequence = 0\<rparr>))"
              "snd (?cb metadata d fs (w_root w) segment) = fs1"
              using \<open>?find = Inr answer\<close> None p key enc by (simp_all add: append_delivery_if_absent_locked_def Let_def)
            then have cb: "?cb metadata d fs (w_root w) segment = (Some (Inr ((Some payload, 0, 0),
                \<lparr>ei_object_key = Some key, ei_size_bytes = of_nat (length data), ei_journal_offset = 0, ei_journal_sequence = 0\<rparr>)), fs1)"
              by (metis prod.collapse)
            have gd: "append_guarded sha (in_append io) (\<lambda>root f. bindE (the (fst (?cb metadata d fs root f))) (\<lambda>x. Inr (fst x)))
                None w segment (event_code MESSAGE_DELIVERED) = (q, w', seg')"
              using q by (simp add: append_guarded_def cb)
            have "(r, self', segment', fs') = (map_option (map_sum id (appended_result key (of_nat (length data)))) q,
                self\<lparr>ig_writer := Some w'\<rparr>, seg', fs1)"
              using run unfolding ingest_delivery_bytes_def w option.case meta sum.case Let_def cb gd prod.case
              by (cases q; cases "the q") (auto simp: appended_result_def split: sum.splits)
            with q meta \<open>?find = Inr answer\<close> None p key enc show thesis
              by (intro appended [of metadata key payload q w']) auto
          qed
        qed
      qed
    qed
  qed
qed

end
