(* ===== verification/Ingestion_System.thy ===== *)
theory Ingestion_System
  imports Journal_System Eml_Ingestor "HOL-Library.Sublist"
begin

text \<open>
  Deliveries over time: the journal of \<open>Journal_System\<close> and the object store of \<open>Object_Store\<close> under
  ingestions, other appends, crashes, reopening and recovery. The invariant: every delivery the
  journal holds can be decoded and has its object on disk, and no delivery is journaled twice.
\<close>

section \<open>The records a file holds\<close>

definition recs_of :: "(bytes \<Rightarrow> bytes) \<Rightarrow> bytes \<Rightarrow> journal_record list" where
  "recs_of sha file = fst (read_all sha (reader_on file (length file) 0 1))"

lemma recs_of_log: "log_ok sha 1 rs \<Longrightarrow> recs_of sha (log_bytes sha 1 rs) = log_records sha 0 1 rs"
  using read_all_log [of "length (log_bytes sha 1 rs)" "log_bytes sha 1 rs" sha 1 rs 0] by (simp add: recs_of_def)

lemma recs_of_prefix: "prefix (recs_of sha file) (recs_of sha (file @ more_bytes))"
proof -
  let ?whole = "file @ more_bytes"
  obtain recs e r' where rd: "read_all sha (reader_on file (length file) 0 1) = (recs, e, r')"
    by (metis prod.exhaust)
  from read_all_returns_log [OF order_refl this] obtain rs where
    rs: "log_ok sha 1 rs" "stands (take (length file) file) 0 (log_bytes sha 1 rs)" "recs = log_records sha 0 1 rs"
    by blast
  have "stands (take (length ?whole) ?whole) 0 (log_bytes sha 1 rs)"
    using rs(2) by (auto simp: stands_prefix)
  from read_all_stands [OF order_refl rs(1) this] have "prefix recs (recs_of sha ?whole)"
    using rs(3) by (auto simp: recs_of_def split: prod.splits)
  with rd show ?thesis by (simp add: recs_of_def)
qed

lemma recs_of_take: "prefix (recs_of sha (take k file)) (recs_of sha file)"
  using recs_of_prefix [of sha "take k file" "drop k file"] by simp

lemma distinct_sequences:
  assumes "length file \<le> G_MAXINT64"
  shows "distinct (map rec_sequence (recs_of sha file))"
proof -
  obtain recs e r' where rd: "read_all sha (reader_on file (length file) 0 1) = (recs, e, r')"
    by (metis prod.exhaust)
  from read_all_returns_log [OF order_refl this] obtain rs where
    rs: "log_ok sha 1 rs" "stands (take (length file) file) 0 (log_bytes sha 1 rs)" "recs = log_records sha 0 1 rs"
    by blast
  have "64 * length rs \<le> length file"
    using log_size [OF rs(1)] stands_length [OF rs(2)] by simp
  with assms have n: "length rs < 2 ^ 64" by simp
  have "inj_on (\<lambda>i. 1 + of_nat i :: u64) {0..<length rs}"
  proof (rule inj_onI)
    fix i k
    assume "i \<in> {0..<length rs}" "k \<in> {0..<length rs}" "1 + of_nat i = (1 + of_nat k :: u64)"
    then have "unat (of_nat i :: u64) = unat (of_nat k :: u64)" "i < 2 ^ 64" "k < 2 ^ 64"
      using n by auto
    then show "i = k"
      by (simp add: unat_of_nat take_bit_eq_mod)
  qed
  with rd rs(3) show ?thesis
    by (simp add: recs_of_def log_records_sequences distinct_map)
qed

text \<open>A part of a record behind a log adds that record or nothing.\<close>

lemma recs_of_append:
  assumes "log_ok sha 1 (rs @ [r])"
  shows "recs_of sha (log_bytes sha 1 rs @ take n (record_bytes sha (1 + of_nat (length rs)) r)) \<in>
    {log_records sha 0 1 rs, log_records sha 0 1 (rs @ [r])}"
proof -
  let ?rec = "record_bytes sha (1 + of_nat (length rs)) r"
  let ?file = "log_bytes sha 1 rs @ take n ?rec"
  have rs: "log_ok sha 1 rs"
    using assms by (simp add: log_ok_append)
  have "log_bytes sha 1 (rs @ [r]) = ?file @ drop n ?rec"
    by (simp add: log_bytes_append)
  then have "prefix (recs_of sha ?file) (log_records sha 0 1 (rs @ [r]))"
    using recs_of_prefix [of sha ?file "drop n ?rec"] recs_of_log [OF assms] by simp
  moreover have "prefix (log_records sha 0 1 rs) (recs_of sha ?file)"
    using recs_of_prefix [of sha "log_bytes sha 1 rs" "take n ?rec"] recs_of_log [OF rs] by simp
  moreover have "log_records sha 0 1 (rs @ [r]) = log_records sha 0 1 rs @ log_records sha (0 + length (log_bytes sha 1 rs)) (1 + of_nat (length rs)) [r]"
    by (rule log_records_append)
  ultimately show ?thesis
    by (cases r) (auto simp: prefix_snoc dest: prefix_order.antisym)
qed

text \<open>An open writer that has not failed stands at the end of a log.\<close>

lemma healthy_log:
  assumes "journal_inv sha rs k st" "j_writer st = Some w" "\<not> w_failed w"
  shows "j_file st = log_bytes sha 1 rs" "w_next_sequence w = 1 + of_nat (length rs)" "log_ok sha 1 rs"
    "length (log_bytes sha 1 rs) \<le> G_MAXINT64"
  using assms by (auto simp: journal_inv_def writer_at_def)

lemma append_recs:
  assumes inv: "journal_inv sha rs k st" and w: "j_writer st = Some w" and sha: "sha256_like sha"
    and fits: "append_fits sha w (j_file st) t payload"
    and app: "append_unlocked sha io w (j_file st) t payload = (r, w', file')"
  shows "recs_of sha file' = recs_of sha (j_file st) \<or>
    recs_of sha file' = recs_of sha (j_file st) @ [\<lparr>rec_offset = length (j_file st), rec_sequence = w_next_sequence w,
      rec_event_type = t, rec_payload = payload_bytes payload\<rparr>]"
    and "r = Some (Inr x) \<Longrightarrow>
      recs_of sha file' = recs_of sha (j_file st) @ [\<lparr>rec_offset = fst x, rec_sequence = snd x,
        rec_event_type = t, rec_payload = payload_bytes payload\<rparr>]"
proof -
  let ?p = "(t, payload_bytes payload)"
  let ?new = "\<lparr>rec_offset = length (j_file st), rec_sequence = w_next_sequence w, rec_event_type = t, rec_payload = payload_bytes payload\<rparr>"
  have cut: "recs_of sha file' \<in> {recs_of sha (j_file st), recs_of sha (j_file st) @ [?new]}"
    if "\<not> w_failed w" "event_type_to_string t = Some name" "file' = j_file st @ take n (record_bytes sha (w_next_sequence w) ?p)" for name n
  proof -
    note log = healthy_log [OF inv w that(1)]
    note ext = append_extends [OF inv w that(1) sha fits that(2) order_refl]
    have "log_records sha 0 1 (rs @ [?p]) = log_records sha 0 1 rs @ [?new]"
      by (simp add: log_records_append log)
    with recs_of_append [OF ext(1), of n] show ?thesis
      by (simp add: that(3) log(1,2) recs_of_log [OF log(3)])
  qed
  from app show "recs_of sha file' = recs_of sha (j_file st) \<or> recs_of sha file' = recs_of sha (j_file st) @ [?new]"
  proof (cases rule: append_outcome)
    case (ok name)
    then have "file' = j_file st @ take (length (record_bytes sha (w_next_sequence w) ?p)) (record_bytes sha (w_next_sequence w) ?p)"
      by simp
    from cut [OF ok(1,2) this] show ?thesis by auto
  qed (use cut in auto)
  assume "r = Some (Inr x)"
  from app show "recs_of sha file' = recs_of sha (j_file st) @ [\<lparr>rec_offset = fst x, rec_sequence = snd x,
        rec_event_type = t, rec_payload = payload_bytes payload\<rparr>]"
  proof (cases rule: append_outcome)
    case (ok name)
    note log = healthy_log [OF inv w ok(1)]
    note ext = append_extends [OF inv w ok(1) sha fits ok(2) order_refl]
    have "file' = log_bytes sha 1 (rs @ [?p])"
      using ok(4) log by (simp add: log_bytes_append)
    then show ?thesis
      using recs_of_log [OF ext(1)] recs_of_log [OF log(3)] ok(3) \<open>r = Some (Inr x)\<close> log
      by (auto simp: log_records_append)
  qed (use \<open>r = Some (Inr x)\<close> in auto)
qed

lemma journal_step_recs:
  assumes "journal_step sha st st'" "sha256_like sha" "journal_inv sha rs k st"
  shows "prefix (recs_of sha (j_file st')) (recs_of sha (j_file st)) \<or>
    (\<exists>r. recs_of sha (j_file st') = recs_of sha (j_file st) @ [r])"
  using assms(1)
proof cases
  case (step_append w t payload io off s w' file')
  from append_recs(1) [OF assms(3) step_append(2) assms(2) step_append(3) step_append(4) [unfolded writer_append_def]]
  show ?thesis using step_append(1) by auto
next
  case (step_append_error w t payload io e w' file')
  from append_recs(1) [OF assms(3) step_append_error(2) assms(2) step_append_error(3) step_append_error(4) [unfolded writer_append_def]]
  show ?thesis using step_append_error(1) by auto
next
  case (step_append_cut w t payload io w' file')
  from append_recs(1) [OF assms(3) step_append_cut(2) assms(2) step_append_cut(3) step_append_cut(4) [unfolded writer_append_def]]
  show ?thesis using step_append_cut(1) by auto
next
  case (step_crash k)
  then show ?thesis by (simp add: recs_of_take)
next
  case (step_open io root w file')
  then show ?thesis
    using writer_new_Inr [OF step_open(3)] assms(3) by (auto simp: journal_inv_def)
next
  case (step_recover io root res file')
  have facts: "log_ok sha 1 rs" "j_file st = take k (log_bytes sha 1 rs)" "k \<le> length (log_bytes sha 1 rs)"
    "length (log_bytes sha 1 rs) \<le> G_MAXINT64"
    using assms(3) by (auto simp: journal_inv_def)
  let ?m = "whole_records sha 1 rs k"
  have "stands (log_bytes sha 1 rs) 0 (log_bytes sha 1 (take ?m rs))"
    using log_bytes_append [of sha 1 "take ?m rs" "drop ?m rs"] by (simp add: stands_prefix)
  then have "log_bytes sha 1 (take ?m rs) = take (length (log_bytes sha 1 (take ?m rs))) (j_file st)"
    using whole_records_fit [of sha 1 rs k] facts(2) by (simp add: stands_def min_def)
  moreover have "file' = j_file st \<or> file' = log_bytes sha 1 (take ?m rs)"
    using recover_in_state [OF facts(1,4,3)] step_recover(3) facts(2) by metis
  ultimately have "file' = j_file st \<or> (\<exists>n. file' = take n (j_file st))"
    by metis
  then show ?thesis
    using step_recover(1) recs_of_take by auto
qed

section \<open>Deliveries in a list of records\<close>

definition identities :: "journal_record list \<Rightarrow> (bytes \<times> bytes) list" where
  "identities recs = List.map_filter record_identity recs"

definition exactly_once :: "journal_record list \<Rightarrow> bool" where
  "exactly_once recs \<longleftrightarrow> list_all (\<lambda>r. \<not> undecodable r) recs \<and> distinct (identities recs)"

lemma identities_simps [simp]:
  "identities [] = []"
  "identities (r # rs) = (case record_identity r of None \<Rightarrow> identities rs | Some i \<Rightarrow> i # identities rs)"
  by (simp_all add: identities_def List.map_filter_def split: option.split)

lemma identities_append: "identities (xs @ ys) = identities xs @ identities ys"
  by (induction xs) (auto split: option.split)

lemma set_identities: "i \<in> set (identities recs) \<longleftrightarrow> (\<exists>r \<in> set recs. record_identity r = Some i)"
  by (induction recs) (auto split: option.splits)

lemma exactly_once_prefix: "exactly_once ys \<Longrightarrow> prefix xs ys \<Longrightarrow> exactly_once xs"
  by (auto simp: exactly_once_def prefix_def identities_append)

lemma exactly_once_snoc:
  "exactly_once (recs @ [r]) \<longleftrightarrow> exactly_once recs \<and> \<not> undecodable r \<and>
     (\<forall>i. record_identity r = Some i \<longrightarrow> i \<notin> set (identities recs))"
  by (auto simp: exactly_once_def identities_append split: option.splits)

lemma record_identity_MD: "record_identity r = Some i \<Longrightarrow> rec_event_type r = event_code MESSAGE_DELIVERED"
  by (auto simp: record_identity_def split: if_splits)

lemma find_in_cases:
  "find_in k n d recs = Inr None \<Longrightarrow>
     list_all (\<lambda>r. \<not> undecodable r) recs \<and> (\<forall>i. args_identity d = Some i \<longrightarrow> i \<notin> set (identities recs))"
  "find_in k n d recs = Inr (Some res) \<Longrightarrow>
     \<exists>r \<in> set recs. record_identity r = args_identity d \<and> record_identity r \<noteq> None \<and> retry_answer k n d r = Inr (Some res)"
proof (induction recs)
  case (Cons r recs)
  {
    case 1
    then have "\<not> undecodable r" "\<not> (record_identity r = args_identity d \<and> record_identity r \<noteq> None)"
      "find_in k n d recs = Inr None"
      by (auto simp: undecodable_def retry_answer_def bindE_Inr_iff split: if_splits)
    with Cons.IH(1) show ?case
      by (auto simp: set_identities split: option.splits)
  next
    case 2
    show ?case
    proof (cases "\<not> undecodable r \<and> record_identity r = args_identity d \<and> record_identity r \<noteq> None")
      case True
      then obtain i where "record_identity r = Some i" "args_identity d = Some i"
        by (metis not_None_eq)
      with True 2 show ?thesis by simp
    next
      case False
      have "\<not> undecodable r"
        using 2 by (auto simp: undecodable_def bindE_Inr_iff split: if_splits)
      with False 2 have "find_in k n d recs = Inr (Some res)"
        using find_in_skip [of r d k n recs] by argo
      with Cons.IH(2) show ?thesis by auto
    qed
  }
qed simp_all

text \<open>Where every delivery is there once, the record with the identity gives the answer.\<close>

lemma find_in_present:
  assumes "exactly_once recs" "r \<in> set recs" "record_identity r = Some i" "args_identity d = Some i"
  shows "find_in k n d recs = retry_answer k n d r"
  using assms(1,2)
proof (induction recs)
  case (Cons q recs)
  have q: "\<not> undecodable q" "exactly_once recs"
    using Cons.prems(1) exactly_once_def identities_append [of "[q]" recs] by auto
  show ?case
  proof (cases "record_identity q = Some i")
    case True
    have "q = r"
    proof (rule ccontr)
      assume "q \<noteq> r"
      then have "r \<in> set recs" using Cons.prems(2) by simp
      then have "i \<in> set (identities recs)"
        using assms(3) by (auto simp: set_identities)
      moreover have "distinct (identities [q] @ identities recs)" "identities [q] = [i]"
        using Cons.prems(1) True identities_append [of "[q]" recs]
        by (auto simp: exactly_once_def)
      ultimately show False by simp
    qed
    with True q assms(4) show ?thesis by simp
  next
    case False
    then have "r \<in> set recs"
      using Cons.prems(2) assms(3) by auto
    with Cons.IH [OF q(2)] False q assms(4) show ?thesis by simp
  qed
qed simp

section \<open>The system\<close>

text \<open>
  The journal and the file system of the object store. An ingestion by the writer is one step,
  whatever it ends with. Every other step of the journal that adds no MessageDelivered record
  (appends of other events, failed and cut appends, crashes, reopening, recovery) and every
  other step of the store (other puts, crashes) is allowed in between.
\<close>

record delivery_state =
  ds_journal :: journal_state
  ds_files :: object_fs

text \<open>
  The journal behind an ingestion: a record that was added and reported is acknowledged. As in
  \<open>journal_step\<close>, what is on disk is what the writer's last \<open>fsync\<close> reached.
\<close>

definition ingested :: "(bytes \<Rightarrow> bytes) \<Rightarrow> journal_state \<Rightarrow> eml_ingest_result result option \<Rightarrow> eml_ingestor \<Rightarrow> bytes \<Rightarrow> journal_state" where
  "ingested sha st r self' file' =
     (case r of
        None \<Rightarrow> st\<lparr>j_file := file', j_writer := None\<rparr>
      | Some (Inl _) \<Rightarrow> st\<lparr>j_file := file', j_writer := ig_writer self'\<rparr>
      | Some (Inr _) \<Rightarrow>
          if file' = j_file st then st
          else \<lparr>j_file = file',
                j_synced = (case ig_writer self' of None \<Rightarrow> j_synced st | Some w' \<Rightarrow> max (j_synced st) (w_synced w')),
                j_writer = ig_writer self',
                j_acked = j_acked st @ [last (recs_of sha file')]\<rparr>)"

text \<open>What a request gives the ingestor is made of C strings, and the journal stays in the range of \<^verbatim>\<open>off_t\<close>.\<close>

definition args_wf :: "delivery_args \<Rightarrow> bool" where
  "args_wf d \<longleftrightarrow> list_all cstring_wf [da_delivery_id d, da_queue_id d, da_account_identity d, da_envelope_sender d] \<and>
     strv_wf (da_recipients d)"

definition ingest_fits :: "(bytes \<Rightarrow> bytes) \<Rightarrow> journal_writer \<Rightarrow> bytes \<Rightarrow> bytes \<Rightarrow> u64 \<Rightarrow> delivery_args \<Rightarrow> bool" where
  "ingest_fits sha w file data now d \<longleftrightarrow>
     (\<forall>metadata payload. metadata_parse_bytes data = Inr metadata \<longrightarrow>
        md_encode_with_identity (Some (compute_object_key sha data)) (of_nat (length data)) (Some metadata) now
          (da_delivery_id d) (da_queue_id d) (da_account_identity d) (da_envelope_sender d) (da_recipients d) = Inr payload \<longrightarrow>
        append_fits sha w file (event_code MESSAGE_DELIVERED) (Some payload))"

inductive delivery_step :: "(bytes \<Rightarrow> bytes) \<Rightarrow> object_store \<Rightarrow> delivery_state \<Rightarrow> delivery_state \<Rightarrow> bool" for sha store where
  ds_ingest:
    "j_writer (ds_journal st) = Some w \<Longrightarrow> args_wf d \<Longrightarrow> race_ok sha data (in_put io) \<Longrightarrow>
     ingest_fits sha w (j_file (ds_journal st)) data (in_now io) d \<Longrightarrow>
     ingest_delivery_bytes sha io \<lparr>ig_store = store, ig_writer = Some w\<rparr> data d (j_file (ds_journal st)) (ds_files st) =
       (r, self', file', fs') \<Longrightarrow>
     delivery_step sha store st \<lparr>ds_journal = ingested sha (ds_journal st) r self' file', ds_files = fs'\<rparr>"
| ds_other:
    "journal_step sha (ds_journal st) j' \<Longrightarrow>
     \<forall>r \<in> set (recs_of sha (j_file j')) - set (recs_of sha (j_file (ds_journal st))).
       rec_event_type r \<noteq> event_code MESSAGE_DELIVERED \<Longrightarrow>
     delivery_step sha store st (st\<lparr>ds_journal := j'\<rparr>)"
| ds_store: "store_step sha store (ds_files st) fs' \<Longrightarrow> delivery_step sha store st (st\<lparr>ds_files := fs'\<rparr>)"

inductive delivery_reachable :: "(bytes \<Rightarrow> bytes) \<Rightarrow> object_store \<Rightarrow> delivery_state \<Rightarrow> bool" for sha store where
  dr_init: "store_ok sha store fs \<Longrightarrow> delivery_reachable sha store \<lparr>ds_journal = journal_init, ds_files = fs\<rparr>"
| dr_step: "delivery_reachable sha store st \<Longrightarrow> delivery_step sha store st st' \<Longrightarrow> delivery_reachable sha store st'"

section \<open>Invariant\<close>

definition delivery_journaled :: "journal_record \<Rightarrow> bool" where
  "delivery_journaled r \<longleftrightarrow> rec_event_type r = event_code MESSAGE_DELIVERED"

text \<open>The object that a journaled delivery names is on disk under its name.\<close>

definition object_on_disk :: "(bytes \<Rightarrow> bytes) \<Rightarrow> object_store \<Rightarrow> object_fs \<Rightarrow> journal_record \<Rightarrow> bool" where
  "object_on_disk sha store fs r \<longleftrightarrow>
     (\<exists>p hex d. md_decode (rec_payload r) = Inr p \<and> md_object_key p = Some (object_key_of hex) \<and> hex_ok hex \<and>
        stored_at fs (build_object_path store hex) d \<and> checksum_data sha d = hex)"

definition delivery_inv :: "(bytes \<Rightarrow> bytes) \<Rightarrow> object_store \<Rightarrow> delivery_state \<Rightarrow> bool" where
  "delivery_inv sha store st \<longleftrightarrow>
     journal_reachable sha (ds_journal st) \<and> store_ok sha store (ds_files st) \<and>
     exactly_once (recs_of sha (j_file (ds_journal st))) \<and>
     (\<forall>r \<in> set (recs_of sha (j_file (ds_journal st))). delivery_journaled r \<longrightarrow> object_on_disk sha store (ds_files st) r)"

lemma metadata_strings_wf: "metadata_parse_bytes data = Inr m \<Longrightarrow> list_all cstring_wf (md_metadata_strings (Some m))"
proof -
  assume "metadata_parse_bytes data = Inr m"
  then obtain n where m: "m = metadata_of (length data) n (block_fields data n)"
    by (auto simp: metadata_parse_fields split: option.splits)
  have "cstring_wf (first_value fs name)" for fs name
    by (cases "first_field fs name") (auto simp: first_value_def nul_free_def dest: set_takeWhileD)
  then show ?thesis
    by (simp add: m metadata_of_def md_metadata_strings_def)
qed

text \<open>What the journal says of a delivery that was appended.\<close>

definition delivery_record :: "bytes \<Rightarrow> u64 \<Rightarrow> delivery_args \<Rightarrow> message_delivered_payload \<Rightarrow> bool" where
  "delivery_record key n d p \<longleftrightarrow>
     md_object_key p = Some key \<and> md_size_bytes p = n \<and> md_delivery_id p = da_delivery_id d \<and>
     (da_delivery_id d \<noteq> None \<longrightarrow>
        normalize_queue_id (md_queue_id p) = normalize_queue_id (da_queue_id d) \<and>
        md_account_identity p = da_account_identity d \<and> md_envelope_sender p = da_envelope_sender d \<and>
        strv_items (md_recipients p) = strv_items (da_recipients d))"

lemma encoded_delivery:
  assumes "metadata_parse_bytes data = Inr m" "args_wf d"
    and "md_encode_with_identity (Some key) n (Some m) now (da_delivery_id d) (da_queue_id d)
      (da_account_identity d) (da_envelope_sender d) (da_recipients d) = Inr payload"
  shows "\<exists>p. md_decode payload = Inr p \<and> delivery_record key n d p"
proof -
  have "md_args_wf (Some m) [da_delivery_id d, da_queue_id d, da_account_identity d, da_envelope_sender d] (da_recipients d)"
    using metadata_strings_wf [OF assms(1)] assms(2) by (simp add: md_args_wf_def args_wf_def)
  from md_round [OF this assms(3)] show ?thesis
    by (auto simp: delivery_record_def md_payload_of_def md_base_def md_empty_def Let_def)
qed

lemma compute_object_key_eq: "compute_object_key sha data = object_key_of (checksum_data sha data)"
  by (simp add: compute_object_key_def object_key_of_def checksum_data_def)

lemma delivery_record_identity:
  "md_decode (rec_payload r) = Inr p \<Longrightarrow> rec_event_type r = event_code MESSAGE_DELIVERED \<Longrightarrow> delivery_record key n d p \<Longrightarrow>
   record_identity r = args_identity d"
  by (cases "da_delivery_id d") (auto simp: record_identity_def delivery_record_def args_identity_def)

lemma find_result_recs:
  assumes "find_delivery_retry_result sha root file key n d = Inr x" "length file \<le> G_MAXSIZE" "da_delivery_id d \<noteq> None"
  shows "find_in key n d (recs_of sha file) = Inr x" "root \<noteq> []"
proof -
  show root: "root \<noteq> []"
    using assms(1,3) by (auto simp: find_delivery_retry_result_def reader_new_def reader_new_with_limit_def)
  have "find_delivery_loop sha key n d (reader_on file (length file) 0 1) = Inr x"
    using assms reader_new_on [OF root assms(2)] by (simp add: find_delivery_retry_result_def)
  then show "find_in key n d (recs_of sha file) = Inr x"
    by (auto simp: find_delivery_loop_records recs_of_def split: prod.splits sum.splits option.splits)
qed

lemma objects_kept:
  assumes "store_step sha store fs fs'" "sha256_like sha" "store_ok sha store fs"
  shows "store_ok sha store fs'" "object_on_disk sha store fs r \<Longrightarrow> object_on_disk sha store fs' r"
  using store_step_keeps [OF assms] unfolding object_on_disk_def by blast+

lemma journal_sizes:
  assumes "journal_reachable sha j" "sha256_like sha"
  shows "length (j_file j) \<le> G_MAXINT64"
  using journal_reachable_inv [OF assms] by (auto simp: journal_inv_def)

text \<open>An append under a reachable journal, as a step of the journal and by its records.\<close>

lemma append_steps:
  fixes self :: eml_ingestor and f :: "nat \<times> u64 \<Rightarrow> eml_ingest_result"
  assumes j: "journal_reachable sha j" "sha256_like sha" "j_writer j = Some w" "append_fits sha w (j_file j) t (Some payload)"
    and app: "append_unlocked sha io w (j_file j) t (Some payload) = (q, w', file')"
  defines "j' \<equiv> ingested sha j (map_option (map_sum id f) q) (self\<lparr>ig_writer := Some w'\<rparr>) file'"
  shows "journal_reachable sha j'" "j_file j' = file'"
    "recs_of sha file' = recs_of sha (j_file j) \<or>
     (\<exists>off s. recs_of sha file' = recs_of sha (j_file j) @ [\<lparr>rec_offset = off, rec_sequence = s, rec_event_type = t, rec_payload = payload\<rparr>])"
    "q = Some (Inr x) \<Longrightarrow> \<exists>r. recs_of sha file' = recs_of sha (j_file j) @ [r] \<and> r \<in> set (j_acked j') \<and>
       r = \<lparr>rec_offset = fst x, rec_sequence = snd x, rec_event_type = t, rec_payload = payload\<rparr>"
proof -
  obtain rs k where inv: "journal_inv sha rs k j"
    using journal_reachable_inv [OF j(1,2)] by blast
  note recs = append_recs [OF inv j(3,2,4) app, simplified]
  from recs(1) show "recs_of sha file' = recs_of sha (j_file j) \<or>
     (\<exists>off s. recs_of sha file' = recs_of sha (j_file j) @ [\<lparr>rec_offset = off, rec_sequence = s, rec_event_type = t, rec_payload = payload\<rparr>])"
    by blast
  consider "q = None" | e where "q = Some (Inl e)" | y where "q = Some (Inr y)"
    by (metis option.exhaust sum.exhaust)
  then have "journal_step sha j j' \<and> j_file j' = file' \<and> (q = Some (Inr x) \<longrightarrow>
      (\<exists>r. recs_of sha file' = recs_of sha (j_file j) @ [r] \<and> r \<in> set (j_acked j') \<and>
       r = \<lparr>rec_offset = fst x, rec_sequence = snd x, rec_event_type = t, rec_payload = payload\<rparr>))"
  proof cases
    case 1
    with step_append_cut [OF j(3,4), of io w' file'] app show ?thesis
      by (simp add: j'_def ingested_def writer_append_def)
  next
    case (2 e)
    with step_append_error [OF j(3,4), of io e w' file'] app show ?thesis
      by (simp add: j'_def ingested_def writer_append_def)
  next
    case (3 y)
    obtain off s where y: "y = (off, s)" by (cases y)
    note new = recs(2) [OF 3]
    then have "file' \<noteq> j_file j" by auto
    with step_append [OF j(3,4), of io off s w' file'] app 3 y new show ?thesis
      by (auto simp: j'_def ingested_def writer_append_def)
  qed
  then show "journal_reachable sha j'" "j_file j' = file'"
    "q = Some (Inr x) \<Longrightarrow> \<exists>r. recs_of sha file' = recs_of sha (j_file j) @ [r] \<and> r \<in> set (j_acked j') \<and>
       r = \<lparr>rec_offset = fst x, rec_sequence = snd x, rec_event_type = t, rec_payload = payload\<rparr>"
    using reach_step [OF j(1)] by blast+
qed

text \<open>A receipt: the record that the result of an ingestion points to.\<close>

definition receipt_for :: "bytes \<Rightarrow> u64 \<Rightarrow> delivery_args \<Rightarrow> eml_ingest_result \<Rightarrow> journal_record \<Rightarrow> bool" where
  "receipt_for key n d res r \<longleftrightarrow>
     ei_object_key res = Some key \<and> ei_size_bytes res = n \<and> ei_journal_offset res = of_nat (rec_offset r) \<and>
     ei_journal_sequence res = rec_sequence r \<and> delivery_journaled r \<and>
     (\<exists>p. md_decode (rec_payload r) = Inr p \<and> delivery_record key n d p)"

lemma retry_answer_receipt:
  assumes "retry_answer key n d r = Inr (Some res)" "record_identity r = args_identity d" "record_identity r \<noteq> None"
  shows "receipt_for key n d res r"
proof -
  obtain i where "record_identity r = Some i" using assms(3) by blast
  note md = record_identity_MD [OF this]
  obtain p where p: "md_decode (rec_payload r) = Inr p"
      "delivery_retry_matches p key n (da_account_identity d) (da_envelope_sender d) (da_recipients d)"
      "res = \<lparr>ei_object_key = md_object_key p, ei_size_bytes = md_size_bytes p,
              ei_journal_offset = of_nat (rec_offset r), ei_journal_sequence = rec_sequence r\<rparr>"
    using assms(1) by (auto simp: retry_answer_def bindE_Inr_iff split: if_splits)
  have "delivery_identity_matches p (da_delivery_id d) (da_queue_id d)"
    using identity_matches_iff [OF p(1) md] assms(2,3) by blast
  with p md show ?thesis
    by (auto simp: receipt_for_def delivery_journaled_def delivery_record_def delivery_identity_matches_def
        delivery_retry_matches_def strv_equal_iff)
qed

lemma receipt_answers_retry:
  assumes "receipt_for key n d res r" "record_identity r \<noteq> None"
  shows "retry_answer key n d r = Inr (Some res)" "record_identity r = args_identity d"
proof -
  obtain p where p: "md_decode (rec_payload r) = Inr p" "delivery_record key n d p" "delivery_journaled r"
    using assms(1) by (auto simp: receipt_for_def)
  then show "record_identity r = args_identity d"
    by (intro delivery_record_identity) (auto simp: delivery_journaled_def)
  with assms(2) have "da_delivery_id d \<noteq> None"
    by (auto simp: args_identity_def)
  with p assms(1) show "retry_answer key n d r = Inr (Some res)"
    by (cases res) (auto simp: retry_answer_def delivery_retry_matches_def delivery_record_def strv_equal_iff receipt_for_def)
qed

lemma appended_receipt:
  assumes "md_decode payload = Inr p" "delivery_record key n d p" "delivery_journaled r" "rec_payload r = payload"
  shows "receipt_for key n d (appended_result key n (rec_offset r, rec_sequence r)) r"
  using assms by (simp add: receipt_for_def appended_result_def)

lemma delivery_inv_append:
  assumes inv: "delivery_inv sha store st" and sha: "sha256_like sha" and step: "store_step sha store (ds_files st) fs'"
    and j: "journal_reachable sha j'" and recs: "recs_of sha (j_file j') = recs_of sha (j_file (ds_journal st)) \<or>
      (\<exists>r. recs_of sha (j_file j') = recs_of sha (j_file (ds_journal st)) @ [r] \<and> \<not> undecodable r \<and>
         (\<forall>i. record_identity r = Some i \<longrightarrow> i \<notin> set (identities (recs_of sha (j_file (ds_journal st))))) \<and>
         (delivery_journaled r \<longrightarrow> object_on_disk sha store fs' r))"
  shows "delivery_inv sha store \<lparr>ds_journal = j', ds_files = fs'\<rparr>"
proof -
  have ok: "store_ok sha store (ds_files st)"
    using inv by (simp add: delivery_inv_def)
  note kept = objects_kept [OF step sha ok]
  from recs inv kept j show ?thesis
    by (elim disjE exE conjE) (auto simp: delivery_inv_def exactly_once_snoc)
qed

lemma store_step_refl: "fs_crash fs fs" "store_step sha store fs fs"
  by (simp_all add: fs_crash_def store_crash)

lemma ingest_step:
  assumes inv: "delivery_inv sha store st" and sha: "sha256_like sha"
    and w: "j_writer (ds_journal st) = Some w" and wf: "args_wf d" and race: "race_ok sha data (in_put io)"
    and fits: "ingest_fits sha w (j_file (ds_journal st)) data (in_now io) d"
    and run: "ingest_delivery_bytes sha io \<lparr>ig_store = store, ig_writer = Some w\<rparr> data d (j_file (ds_journal st)) (ds_files st) =
       (r, self', file', fs')"
  defines "j' \<equiv> ingested sha (ds_journal st) r self' file'" and "key \<equiv> compute_object_key sha data"
  shows "delivery_inv sha store \<lparr>ds_journal = j', ds_files = fs'\<rparr>" (is ?inv)
    and "r = Some (Inr res) \<Longrightarrow>
      \<exists>x \<in> set (recs_of sha (j_file j')). receipt_for key (of_nat (length data)) d res x \<and>
        (recs_of sha (j_file j') = recs_of sha (j_file (ds_journal st)) @ [x] \<and> x \<in> set (j_acked j') \<or>
         j' = ds_journal st \<and> fs' = ds_files st \<and> da_delivery_id d \<noteq> None)" (is "_ \<Longrightarrow> ?receipt")
proof -
  let ?j = "ds_journal st" and ?fs = "ds_files st" and ?n = "of_nat (length data) :: u64"
  have jr: "journal_reachable sha ?j" and ok: "store_ok sha store ?fs" and once: "exactly_once (recs_of sha (j_file ?j))"
    using inv by (simp_all add: delivery_inv_def)
  have small: "length (j_file ?j) \<le> G_MAXSIZE"
    using journal_sizes [OF jr sha] by simp
  have w0: "ig_writer \<lparr>ig_store = store, ig_writer = Some w\<rparr> = Some w" by simp
  from run w0 have "?inv \<and> (r = Some (Inr res) \<longrightarrow> ?receipt)"
  proof (cases rule: ingest_cases)
    case stopped
    have step: "store_step sha store ?fs fs'"
      using stopped(4) store_step_refl(2) store_put [OF _ race] by auto
    have same: "j_file j' = j_file ?j" "journal_reachable sha j'"
    proof -
      have "r = None \<Longrightarrow> journal_step sha ?j (?j\<lparr>j_file := take (length (j_file ?j)) (j_file ?j), j_writer := None\<rparr>)"
        using journal_reachable_inv [OF jr sha] by (intro step_crash) (auto simp: journal_inv_def)
      moreover have "?j\<lparr>j_writer := Some w\<rparr> = ?j" using w by (cases ?j) simp
      ultimately show "j_file j' = j_file ?j" "journal_reachable sha j'"
        using stopped jr by (auto simp: j'_def ingested_def intro: reach_step split: option.splits sum.splits)
    qed
    with delivery_inv_append [OF inv sha step same(2)] stopped(3) show ?thesis by simp
  next
    case (found res' metadata)
    have j': "j' = ?j" using found by (simp add: j'_def ingested_def)
    have di: "da_delivery_id d \<noteq> None"
      using found(6) by (auto simp: find_delivery_retry_result_def split: if_splits)
    from find_result_recs(1) [OF found(6) small di] find_in_cases(2) obtain x where
      x: "x \<in> set (recs_of sha (j_file ?j))" "record_identity x = args_identity d" "record_identity x \<noteq> None"
        "retry_answer key ?n d x = Inr (Some res')"
      unfolding key_def by blast
    have "receipt_for key ?n d res' x"
      by (rule retry_answer_receipt) (use x in auto)
    with x di found(1,4) j' inv show ?thesis
      by (cases st) (auto intro!: bexI [of _ x])
  next
    case (appended metadata key' payload q w')
    have put: "hex_ok (checksum_data sha data)" "key' = key"
        "\<exists>obj. stored_at fs' (build_object_path store (checksum_data sha data)) obj \<and> checksum_data sha obj = checksum_data sha data"
      using put_bytes_stored [OF appended(3) race sha] ok by (simp_all add: key_def compute_object_key_eq)
    note enc = appended(4) [unfolded put(2)]
    obtain p where p: "md_decode payload = Inr p" "delivery_record key ?n d p"
      using encoded_delivery [OF appended(1) wf enc] by blast
    have fit: "append_fits sha w (j_file ?j) (event_code MESSAGE_DELIVERED) (Some payload)"
      using fits appended(1) enc unfolding ingest_fits_def key_def by blast
    have step: "store_step sha store ?fs fs'"
      by (rule store_put [OF _ race]) (use appended(3) in simp)
    have j'_eq: "j' = ingested sha ?j (map_option (map_sum id (appended_result key ?n)) q)
        (\<lparr>ig_store = store, ig_writer = Some w\<rparr>\<lparr>ig_writer := Some w'\<rparr>) file'"
      using appended(6,7) put(2) by (simp add: j'_def)
    note prem = jr sha w fit appended(5)
    have app: "journal_reachable sha j'" "j_file j' = file'"
      unfolding j'_eq by (rule append_steps(1,2) [OF prem])+
    note app3 = append_steps(3) [OF prem] and app4 = append_steps(4) [OF prem, where f = "appended_result key ?n"
        and self = "\<lparr>ig_store = store, ig_writer = Some w\<rparr>", folded j'_eq]
    have new: "\<not> undecodable x" "record_identity x = args_identity d" "object_on_disk sha store fs' x"
      if "rec_event_type x = event_code MESSAGE_DELIVERED" "rec_payload x = payload" for x
    proof -
      show "\<not> undecodable x" using that p(1) by (simp add: undecodable_def)
      show "record_identity x = args_identity d"
        by (rule delivery_record_identity) (use that p in auto)
      show "object_on_disk sha store fs' x"
        unfolding object_on_disk_def using put p that
        by (rule_tac x = p in exI, rule_tac x = "checksum_data sha data" in exI)
          (auto simp: delivery_record_def key_def compute_object_key_eq)
    qed
    have absent: "i \<notin> set (identities (recs_of sha (j_file ?j)))" if "args_identity d = Some i" for i
    proof -
      have "da_delivery_id d \<noteq> None" using that by (auto simp: args_identity_def)
      from find_in_cases(1) [OF find_result_recs(1) [OF appended(2) small this]] that show ?thesis by blast
    qed
    have ?inv
      by (rule delivery_inv_append [OF inv sha step app(1)])
        (use app(2) app3 new absent in \<open>auto simp: delivery_journaled_def\<close>)
    moreover have ?receipt if res: "r = Some (Inr res)"
    proof -
      obtain y where y: "q = Some (Inr y)" "res = appended_result key ?n y"
        using res appended(7) put(2) by (cases q) (auto simp: map_sum_def split: sum.splits)
      from app4 [OF y(1)] obtain x where x: "recs_of sha file' = recs_of sha (j_file ?j) @ [x]" "x \<in> set (j_acked j')"
          "x = \<lparr>rec_offset = fst y, rec_sequence = snd y, rec_event_type = event_code MESSAGE_DELIVERED, rec_payload = payload\<rparr>"
        by blast
      have "receipt_for key ?n d res x"
        using appended_receipt [OF p, of x] x(3) y(2) by (cases y) (simp add: delivery_journaled_def)
      with x(1,2) app(2) show ?thesis by (intro bexI [of _ x]) auto
    qed
    ultimately show ?thesis by blast
  qed
  then show ?inv "r = Some (Inr res) \<Longrightarrow> ?receipt" by blast+
qed

lemma delivery_inv_prefix:
  assumes "delivery_inv sha store st" "journal_reachable sha j'"
    "prefix (recs_of sha (j_file j')) (recs_of sha (j_file (ds_journal st)))"
  shows "delivery_inv sha store (st\<lparr>ds_journal := j'\<rparr>)"
  using assms exactly_once_prefix [OF _ assms(3)] set_mono_prefix [OF assms(3)]
  by (auto simp: delivery_inv_def)

lemma delivery_step_inv:
  assumes "delivery_step sha store st st'" "sha256_like sha" "delivery_inv sha store st"
  shows "delivery_inv sha store st'"
  using assms(1)
proof cases
  case (ds_ingest w d data io r self' file' fs')
  then show ?thesis
    using ingest_step(1) [OF assms(3,2) ds_ingest(2-6)] by simp
next
  case (ds_other j')
  have jr: "journal_reachable sha (ds_journal st)"
    using assms(3) by (simp add: delivery_inv_def)
  then have jr': "journal_reachable sha j'"
    using ds_other(2) by (rule reach_step)
  obtain rs k where "journal_inv sha rs k (ds_journal st)"
    using journal_reachable_inv [OF jr assms(2)] by blast
  from journal_step_recs [OF ds_other(2) assms(2) this] show ?thesis
  proof
    assume "prefix (recs_of sha (j_file j')) (recs_of sha (j_file (ds_journal st)))"
    from delivery_inv_prefix [OF assms(3) jr' this] show ?thesis
      using ds_other(1) by simp
  next
    assume "\<exists>r. recs_of sha (j_file j') = recs_of sha (j_file (ds_journal st)) @ [r]"
    then obtain r where r: "recs_of sha (j_file j') = recs_of sha (j_file (ds_journal st)) @ [r]" by blast
    show ?thesis
    proof (cases "r \<in> set (recs_of sha (j_file (ds_journal st)))")
      case False
      then have md: "rec_event_type r \<noteq> event_code MESSAGE_DELIVERED"
        using ds_other(3) r by auto
      then have "\<not> undecodable r" "record_identity r = None" "\<not> delivery_journaled r"
        by (simp_all add: undecodable_def record_identity_def delivery_journaled_def)
      with delivery_inv_append [OF assms(3,2) store_step_refl(2) jr'] r ds_other(1) show ?thesis
        by (cases st) auto
    next
      case True
      have "distinct (map rec_sequence (recs_of sha (j_file j')))"
        by (rule distinct_sequences [OF journal_sizes [OF jr' assms(2)]])
      with r True show ?thesis by auto
    qed
  qed
next
  case (ds_store fs')
  have "store_ok sha store (ds_files st)"
    using assms(3) by (simp add: delivery_inv_def)
  from objects_kept [OF ds_store(2) assms(2) this] assms(3) ds_store(1) show ?thesis
    by (auto simp: delivery_inv_def)
qed

lemma delivery_reachable_inv:
  assumes "delivery_reachable sha store st" "sha256_like sha"
  shows "delivery_inv sha store st"
  using assms(1)
proof (induction rule: delivery_reachable.induct)
  case (dr_init fs)
  have "recs_of sha [] = []"
    using recs_of_log [of sha "[]"] by simp
  with dr_init reach_init show ?case
    by (simp add: delivery_inv_def journal_init_def exactly_once_def)
next
  case (dr_step st st')
  from delivery_step_inv [OF dr_step(2) assms(2) dr_step(3)] show ?case .
qed

section \<open>Acknowledged deliveries\<close>

text \<open>An acknowledged record is among those a reader gets from the file, torn or not.\<close>

lemma acked_in_recs:
  assumes "journal_reachable sha j" "sha256_like sha"
  shows "set (j_acked j) \<subseteq> set (recs_of sha (j_file j))"
proof
  fix a assume a: "a \<in> set (j_acked j)"
  obtain rs k where inv: "journal_inv sha rs k j"
    using journal_reachable_inv [OF assms] by blast
  let ?m = "whole_records sha 1 rs k" and ?n = "whole_records sha 1 rs (j_synced j)"
  have rs: "log_ok sha 1 rs" "j_file j = take k (log_bytes sha 1 rs)" "j_synced j \<le> k"
    and acked: "acked_in sha rs ?n a"
    using inv a by (auto simp: journal_inv_def)
  have "acked_in sha (take ?m rs) ?n a"
    by (rule acked_in_cut [OF acked rs(3)])
  then have "a \<in> set (log_records sha 0 1 (take ?m rs))"
    by (auto simp: acked_in_def)
  moreover have "prefix (log_bytes sha 1 (take ?m rs)) (j_file j)"
  proof -
    have "stands (log_bytes sha 1 rs) 0 (log_bytes sha 1 (take ?m rs))"
      using log_bytes_append [of sha 1 "take ?m rs" "drop ?m rs"] by (simp add: stands_prefix)
    then have "log_bytes sha 1 (take ?m rs) = take (length (log_bytes sha 1 (take ?m rs))) (j_file j)"
      using whole_records_fit [of sha 1 rs k] rs(2) by (simp add: stands_def min_def)
    then show ?thesis by (metis take_is_prefix)
  qed
  then obtain zs where "j_file j = log_bytes sha 1 (take ?m rs) @ zs"
    by (auto simp: prefix_def)
  ultimately show "a \<in> set (recs_of sha (j_file j))"
    using set_mono_prefix [OF recs_of_prefix [of sha "log_bytes sha 1 (take ?m rs)" zs]] recs_of_log [OF log_ok_take [OF rs(1), of ?m]]
    by auto
qed

lemma acked_kept:
  assumes "delivery_step sha store st st'"
  shows "set (j_acked (ds_journal st)) \<subseteq> set (j_acked (ds_journal st'))"
  using assms
proof cases
  case (ds_ingest w d data io r self' file' fs')
  then show ?thesis
    by (auto simp: ingested_def split: option.splits sum.splits)
next
  case (ds_other j')
  from ds_other(2) have "set (j_acked (ds_journal st)) \<subseteq> set (j_acked j')"
    by cases auto
  with ds_other(1) show ?thesis by simp
qed simp

lemma delivery_steps:
  assumes "(delivery_step sha store)\<^sup>*\<^sup>* st st'" "sha256_like sha" "delivery_inv sha store st"
  shows "delivery_inv sha store st' \<and> set (j_acked (ds_journal st)) \<subseteq> set (j_acked (ds_journal st'))"
  using assms(1)
proof (induction rule: rtranclp_induct)
  case (step y z)
  with delivery_step_inv [OF step(2) assms(2)] acked_kept [OF step(2)] show ?case by blast
qed (use assms(3) in simp)

text \<open>The record of a delivery in a later state: still there, with its object.\<close>

lemma acked_delivery_later:
  assumes "(delivery_step sha store)\<^sup>*\<^sup>* st st'" "sha256_like sha" "delivery_inv sha store st"
    and "x \<in> set (j_acked (ds_journal st))" "delivery_journaled x"
  shows "x \<in> set (recs_of sha (j_file (ds_journal st')))" "object_on_disk sha store (ds_files st') x"
proof -
  note later = delivery_steps [OF assms(1-3)]
  then have "journal_reachable sha (ds_journal st')" by (simp add: delivery_inv_def)
  with acked_in_recs [OF this assms(2)] later assms(4) show x: "x \<in> set (recs_of sha (j_file (ds_journal st')))" by blast
  with later assms(5) show "object_on_disk sha store (ds_files st') x"
    by (auto simp: delivery_inv_def)
qed

text \<open>A retry is answered from any record of the delivery that the reader gets to.\<close>

lemma retry_answered:
  assumes inv: "delivery_inv sha store st" and sha: "sha256_like sha"
    and w: "j_writer (ds_journal st) = Some w" "w_root w \<noteq> []" and meta: "metadata_parse_bytes data = Inr metadata"
    and x: "x \<in> set (recs_of sha (j_file (ds_journal st)))"
      "receipt_for (compute_object_key sha data) (of_nat (length data)) d res x" and di: "da_delivery_id d \<noteq> None"
  shows "ingest_delivery_bytes sha io \<lparr>ig_store = store, ig_writer = Some w\<rparr> data d (j_file (ds_journal st)) (ds_files st) =
    (Some (Inr res), \<lparr>ig_store = store, ig_writer = Some w\<rparr>, j_file (ds_journal st), ds_files st)"
proof -
  let ?file = "j_file (ds_journal st)" and ?key = "compute_object_key sha data" and ?n = "of_nat (length data) :: u64"
  obtain p where p: "md_decode (rec_payload x) = Inr p" "delivery_record ?key ?n d p" "delivery_journaled x"
    using x(2) by (auto simp: receipt_for_def)
  have same: "record_identity x = args_identity d"
    by (rule delivery_record_identity) (use p in \<open>auto simp: delivery_journaled_def\<close>)
  obtain i where i: "args_identity d = Some i"
    using di by (auto simp: args_identity_def)
  note ans = receipt_answers_retry(1) [OF x(2)]
  have "find_in ?key ?n d (recs_of sha ?file) = retry_answer ?key ?n d x"
    by (rule find_in_present) (use inv x(1) same i in \<open>auto simp: delivery_inv_def\<close>)
  then have "find_in ?key ?n d (recs_of sha ?file) = Inr (Some res)"
    using ans same i by simp
  moreover have "length ?file \<le> G_MAXSIZE"
    using journal_sizes [of sha "ds_journal st"] inv sha by (simp add: delivery_inv_def)
  ultimately have "find_delivery_retry_result sha (w_root w) ?file ?key ?n d = Inr (Some res)"
    using reader_new_on [OF w(2)] di
    by (auto simp: find_delivery_retry_result_def find_delivery_loop_records recs_of_def split: prod.splits)
  from ingest_delivery_found [OF _ meta this] show ?thesis by simp
qed

text \<open>An ingestion that appended and reported success: its record is acknowledged.\<close>

lemma appended_acked:
  assumes "delivery_inv sha store st" "sha256_like sha" "j_writer (ds_journal st) = Some w" "args_wf d" "race_ok sha data (in_put io)"
    "ingest_fits sha w (j_file (ds_journal st)) data (in_now io) d"
    and run: "ingest_delivery_bytes sha io \<lparr>ig_store = store, ig_writer = Some w\<rparr> data d (j_file (ds_journal st)) (ds_files st) =
       (Some (Inr res), self', file', fs')"
    and "file' \<noteq> j_file (ds_journal st)"
  obtains x metadata where "x \<in> set (j_acked (ingested sha (ds_journal st) (Some (Inr res)) self' file'))"
    "receipt_for (compute_object_key sha data) (of_nat (length data)) d res x" "metadata_parse_bytes data = Inr metadata"
proof -
  have "j_file (ingested sha (ds_journal st) (Some (Inr res)) self' file') = file'"
    using assms(8) by (simp add: ingested_def)
  with assms(8) have new: "ingested sha (ds_journal st) (Some (Inr res)) self' file' \<noteq> ds_journal st" by auto
  from run obtain metadata where "metadata_parse_bytes data = Inr metadata"
    by (auto simp: ingest_delivery_bytes_def split: sum.splits)
  with that ingest_step(2) [OF assms(1-7) refl] new show thesis by blast
qed

end
