(* ===== verification/Ingestion_Properties.thy ===== *)
theory Ingestion_Properties
  imports Ingestion_System
begin

text \<open>
  The properties of ingestion: what the header parser returns, what the object store keeps, and
  what a receipt for a delivery is worth.
\<close>

section \<open>A kernel that never fails\<close>

definition sync_ok :: dir_io where
  "sync_ok = \<lparr>dir_open_ok = True, dir_fsync_ok = True\<rparr>"

definition put_io_ok :: "nat \<Rightarrow> put_io" where
  "put_io_ok n = \<lparr>pi_accessible = True, pi_mkdir = Mkdir_done, pi_hash_root_sync = sync_ok, pi_readable = True,
     pi_parent_sync = sync_ok, pi_temp = Some [120], pi_writes = replicate n (Wrote 1), pi_fsync_ok = True, pi_close_ok = True,
     pi_race = None, pi_link_ok = True, pi_unlink_ok = True, pi_cleanup_sync = sync_ok\<rparr>"

lemma race_ok_put [simp]: "race_ok sha data (put_io_ok n)"
  by (simp add: race_ok_def put_io_ok_def)

lemma put_bytes_progress:
  assumes "os_writable self" "objects_dir (os_root_dir self) \<in> fs_dirs fs" "fs_files fs = Map.empty" "length data \<le> n" "sha256_like sha"
  shows "\<exists>fs'. put_bytes sha (put_io_ok n) self data fs = (Some (Inr (compute_object_key sha data)), fs')"
proof -
  let ?hex = "checksum_data sha data"
  let ?path = "build_object_path self ?hex"
  let ?tp = "butlast ?path @ [temp_name [120]]"
  have "hex_ok ?hex" by (rule checksum_hex_ok [OF assms(5)])
  then have tp: "?tp \<noteq> ?path"
    by (rule temp_not_object)
  have "writes_progress (replicate n (Wrote 1)) (length data + 0)"
    using assms(4) by (simp add: writes_progress_def)
  from write_all_progress [OF this, of "[]"] obtain ws where w: "object_write_all (replicate n (Wrote 1)) [] data = (Some (Inr ()), data, ws)"
    by (auto simp: object_write_all_eq)
  show ?thesis
    using assms tp w
    by (simp add: put_bytes_def check_root_def put_io_ok_def object_fsync_dir_def sync_ok_def fs_sync_dir_def fs_mkdir_def Let_def
        write_temp_def fs_install_def link_object_def finish_put_def compute_object_key_eq)
qed

section \<open>A run\<close>

definition eg_store :: object_store where
  "eg_store = \<lparr>os_root_dir = [111], os_writable = True\<rparr>"

definition eg_fs :: object_fs where
  "eg_fs = \<lparr>fs_files = Map.empty, fs_dirs = {objects_dir [111]}, fs_durable = {}\<rparr>"

text \<open>A message whose header block is empty.\<close>

definition eg_data :: bytes where
  "eg_data = [13, 10, 13, 10]"

definition eg_args :: delivery_args where
  "eg_args = \<lparr>da_delivery_id = Some [100], da_queue_id = None, da_account_identity = Some [97], da_envelope_sender = Some [115],
     da_recipients = Some [[114]]\<rparr>"

definition eg_io :: "bool \<Rightarrow> ingest_io" where
  "eg_io synced = \<lparr>in_put = put_io_ok 4,
     in_append = \<lparr>io_lseek_ok = True, io_writes = replicate 1000 (Wrote 1), io_fsync_ok = synced\<rparr>, in_now = 5\<rparr>"

definition eg_writer :: journal_writer where
  "eg_writer = \<lparr>w_root = [106], w_next_sequence = 1, w_durable_end = 0, w_failed = False, w_synced = 0\<rparr>"

definition eg_open :: delivery_state where
  "eg_open = \<lparr>ds_journal = journal_init\<lparr>j_writer := Some eg_writer\<rparr>, ds_files = eg_fs\<rparr>"

definition eg_metadata :: eml_metadata where
  "eg_metadata = metadata_of 4 0 []"

definition eg_payload :: bytes where
  "eg_payload = md_raw (compute_object_key zero_digest eg_data) 4 (Some eg_metadata) 5
     [Some [100], None, Some [97], Some [115]] (Some [[114]])"

lemma eg_store_ok: "store_ok sha eg_store eg_fs"
  by (simp add: store_ok_def eg_fs_def)

lemma eg_args_wf: "args_wf eg_args"
  by (simp add: args_wf_def eg_args_def nul_free_def strv_wf_def)

lemma zero_digest_ok: "sha256_like zero_digest"
  by (simp add: sha256_like_def)

lemma eg_length: "length eg_data = 4"
  by (simp add: eg_data_def)

lemma eg_parses: "metadata_parse_bytes eg_data = Inr eg_metadata"
proof -
  have "find_header_separator eg_data = Some 0"
    by (simp add: eg_data_def find_header_separator_Some)
  moreover have "block_fields eg_data 0 = []"
    by (simp add: block_fields_def line_table.simps)
  ultimately show ?thesis
    by (simp add: metadata_parse_fields eg_metadata_def eg_length)
qed

lemma eg_encodes:
  "md_encode_with_identity (Some (compute_object_key zero_digest eg_data)) 4 (Some eg_metadata) 5 (da_delivery_id eg_args)
     (da_queue_id eg_args) (da_account_identity eg_args) (da_envelope_sender eg_args) (da_recipients eg_args) = Inr eg_payload"
  "length eg_payload < 300"
proof -
  let ?key = "compute_object_key zero_digest eg_data"
  have key: "md_key_ok ?key"
    unfolding compute_object_key_eq by (rule object_key_ok [OF checksum_hex_ok [OF zero_digest_ok]])
  then have len: "length ?key = 71"
    by (simp add: md_key_ok_def)
  have meta: "md_metadata_strings (Some eg_metadata) = [None, None, None, None, None, None, None]" "\<not> metadata_has_span_provenance (Some eg_metadata)"
    by (simp_all add: md_metadata_strings_def eg_metadata_def metadata_of_Nil em_empty_def metadata_has_span_provenance_def)
  show small: "length eg_payload < 300"
    unfolding eg_payload_def length_md_raw [OF len] by (simp add: meta md_identity_bytes_def)
  then have "length eg_payload \<le> G_MAXSIZE" by simp
  with key meta show "md_encode_with_identity (Some ?key) 4 (Some eg_metadata) 5 (da_delivery_id eg_args)
     (da_queue_id eg_args) (da_account_identity eg_args) (da_envelope_sender eg_args) (da_recipients eg_args) = Inr eg_payload"
    by (simp add: md_encode_iff eg_args_def eg_payload_def recipients_fit_def)
qed

text \<open>The first delivery into an empty journal: appended, and acknowledged if the sync succeeds.\<close>

lemma eg_event: "event_type_to_string (event_code MESSAGE_DELIVERED) = Some (lit ''MessageDelivered'')"
  by (simp add: event_type_to_string_def validate_event_type_def event_type_names_def)

definition eg_bytes :: bytes where
  "eg_bytes = record_bytes zero_digest 1 (event_code MESSAGE_DELIVERED, eg_payload)"

lemma eg_record_ok: "record_ok zero_digest 1 (event_code MESSAGE_DELIVERED, eg_payload)"
  using eg_event eg_encodes(2) by (simp add: record_ok_def)

lemma length_eg_bytes: "length eg_bytes = 80 + length eg_payload" "length eg_bytes < 1000"
  using length_record_bytes [OF eg_event eg_record_ok] eg_encodes(2) by (simp_all add: eg_bytes_def)

lemma eg_find: "find_delivery_retry_result zero_digest [106] [] key n eg_args = Inr None"
  using read_all_log [where limit = 0 and seg = "[]" and sha = zero_digest and s = 1 and rs = "[]" and off = 0] reader_new_on [of "[106]"]
  by (simp add: find_delivery_retry_result_def find_delivery_loop_records)

lemma eg_appends:
  "append_unlocked zero_digest (in_append (eg_io True)) eg_writer [] (event_code MESSAGE_DELIVERED) (Some eg_payload) =
     (Some (Inr (0, 1)), eg_writer\<lparr>w_synced := length eg_bytes, w_next_sequence := 2, w_durable_end := length eg_bytes\<rparr>, eg_bytes)"
  "append_unlocked zero_digest (in_append (eg_io False)) eg_writer [] (event_code MESSAGE_DELIVERED) (Some eg_payload) =
     (Some (Inl (GError IO_ERRNO (Syscall ''fsync''))), eg_writer\<lparr>w_failed := True\<rparr>, eg_bytes)"
proof -
  have prog: "writes_progress (io_writes (in_append (eg_io b))) (length eg_bytes)" for b
    using length_eg_bytes(2) by (simp add: writes_progress_def eg_io_def)
  show "append_unlocked zero_digest (in_append (eg_io True)) eg_writer [] (event_code MESSAGE_DELIVERED) (Some eg_payload) =
     (Some (Inr (0, 1)), eg_writer\<lparr>w_synced := length eg_bytes, w_next_sequence := 2, w_durable_end := length eg_bytes\<rparr>, eg_bytes)"
    using append_progress [OF _ eg_event, of eg_writer "in_append (eg_io True)" zero_digest "Some eg_payload" "[]"] prog
    by (simp add: eg_writer_def eg_io_def eg_bytes_def length_eg_bytes(1) [unfolded eg_bytes_def, simplified])
  show "append_unlocked zero_digest (in_append (eg_io False)) eg_writer [] (event_code MESSAGE_DELIVERED) (Some eg_payload) =
     (Some (Inl (GError IO_ERRNO (Syscall ''fsync''))), eg_writer\<lparr>w_failed := True\<rparr>, eg_bytes)"
    using append_unsynced [OF _ eg_event, of eg_writer "in_append (eg_io False)" zero_digest "Some eg_payload" "[]"] prog
    by (simp add: eg_writer_def eg_io_def eg_bytes_def)
qed

definition eg_ingestor :: "journal_writer \<Rightarrow> eml_ingestor" where
  "eg_ingestor w = \<lparr>ig_store = eg_store, ig_writer = Some w\<rparr>"

lemma eg_ingest:
  obtains fs' where
    "ingest_delivery_bytes zero_digest (eg_io True) (eg_ingestor eg_writer) eg_data eg_args [] eg_fs =
       (Some (Inr (appended_result (compute_object_key zero_digest eg_data) 4 (0, 1))),
        eg_ingestor (eg_writer\<lparr>w_synced := length eg_bytes, w_next_sequence := 2, w_durable_end := length eg_bytes\<rparr>), eg_bytes, fs')"
    "ingest_delivery_bytes zero_digest (eg_io False) (eg_ingestor eg_writer) eg_data eg_args [] eg_fs =
       (Some (Inl (GError IO_ERRNO (Syscall ''fsync''))), eg_ingestor (eg_writer\<lparr>w_failed := True\<rparr>), eg_bytes, fs')"
proof -
  have "put_io_ok 4 = in_put (eg_io b)" for b by (simp add: eg_io_def)
  then obtain fs' where put: "put_bytes zero_digest (in_put (eg_io b)) eg_store eg_data eg_fs =
      (Some (Inr (compute_object_key zero_digest eg_data)), fs')" for b
    using put_bytes_progress [of eg_store eg_fs eg_data 4 zero_digest] zero_digest_ok
    by (auto simp: eg_store_def eg_fs_def eg_length)
  have find: "find_delivery_retry_result zero_digest (w_root eg_writer) [] key n eg_args = Inr None" for key n
    using eg_find by (simp add: eg_writer_def)
  have now: "in_now (eg_io b) = 5" for b by (simp add: eg_io_def)
  note enc = eg_encodes(1)
  show thesis
    by (rule that [of fs'])
      (simp_all add: eg_ingestor_def ingest_delivery_bytes_def eg_parses append_delivery_if_absent_locked_def Let_def find put
        eg_length enc now append_guarded_def eg_appends [unfolded event_code.simps] appended_result_def)
qed

lemma eg_reachable: "delivery_reachable zero_digest eg_store eg_open"
proof -
  have "writer_new zero_digest open_io_ok [106] (Some []) = (Inr eg_writer, Some [])"
    using writer_new_log [of "[106]" zero_digest "[]"] by (simp add: eg_writer_def)
  then have "journal_step zero_digest journal_init (journal_init\<lparr>j_file := [], j_writer := Some eg_writer\<rparr>)"
    by (intro step_open) (simp_all add: journal_init_def)
  then have step: "journal_step zero_digest journal_init (journal_init\<lparr>j_writer := Some eg_writer\<rparr>)"
    by (simp add: journal_init_def)
  have "delivery_step zero_digest eg_store \<lparr>ds_journal = journal_init, ds_files = eg_fs\<rparr> eg_open"
    using ds_other [of zero_digest "\<lparr>ds_journal = journal_init, ds_files = eg_fs\<rparr>", OF _ _, of "journal_init\<lparr>j_writer := Some eg_writer\<rparr>"] step
    by (simp add: eg_open_def journal_init_def)
  then show ?thesis
    using dr_step [OF dr_init [OF eg_store_ok]] by blast
qed

lemma eg_premises:
  "j_writer (ds_journal eg_open) = Some eg_writer" "j_file (ds_journal eg_open) = []" "ds_files eg_open = eg_fs"
  "race_ok sha data (in_put (eg_io b))" "ingest_fits zero_digest eg_writer [] eg_data (in_now (eg_io b)) eg_args"
proof -
  show "ingest_fits zero_digest eg_writer [] eg_data (in_now (eg_io b)) eg_args"
    using eg_encodes(1) length_eg_bytes(2)
    by (simp add: ingest_fits_def eg_parses eg_length append_fits_def eg_bytes_def eg_writer_def eg_io_def)
qed (simp_all add: eg_open_def journal_init_def eg_io_def)

lemma eg_synced: "j_synced (ds_journal eg_open) = 0"
  by (simp add: eg_open_def journal_init_def)

text \<open>The record that the delivery leaves, synced or not.\<close>

definition eg_record :: journal_record where
  "eg_record = \<lparr>rec_offset = 0, rec_sequence = 1, rec_event_type = event_code MESSAGE_DELIVERED, rec_payload = eg_payload\<rparr>"

lemma eg_recs: "recs_of zero_digest eg_bytes = [eg_record]"
  using recs_of_log [of zero_digest "[(event_code MESSAGE_DELIVERED, eg_payload)]"] eg_record_ok
  by (simp add: eg_bytes_def eg_record_def)

lemma eg_receipt:
  "receipt_for (compute_object_key zero_digest eg_data) (of_nat (length eg_data)) eg_args
     (appended_result (compute_object_key zero_digest eg_data) 4 (0, 1)) eg_record"
  using encoded_delivery [OF eg_parses eg_args_wf eg_encodes(1)] appended_receipt [of eg_payload _ _ 4 eg_args eg_record]
  by (auto simp: eg_record_def delivery_journaled_def eg_length)

section \<open>Deliveries\<close>

text \<open>
  C3. A delivery that is acknowledged after an append is durable: in every later state, through
  crashes, reopening, recovery, other appends and other deliveries, the journal holds a record
  with the position, the object key, the size and the envelope that the receipt names, and the
  object store holds the object under its name.
\<close>

theorem delivery_durable:
  assumes "delivery_reachable sha store st" "sha256_like sha" "j_writer (ds_journal st) = Some w" "args_wf d" "race_ok sha data (in_put io)"
    "ingest_fits sha w (j_file (ds_journal st)) data (in_now io) d"
    and "ingest_delivery_bytes sha io \<lparr>ig_store = store, ig_writer = Some w\<rparr> data d (j_file (ds_journal st)) (ds_files st) =
       (Some (Inr res), self', file', fs')"
    and "file' \<noteq> j_file (ds_journal st)"
    and later: "(delivery_step sha store)\<^sup>*\<^sup>*
       \<lparr>ds_journal = ingested sha (ds_journal st) (Some (Inr res)) self' file', ds_files = fs'\<rparr> st'"
  shows "\<exists>x \<in> set (recs_of sha (j_file (ds_journal st'))).
     receipt_for (compute_object_key sha data) (of_nat (length data)) d res x \<and> object_on_disk sha store (ds_files st') x"
proof -
  note inv = delivery_reachable_inv [OF assms(1,2)]
  obtain x metadata where x: "x \<in> set (j_acked (ingested sha (ds_journal st) (Some (Inr res)) self' file'))"
      "receipt_for (compute_object_key sha data) (of_nat (length data)) d res x"
    by (rule appended_acked [OF inv assms(2-8)])
  then have "delivery_journaled x" by (simp add: receipt_for_def)
  with acked_delivery_later [OF later assms(2) ingest_step(1) [OF inv assms(2-7)]] x show ?thesis by auto
qed

theorem delivery_durable_run:
  "\<exists>file' fs' self' (st' :: delivery_state) res. file' \<noteq> [] \<and>
     ingest_delivery_bytes zero_digest (eg_io True) (eg_ingestor eg_writer) eg_data eg_args [] eg_fs = (Some (Inr res), self', file', fs') \<and>
     j_writer (ds_journal st') = None \<and>
     (\<exists>x \<in> set (recs_of zero_digest (j_file (ds_journal st'))).
        receipt_for (compute_object_key zero_digest eg_data) 4 eg_args res x \<and> object_on_disk zero_digest eg_store (ds_files st') x)"
proof -
  let ?w = "eg_writer\<lparr>w_synced := length eg_bytes, w_next_sequence := 2, w_durable_end := length eg_bytes\<rparr>"
  let ?self = "eg_ingestor ?w"
  obtain fs' res where run: "ingest_delivery_bytes zero_digest (eg_io True) (eg_ingestor eg_writer) eg_data eg_args [] eg_fs =
      (Some (Inr res), ?self, eg_bytes, fs')"
    by (rule eg_ingest) blast
  have ne: "eg_bytes \<noteq> []" using length_eg_bytes(1) by auto
  let ?j = "ingested zero_digest (ds_journal eg_open) (Some (Inr res)) ?self eg_bytes"
  let ?st = "\<lparr>ds_journal = ?j, ds_files = fs'\<rparr>" and ?j' = "?j\<lparr>j_file := take (length eg_bytes) (j_file ?j), j_writer := None\<rparr>"
  have j: "j_file ?j = eg_bytes" "j_synced ?j = length eg_bytes"
    using ne by (simp_all add: ingested_def eg_premises eg_ingestor_def eg_synced)
  have "delivery_step zero_digest eg_store ?st (?st\<lparr>ds_journal := ?j'\<rparr>)"
    using step_crash [of ?j "length eg_bytes" zero_digest] j by (intro ds_other) simp_all
  then have "(delivery_step zero_digest eg_store)\<^sup>*\<^sup>* ?st (?st\<lparr>ds_journal := ?j'\<rparr>)"
    by (rule r_into_rtranclp)
  from delivery_durable [OF eg_reachable zero_digest_ok eg_premises(1) eg_args_wf eg_premises(4) [where b = True] _ _ _ this, where data = eg_data]
    run ne eg_premises
  have "\<exists>x \<in> set (recs_of zero_digest (j_file ?j')). receipt_for (compute_object_key zero_digest eg_data) 4 eg_args res x \<and>
      object_on_disk zero_digest eg_store fs' x"
    by (simp add: eg_ingestor_def eg_length)
  then have kept: "\<exists>x \<in> set (recs_of zero_digest (j_file (ds_journal (?st\<lparr>ds_journal := ?j'\<rparr>)))).
         receipt_for (compute_object_key zero_digest eg_data) 4 eg_args res x \<and>
         object_on_disk zero_digest eg_store (ds_files (?st\<lparr>ds_journal := ?j'\<rparr>)) x"
    by simp
  show ?thesis
  proof (intro exI conjI)
    show "eg_bytes \<noteq> []" by (rule ne)
    show "j_writer (ds_journal (?st\<lparr>ds_journal := ?j'\<rparr>)) = None" by simp
  qed (rule run, rule kept)
qed

text \<open>
  C4. A delivery is idempotent: once it is acknowledged after an append, the same request, in any
  later state with an open writer, is answered with the same receipt, and neither the journal nor
  the object store changes.
\<close>

theorem delivery_retry:
  assumes "delivery_reachable sha store st" "sha256_like sha" "j_writer (ds_journal st) = Some w" "args_wf d" "race_ok sha data (in_put io)"
    "ingest_fits sha w (j_file (ds_journal st)) data (in_now io) d"
    and "ingest_delivery_bytes sha io \<lparr>ig_store = store, ig_writer = Some w\<rparr> data d (j_file (ds_journal st)) (ds_files st) =
       (Some (Inr res), self', file', fs')"
    and "file' \<noteq> j_file (ds_journal st)"
    and later: "(delivery_step sha store)\<^sup>*\<^sup>*
       \<lparr>ds_journal = ingested sha (ds_journal st) (Some (Inr res)) self' file', ds_files = fs'\<rparr> st'"
    and w': "j_writer (ds_journal st') = Some w'" "w_root w' \<noteq> []" and di: "da_delivery_id d \<noteq> None"
  shows "ingest_delivery_bytes sha io' \<lparr>ig_store = store, ig_writer = Some w'\<rparr> data d (j_file (ds_journal st')) (ds_files st') =
     (Some (Inr res), \<lparr>ig_store = store, ig_writer = Some w'\<rparr>, j_file (ds_journal st'), ds_files st')"
proof -
  note inv = delivery_reachable_inv [OF assms(1,2)]
  obtain x metadata where x: "x \<in> set (j_acked (ingested sha (ds_journal st) (Some (Inr res)) self' file'))"
      "receipt_for (compute_object_key sha data) (of_nat (length data)) d res x" "metadata_parse_bytes data = Inr metadata"
    by (rule appended_acked [OF inv assms(2-8)])
  note inv' = ingest_step(1) [OF inv assms(2-7)]
  have "delivery_journaled x" using x(2) by (simp add: receipt_for_def)
  with acked_delivery_later(1) [OF later assms(2) inv'] x(1) have "x \<in> set (recs_of sha (j_file (ds_journal st')))" by auto
  with retry_answered [OF _ assms(2) w' x(3) _ x(2) di] delivery_steps [OF later assms(2) inv'] show ?thesis by blast
qed

theorem delivery_retry_run:
  "\<exists>file' fs' w' res. file' \<noteq> [] \<and>
     ingest_delivery_bytes zero_digest (eg_io True) (eg_ingestor eg_writer) eg_data eg_args [] eg_fs =
       (Some (Inr res), eg_ingestor w', file', fs') \<and>
     ingest_delivery_bytes zero_digest (eg_io False) (eg_ingestor w') eg_data eg_args file' fs' =
       (Some (Inr res), eg_ingestor w', file', fs')"
proof -
  let ?w = "eg_writer\<lparr>w_synced := length eg_bytes, w_next_sequence := 2, w_durable_end := length eg_bytes\<rparr>"
  obtain fs' res where run: "ingest_delivery_bytes zero_digest (eg_io True) (eg_ingestor eg_writer) eg_data eg_args [] eg_fs =
      (Some (Inr res), eg_ingestor ?w, eg_bytes, fs')"
    by (rule eg_ingest) blast
  have ne: "eg_bytes \<noteq> []" using length_eg_bytes(1) by auto
  let ?j = "ingested zero_digest (ds_journal eg_open) (Some (Inr res)) (eg_ingestor ?w) eg_bytes"
  have j: "j_file ?j = eg_bytes" "j_writer ?j = Some ?w"
    using ne by (simp_all add: ingested_def eg_premises eg_ingestor_def)
  have fits: "ingest_fits zero_digest eg_writer (j_file (ds_journal eg_open)) eg_data (in_now (eg_io True)) eg_args"
    and first: "ingest_delivery_bytes zero_digest (eg_io True) \<lparr>ig_store = eg_store, ig_writer = Some eg_writer\<rparr> eg_data eg_args
      (j_file (ds_journal eg_open)) (ds_files eg_open) = (Some (Inr res), eg_ingestor ?w, eg_bytes, fs')"
    and "eg_bytes \<noteq> j_file (ds_journal eg_open)" "w_root ?w \<noteq> []" "da_delivery_id eg_args \<noteq> None"
    and open_later: "j_writer (ds_journal \<lparr>ds_journal = ?j, ds_files = fs'\<rparr>) = Some ?w"
    using run ne eg_premises j by (simp_all add: eg_ingestor_def eg_writer_def eg_args_def)
  from delivery_retry [OF eg_reachable zero_digest_ok eg_premises(1) eg_args_wf eg_premises(4) fits first this(3)
      rtranclp.rtrancl_refl open_later this(4,5), where io' = "eg_io False"]
  have "ingest_delivery_bytes zero_digest (eg_io False) (eg_ingestor ?w) eg_data eg_args eg_bytes fs' =
      (Some (Inr res), eg_ingestor ?w, eg_bytes, fs')"
    using j by (simp add: eg_ingestor_def)
  with run ne show ?thesis by blast
qed

text \<open>
  C5. In every reachable state no two records of the journal carry the same delivery, every
  journaled delivery can be decoded, and the object that it names is on disk, under its name and
  with the digest that the name spells.
\<close>

theorem delivery_once:
  assumes "delivery_reachable sha store st" "sha256_like sha"
  shows "exactly_once (recs_of sha (j_file (ds_journal st))) \<and>
    (\<forall>x \<in> set (recs_of sha (j_file (ds_journal st))). delivery_journaled x \<longrightarrow> object_on_disk sha store (ds_files st) x)"
  using delivery_reachable_inv [OF assms] by (simp add: delivery_inv_def)

theorem delivery_once_run:
  "\<exists>st :: delivery_state. recs_of zero_digest (j_file (ds_journal st)) = [eg_record] \<and> delivery_journaled eg_record \<and>
     exactly_once [eg_record] \<and> object_on_disk zero_digest eg_store (ds_files st) eg_record"
proof -
  let ?w = "eg_writer\<lparr>w_synced := length eg_bytes, w_next_sequence := 2, w_durable_end := length eg_bytes\<rparr>"
  obtain fs' res where run: "ingest_delivery_bytes zero_digest (eg_io True) (eg_ingestor eg_writer) eg_data eg_args [] eg_fs =
      (Some (Inr res), eg_ingestor ?w, eg_bytes, fs')"
    by (rule eg_ingest) blast
  let ?st = "\<lparr>ds_journal = ingested zero_digest (ds_journal eg_open) (Some (Inr res)) (eg_ingestor ?w) eg_bytes, ds_files = fs'\<rparr>"
  have "delivery_step zero_digest eg_store eg_open ?st"
    by (rule ds_ingest [OF eg_premises(1) eg_args_wf eg_premises(4)]) (use run eg_premises(2,3,5) in \<open>simp_all add: eg_ingestor_def\<close>)
  from dr_step [OF eg_reachable this] have reach: "delivery_reachable zero_digest eg_store ?st" .
  have "eg_bytes \<noteq> []" using length_eg_bytes(1) by auto
  then have recs: "recs_of zero_digest (j_file (ds_journal ?st)) = [eg_record]"
    by (simp add: ingested_def eg_premises eg_recs)
  have "delivery_journaled eg_record"
    using eg_receipt by (simp add: receipt_for_def)
  with delivery_once [OF reach zero_digest_ok] recs show ?thesis
    by (intro exI [of _ ?st]) simp
qed

text \<open>
  C37. A retry can acknowledge a delivery that is not durable: when the sync of the first attempt
  fails, that attempt reports an error but its record stays in the file, the retry finds it and
  reports success without a sync, and a crash then leaves a journal without the delivery.
\<close>

theorem retry_acknowledges_unsynced:
  "\<exists>e res st st'. fst (ingest_delivery_bytes zero_digest (eg_io False) (eg_ingestor eg_writer) eg_data eg_args [] eg_fs) = Some (Inl e) \<and>
     delivery_step zero_digest eg_store eg_open st \<and>
     (\<exists>w. j_writer (ds_journal st) = Some w \<and>
        ingest_delivery_bytes zero_digest (eg_io True) (eg_ingestor w) eg_data eg_args (j_file (ds_journal st)) (ds_files st) =
          (Some (Inr res), eg_ingestor w, j_file (ds_journal st), ds_files st)) \<and>
     delivery_step zero_digest eg_store st st' \<and> recs_of zero_digest (j_file (ds_journal st')) = []"
proof -
  let ?w = "eg_writer\<lparr>w_failed := True\<rparr>"
  obtain fs' e where run: "ingest_delivery_bytes zero_digest (eg_io False) (eg_ingestor eg_writer) eg_data eg_args [] eg_fs =
      (Some (Inl e), eg_ingestor ?w, eg_bytes, fs')"
    by (rule eg_ingest) blast
  let ?j = "ingested zero_digest (ds_journal eg_open) (Some (Inl e)) (eg_ingestor ?w) eg_bytes"
  let ?st = "\<lparr>ds_journal = ?j, ds_files = fs'\<rparr>"
  let ?st' = "?st\<lparr>ds_journal := ?j\<lparr>j_file := take 0 (j_file ?j), j_writer := None\<rparr>\<rparr>"
  have j: "j_file ?j = eg_bytes" "j_synced ?j = 0" "j_writer ?j = Some ?w"
    by (simp_all add: ingested_def eg_open_def journal_init_def eg_ingestor_def)
  have step: "delivery_step zero_digest eg_store eg_open ?st"
    by (rule ds_ingest [OF eg_premises(1) eg_args_wf eg_premises(4)]) (use run eg_premises(2,3,5) in \<open>simp_all add: eg_ingestor_def\<close>)
  then have "delivery_inv zero_digest eg_store ?st"
    by (intro delivery_reachable_inv zero_digest_ok dr_step [OF eg_reachable])
  from retry_answered [OF this zero_digest_ok, where w = ?w and io = "eg_io True", OF _ _ eg_parses _ eg_receipt]
  have "ingest_delivery_bytes zero_digest (eg_io True) (eg_ingestor ?w) eg_data eg_args eg_bytes fs' =
      (Some (Inr (appended_result (compute_object_key zero_digest eg_data) 4 (0, 1))), eg_ingestor ?w, eg_bytes, fs')"
    using j eg_recs by (simp add: eg_ingestor_def eg_writer_def eg_length eg_receipt eg_args_def)
  moreover have none: "recs_of zero_digest [] = []"
    using recs_of_log [of zero_digest "[]"] by simp
  moreover have "delivery_step zero_digest eg_store ?st ?st'"
    using step_crash [of ?j 0 zero_digest] j none by (intro ds_other) simp_all
  ultimately show ?thesis
    using run step j by (intro exI [of _ e] exI exI [of _ ?st] exI [of _ ?st']) auto
qed

section \<open>Headers\<close>

text \<open>
  C38. The header parser reads a message as its lines say: it fails exactly when no empty line ends
  the header block, and otherwise the result is, for each known field, the first line with that
  name in any case, its continuation lines joined by one blank, with the number of further
  Message-ID fields and the offsets of the field. (The end of a field that ends the header block
  is reported one byte too early.)
\<close>

theorem eml_metadata_parsed:
  "(metadata_parse_bytes data = Inr m \<longleftrightarrow>
      (\<exists>n. stands data n separator \<and> (\<forall>k<n. \<not> stands data k separator) \<and>
         m = metadata_of (length data) n (block_fields data n))) \<and>
   (metadata_parse_bytes data = Inl e \<longleftrightarrow>
      (\<forall>k. \<not> stands data k separator) \<and> e = GError IO_INVALID_DATA Missing_separator)"
proof (cases "find_header_separator data")
  case None
  then have "\<forall>k. \<not> stands data k separator" by (simp add: find_header_separator_None)
  with None show ?thesis by (auto simp: metadata_parse_fields)
next
  case (Some n)
  then have n: "stands data n separator" "\<forall>k<n. \<not> stands data k separator"
    by (simp_all add: find_header_separator_Some)
  then have iff: "stands data k separator \<and> (\<forall>i<k. \<not> stands data i separator) \<longleftrightarrow> k = n" for k
    by (meson linorder_neqE_nat)
  from n(1) have "\<not> (\<forall>k. \<not> stands data k separator)" by blast
  with Some show ?thesis
    unfolding metadata_parse_fields conj_assoc [symmetric] iff by auto
qed

theorem eml_metadata_parsed_run:
  "metadata_parse_bytes eg_data = Inr (metadata_of 4 0 [])"
proof -
  have "block_fields eg_data 0 = []"
    by (simp add: block_fields_def line_table.simps)
  moreover have "stands eg_data 0 separator"
    by (simp add: eg_data_def)
  ultimately have "stands eg_data 0 separator \<and> (\<forall>k<0. \<not> stands eg_data k separator) \<and>
      metadata_of 4 0 [] = metadata_of (length eg_data) 0 (block_fields eg_data 0)"
    by (simp add: eg_length)
  then have "\<exists>n. stands eg_data n separator \<and> (\<forall>k<n. \<not> stands eg_data k separator) \<and>
      metadata_of 4 0 [] = metadata_of (length eg_data) n (block_fields eg_data n)"
    by blast
  with eml_metadata_parsed [of eg_data "metadata_of 4 0 []"] show ?thesis by blast
qed

text \<open>The end of a Message-ID field that is the last of the header block.\<close>

lemma last_span_short:
  assumes "first_field fs ''Message-ID'' = Some f" "hf_stop f = n" "0 < n"
  shows "em_message_id_span_end (metadata_of len n fs) = of_nat (n - 1)"
  using assms by (simp add: metadata_of_def first_stop_def reported_end_def)

end
