(* ===== verification/Mail_Event.thy ===== *)
theory Mail_Event
  imports Message_Delivered Flag_Changed Derived_View_Changed Journal_Writer Daemon_Frames Delivery_Request
begin

text \<open>
  The mail events of an account, all under \<^verbatim>\<open>src/wyrebox/daemon\<close>: the text that a journal record is
  projected to (\<^verbatim>\<open>wyrebox-daemon-mail-event.c\<close>), the request for the next event
  (\<^verbatim>\<open>-mail-event-stream-request.c\<close>), the classes of clients (\<^verbatim>\<open>-client-identity.c\<close>) and the service
  that reads the journal up to its durable end (\<^verbatim>\<open>-mail-event-stream-service.c\<close>).
\<close>

section \<open>The text of an event\<close>

definition upper_hex_digit :: "nat \<Rightarrow> byte" where
  "upper_hex_digit d = (if d < 10 then of_nat (48 + d) else of_nat (55 + d))"

definition event_escape :: "byte \<Rightarrow> bytes" where
  "event_escape c =
     (if c = 37 \<or> c < 32 \<or> c = 127 then [37, upper_hex_digit (unat c div 16), upper_hex_digit (unat c mod 16)] else [c])"

definition event_value :: "bytes \<Rightarrow> bytes" where
  "event_value value = concat (map event_escape value)"

definition event_field :: "string \<Rightarrow> bytes \<Rightarrow> bytes" where
  "event_field key value = lit key @ lit ''='' @ event_value value @ [10]"

definition event_uint64_field :: "string \<Rightarrow> u64 \<Rightarrow> bytes" where
  "event_uint64_field key value = lit key @ lit ''='' @ print_u64 value @ [10]"

fun event_values :: "bytes list \<Rightarrow> bytes" where
  "event_values [] = []"
| "event_values [v] = event_value v"
| "event_values (v # w # vs) = event_value v @ lit '' '' @ event_values (w # vs)"

definition event_strv_field :: "string \<Rightarrow> strv \<Rightarrow> bytes" where
  "event_strv_field key values = lit key @ lit ''='' @ event_values (strv_items values) @ [10]"

definition MAIL_EVENT_MAGIC :: bytes where
  "MAIL_EVENT_MAGIC = lit ''wyrebox-mail-event/1''"

definition new_event :: "journal_record \<Rightarrow> bytes \<Rightarrow> bytes" where
  "new_event record account =
     MAIL_EVENT_MAGIC @ [10] @ event_uint64_field ''offset'' (of_nat (rec_offset record)) @
     event_uint64_field ''sequence'' (rec_sequence record) @
     event_field ''event_type'' (the (event_type_to_string (rec_event_type record))) @
     event_field ''account'' account"

section \<open>Projections\<close>

text \<open>
  \<open>None\<close> is a record that is not part of the account's stream. The strings that a projection
  prints without a check are required by the decoder, so they are never NULL.
\<close>

definition project_delivery :: "journal_record \<Rightarrow> bytes \<Rightarrow> bytes option result" where
  "project_delivery record account_identity =
     bindE (md_decode (rec_payload record)) (\<lambda>payload.
       if md_account_identity payload \<noteq> Some account_identity then Inr None
       else Inr (Some (new_event record (the (md_account_identity payload)) @
              (case md_delivery_id payload of None \<Rightarrow> [] | Some d \<Rightarrow> event_field ''delivery_id'' d) @
              event_uint64_field ''size_bytes'' (md_size_bytes payload) @
              event_uint64_field ''internal_date_unix_us'' (md_internal_date_unix_us payload))))"

definition flag_mode_name :: "nat \<Rightarrow> bytes option" where
  "flag_mode_name mode =
     (if mode = FLAG_MODE_SET then Some (lit ''set'')
      else if mode = FLAG_MODE_CLEAR then Some (lit ''clear'')
      else if mode = FLAG_MODE_REPLACE then Some (lit ''replace'')
      else None)"

definition project_flag_change :: "journal_record \<Rightarrow> bytes \<Rightarrow> bytes option result" where
  "project_flag_change record account_identity =
     bindE (fc_decode (rec_payload record)) (\<lambda>payload.
       if fc_account_id payload \<noteq> Some account_identity then Inr None
       else case flag_mode_name (fc_mode payload) of
              None \<Rightarrow> Inl Abort
            | Some mode \<Rightarrow>
                Inr (Some (new_event record (the (fc_account_id payload)) @
                  event_field ''mailbox_id'' (the (fc_mailbox_id payload)) @
                  event_uint64_field ''uidvalidity'' (fc_uidvalidity payload) @
                  event_uint64_field ''uid'' (fc_uid payload) @
                  event_field ''mode'' mode @
                  event_strv_field ''system_flags'' (fc_system_flags payload) @
                  event_strv_field ''user_keywords'' (fc_user_keywords payload))))"

definition project_derived_view_membership :: "journal_record \<Rightarrow> bytes \<Rightarrow> bytes option result" where
  "project_derived_view_membership record account_identity =
     bindE (dv_decode (rec_payload record)) (\<lambda>payload.
       if dv_account_id payload \<noteq> Some account_identity then Inr None
       else Inr (Some (new_event record (the (dv_account_id payload)) @
              event_field ''view_id'' (the (dv_view_id payload)) @
              event_uint64_field ''uidvalidity'' (dv_uidvalidity payload) @
              event_uint64_field ''uid'' (dv_uid payload) @
              event_field ''message_id'' (the (dv_message_id payload)) @
              event_field ''is_visible'' (if dv_is_visible payload then lit ''true'' else lit ''false''))))"

definition mail_event_project :: "journal_record \<Rightarrow> bytes \<Rightarrow> bytes option result" where
  "mail_event_project record account_identity =
     (let projection =
            (if rec_event_type record = event_code MESSAGE_DELIVERED then project_delivery record account_identity
             else if rec_event_type record = event_code FLAG_CHANGED then project_flag_change record account_identity
             else if rec_event_type record = event_code DERIVED_VIEW_MEMBERSHIP_CHANGED
             then project_derived_view_membership record account_identity
             else Inr None)
      in case projection of
           Inl Abort \<Rightarrow> Inl Abort
         | Inl (GError _ _) \<Rightarrow> Inl (GError IO_INVALID_DATA Undecodable)
         | Inr event \<Rightarrow> Inr event)"

section \<open>The request\<close>

record mail_event_stream_request =
  es_account_identity :: bytes
  es_mailbox_identity :: cstring
  es_message_id :: cstring
  es_event_type :: cstring
  es_after_journal_offset :: u64
  es_after_journal_sequence :: u64
  es_after_unix_us :: u64
  es_before_unix_us :: u64

definition es_validate_required_text :: "string \<Rightarrow> cstring \<Rightarrow> unit result" where
  "es_validate_required_text field_name value = required_text field_name value"

definition validate_journal_cursor :: "u64 \<Rightarrow> u64 \<Rightarrow> unit result" where
  "validate_journal_cursor after_journal_offset after_journal_sequence =
     failIf (after_journal_offset \<noteq> 0 \<and> after_journal_sequence = 0) (GError IO_INVALID_ARGUMENT (Required ''after_journal_sequence''))"

definition mail_event_stream_request_init ::
  "cstring \<Rightarrow> cstring \<Rightarrow> cstring \<Rightarrow> cstring \<Rightarrow> u64 \<Rightarrow> u64 \<Rightarrow> u64 \<Rightarrow> u64 \<Rightarrow> mail_event_stream_request result" where
  "mail_event_stream_request_init account_identity mailbox_identity message_id event_type after_journal_offset
     after_journal_sequence after_unix_us before_unix_us =
     bindE (es_validate_required_text ''account_identity'' account_identity) (\<lambda>_.
     bindE (if mailbox_identity = None then Inr () else es_validate_required_text ''mailbox_identity'' mailbox_identity) (\<lambda>_.
     bindE (if message_id = None then Inr () else es_validate_required_text ''message_id'' message_id) (\<lambda>_.
     bindE (if event_type = None then Inr () else es_validate_required_text ''event_type'' event_type) (\<lambda>_.
     bindE (validate_journal_cursor after_journal_offset after_journal_sequence) (\<lambda>_.
       if after_unix_us \<noteq> 0 \<and> before_unix_us \<noteq> 0 \<and> after_unix_us > before_unix_us
       then Inl (GError IO_INVALID_ARGUMENT (Out_of_order ''after_unix_us''))
       else Inr \<lparr>es_account_identity = the account_identity, es_mailbox_identity = mailbox_identity,
                 es_message_id = message_id, es_event_type = event_type,
                 es_after_journal_offset = after_journal_offset, es_after_journal_sequence = after_journal_sequence,
                 es_after_unix_us = after_unix_us, es_before_unix_us = before_unix_us\<rparr>)))))"

section \<open>Classes of clients\<close>

datatype client_class = CLIENT_UNKNOWN | CLIENT_ADMIN_CLI | CLIENT_TRUSTED_TOOL | CLIENT_POSTFIX_HELPER | CLIENT_DOVECOT_PLUGIN

definition classify_name :: "cstring \<Rightarrow> client_class" where
  "classify_name caller_identity =
     (if caller_identity = Some (lit ''admin-cli'') then CLIENT_ADMIN_CLI
      else if caller_identity = Some (lit ''trusted-tool'') then CLIENT_TRUSTED_TOOL
      else if caller_identity = Some (lit ''postfix-helper'') then CLIENT_POSTFIX_HELPER
      else if caller_identity = Some (lit ''dovecot'') then CLIENT_DOVECOT_PLUGIN
      else if caller_identity = Some (lit ''dovecot-plugin'') then CLIENT_DOVECOT_PLUGIN
      else CLIENT_UNKNOWN)"

definition classify_request :: "request_identity \<Rightarrow> client_class" where
  "classify_request identity = classify_name (ri_caller_identity identity)"

definition client_class_to_name :: "client_class \<Rightarrow> bytes" where
  "client_class_to_name c =
     (case c of
        CLIENT_ADMIN_CLI \<Rightarrow> lit ''admin-cli''
      | CLIENT_TRUSTED_TOOL \<Rightarrow> lit ''trusted-tool''
      | CLIENT_POSTFIX_HELPER \<Rightarrow> lit ''postfix-helper''
      | CLIENT_DOVECOT_PLUGIN \<Rightarrow> lit ''dovecot-plugin''
      | CLIENT_UNKNOWN \<Rightarrow> lit ''unknown'')"

definition can_query_controlled_views :: "client_class \<Rightarrow> bool" where
  "can_query_controlled_views c \<longleftrightarrow> c = CLIENT_ADMIN_CLI \<or> c = CLIENT_TRUSTED_TOOL"

definition can_mutate_facts :: "client_class \<Rightarrow> bool" where
  "can_mutate_facts c \<longleftrightarrow> c = CLIENT_TRUSTED_TOOL"

definition can_export_datasets :: "client_class \<Rightarrow> bool" where
  "can_export_datasets c \<longleftrightarrow> c = CLIENT_ADMIN_CLI \<or> c = CLIENT_TRUSTED_TOOL"

definition can_read_mail_events :: "client_class \<Rightarrow> bool" where
  "can_read_mail_events c \<longleftrightarrow> c = CLIENT_ADMIN_CLI \<or> c = CLIENT_TRUSTED_TOOL \<or> c = CLIENT_DOVECOT_PLUGIN"

section \<open>The stream\<close>

definition authorize_mail_event_stream_identity :: "request_identity \<Rightarrow> mail_event_stream_request \<Rightarrow> unit result" where
  "authorize_mail_event_stream_identity identity request =
     (if \<not> can_read_mail_events (classify_request identity) then Inl (GError IO_PERMISSION_DENIED Not_authorized)
      else failIf (ri_account_identity identity \<noteq> Some (es_account_identity request))
             (GError IO_PERMISSION_DENIED Out_of_scope))"

definition validate_mail_event_stream_chunk :: "request_identity \<Rightarrow> stream_chunk_frame \<Rightarrow> unit result" where
  "validate_mail_event_stream_chunk identity chunk =
     (if null_or_empty (sc_request_id chunk) then Inl (GError IO_INVALID_ARGUMENT (Required ''request_id''))
      else if sc_request_id chunk \<noteq> Some (ri_request_id identity) then Inl (GError IO_INVALID_ARGUMENT Identity_mismatch)
      else if \<not> null_or_empty (sc_message_id chunk) then Inl (GError IO_INVALID_ARGUMENT (Unsupported ''message_id''))
      else if \<not> null_or_empty (sc_query_id chunk) \<and> sc_query_id chunk \<noteq> Some (lit ''mail-event-stream'')
      then Inl (GError IO_INVALID_ARGUMENT (Invalid_value ''query_id''))
      else failIf (sc_correlation_id chunk \<noteq> None \<and> sc_correlation_id chunk \<noteq> ri_correlation_id identity)
             (GError IO_INVALID_ARGUMENT Identity_mismatch))"

definition journal_event_matches_request :: "journal_record \<Rightarrow> mail_event_stream_request \<Rightarrow> bool" where
  "journal_event_matches_request record request \<longleftrightarrow>
     \<not> (es_after_journal_sequence request \<noteq> 0 \<and> of_nat (rec_offset record) \<le> es_after_journal_offset request) \<and>
     \<not> (es_event_type request \<noteq> None \<and> es_event_type request \<noteq> event_type_to_string (rec_event_type record))"

text \<open>The loop over the reader: the record to show with its event, if there is one.\<close>

function next_event_loop ::
  "(bytes \<Rightarrow> bytes) \<Rightarrow> mail_event_stream_request \<Rightarrow> journal_reader \<Rightarrow> (journal_record \<times> bytes) option result" where
  "next_event_loop sha request reader =
     (case read_next sha reader of
        (Failed e, _) \<Rightarrow> Inl e
      | (At_eof, _) \<Rightarrow> Inr None
      | (Got record, reader1) \<Rightarrow>
          if journal_event_matches_request record request
          then case mail_event_project record (es_account_identity request) of
                 Inl e \<Rightarrow> Inl e
               | Inr (Some event) \<Rightarrow> Inr (Some (record, event))
               | Inr None \<Rightarrow> next_event_loop sha request reader1
          else next_event_loop sha request reader1)"
  by auto
termination
  by (relation "measure (\<lambda>(sha, q, r). rd_file_size r - rd_offset r)")
    (auto dest!: sym [of "(_, _)"] read_next_advances)

declare next_event_loop.simps [simp del]

text \<open>A source: the root directory and the writer that bounds the reader, if the service has one.\<close>

record journal_source =
  js_root_dir :: bytes
  js_writer :: "journal_writer option"

definition read_next_matching_journal_event ::
  "(bytes \<Rightarrow> bytes) \<Rightarrow> journal_source \<Rightarrow> bytes option \<Rightarrow> request_identity \<Rightarrow> mail_event_stream_request \<Rightarrow>
   stream_chunk_frame result" where
  "read_next_matching_journal_event sha source segment identity request =
     bindE (case js_writer source of
              Some w \<Rightarrow> reader_new_with_limit (js_root_dir source) segment (get_durable_end w)
            | None \<Rightarrow> reader_new (js_root_dir source) segment) (\<lambda>reader.
     bindE (next_event_loop sha request reader) (\<lambda>found.
       case found of
         Some (record, event) \<Rightarrow>
           stream_chunk_frame_init (Some (ri_request_id identity)) None (Some (lit ''mail-event-stream''))
             (ri_correlation_id identity) (of_nat (rec_offset record)) (Some event) False
       | None \<Rightarrow>
           stream_chunk_frame_init (Some (ri_request_id identity)) None (Some (lit ''mail-event-stream''))
             (ri_correlation_id identity) 0 None True))"

definition new_for_journal :: "cstring \<Rightarrow> journal_writer option \<Rightarrow> journal_source result" where
  "new_for_journal journal_root_dir journal_writer =
     (if null_or_empty journal_root_dir then Inl (GError IO_INVALID_ARGUMENT (Required ''journal root''))
      else Inr \<lparr>js_root_dir = the journal_root_dir, js_writer = journal_writer\<rparr>)"

text \<open>\<open>func\<close> is the source the service was made with.\<close>

definition mail_event_stream_handle_identity ::
  "(request_identity \<Rightarrow> mail_event_stream_request \<Rightarrow> stream_chunk_frame result) \<Rightarrow>
   request_identity \<Rightarrow> mail_event_stream_request \<Rightarrow> response_frame result" where
  "mail_event_stream_handle_identity func identity request =
     bindE (authorize_mail_event_stream_identity identity request) (\<lambda>_.
     bindE (func identity request) (\<lambda>chunk.
     bindE (validate_mail_event_stream_chunk identity chunk) (\<lambda>_.
     bindE (stream_chunk_frame_init (Some (ri_request_id identity)) None (Some (lit ''mail-event-stream''))
              (ri_correlation_id identity) (sc_chunk_index chunk) (sc_bytes chunk) (sc_end_of_stream chunk)) (\<lambda>response_chunk.
       response_frame_init_stream_chunk response_chunk))))"

section \<open>What the stream is made of\<close>

text \<open>The events of a list of records, whatever the cursor of the request.\<close>

definition type_wanted :: "mail_event_stream_request \<Rightarrow> journal_record \<Rightarrow> bool" where
  "type_wanted q r \<longleftrightarrow> es_event_type q = None \<or> es_event_type q = event_type_to_string (rec_event_type r)"

definition behind_cursor :: "mail_event_stream_request \<Rightarrow> journal_record \<Rightarrow> bool" where
  "behind_cursor q r \<longleftrightarrow> es_after_journal_sequence q = 0 \<or> es_after_journal_offset q < of_nat (rec_offset r)"

definition stream_events :: "mail_event_stream_request \<Rightarrow> journal_record list \<Rightarrow> (journal_record \<times> bytes) list" where
  "stream_events q recs =
     List.map_filter (\<lambda>r. if type_wanted q r
       then case mail_event_project r (es_account_identity q) of Inr (Some e) \<Rightarrow> Some (r, e) | _ \<Rightarrow> None
       else None) recs"

definition projects :: "mail_event_stream_request \<Rightarrow> journal_record \<Rightarrow> bool" where
  "projects q r \<longleftrightarrow> (type_wanted q r \<longrightarrow> (\<exists>e. mail_event_project r (es_account_identity q) = Inr e))"

fun next_event :: "mail_event_stream_request \<Rightarrow> journal_record list \<Rightarrow> (journal_record \<times> bytes) option result" where
  "next_event q [] = Inr None"
| "next_event q (r # rs) =
     (if journal_event_matches_request r q
      then case mail_event_project r (es_account_identity q) of
             Inl e \<Rightarrow> Inl e
           | Inr (Some event) \<Rightarrow> Inr (Some (r, event))
           | Inr None \<Rightarrow> next_event q rs
      else next_event q rs)"

lemma matches_iff: "journal_event_matches_request r q \<longleftrightarrow> behind_cursor q r \<and> type_wanted q r"
  by (auto simp: journal_event_matches_request_def behind_cursor_def type_wanted_def not_le)

lemma next_event_loop_records:
  "next_event_loop sha q reader =
     (case read_all sha reader of
        (recs, e, _) \<Rightarrow>
          (case next_event q recs of
             Inr None \<Rightarrow> (case e of None \<Rightarrow> Inr None | Some err \<Rightarrow> Inl err)
           | answer \<Rightarrow> answer))"
proof (induction sha q reader rule: next_event_loop.induct)
  case (1 sha q reader)
  obtain o' reader1 where rd: "read_next sha reader = (o', reader1)"
    by (cases "read_next sha reader")
  show ?case
  proof (cases o')
    case (Got r)
    note got = rd [unfolded Got]
    obtain recs e z where all: "read_all sha reader1 = (recs, e, z)"
      by (metis prod.exhaust)
    have IH: "journal_event_matches_request r q \<Longrightarrow> mail_event_project r (es_account_identity q) = Inr None \<Longrightarrow>
          next_event_loop sha q reader1 = (case next_event q recs of
             Inr None \<Rightarrow> (case e of None \<Rightarrow> Inr None | Some err \<Rightarrow> Inl err) | answer \<Rightarrow> answer)"
        "\<not> journal_event_matches_request r q \<Longrightarrow>
          next_event_loop sha q reader1 = (case next_event q recs of
             Inr None \<Rightarrow> (case e of None \<Rightarrow> Inr None | Some err \<Rightarrow> Inl err) | answer \<Rightarrow> answer)"
      using 1(1) [OF got [symmetric] refl] 1(2) [OF got [symmetric] refl] all by simp_all
    show ?thesis
    proof (cases "journal_event_matches_request r q")
      case True
      then show ?thesis
        using got all IH(1) by (subst next_event_loop.simps)
          (auto simp: read_all_Got split: sum.splits option.splits)
    next
      case False
      then show ?thesis
        using got all IH(2) by (subst next_event_loop.simps) (simp add: read_all_Got)
    qed
  qed (use rd in \<open>(subst next_event_loop.simps, simp add: read_all_At_eof read_all_Failed)+\<close>)
qed

lemma stream_events_simps [simp]:
  "stream_events q [] = []"
  "stream_events q (r # rs) =
     (if type_wanted q r
      then case mail_event_project r (es_account_identity q) of Inr (Some e) \<Rightarrow> (r, e) # stream_events q rs | _ \<Rightarrow> stream_events q rs
      else stream_events q rs)"
  by (auto simp: stream_events_def List.map_filter_def split: sum.split option.split)

lemma stream_events_filter: "stream_events q (filter P recs) = filter (P \<circ> fst) (stream_events q recs)"
  by (induction recs) (auto split: sum.split option.split)

lemma stream_events_subset: "(r, e) \<in> set (stream_events q recs) \<Longrightarrow> r \<in> set recs"
  by (induction recs) (auto split: if_splits sum.splits option.splits)

lemma stream_events_sorted:
  "sorted_wrt (<) (map rec_offset recs) \<Longrightarrow> sorted_wrt (\<lambda>x y. rec_offset (fst x) < rec_offset (fst y)) (stream_events q recs)"
  by (induction recs) (auto dest: stream_events_subset split: sum.split option.split)

lemma next_event_ok:
  "list_all (projects q) recs \<Longrightarrow>
   next_event q recs = Inr (case stream_events q (filter (behind_cursor q) recs) of [] \<Rightarrow> None | x # _ \<Rightarrow> Some x)"
proof (induction recs)
  case (Cons r recs)
  then have IH: "next_event q recs = Inr (case stream_events q (filter (behind_cursor q) recs) of [] \<Rightarrow> None | x # _ \<Rightarrow> Some x)"
    and r: "projects q r" by simp_all
  show ?case
  proof (cases "journal_event_matches_request r q")
    case True
    then obtain e where "mail_event_project r (es_account_identity q) = Inr e"
      using r by (auto simp: projects_def matches_iff)
    with True IH show ?thesis
      by (cases e) (simp_all add: matches_iff)
  qed (use IH in \<open>auto simp: matches_iff\<close>)
qed simp

section \<open>Answers\<close>

definition identity_text :: "request_identity \<Rightarrow> bool" where
  "identity_text identity \<longleftrightarrow> text_ok (ri_request_id identity) \<and>
     (\<forall>c. ri_correlation_id identity = Some c \<longrightarrow> no_controls c)"

definition stream_chunk :: "request_identity \<Rightarrow> u64 \<Rightarrow> bytes \<Rightarrow> bool \<Rightarrow> stream_chunk_frame" where
  "stream_chunk identity index event end_of_stream =
     \<lparr>sc_request_id = Some (ri_request_id identity), sc_message_id = None, sc_query_id = Some (lit ''mail-event-stream''),
      sc_correlation_id = copy_optional (ri_correlation_id identity), sc_chunk_index = index, sc_bytes = Some event,
      sc_end_of_stream = end_of_stream\<rparr>"

lemma stream_chunk_simps [simp]:
  "sc_chunk_index (stream_chunk identity index event eos) = index" "sc_bytes (stream_chunk identity index event eos) = Some event"
  "sc_end_of_stream (stream_chunk identity index event eos) = eos"
  by (simp_all add: stream_chunk_def)

lemma query_id_ok: "no_controls (lit ''mail-event-stream'')"
  by (simp add: no_controls_def lit_def g_ascii_iscntrl_def)

lemma stream_chunk_init:
  assumes "identity_text identity" "end_of_stream \<or> (data \<noteq> None \<and> data \<noteq> Some [])"
  shows "stream_chunk_frame_init (Some (ri_request_id identity)) None (Some (lit ''mail-event-stream'')) (ri_correlation_id identity)
     index data end_of_stream = Inr (stream_chunk identity index (case data of None \<Rightarrow> [] | Some b \<Rightarrow> b) end_of_stream)"
proof -
  have "optional_text f (Some (lit ''mail-event-stream'')) = Inr ()" "optional_text f (Some (ri_request_id identity)) = Inr ()"
    "optional_text f (ri_correlation_id identity) = Inr ()" for f
    using assms(1) query_id_ok by (auto simp: identity_text_def result_simps text_ok_iff)
  moreover have "optional_text f None = Inr ()" for f by (simp add: result_simps)
  ultimately show ?thesis
    using assms by (auto simp: stream_chunk_frame_init_def stream_chunk_def sc_validate_text_field_def identity_text_def text_ok_iff
        lit_def Let_def)
qed

lemma stream_chunk_copy:
  assumes "identity_text identity" "end_of_stream \<or> event \<noteq> []"
  shows "response_frame_init_stream_chunk (stream_chunk identity index event end_of_stream) =
     Inr (empty_response_frame\<lparr>rf_stream_chunk := stream_chunk identity index event end_of_stream,
            rf_request_id := Some (ri_request_id identity), rf_correlation_id := copy_optional (ri_correlation_id identity),
            rf_kind := RESPONSE_STREAM_CHUNK\<rparr>)"
proof -
  have "identity_text (identity\<lparr>ri_correlation_id := copy_optional (ri_correlation_id identity)\<rparr>)"
    using assms(1) by (auto simp: identity_text_def copy_optional_def split: if_splits)
  from stream_chunk_init [OF this, of end_of_stream "Some event" index] assms(2)
  have "copy_stream_chunk_frame (stream_chunk identity index event end_of_stream) =
      Inr (stream_chunk identity index event end_of_stream)"
    by (simp add: copy_stream_chunk_frame_def stream_chunk_def)
  then show ?thesis
    by (simp add: response_frame_init_stream_chunk_def stream_chunk_def)
qed

text \<open>What an authorized request is answered, by what the journal's reader returns.\<close>

definition stream_response :: "request_identity \<Rightarrow> (journal_record \<times> bytes) option \<Rightarrow> response_frame" where
  "stream_response identity found =
     empty_response_frame\<lparr>rf_stream_chunk :=
         (case found of Some (r, e) \<Rightarrow> stream_chunk identity (of_nat (rec_offset r)) e False
          | None \<Rightarrow> stream_chunk identity 0 [] True),
       rf_request_id := Some (ri_request_id identity), rf_correlation_id := copy_optional (ri_correlation_id identity),
       rf_kind := RESPONSE_STREAM_CHUNK\<rparr>"

lemma new_event_nonempty: "new_event r a \<noteq> []"
  by (simp add: new_event_def MAIL_EVENT_MAGIC_def)

lemma project_nonempty: "mail_event_project r a = Inr (Some e) \<Longrightarrow> e \<noteq> []"
  by (auto simp: mail_event_project_def project_delivery_def project_flag_change_def project_derived_view_membership_def
      bindE_Inr_iff new_event_nonempty split: sum.splits gerror.splits if_splits option.splits)

lemma next_event_nonempty: "next_event q recs = Inr (Some (r, e)) \<Longrightarrow> e \<noteq> []"
  by (induction recs) (auto split: if_splits sum.splits option.splits dest: project_nonempty)

lemma validate_stream_chunk:
  "identity_text identity \<Longrightarrow> validate_mail_event_stream_chunk identity (stream_chunk identity index event eos) = Inr ()"
  by (auto simp: validate_mail_event_stream_chunk_def stream_chunk_def identity_text_def text_ok_iff copy_optional_def lit_def)

lemma mail_event_stream_answer:
  assumes "identity_text identity" "authorize_mail_event_stream_identity identity q = Inr ()"
    and "(case js_writer source of Some w \<Rightarrow> reader_new_with_limit (js_root_dir source) segment (get_durable_end w)
          | None \<Rightarrow> reader_new (js_root_dir source) segment) = Inr r"
    and "read_all sha r = (recs, None, r')"
  shows "mail_event_stream_handle_identity (read_next_matching_journal_event sha source segment) identity q =
     bindE (next_event q recs) (\<lambda>found. Inr (stream_response identity found))"
proof (cases "next_event q recs")
  case (Inl e)
  then have "next_event_loop sha q r = Inl e"
    using assms(4) by (simp add: next_event_loop_records)
  with Inl assms(2,3) show ?thesis
    by (simp add: mail_event_stream_handle_identity_def read_next_matching_journal_event_def)
next
  case (Inr found)
  then have loop: "next_event_loop sha q r = Inr found"
    using assms(4) by (cases found) (simp_all add: next_event_loop_records)
  show ?thesis
  proof (cases found)
    case None
    with loop Inr assms(1-3) show ?thesis
      by (simp add: mail_event_stream_handle_identity_def read_next_matching_journal_event_def stream_chunk_init
          validate_stream_chunk stream_chunk_copy stream_response_def)
  next
    case (Some x)
    obtain rc e where x: "x = (rc, e)" by (cases x)
    with Some Inr next_event_nonempty have "e \<noteq> []" by blast
    with loop Inr Some x assms(1-3) show ?thesis
      by (simp add: mail_event_stream_handle_identity_def read_next_matching_journal_event_def stream_chunk_init
          validate_stream_chunk stream_chunk_copy stream_response_def)
  qed
qed

end
