(* ===== verification/Mail_Event_Properties.thy ===== *)
theory Mail_Event_Properties
  imports Mail_Event Ingestion_Properties
begin

text \<open>
  What a client of the mail event stream can rely on: polling returns every event of its account
  once and in order, and an event says exactly what it is meant to say.
\<close>

section \<open>Lines\<close>

lemma line_split:
  "10 \<notin> set a \<Longrightarrow> 10 \<notin> set b \<Longrightarrow> a @ (10 :: byte) # x = b @ 10 # y \<longleftrightarrow> a = b \<and> x = y"
proof (induction a arbitrary: b)
  case Nil
  then show ?case by (cases b) auto
next
  case (Cons c a)
  then show ?case by (cases b) auto
qed

lemma unat_upper_hex_digit: "d < 16 \<Longrightarrow> unat (upper_hex_digit d) = (if d < 10 then 48 + d else 55 + d)"
  unfolding upper_hex_digit_def by (simp del: of_nat_add add: unat_of_nat take_bit_eq_mod)

lemma upper_hex_digit_inj:
  assumes "c < 16" "d < 16"
  shows "upper_hex_digit c = upper_hex_digit d \<longleftrightarrow> c = d"
proof
  assume "upper_hex_digit c = upper_hex_digit d"
  then have "(if c < 10 then 48 + c else 55 + c) = (if d < 10 then 48 + d else 55 + d)"
    using unat_upper_hex_digit assms by metis
  with assms show "c = d" by (simp split: if_splits)
qed simp

lemma upper_hex_digit_not_newline: "d < 16 \<Longrightarrow> upper_hex_digit d \<noteq> 10"
  using unat_upper_hex_digit [of d] by (auto split: if_splits)

lemma byte_digits: "unat (c :: byte) div 16 < 16" "unat c mod 16 < 16"
proof -
  have "unat c < 256" using unsigned_less [of c] by simp
  then show "unat c div 16 < 16" "unat c mod 16 < 16" by auto
qed

lemma event_escape_inj: "event_escape c @ x = event_escape d @ y \<longleftrightarrow> c = d \<and> x = y"
proof -
  have "c = d" if "unat c div 16 = unat d div 16" "unat c mod 16 = unat d mod 16"
    using that by (metis div_mult_mod_eq unsigned_word_eqI)
  then show ?thesis
    by (auto simp: event_escape_def upper_hex_digit_inj byte_digits split: if_splits)
qed

lemma event_value_inj: "event_value v = event_value w \<longleftrightarrow> v = w"
proof (induction v arbitrary: w)
  case Nil
  then show ?case by (cases w) (auto simp: event_value_def event_escape_def)
next
  case (Cons c v)
  show ?case
  proof (cases w)
    case Nil
    then show ?thesis by (auto simp: event_value_def event_escape_def)
  next
    case (Cons d w')
    have "event_value (c # v) = event_escape c @ event_value v" "event_value (d # w') = event_escape d @ event_value w'"
      by (simp_all add: event_value_def)
    with Cons Cons.IH [of w'] show ?thesis
      by (simp add: event_escape_inj)
  qed
qed

lemma event_value_no_newline: "10 \<notin> set (event_value v)"
  by (induction v) (auto simp: event_value_def event_escape_def upper_hex_digit_not_newline [THEN not_sym] byte_digits)

lemma print_u64_no_newline: "10 \<notin> set (print_u64 n)"
  using print_nat_digits [of "unat n"] by (auto simp: print_u64_def list_all_iff g_ascii_isdigit_def)

lemma event_field_inj: "event_field k v @ x = event_field k w @ y \<longleftrightarrow> v = w \<and> x = y"
  by (simp add: event_field_def line_split event_value_no_newline event_value_inj)

lemma event_uint64_inj: "event_uint64_field k v @ x = event_uint64_field k w @ y \<longleftrightarrow> v = w \<and> x = y"
  by (simp add: event_uint64_field_def line_split print_u64_no_newline) (simp add: print_u64_def print_nat_inj word_unat_eq_iff)

lemma event_uint64_end: "event_uint64_field k v = event_uint64_field k w \<longleftrightarrow> v = w"
  using event_uint64_inj [of k v "[]" w "[]"] by simp

section \<open>Deliveries\<close>

lemma delivered_event:
  assumes "md_decode (rec_payload r) = Inr p" "rec_event_type r = event_code MESSAGE_DELIVERED"
  shows "mail_event_project r a =
    Inr (if md_account_identity p = Some a
         then Some (new_event r a @
           (case md_delivery_id p of None \<Rightarrow> [] | Some d \<Rightarrow> event_field ''delivery_id'' d) @
           event_uint64_field ''size_bytes'' (md_size_bytes p) @
           event_uint64_field ''internal_date_unix_us'' (md_internal_date_unix_us p))
         else None)"
  using assms by (simp add: mail_event_project_def project_delivery_def)

lemma delivery_id_field_inj:
  "(case i of None \<Rightarrow> [] | Some d \<Rightarrow> event_field ''delivery_id'' d) @ event_uint64_field ''size_bytes'' n @ x =
   (case j of None \<Rightarrow> [] | Some d \<Rightarrow> event_field ''delivery_id'' d) @ event_uint64_field ''size_bytes'' m @ y \<longleftrightarrow>
   i = j \<and> n = m \<and> x = y"
proof (cases i; cases j)
  fix d assume "i = None" "j = Some d"
  then show ?thesis by (simp add: event_field_def event_uint64_field_def lit_def of_char_def)
next
  fix d assume "i = Some d" "j = None"
  then show ?thesis by (simp add: event_field_def event_uint64_field_def lit_def of_char_def)
qed (auto simp: event_field_inj event_uint64_inj)

lemma eg_decodes: "\<exists>p. md_decode (rec_payload eg_record) = Inr p \<and> md_account_identity p = Some [97]"
  using encoded_delivery [OF eg_parses eg_args_wf eg_encodes(1)]
  by (auto simp: eg_record_def delivery_record_def eg_args_def)

text \<open>
  C40. The event of a delivery exposes exactly what it is meant to: the accounts that did not get
  the message get no event, and two deliveries to an account have the same event if and only if
  they agree in position, sequence number, delivery id, size and date. Recipients, headers and
  object keys have no influence on the text, and no value can run into the next field.
\<close>

theorem mail_event_exposes:
  assumes "md_decode (rec_payload r) = Inr p" "rec_event_type r = event_code MESSAGE_DELIVERED" "md_account_identity p = Some a"
    and "md_decode (rec_payload r') = Inr p'" "rec_event_type r' = event_code MESSAGE_DELIVERED" "md_account_identity p' = Some a"
  shows "(\<forall>b. b \<noteq> a \<longrightarrow> mail_event_project r b = Inr None) \<and>
    (mail_event_project r a = mail_event_project r' a \<longleftrightarrow>
       of_nat (rec_offset r) = (of_nat (rec_offset r') :: u64) \<and> rec_sequence r = rec_sequence r' \<and>
       md_delivery_id p = md_delivery_id p' \<and> md_size_bytes p = md_size_bytes p' \<and>
       md_internal_date_unix_us p = md_internal_date_unix_us p')"
  using assms(3,6)
  by (simp add: delivered_event [OF assms(1,2)] delivered_event [OF assms(4,5)] new_event_def assms(2,5)
      event_uint64_inj event_field_inj delivery_id_field_inj event_uint64_end)

theorem mail_event_exposes_run:
  "mail_event_project eg_record [98] = Inr None \<and>
   mail_event_project eg_record [97] \<noteq> mail_event_project (eg_record\<lparr>rec_offset := 5\<rparr>) [97]"
proof -
  obtain p where p: "md_decode (rec_payload eg_record) = Inr p" "md_account_identity p = Some [97]"
    using eg_decodes by blast
  then have "md_decode (rec_payload (eg_record\<lparr>rec_offset := 5\<rparr>)) = Inr p" by simp
  from mail_event_exposes [OF p(1) _ p(2) this _ p(2)] show ?thesis
    by (simp add: eg_record_def)
qed

section \<open>Polling\<close>

text \<open>
  A client that asks for the first event and then for the one behind the last it got, until the
  stream ends. The sequence number of the cursor only has to be there; one stands for it.
\<close>

fun poll_events ::
  "nat \<Rightarrow> (mail_event_stream_request \<Rightarrow> response_frame result) \<Rightarrow> mail_event_stream_request \<Rightarrow> (u64 \<times> bytes) list option" where
  "poll_events 0 serve q = None"
| "poll_events (Suc n) serve q =
     (case serve q of
        Inl _ \<Rightarrow> None
      | Inr f \<Rightarrow>
          let chunk = rf_stream_chunk f
          in if sc_end_of_stream chunk then Some []
             else map_option (Cons (sc_chunk_index chunk, the (sc_bytes chunk)))
                    (poll_events n serve (q\<lparr>es_after_journal_offset := sc_chunk_index chunk, es_after_journal_sequence := 1\<rparr>)))"

lemma sorted_filter_tail:
  fixes f :: "'a \<Rightarrow> nat"
  shows "sorted_wrt (\<lambda>x y. f x < f y) xs \<Longrightarrow> (\<And>x y. P x \<Longrightarrow> f x < f y \<Longrightarrow> P y) \<Longrightarrow> filter P xs = y # ys \<Longrightarrow>
    filter (\<lambda>x. f y < f x) xs = ys"
proof (induction xs)
  case (Cons x xs)
  show ?case
  proof (cases "P x")
    case True
    then have "y = x" "ys = filter P xs" using Cons.prems(3) by auto
    moreover have "filter P xs = xs"
      using Cons.prems(1,2) True by (fastforce simp: filter_id_conv)
    moreover have "filter (\<lambda>z. f x < f z) xs = xs"
      using Cons.prems(1) by (auto simp: filter_id_conv)
    ultimately show ?thesis by simp
  next
    case False
    then have "filter P xs = y # ys" using Cons.prems(3) by simp
    moreover from this have "y \<in> set xs" by (auto simp: filter_eq_Cons_iff)
    with Cons.prems(1) have "\<not> f y < f x" by auto
    ultimately show ?thesis using Cons.IH Cons.prems by auto
  qed
qed simp

definition after_cursor :: "mail_event_stream_request \<Rightarrow> journal_record list \<Rightarrow> (journal_record \<times> bytes) list" where
  "after_cursor q recs = filter (behind_cursor q \<circ> fst) (stream_events q recs)"

lemma stream_events_cursor: "stream_events (q\<lparr>es_after_journal_offset := c, es_after_journal_sequence := s\<rparr>) recs = stream_events q recs"
  by (simp add: stream_events_def type_wanted_def cong: if_cong)

lemma projects_cursor: "projects (q\<lparr>es_after_journal_offset := c, es_after_journal_sequence := s\<rparr>) r = projects q r"
  by (simp add: projects_def type_wanted_def)

lemma small_offsets: "m < 2 ^ 64 \<Longrightarrow> n < 2 ^ 64 \<Longrightarrow> (of_nat m :: u64) < of_nat n \<longleftrightarrow> m < n"
  by (simp add: word_less_nat_alt unat_of_nat take_bit_eq_mod)

lemma after_cursor_next:
  assumes sorted: "sorted_wrt (<) (map rec_offset recs)" and small: "\<forall>r \<in> set recs. rec_offset r < 2 ^ 64"
    and ev: "after_cursor q recs = (r, e) # evs"
  shows "after_cursor (q\<lparr>es_after_journal_offset := of_nat (rec_offset r), es_after_journal_sequence := 1\<rparr>) recs = evs"
proof -
  let ?evs = "stream_events q recs"
  have small': "rec_offset (fst x) < 2 ^ 64" if "x \<in> set ?evs" for x
    using that small stream_events_subset [of "fst x" "snd x"] by simp
  have r: "(r, e) \<in> set ?evs"
    using ev by (auto simp: after_cursor_def filter_eq_Cons_iff)
  let ?P = "\<lambda>x. es_after_journal_sequence q = 0 \<or> unat (es_after_journal_offset q) < rec_offset (fst x)"
  have "filter (behind_cursor q \<circ> fst) ?evs = filter ?P ?evs"
  proof (rule filter_cong [OF refl])
    fix x assume "x \<in> set ?evs"
    from small' [OF this] show "(behind_cursor q \<circ> fst) x = ?P x"
      by (simp add: behind_cursor_def word_less_nat_alt unat_of_nat take_bit_eq_mod)
  qed
  then have "filter ?P ?evs = (r, e) # evs"
    using ev by (simp add: after_cursor_def)
  from sorted_filter_tail [OF stream_events_sorted [OF sorted] _ this]
  have "filter (\<lambda>x. rec_offset r < rec_offset (fst x)) ?evs = evs"
    by fastforce
  moreover have "filter (behind_cursor (q\<lparr>es_after_journal_offset := of_nat (rec_offset r), es_after_journal_sequence := 1\<rparr>) \<circ> fst) ?evs =
      filter (\<lambda>x. rec_offset r < rec_offset (fst x)) ?evs"
  proof (rule filter_cong [OF refl])
    fix x assume "x \<in> set ?evs"
    from small' [OF this] small' [OF r] show "(behind_cursor (q\<lparr>es_after_journal_offset := of_nat (rec_offset r),
        es_after_journal_sequence := 1\<rparr>) \<circ> fst) x = (rec_offset r < rec_offset (fst x))"
      by (simp add: behind_cursor_def small_offsets)
  qed
  ultimately show ?thesis
    by (simp add: after_cursor_def stream_events_cursor)
qed

lemma poll_events_all:
  assumes serve: "\<And>q'. es_account_identity q' = es_account_identity q \<Longrightarrow> serve q' =
      bindE (next_event q' recs) (\<lambda>found. Inr (stream_response identity found))"
    and sorted: "sorted_wrt (<) (map rec_offset recs)" and small: "\<forall>r \<in> set recs. rec_offset r < 2 ^ 64"
  shows "list_all (projects q') recs \<Longrightarrow> es_account_identity q' = es_account_identity q \<Longrightarrow> length (after_cursor q' recs) < n \<Longrightarrow>
    poll_events n serve q' = Some (map (\<lambda>(r, e). (of_nat (rec_offset r), e)) (after_cursor q' recs))"
proof (induction n arbitrary: q')
  case (Suc n)
  have nx: "next_event q' recs = Inr (case after_cursor q' recs of [] \<Rightarrow> None | x # _ \<Rightarrow> Some x)"
    using next_event_ok [OF Suc.prems(1)] by (simp add: after_cursor_def stream_events_filter)
  show ?case
  proof (cases "after_cursor q' recs")
    case Nil
    with nx serve [OF Suc.prems(2)] show ?thesis
      by (simp add: stream_response_def Let_def)
  next
    case (Cons x evs)
    obtain r e where x: "x = (r, e)" by (cases x)
    let ?q = "q'\<lparr>es_after_journal_offset := of_nat (rec_offset r), es_after_journal_sequence := 1\<rparr>"
    have rest: "after_cursor ?q recs = evs"
      using after_cursor_next [OF sorted small] Cons x by simp
    have "list_all (projects ?q) recs"
      using Suc.prems(1) by (simp add: list_all_iff projects_cursor)
    from Suc.IH [OF this] Suc.prems(2,3) rest Cons
    have "poll_events n serve ?q = Some (map (\<lambda>(r, e). (of_nat (rec_offset r), e)) evs)"
      by simp
    with nx serve [OF Suc.prems(2)] Cons x show ?thesis
      by (simp add: stream_response_def Let_def)
  qed
qed simp

text \<open>
  C39. A client that polls the stream of its account gets everything, once and in order: over a
  journal that can be reached, served up to the writer's durable end, the poll returns the
  offsets and texts of exactly the events of the durable records, and every acknowledged
  record is among those. (A streamed record that cannot be decoded would end the poll; none is
  supposed here.)
\<close>

theorem mail_stream_complete:
  assumes "journal_reachable sha st" "sha256_like sha" "j_writer st = Some w" "root \<noteq> []"
    and reader: "reader_new_with_limit root (Some (j_file st)) (get_durable_end w) = Inr r" "read_all sha r = (recs, e, r')"
    and ok: "list_all (projects q) recs" "es_after_journal_sequence q = 0"
    and who: "identity_text identity" "authorize_mail_event_stream_identity identity q = Inr ()"
  shows "set (j_acked st) \<subseteq> set recs \<and>
    poll_events (Suc (length recs))
      (mail_event_stream_handle_identity
        (read_next_matching_journal_event sha \<lparr>js_root_dir = root, js_writer = Some w\<rparr> (Some (j_file st))) identity) q =
      Some (map (\<lambda>(r, e). (of_nat (rec_offset r), e)) (stream_events q recs))"
proof -
  obtain r0 rs r0' where d: "reader_new_with_limit root (Some (j_file st)) (get_durable_end w) = Inr r0"
    "read_all sha r0 = (log_records sha 0 1 rs, None, r0')" "log_ok sha 1 rs"
    "set (j_acked st) \<subseteq> set (log_records sha 0 1 rs)" "length (log_bytes sha 1 rs) = get_durable_end w" "get_durable_end w \<le> G_MAXINT64"
    by (rule durable_reader [OF assms(1-4)]) blast
  with reader have recs: "recs = log_records sha 0 1 rs" "e = None" by auto
  from log_records_offsets [OF d(3), of 0] d(5,6)
  have sorted: "sorted_wrt (<) (map rec_offset recs)" and small: "\<forall>r \<in> set recs. rec_offset r < 2 ^ 64"
    by (auto simp: recs)
  let ?serve = "mail_event_stream_handle_identity
        (read_next_matching_journal_event sha \<lparr>js_root_dir = root, js_writer = Some w\<rparr> (Some (j_file st))) identity"
  have serve: "?serve q' = bindE (next_event q' recs) (\<lambda>found. Inr (stream_response identity found))"
    if "es_account_identity q' = es_account_identity q" for q'
  proof -
    have "authorize_mail_event_stream_identity identity q' = Inr ()"
      using who(2) that by (simp add: authorize_mail_event_stream_identity_def cong: if_cong)
    from mail_event_stream_answer [OF who(1) this, of "\<lparr>js_root_dir = root, js_writer = Some w\<rparr>" "Some (j_file st)"]
      reader recs(2) show ?thesis by simp
  qed
  have "after_cursor q recs = stream_events q recs"
    using ok(2) by (simp add: after_cursor_def behind_cursor_def comp_def)
  moreover have "length (stream_events q recs) \<le> length recs"
    by (induction recs) (auto split: sum.split option.split)
  ultimately show ?thesis
    using poll_events_all [OF serve sorted small ok(1) refl, of "Suc (length recs)"] d(4) recs(1) by simp
qed

text \<open>The journal of the first delivery, with a client of its account.\<close>

definition eg_client :: request_identity where
  "eg_client = \<lparr>ri_request_id = [49], ri_caller_identity = Some (lit ''dovecot''), ri_account_identity = Some [97],
     ri_tool_identity = None, ri_correlation_id = None\<rparr>"

definition eg_poll :: mail_event_stream_request where
  "eg_poll = \<lparr>es_account_identity = [97], es_mailbox_identity = None, es_message_id = None, es_event_type = None,
     es_after_journal_offset = 0, es_after_journal_sequence = 0, es_after_unix_us = 0, es_before_unix_us = 0\<rparr>"

definition eg_delivered :: journal_state where
  "eg_delivered = \<lparr>j_file = eg_bytes, j_synced = length eg_bytes,
     j_writer = Some (eg_writer\<lparr>w_synced := length eg_bytes, w_next_sequence := 2, w_durable_end := length eg_bytes\<rparr>), j_acked = [eg_record]\<rparr>"

lemma eg_delivered_reachable: "journal_reachable zero_digest eg_delivered"
proof -
  have "journal_reachable zero_digest (ds_journal eg_open)"
    using delivery_reachable_inv [OF eg_reachable zero_digest_ok] by (simp add: delivery_inv_def)
  moreover have "append_fits zero_digest eg_writer (j_file (ds_journal eg_open)) (event_code MESSAGE_DELIVERED) (Some eg_payload)"
    using length_eg_bytes(2) by (simp add: append_fits_def eg_premises eg_bytes_def eg_writer_def)
  moreover have "writer_append zero_digest (in_append (eg_io True)) eg_writer (j_file (ds_journal eg_open)) (event_code MESSAGE_DELIVERED)
      (Some eg_payload) = (Some (Inr (0, 1)), eg_writer\<lparr>w_synced := length eg_bytes, w_next_sequence := 2, w_durable_end := length eg_bytes\<rparr>, eg_bytes)"
    using eg_appends(1) by (simp add: writer_append_def eg_premises)
  ultimately have "journal_reachable zero_digest
      \<lparr>j_file = eg_bytes, j_synced = length eg_bytes,
       j_writer = Some (eg_writer\<lparr>w_synced := length eg_bytes, w_next_sequence := 2, w_durable_end := length eg_bytes\<rparr>),
       j_acked = j_acked (ds_journal eg_open) @ [\<lparr>rec_offset = 0, rec_sequence = 1, rec_event_type = event_code MESSAGE_DELIVERED,
          rec_payload = payload_bytes (Some eg_payload)\<rparr>]\<rparr>"
    using reach_step step_append [OF eg_premises(1)] by (fastforce simp: eg_synced)
  then show ?thesis
    by (simp add: eg_delivered_def eg_open_def journal_init_def eg_record_def)
qed

theorem mail_stream_complete_run:
  "\<exists>e. poll_events 2
      (mail_event_stream_handle_identity
        (read_next_matching_journal_event zero_digest
          \<lparr>js_root_dir = [106], js_writer = j_writer eg_delivered\<rparr> (Some (j_file eg_delivered))) eg_client) eg_poll = Some [(0, e)]"
proof -
  let ?w = "eg_writer\<lparr>w_synced := length eg_bytes, w_next_sequence := 2, w_durable_end := length eg_bytes\<rparr>"
  obtain p where p: "md_decode (rec_payload eg_record) = Inr p" "md_account_identity p = Some [97]"
    using eg_decodes by blast
  obtain e where e: "mail_event_project eg_record [97] = Inr (Some e)"
    using delivered_event [OF p(1), of "[97]"] p(2) by (simp add: eg_record_def)
  have "reader_new_with_limit [106] (Some (j_file eg_delivered)) (get_durable_end ?w) = Inr (reader_on eg_bytes (length eg_bytes) 0 1)"
    using length_eg_bytes(2) by (simp add: reader_new_with_limit_def reader_on_def eg_delivered_def get_durable_end_def)
  moreover obtain err r' where "read_all zero_digest (reader_on eg_bytes (length eg_bytes) 0 1) = ([eg_record], err, r')"
    using eg_recs by (cases "read_all zero_digest (reader_on eg_bytes (length eg_bytes) 0 1)") (auto simp: recs_of_def)
  moreover have "list_all (projects eg_poll) [eg_record]"
    using e by (simp add: projects_def eg_poll_def)
  moreover have "identity_text eg_client" "authorize_mail_event_stream_identity eg_client eg_poll = Inr ()"
    by (simp_all add: identity_text_def eg_client_def text_ok_iff no_controls_def g_ascii_iscntrl_def
        authorize_mail_event_stream_identity_def classify_request_def classify_name_def can_read_mail_events_def eg_poll_def lit_def)
  ultimately have "poll_events (Suc (length [eg_record]))
      (mail_event_stream_handle_identity
        (read_next_matching_journal_event zero_digest \<lparr>js_root_dir = [106], js_writer = Some ?w\<rparr> (Some (j_file eg_delivered))) eg_client)
      eg_poll = Some (map (\<lambda>(r, e). (of_nat (rec_offset r), e)) (stream_events eg_poll [eg_record]))"
    using mail_stream_complete [OF eg_delivered_reachable zero_digest_ok, of ?w "[106]" _ "[eg_record]"]
    by (simp add: eg_delivered_def eg_poll_def)
  moreover have "stream_events eg_poll [eg_record] = [(eg_record, e)]"
    using e by (simp add: type_wanted_def eg_poll_def)
  ultimately show ?thesis
    by (simp add: eg_delivered_def eg_record_def numeral_2_eq_2)
qed

end
