(* ===== verification/Spec2Isabelle.thy ===== *)
theory Spec2Isabelle
  imports Journal_System Payload_Properties Fact_Properties Delivery_Properties Ingestion_Properties Mail_Event_Properties
begin

text \<open>
  Wyrebox keeps mail in an append-only journal: every state change is a record of one
  segment file, and what the daemon shows is materialized from it. This development covers
  \<^verbatim>\<open>src/wyrebox/journal\<close> (the record format, the writer with its crash recovery, the two readers
  and the payloads of the events), the facts of \<^verbatim>\<open>src/wyrebox/facts\<close> that are journalled as events,
  the mail intake of \<^verbatim>\<open>src/wyrebox/postfix\<close>, of \<^verbatim>\<open>src/wyrebox/daemon\<close> the frames and requests
  that connect them, and the ingestion of a delivered message into \<^verbatim>\<open>src/wyrebox/object-store\<close> and
  the journal.

  \<^bold>\<open>How the parts interact.\<close> Postfix hands a message over by LMTP or a pipe; the front end builds a
  request, frames it and asks the daemon; the daemon stores the message in the object store and
  appends its delivery to the journal under the append lock, and the receipt it returns decides
  the reply. Facts are journalled through the same writer, and the mail event stream reads what
  the writer has made durable.

  \<^bold>\<open>Theories and the code they model.\<close>

  \<^item> \<open>Prelude\<close>: bytes, C strings, errors as values (\<open>gerror\<close>, \<open>bindE\<close>, \<open>raises\<close>), and \<open>stands\<close>,
    which says what bytes lie at an offset. \<open>Wire\<close>: little-endian integers, length-prefixed and
    nullable strings, vectors; the locales \<open>wire_format\<close> and \<open>sized_wire_format\<close> are the contract
    between a writer and its bounds-checked reader, and every format below interprets one.
  \<^item> \<open>Journal_Event\<close>: event types, their names and catalog (\<^verbatim>\<open>wyrebox-journal-event.c\<close>), and the
    name parsers of the reader.
  \<^item> \<open>Journal_Record\<close>: the record layout and \<^verbatim>\<open>wyrebox_journal_reader_read_next\<close>.
    \<open>Journal_Reader\<close>: reading to the end and \<^verbatim>\<open>seek_after_checkpoint\<close>.
    \<open>Journal_Scan\<close>: \<^verbatim>\<open>scan_safe_prefix\<close>, the tolerant scan that classifies a torn or damaged end.
  \<^item> \<open>Journal_Writer\<close>: opening with replay, append, guarded append and torn suffix recovery
    (\<^verbatim>\<open>wyrebox-journal-writer.c\<close>). \<open>Journal_System\<close>: the state machine of one journal file under
    opens, appends, failed appends, crashes and recovery (\<open>journal_step\<close>, \<open>journal_reachable\<close>)
    and its invariant.
  \<^item> \<open>Payload_Common\<close>: the checks and size computations the codecs share, and the locales
    \<open>payload_codec\<close> (round trip) and \<open>exact_codec\<close> (one encoding per payload). \<open>Flag_Changed\<close>,
    \<open>Memberships_Expunged\<close>, \<open>Memberships_Copied\<close>, \<open>Derived_View_Changed\<close>, \<open>Message_Appended\<close> and
    \<open>Message_Delivered\<close>: one codec each; \<open>Payload_Properties\<close> states what they guarantee.
  \<^item> \<open>Text_Format\<close>: decimal numbers. \<open>Fact_Record\<close>: facts, their checks, Wirelog text and dump file
    names; \<open>Fact_Reconciliation\<close>: the changes from one set of active facts to another;
    \<open>Fact_Mutation\<close>: the request that inserts or retracts a fact and its journal record;
    \<open>Fact_Snapshot\<close>: the active facts of a journal; \<open>Facts_Extracted\<close>: the payload of extracted
    facts. \<open>Fact_Properties\<close> states what they guarantee.
  \<^item> \<open>Request_Text\<close> and \<open>Delivery_Request\<close>: text checks, the request identity and the delivery request.
    \<open>Lmtp_Line\<close>: lines, paths and dot stuffing, with the locale \<open>line_reader\<close>; \<open>Lmtp_Session\<close> and
    \<open>Lmtp_Listener\<close>: the two LMTP front ends (\<^verbatim>\<open>wyrebox-postfix-lmtp-session.c\<close>,
    \<^verbatim>\<open>wyrebox-postfix-lmtp-delivery-main.c\<close>). \<open>Frame_Io\<close>: frames on the daemon's socket;
    \<open>Fact_Batch\<close>: the batch import request; \<open>Daemon_Frames\<close>: errors, receipts and response
    frames. \<open>Postfix_Outcome\<close>: from an answer of the daemon to a reply or exit status;
    \<open>Postfix_Pipe\<close>: the pipe transport. \<open>Delivery_Properties\<close> states what they guarantee.
  \<^item> \<open>Eml_Metadata\<close>: the header parser (\<^verbatim>\<open>wyrebox-eml-metadata.c\<close>) and, as its reference, the table of
    the header lines and fields. \<open>Object_Store\<close>: the content-addressed files of raw messages
    (\<^verbatim>\<open>wyrebox-local-object-store.c\<close>) over a file system whose contents and directory entries are
    durable only once synced, with its crashes (\<open>store_step\<close>), and the check of a stored object.
    \<open>Eml_Ingestor\<close>: the ingestion that stores a message and journals its delivery once
    (\<^verbatim>\<open>wyrebox-eml-ingestor.c\<close>). \<open>Ingestion_System\<close>: journal and store together under
    ingestions, other appends, crashes, reopening and recovery (\<open>delivery_step\<close>,
    \<open>delivery_reachable\<close>), and their invariant; \<open>Ingestion_Properties\<close> states what a receipt is worth.
  \<^item> \<open>Mail_Event\<close>: the classes of callers (\<^verbatim>\<open>wyrebox-daemon-client-identity.c\<close>), the text a journal
    record is projected to (\<^verbatim>\<open>-mail-event.c\<close>), and the service that sends the events of an account
    one by one from the journal up to its durable end (\<^verbatim>\<open>-mail-event-stream-request.c\<close>,
    \<^verbatim>\<open>-mail-event-stream-service.c\<close>). \<open>Mail_Event_Properties\<close> states what a polling client gets.

  \<^bold>\<open>How state and operations correspond.\<close> A C function that takes \<^verbatim>\<open>GError **\<close> returns
  \<open>gerror + 'a\<close>. A reader or writer object is a record passed and returned. The segment file is a
  byte list; a system call that can fail takes its answers from a record of replies
  (\<open>append_io\<close>, \<open>open_io\<close>, \<open>recover_io\<close>), so every answer of the kernel is covered by a
  quantifier over these records. What the kernel keeps in a crash is state, too: \<open>w_synced\<close> of the
  writer is the length of the file at its last successful \<^verbatim>\<open>fsync\<close>, moved by \<open>fsync_fd\<close> inside
  \<open>append_unlocked\<close> alone, and the steps of the journal take \<open>j_synced\<close> from it and from nothing else. A write may be short, interrupted or failing; when its replies
  run out the process has died in the middle, and the append has no result (\<open>None\<close>).

  \<^bold>\<open>What the lemmas show.\<close> \<open>read_iff\<close>-style facts characterise exactly what a reader accepts; from
  them the round trips and the uniqueness of encodings follow inside the locales. The journal
  invariant says that the file is a prefix of a log whose synced part holds every acknowledged
  record; the properties below read it out: acknowledged records survive, a crashed journal
  recovers, the reader and the scanner agree, an append is atomic at the durable end. The
  invariant of the ingestion adds that no delivery is journaled twice and that the object of
  every journaled delivery is on disk.

  \<^bold>\<open>Bounds and fuel.\<close> All loops are total functions: the read and scan loops have the measure
  file size minus offset, the payload checksum loop the bytes that remain; the write loop recurses
  over the kernel's replies. Sizes are natural numbers with the code's guards against
  \<open>G_MAXSIZE\<close>, \<open>G_MAXINT64\<close> and \<open>G_MAXUINT32\<close> written out; sequence numbers, UIDs and time stamps
  are 64-bit words that wrap. A connection's loop recurses over the input that remains.

  \<^bold>\<open>Parameters.\<close> What is not under \<^verbatim>\<open>src/\<close> is an argument: the Cap'n Proto codec (\<open>encode\<close>,
  \<open>decode\<close>), GLib's option parser (\<open>parse_strv\<close>), the text of an error (\<open>describe\<close>), the peer at the
  other end of a socket (\<open>daemon_peer\<close>), whether a write to the client succeeds (\<open>le_writes\<close>), and
  the order in which a hash table yields its values. \<^verbatim>\<open>g_list_sort\<close> is a stable sort.

  \<^bold>\<open>Not modelled.\<close> SHA-256 is the parameter \<open>sha\<close>: any function from bytes to bytes; where its
  length matters \<open>sha256_like\<close> (32 bytes, as GLib documents) is a hypothesis, and nothing rests on
  collision freedom. A crash keeps a prefix of the bytes written since the last
  \<^verbatim>\<open>fsync\<close>; a disk that corrupts or reorders inside the file is outside the crash model (the
  scanner's theorems hold for any bytes). Failing \<^verbatim>\<open>read\<close> and \<^verbatim>\<open>pread\<close> calls, allocation failure,
  locking between threads of one process and the reference counts of GObject are left out. Of the
  facts, their extraction from mail is not modelled; neither are the other services of the
  daemon, the projection of deliveries into DuckDB, the Dovecot plugin and the wirelog layer.
\<close>

section \<open>The journal as a whole\<close>

text \<open>What an acknowledged record means for a file that is cut at a record boundary.\<close>

lemma acked_in_whole:
  assumes inv: "journal_inv sha rs k st" and a: "a \<in> set (j_acked st)"
  shows "a \<in> set (log_records sha 0 1 (take (whole_records sha 1 rs k) rs))"
proof -
  have "acked_in sha rs (whole_records sha 1 rs (j_synced st)) a" "j_synced st \<le> k"
    using inv a by (auto simp: journal_inv_def)
  then have "acked_in sha (take (whole_records sha 1 rs k) rs) (whole_records sha 1 rs (j_synced st)) a"
    by (rule acked_in_cut)
  then show ?thesis
    by (auto simp: acked_in_def)
qed

lemma read_whole_log:
  "log_ok sha 1 rs \<Longrightarrow>
   read_all sha (reader_on (log_bytes sha 1 rs) (length (log_bytes sha 1 rs)) 0 1) =
     (log_records sha 0 1 rs, None,
      reader_on (log_bytes sha 1 rs) (length (log_bytes sha 1 rs)) (length (log_bytes sha 1 rs)) (1 + of_nat (length rs)))"
  by (intro read_all_log) auto

section \<open>A run\<close>

text \<open>
  A short run used as the concrete instance of the properties: open an empty journal, append
  one record, and end in the middle of the header of the second. The digest is constant.
\<close>

definition run_log :: "(nat \<times> bytes) list" where
  "run_log = [(0, [7])]"

definition run_io :: append_io where
  "run_io = \<lparr>io_lseek_ok = True, io_writes = replicate 100 (Wrote 1), io_fsync_ok = True\<rparr>"

definition run_cut_io :: append_io where
  "run_cut_io = \<lparr>io_lseek_ok = True, io_writes = [Wrote 20], io_fsync_ok = True\<rparr>"

definition run_writer :: "nat \<Rightarrow> journal_writer" where
  "run_writer n = \<lparr>w_root = [106], w_next_sequence = 1 + of_nat n,
     w_durable_end = length (log_bytes zero_digest 1 (take n run_log)), w_failed = False,
     w_synced = length (log_bytes zero_digest 1 (take n run_log))\<rparr>"

definition run_acked :: journal_state where
  "run_acked = \<lparr>j_file = log_bytes zero_digest 1 run_log, j_synced = 81, j_writer = Some (run_writer 1),
     j_acked = [\<lparr>rec_offset = 0, rec_sequence = 1, rec_event_type = 0, rec_payload = [7]\<rparr>]\<rparr>"

definition run_torn :: journal_state where
  "run_torn = run_acked\<lparr>j_writer := None,
     j_file := log_bytes zero_digest 1 run_log @ take 20 (record_bytes zero_digest 2 (2, [8, 9]))\<rparr>"

lemma sha256_like_zero: "sha256_like zero_digest"
  by (simp add: sha256_like_def)

lemma run_names:
  "event_type_to_string 0 = Some (lit ''MessageDelivered'')" "event_type_to_string 2 = Some (lit ''KeywordChanged'')"
  by (simp_all add: event_type_to_string_def validate_event_type_def event_type_names_def)

lemma run_log_ok: "log_ok zero_digest 1 run_log"
  by (simp add: run_log_def record_ok_def run_names)

lemma run_length: "length (record_bytes zero_digest s (0, [7])) = 81" "length (log_bytes zero_digest 1 run_log) = 81"
  using length_record_bytes [OF run_names(1), of zero_digest _ "[7]"]
  by (simp_all add: run_log_def record_ok_def run_names)

lemma run_opens: "writer_new zero_digest open_io_ok [106] (Some []) = (Inr (run_writer 0), Some [])"
  using writer_new_log [of "[106]" zero_digest "[]"] by (simp add: run_writer_def)

lemma run_appends:
  "writer_append zero_digest run_io (run_writer 0) [] 0 (Some [7]) =
     (Some (Inr (0, 1)), run_writer 1, log_bytes zero_digest 1 run_log)"
proof -
  have "writes_progress (io_writes run_io) 81"
    by (simp add: writes_progress_def run_io_def)
  then show ?thesis
    using append_progress [OF _ run_names(1), of "run_writer 0" run_io zero_digest "Some [7]" "[]"]
    by (simp add: run_length writer_append_def run_io_def run_writer_def run_log_def)
qed

lemma run_reaches_acked: "journal_reachable zero_digest run_acked"
proof -
  let ?st = "journal_init\<lparr>j_file := [], j_writer := Some (run_writer 0)\<rparr>"
  have "journal_step zero_digest journal_init ?st"
    using run_opens by (intro step_open) (simp_all add: journal_init_def)
  then have "journal_reachable zero_digest ?st"
    by (rule reach_step [OF reach_init])
  moreover have "journal_step zero_digest ?st run_acked"
  proof -
    have "append_fits zero_digest (run_writer 0) [] 0 (Some [7])"
      by (simp add: append_fits_def run_length)
    with step_append [of ?st "run_writer 0" zero_digest 0 "Some [7]" run_io 0 1] run_appends
    moreover have "w_synced (run_writer (Suc 0)) = 81"
      by (simp add: run_writer_def run_log_def run_length)
    ultimately show ?thesis
      by (simp add: run_acked_def journal_init_def run_length)
  qed
  ultimately show ?thesis
    by (rule reach_step)
qed

lemma run_reaches_torn: "journal_reachable zero_digest run_torn"
proof -
  have header: "length (record_header zero_digest (lit ''KeywordChanged'') 2 [8, 9]) = 64"
    by (simp add: record_header_def Let_def)
  have app: "writer_append zero_digest run_cut_io (run_writer 1) (j_file run_acked) 2 (Some [8, 9]) =
      (None, run_writer 1, j_file run_torn)"
    using append_dies [OF _ run_names(2), of "run_writer 1" run_cut_io 20 zero_digest "Some [8, 9]" "j_file run_acked"]
    by (simp add: writer_append_def run_cut_io_def run_writer_def run_torn_def run_acked_def header)
  have fits: "append_fits zero_digest (run_writer 1) (j_file run_acked) 2 (Some [8, 9])"
    using length_record_bytes [OF run_names(2), of zero_digest _ "[8, 9]"]
    by (simp add: append_fits_def run_acked_def run_length record_ok_def run_names)
  have "journal_step zero_digest run_acked (run_acked\<lparr>j_file := j_file run_torn, j_writer := None\<rparr>)"
    by (rule step_append_cut [OF _ fits app]) (simp add: run_acked_def)
  moreover have "run_acked\<lparr>j_file := j_file run_torn, j_writer := None\<rparr> = run_torn"
    by (simp add: run_torn_def)
  ultimately show ?thesis
    using run_reaches_acked by (metis reach_step)
qed


section \<open>Properties of the journal\<close>

text \<open>
  C1. No acknowledged record is ever lost or altered: in every state the journal can reach
  through appends, failed appends, crashes, reopening and recovery, a reader that gets to the
  end of the journal has returned every acknowledged record, with the offset and the sequence
  number the append reported, and has numbered the records from one on without a gap.
\<close>

theorem acked_records_survive:
  assumes "journal_reachable sha st" "sha256_like sha"
    and "reader_new root (Some (j_file st)) = Inr r" "read_all sha r = (recs, None, r')"
  shows "set (j_acked st) \<subseteq> set recs \<and>
    map rec_sequence recs = map (\<lambda>i. 1 + of_nat i) [0..<length recs]"
proof -
  obtain rs k where inv: "journal_inv sha rs k st"
    using journal_reachable_inv [OF assms(1,2)] by blast
  then have f: "log_ok sha 1 rs" "j_file st = take k (log_bytes sha 1 rs)" "k \<le> length (log_bytes sha 1 rs)"
    "length (log_bytes sha 1 rs) \<le> G_MAXINT64"
    by (auto simp: journal_inv_def)
  have "root \<noteq> []"
    using assms(3) by (auto simp: reader_new_def reader_new_with_limit_def split: if_splits)
  then have "r = reader_on (j_file st) (length (j_file st)) 0 1"
    using reader_new_on [of root "j_file st"] f assms(3) by simp
  then obtain qs where qs: "log_ok sha 1 qs" "j_file st = log_bytes sha 1 qs" "recs = log_records sha 0 1 qs"
    using read_all_iff_log [of "length (j_file st)" "j_file st" sha 1 recs] assms(4) by auto
  have "log_bytes sha 1 qs = take k (log_bytes sha 1 rs)"
    using qs f by simp
  from log_cut_unique (1) [OF f(1) qs(1) this f(3)]
  have "set (j_acked st) \<subseteq> set recs"
    using acked_in_whole [OF inv] qs(3) by auto
  then show ?thesis
    using log_records_sequences [of sha 0 1 qs] qs(3) by simp
qed

text \<open>
  C2. Whatever crashes happened, once a record was acknowledged the journal can be brought
  back: either it opens as it is, or the torn suffix recovery succeeds and it opens
  afterwards; in both cases every acknowledged record is read back.
\<close>

theorem acked_journal_recovers:
  assumes "journal_reachable sha st" "sha256_like sha"
    and "j_writer st = None" "j_acked st \<noteq> []" "root \<noteq> []"
  shows "\<exists>file' w recs r'.
    (file' = j_file st \<or>
     (\<exists>e s. recover_torn_suffix sha (recover_io_ok (j_file st)) root (j_file st) = (Inr (e, s), file'))) \<and>
    writer_new sha open_io_ok root (Some file') = (Inr w, Some file') \<and>
    read_all sha (reader_on file' (length file') 0 1) = (recs, None, r') \<and> set (j_acked st) \<subseteq> set recs"
proof -
  obtain rs k where inv: "journal_inv sha rs k st"
    using journal_reachable_inv [OF assms(1,2)] by blast
  let ?m = "whole_records sha 1 rs k"
  let ?kept = "log_bytes sha 1 (take ?m rs)"
  have f: "log_ok sha 1 rs" "j_file st = take k (log_bytes sha 1 rs)" "k \<le> length (log_bytes sha 1 rs)"
    "length (log_bytes sha 1 rs) \<le> G_MAXINT64"
    using inv by (auto simp: journal_inv_def)
  have fit: "length ?kept \<le> k"
    by (rule whole_records_fit)
  obtain a where "a \<in> set (j_acked st)"
    using assms(4) by (cases "j_acked st") auto
  from acked_in_whole [OF inv this] have some: "0 < ?m"
    by (cases ?m) auto
  have ok: "log_ok sha 1 (take ?m rs)"
    using f(1) by (rule log_ok_take)
  have small: "length ?kept \<le> G_MAXINT64"
    using fit f by simp
  have "length (take ?m rs) < 2 ^ 64 - 1"
    using log_size [OF ok] small by simp
  then have "unat (1 + of_nat (length (take ?m rs)) :: u64) = Suc (length (take ?m rs))"
    using unat_of_nat_u64 [of "Suc (length (take ?m rs))"] by simp
  then have seq: "(1 + of_nat (length (take ?m rs)) :: u64) \<noteq> 0"
    by (metis Zero_not_Suc unsigned_0)
  obtain w where w: "writer_new sha open_io_ok root (Some ?kept) = (Inr w, Some ?kept)"
    using writer_new_log [OF assms(5) ok] small seq by simp
  have rd: "\<exists>r'. read_all sha (reader_on ?kept (length ?kept) 0 1) = (log_records sha 0 1 (take ?m rs), None, r')"
    using read_whole_log [OF ok] by blast
  have acked: "set (j_acked st) \<subseteq> set (log_records sha 0 1 (take ?m rs))"
    using acked_in_whole [OF inv] by auto
  have "?kept = j_file st \<or>
     (\<exists>e s. recover_torn_suffix sha (recover_io_ok (j_file st)) root (j_file st) = (Inr (e, s), ?kept))"
  proof (cases "k = length ?kept")
    case True
    have "stands (log_bytes sha 1 rs) 0 ?kept"
      using log_bytes_append [of sha 1 "take ?m rs" "drop ?m rs"] by (simp add: stands_prefix)
    then have "take (length ?kept) (log_bytes sha 1 rs) = ?kept"
      by (simp add: stands_def)
    then have "?kept = j_file st"
      unfolding f(2) True [symmetric] by simp
    then show ?thesis ..
  next
    case False
    then show ?thesis
      using recover_crashed [OF f(1,4,3) assms(5) some] f(2) by auto
  qed
  then show ?thesis
    using w rd acked by blast
qed

theorem acked_records_survive_run:
  "\<exists>recs r'. read_all zero_digest (reader_on (j_file run_acked) 81 0 1) = (recs, None, r') \<and>
     set (j_acked run_acked) \<subseteq> set recs \<and> j_acked run_acked \<noteq> []"
proof -
  have len: "length (j_file run_acked) = 81"
    by (simp add: run_acked_def run_length)
  then have new: "reader_new [106] (Some (j_file run_acked)) = Inr (reader_on (j_file run_acked) 81 0 1)"
    using reader_new_on [of "[106]" "j_file run_acked"] by simp
  obtain recs r' where rd: "read_all zero_digest (reader_on (j_file run_acked) 81 0 1) = (recs, None, r')"
    using read_whole_log [OF run_log_ok] len by (simp add: run_acked_def)
  from acked_records_survive [OF run_reaches_acked sha256_like_zero new rd] rd show ?thesis
    by (simp add: run_acked_def)
qed

theorem acked_journal_recovers_run:
  "\<exists>file' w recs r'.
    (file' = j_file run_torn \<or>
     (\<exists>e s. recover_torn_suffix zero_digest (recover_io_ok (j_file run_torn)) [106] (j_file run_torn) = (Inr (e, s), file'))) \<and>
    writer_new zero_digest open_io_ok [106] (Some file') = (Inr w, Some file') \<and>
    read_all zero_digest (reader_on file' (length file') 0 1) = (recs, None, r') \<and>
    set (j_acked run_torn) \<subseteq> set recs"
  by (rule acked_journal_recovers [OF run_reaches_torn sha256_like_zero])
    (simp_all add: run_torn_def run_acked_def)

text \<open>
  C6. While a writer is open, even one that has failed in the middle of an append, a reader
  limited to its durable end reads without an error and returns every acknowledged record; the
  torn bytes behind the durable end are never seen.
\<close>

theorem durable_end_readable:
  assumes "journal_reachable sha st" "sha256_like sha" "j_writer st = Some w" "root \<noteq> []"
  shows "\<exists>r recs r'. reader_new_with_limit root (Some (j_file st)) (get_durable_end w) = Inr r \<and>
    read_all sha r = (recs, None, r') \<and> set (j_acked st) \<subseteq> set recs \<and> get_durable_end w \<le> length (j_file st)"
  by (rule durable_reader [OF assms]) blast

theorem durable_end_readable_run:
  "\<exists>r recs r'. reader_new_with_limit [106] (Some (j_file run_acked)) (get_durable_end (run_writer 1)) = Inr r \<and>
    read_all zero_digest r = (recs, None, r') \<and> set (j_acked run_acked) \<subseteq> set recs \<and>
    get_durable_end (run_writer 1) \<le> length (j_file run_acked)"
  by (rule durable_end_readable [OF run_reaches_acked sha256_like_zero]) (simp_all add: run_acked_def)

text \<open>
  C7. The reader accepts exactly the logs: it reads a segment below its limit to the end
  without an error if and only if these bytes are records written one after another with the
  sequence numbers 1, 2, 3 and so on, and then it returns those records.
\<close>

theorem reader_accepts_logs:
  assumes "reader_new_with_limit root (Some seg) limit = Inr r"
  shows "(\<exists>r'. read_all sha r = (recs, None, r')) \<longleftrightarrow>
    (\<exists>rs. log_ok sha 1 rs \<and> take limit seg = log_bytes sha 1 rs \<and> recs = log_records sha 0 1 rs)"
proof -
  have r: "r = reader_on seg (min (length seg) limit) 0 1"
    using assms by (auto simp: reader_new_with_limit_def reader_on_def split: if_splits)
  have "take (min (length seg) limit) seg = take limit seg"
    by (simp add: min_def)
  with read_all_iff_log [of "min (length seg) limit" seg sha 1 recs] show ?thesis
    by (simp add: r)
qed

theorem reader_accepts_logs_run:
  "(\<exists>r'. read_all zero_digest (reader_on (log_bytes zero_digest 1 run_log) 81 0 1) = (log_records zero_digest 0 1 run_log, None, r')) \<longleftrightarrow>
    (\<exists>rs. log_ok zero_digest 1 rs \<and> take 90 (log_bytes zero_digest 1 run_log) = log_bytes zero_digest 1 rs \<and>
       log_records zero_digest 0 1 run_log = log_records zero_digest 0 1 rs)"
  by (rule reader_accepts_logs [of "[106]"]) (simp add: reader_new_with_limit_def reader_on_def run_length)

text \<open>
  C8. The scan of a segment that a crash cut anywhere finds exactly the records that are whole,
  and says that the rest is a torn header or a torn record, with the bytes that are there and
  the bytes the record needs; it never takes a torn record for a corrupt one.
\<close>

theorem scan_after_crash:
  assumes "log_ok sha 1 rs" "length (log_bytes sha 1 rs) \<le> G_MAXINT64" "k \<le> length (log_bytes sha 1 rs)"
    and "reader_new root (Some (take k (log_bytes sha 1 rs))) = Inr r"
  shows "\<exists>p m. scan_safe_prefix sha r = Inr p \<and> m \<le> length rs \<and>
    safe_end_offset p = length (log_bytes sha 1 (take m rs)) \<and> safe_end_offset p \<le> k \<and>
    (m < length rs \<longrightarrow> k < length (log_bytes sha 1 (take (Suc m) rs))) \<and>
    stopped_by p =
      (if k = 0 then STOP_EMPTY_SEGMENT else if k = safe_end_offset p then STOP_EOF
       else if k - safe_end_offset p < 64 then STOP_PARTIAL_HEADER else STOP_PARTIAL_RECORD) \<and>
    (k \<noteq> safe_end_offset p \<longrightarrow>
       unsafe_offset p = safe_end_offset p \<and> unsafe_available_size p = k - safe_end_offset p \<and>
       unsafe_required_size p =
         (if k - safe_end_offset p < 64 then 64 else length (record_bytes sha (1 + of_nat m) (rs ! m))))"
proof -
  let ?m = "whole_records sha 1 rs k"
  have "root \<noteq> []"
    using assms(4) by (auto simp: reader_new_def reader_new_with_limit_def split: if_splits)
  then have "r = reader_on (take k (log_bytes sha 1 rs)) k 0 1"
    using reader_new_on [of root "take k (log_bytes sha 1 rs)"] assms by (simp add: min_absorb2)
  then have scan: "scan_safe_prefix sha r = Inr (crash_prefix sha rs k)"
    by (intro scan_crashed [OF assms(1-3)]) (simp_all add: reader_on_def)
  have fit: "length (log_bytes sha 1 (take ?m rs)) \<le> k"
    by (rule whole_records_fit)
  note fields = crash_prefix_fields [where sha = sha and rs = rs and k = k]
  show ?thesis
    by (intro exI [of _ "crash_prefix sha rs k"] exI [of _ ?m])
      (simp add: scan fit whole_records_le whole_records_next fields)
qed

theorem scan_after_crash_run:
  "\<exists>p m. scan_safe_prefix zero_digest (reader_on (take 70 (log_bytes zero_digest 1 run_log)) 70 0 1) = Inr p \<and> m \<le> length run_log \<and>
    safe_end_offset p = length (log_bytes zero_digest 1 (take m run_log)) \<and> safe_end_offset p \<le> 70 \<and>
    (m < length run_log \<longrightarrow> 70 < length (log_bytes zero_digest 1 (take (Suc m) run_log))) \<and>
    stopped_by p =
      (if (70::nat) = 0 then STOP_EMPTY_SEGMENT else if 70 = safe_end_offset p then STOP_EOF
       else if 70 - safe_end_offset p < 64 then STOP_PARTIAL_HEADER else STOP_PARTIAL_RECORD) \<and>
    (70 \<noteq> safe_end_offset p \<longrightarrow>
       unsafe_offset p = safe_end_offset p \<and> unsafe_available_size p = 70 - safe_end_offset p \<and>
       unsafe_required_size p =
         (if 70 - safe_end_offset p < 64 then 64 else length (record_bytes zero_digest (1 + of_nat m) (run_log ! m))))"
  by (rule scan_after_crash [OF run_log_ok, of 70 "[106]"]) (simp_all add: run_length reader_new_on)

text \<open>
  C9. The scan always reports, and reader and scan agree: both stop after the same records,
  the scan's safe end is where the reader stands, no further record stands there, and the
  reader stops without an error exactly when the scan reports the end of the file.
\<close>

theorem scan_agrees_with_reader:
  assumes "length seg \<le> G_MAXINT64" "sha256_like sha" "reader_new root (Some seg) = Inr r"
  shows "\<exists>p rs e r'. scan_safe_prefix sha r = Inr p \<and> log_ok sha 1 rs \<and>
    take (safe_end_offset p) seg = log_bytes sha 1 rs \<and>
    (has_last_safe_sequence p \<longleftrightarrow> rs \<noteq> []) \<and> (rs \<noteq> [] \<longrightarrow> last_safe_sequence p = of_nat (length rs)) \<and>
    (\<forall>x. record_ok sha (1 + of_nat (length rs)) x \<longrightarrow>
       \<not> stands seg (safe_end_offset p) (record_bytes sha (1 + of_nat (length rs)) x)) \<and>
    read_all sha r = (log_records sha 0 1 rs, e, r') \<and> rd_offset r' = safe_end_offset p \<and>
    (e = None \<longleftrightarrow> reached_eof p) \<and> (reached_eof p \<longleftrightarrow> safe_end_offset p = length seg)"
proof -
  have "root \<noteq> []"
    using assms(3) by (auto simp: reader_new_def reader_new_with_limit_def split: if_splits)
  then have r: "r = reader_on seg (length seg) 0 1"
    using reader_new_on [of root seg] assms by simp
  then have on: "rd_segment r = Some seg" "rd_file_size r = length seg"
    by (simp_all add: reader_on_def)
  obtain p where p: "scan_safe_prefix sha r = Inr p"
    using scan_loop_total [OF assms(1) order_refl assms(2), of 0 1 safe_prefix_init]
    by (cases "seg = []") (auto simp: scan_safe_prefix_def on)
  from scan_safe_prefix_reports [OF assms(1) on(1) _ p] obtain rs where
    rs: "log_ok sha 1 rs" "take (safe_end_offset p) seg = log_bytes sha 1 rs" "safe_end_offset p \<le> length seg"
      "has_last_safe_sequence p \<longleftrightarrow> rs \<noteq> []" "rs \<noteq> [] \<longrightarrow> last_safe_sequence p = of_nat (length rs)"
      "reached_eof p \<longleftrightarrow> safe_end_offset p = length seg"
    and none: "\<And>t q. record_ok sha (1 + of_nat (length rs)) (t, q) \<Longrightarrow>
        \<not> stands (take (length seg) seg) (safe_end_offset p) (record_bytes sha (1 + of_nat (length rs)) (t, q))"
    unfolding on by blast
  have len: "length (log_bytes sha 1 rs) = safe_end_offset p"
    using arg_cong [OF rs(2), of length] rs(3) by simp
  then have "stands (take (length seg) seg) 0 (log_bytes sha 1 rs)"
    using rs(2) by (simp add: stands_def)
  from read_all_stands [OF order_refl rs(1) this]
  have rd: "read_all sha r = (case read_all sha (reader_on seg (length seg) (safe_end_offset p) (1 + of_nat (length rs))) of
      (recs, e, r') \<Rightarrow> (log_records sha 0 1 rs @ recs, e, r'))"
    by (simp add: r len)
  have "\<exists>e r'. read_all sha r = (log_records sha 0 1 rs, e, r') \<and> rd_offset r' = safe_end_offset p \<and>
      (e = None \<longleftrightarrow> safe_end_offset p = length seg)"
  proof (cases "safe_end_offset p = length seg")
    case True
    then have "read_all sha (reader_on seg (length seg) (safe_end_offset p) (1 + of_nat (length rs))) =
        ([], None, reader_on seg (length seg) (safe_end_offset p) (1 + of_nat (length rs)))"
      by (intro read_all_at_end) simp
    with rd True show ?thesis by (simp add: reader_on_def)
  next
    case False
    then have "safe_end_offset p < length seg"
      using rs(3) by simp
    from read_all_no_record [OF order_refl this none] rd False show ?thesis by auto
  qed
  moreover have "\<forall>x. record_ok sha (1 + of_nat (length rs)) x \<longrightarrow>
      \<not> stands seg (safe_end_offset p) (record_bytes sha (1 + of_nat (length rs)) x)"
    using none by auto
  ultimately show ?thesis
    using p rs by blast
qed

theorem scan_agrees_with_reader_run:
  "\<exists>p rs e r'. scan_safe_prefix zero_digest (reader_on (j_file run_torn) (length (j_file run_torn)) 0 1) = Inr p \<and>
    log_ok zero_digest 1 rs \<and> take (safe_end_offset p) (j_file run_torn) = log_bytes zero_digest 1 rs \<and>
    (has_last_safe_sequence p \<longleftrightarrow> rs \<noteq> []) \<and> (rs \<noteq> [] \<longrightarrow> last_safe_sequence p = of_nat (length rs)) \<and>
    (\<forall>x. record_ok zero_digest (1 + of_nat (length rs)) x \<longrightarrow>
       \<not> stands (j_file run_torn) (safe_end_offset p) (record_bytes zero_digest (1 + of_nat (length rs)) x)) \<and>
    read_all zero_digest (reader_on (j_file run_torn) (length (j_file run_torn)) 0 1) = (log_records zero_digest 0 1 rs, e, r') \<and>
    rd_offset r' = safe_end_offset p \<and>
    (e = None \<longleftrightarrow> reached_eof p) \<and> (reached_eof p \<longleftrightarrow> safe_end_offset p = length (j_file run_torn))"
proof (rule scan_agrees_with_reader [OF _ sha256_like_zero])
  show small: "length (j_file run_torn) \<le> G_MAXINT64"
    by (simp add: run_torn_def run_length)
  then show "reader_new [106] (Some (j_file run_torn)) = Inr (reader_on (j_file run_torn) (length (j_file run_torn)) 0 1)"
    by (intro reader_new_on) simp_all
qed

text \<open>
  C10. What an append does on every path. On success the record stands at the old end of the
  file, the caller gets its offset and sequence number, the durable end is the new end of the
  file, and the whole file has been synced. On an error sequence number, durable end and synced
  part stay, at most a part of the record was written, and if anything was written the writer is
  failed. If the process dies a part of the record is left.
\<close>

theorem append_every_path:
  assumes "sha256_like sha" "length (payload_bytes payload) \<le> G_MAXSIZE"
    and "writer_append sha io w file t payload = (r, w', file')"
  shows "case r of
      None \<Rightarrow> \<exists>k \<le> length (record_bytes sha (w_next_sequence w) (t, payload_bytes payload)).
        file' = file @ take k (record_bytes sha (w_next_sequence w) (t, payload_bytes payload))
    | Some (Inl e) \<Rightarrow> w_next_sequence w' = w_next_sequence w \<and> get_durable_end w' = get_durable_end w \<and>
        w_synced w' = w_synced w \<and> (file' = file \<or> w_failed w') \<and>
        (\<exists>k \<le> length (record_bytes sha (w_next_sequence w) (t, payload_bytes payload)).
           file' = file @ take k (record_bytes sha (w_next_sequence w) (t, payload_bytes payload)))
    | Some (Inr (off, s)) \<Rightarrow> off = length file \<and> s = w_next_sequence w \<and> validate_event_type t \<and>
        file' = file @ record_bytes sha s (t, payload_bytes payload) \<and>
        w_next_sequence w' = s + 1 \<and> get_durable_end w' = length file' \<and> \<not> w_failed w' \<and> w_synced w' = length file'"
  using assms(3) [unfolded writer_append_def]
proof (cases rule: append_outcome)
  case (refused e)
  then show ?thesis
    by (auto simp: get_durable_end_def intro: exI [of _ 0])
next
  case (cut name k)
  then show ?thesis by auto
next
  case (error name k e)
  then show ?thesis by (auto simp: get_durable_end_def)
next
  case (ok name)
  have "length (record_bytes sha (w_next_sequence w) (t, payload_bytes payload)) =
      64 + length name + length (payload_bytes payload)"
    using ok(2) assms(1,2) by (intro length_record_bytes record_ok_fits) auto
  with ok show ?thesis
    by (auto simp: get_durable_end_def event_type_to_string_Some)
qed

theorem append_every_path_run:
  "log_bytes zero_digest 1 run_log = [] @ record_bytes zero_digest 1 (0, [7]) \<and> get_durable_end (run_writer 1) = 81 \<and>
     w_synced (run_writer 1) = 81"
  using append_every_path [OF sha256_like_zero _ run_appends] by (simp add: run_length)

text \<open>
  C11. A guarded append touches the file or the writer only when its callback handed over a
  payload, the hook did not refuse and the writer is healthy, and then it is the plain append
  of that payload; it reports success only for such an append or with the offset and sequence
  number of a callback that answered without a payload.
\<close>

theorem guarded_append_guards:
  assumes "append_guarded sha io callback hook w file t = (r, w', file')"
  defines "appended \<equiv> (\<exists>payload x. callback (w_root w) file = Inr (Some payload, x) \<and>
      (\<forall>h. hook = Some h \<longrightarrow> h (w_root w) = Inr ()) \<and> \<not> w_failed w \<and>
      writer_append sha io w file t (Some payload) = (r, w', file'))"
  shows "(file' \<noteq> file \<or> w' \<noteq> w \<longrightarrow> appended) \<and>
    (\<forall>off s. r = Some (Inr (off, s)) \<longrightarrow> callback (w_root w) file = Inr (None, off, s) \<or> appended)"
proof (cases "callback (w_root w) file")
  case (Inl e)
  with assms(1) show ?thesis by (auto simp: append_guarded_def)
next
  case (Inr answer)
  obtain p x where a: "answer = (p, x)" by (cases answer)
  show ?thesis
  proof (cases p)
    case None
    with assms(1) Inr a show ?thesis by (cases x) (auto simp: append_guarded_def)
  next
    case (Some payload)
    show ?thesis
    proof (cases "(case hook of None \<Rightarrow> Inr () | Some h \<Rightarrow> h (w_root w))")
      case Refused: (Inl e)
      with assms(1) Inr a Some show ?thesis
        by (cases x) (auto simp: append_guarded_def split: option.splits)
    next
      case Passed: (Inr u)
      with assms(1) Inr a Some have app: "append_unlocked sha io w file t (Some payload) = (r, w', file')"
        by (cases x) (simp add: append_guarded_def)
      show ?thesis
      proof (cases "w_failed w")
        case True
        with app show ?thesis by (auto simp: append_failed_writer)
      next
        case False
        have "\<forall>h. hook = Some h \<longrightarrow> h (w_root w) = Inr ()"
          using Passed by auto
        with app Inr a Some False have appended
          unfolding appended_def writer_append_def by blast
        then show ?thesis by blast
      qed
    qed
  qed
qed

theorem guarded_append_guards_run:
  "\<exists>payload x. (\<lambda>root file. Inr (Some [7], 0, 0)) (w_root (run_writer 0)) ([] :: bytes) = (Inr (Some payload, x) :: (bytes option \<times> nat \<times> u64) result) \<and>
      (\<forall>h. (None :: (bytes \<Rightarrow> unit result) option) = Some h \<longrightarrow> h (w_root (run_writer 0)) = Inr ()) \<and> \<not> w_failed (run_writer 0) \<and>
      writer_append zero_digest run_io (run_writer 0) [] 0 (Some payload) =
        (Some (Inr (0, 1)), run_writer 1, log_bytes zero_digest 1 run_log)"
proof -
  have g: "append_guarded zero_digest run_io (\<lambda>root file. Inr (Some [7], 0, 0)) None (run_writer 0) [] 0 =
      (Some (Inr (0, 1)), run_writer 1, log_bytes zero_digest 1 run_log)"
    using run_appends by (simp add: append_guarded_def writer_append_def)
  have "run_writer 1 \<noteq> run_writer 0"
    by (simp add: run_writer_def)
  with guarded_append_guards [OF g] show ?thesis by blast
qed

text \<open>
  C12. Seeking to a checkpoint, the offset and sequence number of any record of a log, succeeds,
  and reading on returns exactly the later records.
\<close>

theorem seek_continues_after_checkpoint:
  assumes "log_ok sha 1 rs" "length (log_bytes sha 1 rs) \<le> G_MAXINT64" "i < length rs"
    and "reader_new root (Some (log_bytes sha 1 rs)) = Inr r"
  defines "rec \<equiv> log_records sha 0 1 rs ! i"
  shows "\<exists>r' r''. seek_after_checkpoint sha r (rec_offset rec) (rec_sequence rec) = (Inr (), r') \<and>
    read_all sha r' = (drop (Suc i) (log_records sha 0 1 rs), None, r'')"
proof -
  let ?seg = "log_bytes sha 1 rs"
  let ?off = "length (log_bytes sha 1 (take i rs))"
  let ?s = "1 + of_nat i :: u64"
  let ?later = "drop (Suc i) rs"
  have "root \<noteq> []"
    using assms(4) by (auto simp: reader_new_def reader_new_with_limit_def split: if_splits)
  then have r: "r = reader_on ?seg (length ?seg) 0 1"
    using reader_new_on [of root ?seg] assms(2,4) by simp
  obtain t p where tp: "rs ! i = (t, p)" by (cases "rs ! i")
  have split: "rs = take i rs @ (t, p) # ?later"
    using id_take_nth_drop [OF assms(3)] tp by simp
  have recs: "log_records sha 0 1 rs = log_records sha 0 1 (take i rs) @
      \<lparr>rec_offset = ?off, rec_sequence = ?s, rec_event_type = t, rec_payload = p\<rparr> #
      log_records sha (?off + length (record_bytes sha ?s (t, p))) (?s + 1) ?later"
    by (subst split, subst log_records_append) (use assms(3) in \<open>simp add: min_def\<close>)
  have rec: "rec = \<lparr>rec_offset = ?off, rec_sequence = ?s, rec_event_type = t, rec_payload = p\<rparr>"
    unfolding rec_def recs using assms(3) by (simp add: nth_append min_def)
  have bytes: "?seg = log_bytes sha 1 (take i rs) @ record_bytes sha ?s (t, p) @ log_bytes sha (?s + 1) ?later"
    using log_bytes_split [OF assms(3), of sha 1] tp by simp
  have ok: "record_ok sha ?s (t, p)" "log_ok sha (?s + 1) ?later"
    using assms(1) assms(3) by (subst (asm) split, simp add: log_ok_append min_def)+
  have st: "stands ?seg ?off (record_bytes sha ?s (t, p))"
    "stands ?seg (?off + length (record_bytes sha ?s (t, p))) (log_bytes sha (?s + 1) ?later)"
    unfolding bytes by (simp_all add: stands_def)
  let ?r' = "reader_on ?seg (length ?seg) (?off + length (record_bytes sha ?s (t, p))) (?s + 1)"
  have "?off \<le> G_MAXINT64"
    using assms(2) arg_cong [OF bytes, of length] by simp
  then have "seek_after_checkpoint sha r ?off ?s = (Inr (), ?r')"
    using ok st(1) by (subst seek_after_checkpoint_Inr [of r ?seg]) (auto simp: r reader_on_def)
  moreover have "?off + length (record_bytes sha ?s (t, p)) + length (log_bytes sha (?s + 1) ?later) = length ?seg"
    using arg_cong [OF bytes, of length] by simp
  then have "\<exists>r''. read_all sha ?r' = (log_records sha (?off + length (record_bytes sha ?s (t, p))) (?s + 1) ?later, None, r'')"
    using read_all_log [OF order_refl ok(2), of ?seg] st(2) by auto
  moreover have "drop (Suc i) (log_records sha 0 1 rs) =
      log_records sha (?off + length (record_bytes sha ?s (t, p))) (?s + 1) ?later"
    unfolding recs using assms(3) by simp
  ultimately show ?thesis
    by (simp add: rec)
qed

theorem seek_continues_after_checkpoint_run:
  "\<exists>r' r''. seek_after_checkpoint zero_digest (reader_on (log_bytes zero_digest 1 run_log) 81 0 1)
      (rec_offset (log_records zero_digest 0 1 run_log ! 0)) (rec_sequence (log_records zero_digest 0 1 run_log ! 0)) = (Inr (), r') \<and>
    read_all zero_digest r' = (drop (Suc 0) (log_records zero_digest 0 1 run_log), None, r'')"
  by (rule seek_continues_after_checkpoint [OF run_log_ok, of 0 "[106]"])
    (simp_all add: run_length reader_new_on, simp add: run_log_def)

text \<open>
  C13. A writer opens exactly on logs: with a kernel that answers well, opening an existing
  segment succeeds if and only if the segment is a log whose numbering is not exhausted; the
  writer then continues with the next sequence number at the end of the file, and the segment
  is unchanged.
\<close>

theorem writer_opens_on_logs:
  assumes "root \<noteq> []" "length seg \<le> G_MAXSIZE"
  shows "writer_new sha open_io_ok root (Some seg) = (Inr w, seg') \<longleftrightarrow> seg' = Some seg \<and>
    (\<exists>rs. log_ok sha 1 rs \<and> seg = log_bytes sha 1 rs \<and> (rs = [] \<or> 1 + of_nat (length rs) \<noteq> (0 :: u64)) \<and>
      w = \<lparr>w_root = root, w_next_sequence = 1 + of_nat (length rs), w_durable_end = length seg, w_failed = False, w_synced = 0\<rparr>)"
    (is "?L \<longleftrightarrow> ?R")
proof
  assume L: ?L
  from writer_new_Inr [OF L assms(2)] obtain rs where seg': "seg' = Some seg" and
    rs: "log_ok sha 1 rs" "seg = log_bytes sha 1 rs"
      "w = \<lparr>w_root = root, w_next_sequence = 1 + of_nat (length rs), w_durable_end = length seg, w_failed = False, w_synced = 0\<rparr>"
    by auto
  have "rs = [] \<or> 1 + of_nat (length rs) \<noteq> (0 :: u64)"
  proof (cases "seg = []")
    case True
    with rs log_bytes_Nil show ?thesis by metis
  next
    case False
    with L rs(3) assms(1) have "replay_existing_segment sha root (Some seg) = Inr (1 + of_nat (length rs))"
      by (auto simp: writer_new_def Let_def bindE_Inr_iff split: sum.splits if_splits)
    with replay_iff [OF assms] log_bytes_inject rs show ?thesis by metis
  qed
  with seg' rs show ?R by blast
next
  assume ?R
  with writer_new_log [OF assms(1)] assms(2) show ?L by auto
qed

theorem writer_opens_on_logs_run:
  "writer_new zero_digest open_io_ok [106] (Some (log_bytes zero_digest 1 run_log)) =
     (Inr (run_writer 1), Some (log_bytes zero_digest 1 run_log)) \<longleftrightarrow>
   Some (log_bytes zero_digest 1 run_log) = Some (log_bytes zero_digest 1 run_log) \<and>
    (\<exists>rs. log_ok zero_digest 1 rs \<and> log_bytes zero_digest 1 run_log = log_bytes zero_digest 1 rs \<and>
      (rs = [] \<or> 1 + of_nat (length rs) \<noteq> (0 :: u64)) \<and>
      run_writer 1 = \<lparr>w_root = [106], w_next_sequence = 1 + of_nat (length rs),
        w_durable_end = length (log_bytes zero_digest 1 run_log), w_failed = False, w_synced = 0\<rparr>)"
  by (rule writer_opens_on_logs) (simp_all add: run_length)

text \<open>
  C14. Recovery never damages a journal: whatever the segment holds, whatever the kernel
  answers and whoever changes the file before the lock is taken, the segment is either left
  alone or truncated to the log of its whole records, and then at least one record was whole,
  none of the cut bytes starts a valid record, and the end and last sequence number reported
  on success are those of the kept log.
\<close>

theorem recovery_keeps_records:
  assumes "length seg \<le> G_MAXINT64" "recover_torn_suffix sha io root seg = (res, seg')"
  shows "seg' = seg \<or>
    (\<exists>rs. log_ok sha 1 rs \<and> rs \<noteq> [] \<and> seg' = log_bytes sha 1 rs \<and> seg' = take (length seg') seg \<and>
       (\<forall>x. record_ok sha (1 + of_nat (length rs)) x \<longrightarrow>
          \<not> stands seg (length seg') (record_bytes sha (1 + of_nat (length rs)) x)) \<and>
       (\<forall>e s. res = Inr (e, s) \<longrightarrow> e = length seg' \<and> s = of_nat (length rs)))"
proof (cases "seg' = seg")
  case False
  with recover_any [OF assms] obtain rs p where rs: "log_ok sha 1 rs" "rs \<noteq> []" "seg' = log_bytes sha 1 rs"
    "length seg' < length seg" "scan_safe_prefix sha (reader_on seg (length seg) 0 1) = Inr p"
    "seg' = take (safe_end_offset p) seg" "\<forall>e s. res = Inr (e, s) \<longrightarrow> e = length seg' \<and> s = of_nat (length rs)"
    by blast
  have on: "rd_segment (reader_on seg (length seg) 0 1) = Some seg"
    "rd_file_size (reader_on seg (length seg) 0 1) = length seg"
    by (simp_all add: reader_on_def)
  from scan_safe_prefix_reports [OF assms(1) on(1) _ rs(5)] obtain qs where
    qs: "log_ok sha 1 qs" "take (safe_end_offset p) seg = log_bytes sha 1 qs"
      "\<forall>t q. record_ok sha (1 + of_nat (length qs)) (t, q) \<longrightarrow>
         \<not> stands (take (length seg) seg) (safe_end_offset p) (record_bytes sha (1 + of_nat (length qs)) (t, q))"
    unfolding on by blast
  have "qs = rs"
    using log_bytes_inject [OF qs(1) rs(1)] qs(2) rs(3,6) by simp
  moreover have "length seg' = safe_end_offset p"
    using rs(4,6) by simp
  ultimately show ?thesis
    using rs qs(3) by (intro disjI2 exI [of _ rs]) auto
qed simp

theorem recovery_keeps_records_run:
  "\<exists>res seg'. recover_torn_suffix zero_digest (recover_io_ok (j_file run_torn)) [106] (j_file run_torn) = (res, seg') \<and>
   (seg' = j_file run_torn \<or>
    (\<exists>rs. log_ok zero_digest 1 rs \<and> rs \<noteq> [] \<and> seg' = log_bytes zero_digest 1 rs \<and> seg' = take (length seg') (j_file run_torn) \<and>
       (\<forall>x. record_ok zero_digest (1 + of_nat (length rs)) x \<longrightarrow>
          \<not> stands (j_file run_torn) (length seg') (record_bytes zero_digest (1 + of_nat (length rs)) x)) \<and>
       (\<forall>e s. res = Inr (e, s) \<longrightarrow> e = length seg' \<and> s = of_nat (length rs))))"
proof -
  have small: "length (j_file run_torn) \<le> G_MAXINT64"
    by (simp add: run_torn_def run_length)
  obtain res seg' where rec: "recover_torn_suffix zero_digest (recover_io_ok (j_file run_torn)) [106] (j_file run_torn) = (res, seg')"
    by (cases "recover_torn_suffix zero_digest (recover_io_ok (j_file run_torn)) [106] (j_file run_torn)")
  from recovery_keeps_records [OF small rec] rec show ?thesis by blast
qed

text \<open>
  C15. An append returns: when the kernel reports no error and each write that is not
  interrupted takes at least one byte, then after at most as many writes as the record has
  bytes the append has succeeded, however the writes are split and however often they are
  interrupted.
\<close>

theorem append_returns:
  assumes "\<not> w_failed w" "validate_event_type t" "io_lseek_ok io" "io_fsync_ok io"
    and "writes_progress (io_writes io) (length (record_bytes sha (w_next_sequence w) (t, payload_bytes payload)))"
  shows "\<exists>w'. writer_append sha io w file t payload =
     (Some (Inr (length file, w_next_sequence w)), w',
      file @ record_bytes sha (w_next_sequence w) (t, payload_bytes payload))"
proof -
  obtain name where "event_type_to_string t = Some name"
    using assms(2) by (simp add: event_type_to_string_def)
  from append_progress [OF assms(1) this assms(3-5)] show ?thesis
    by (simp add: writer_append_def)
qed

theorem append_returns_run:
  "\<exists>w'. writer_append zero_digest run_io (run_writer 0) [] 0 (Some [7]) =
     (Some (Inr (length ([] :: bytes), w_next_sequence (run_writer 0))), w',
      [] @ record_bytes zero_digest (w_next_sequence (run_writer 0)) (0, payload_bytes (Some [7])))"
  by (rule append_returns)
    (simp_all add: run_writer_def run_io_def writes_progress_def run_length validate_event_type_def)

text \<open>
  C16. A crash during the very first append leaves a journal that is neither opened nor
  recovered: the recovery demands a whole record before the torn one. (The header of the
  writer documents this; such a segment has to be removed by hand.)
\<close>

theorem torn_first_record_is_stuck:
  assumes "record_ok sha 1 x" "length (record_bytes sha 1 x) \<le> G_MAXINT64" "root \<noteq> []"
    and "0 < k" "k < length (record_bytes sha 1 x)"
  defines "seg \<equiv> take k (record_bytes sha 1 x)"
  shows "recover_torn_suffix sha (recover_io_ok seg) root seg = (Inl (GError IO_INVALID_DATA Not_recoverable), seg) \<and>
    (\<forall>w seg'. writer_new sha open_io_ok root (Some seg) \<noteq> (Inr w, seg'))"
proof -
  have log: "log_ok sha 1 [x]" "length (log_bytes sha 1 [x]) \<le> G_MAXINT64" "k \<le> length (log_bytes sha 1 [x])"
    and seg: "seg = take k (log_bytes sha 1 [x])" and none: "whole_records sha 1 [x] k = 0"
    using assms by simp_all
  have rec: "recover_torn_suffix sha (recover_io_ok seg) root seg = (Inl (GError IO_INVALID_DATA Not_recoverable), seg)"
    using recover_no_record [OF log assms(3) none] seg by (simp add: recover_io_ok_def Let_def)
  have "writer_new sha open_io_ok root (Some seg) \<noteq> (Inr w, seg')" for w seg'
  proof
    assume new: "writer_new sha open_io_ok root (Some seg) = (Inr w, seg')"
    have "length seg \<le> G_MAXSIZE"
      using log(2) seg by simp
    from writer_new_Inr [OF new this] obtain qs where qs: "log_ok sha 1 qs" "seg = log_bytes sha 1 qs"
      by blast
    then have "log_bytes sha 1 qs = take k (log_bytes sha 1 [x])"
      using seg by simp
    from log_cut_unique [OF log(1) qs(1) this log(3)] none assms(4) show False
      by simp
  qed
  with rec show ?thesis by simp
qed

theorem torn_first_record_is_stuck_run:
  "recover_torn_suffix zero_digest (recover_io_ok (take 70 (record_bytes zero_digest 1 (0, [7])))) [106]
      (take 70 (record_bytes zero_digest 1 (0, [7]))) =
    (Inl (GError IO_INVALID_DATA Not_recoverable), take 70 (record_bytes zero_digest 1 (0, [7]))) \<and>
   (\<forall>w seg'. writer_new zero_digest open_io_ok [106] (Some (take 70 (record_bytes zero_digest 1 (0, [7])))) \<noteq> (Inr w, seg'))"
  by (rule torn_first_record_is_stuck) (simp_all add: run_length record_ok_def run_names)

end
